(* ===== verification/Xyris_Prelude.thy ===== *)
theory Xyris_Prelude
  imports Main "HOL-Library.Word"
begin

text \<open>
  Shared vocabulary of the development.  The kernel is built for i686: \<open>size_t\<close>,
  \<open>uintptr_t\<close>, \<open>unsigned long\<close> and pointers are 32 bits wide, \<open>unsigned long long\<close>
  is 64.  Where the C++ code panics, dereferences a null pointer or indexes outside an
  array the model returns a \<open>fault\<close>; everything else is an \<open>Inr\<close>.  A \<open>for\<close> loop over
  a known list of indices is \<open>foldE\<close>: it stops at the first fault.
\<close>

unbundle bit_operations_syntax

section \<open>Machine integers, faults, outcomes\<close>

type_synonym u8 = "8 word"
type_synonym u16 = "16 word"
type_synonym u32 = "32 word"
type_synonym u64 = "64 word"

text \<open>Addresses of heap objects; a C pointer is an \<open>addr option\<close>, null is \<open>None\<close>.\<close>

type_synonym addr = nat

datatype fault =
    Panic string       \<comment> \<open>a call of \<open>panic\<close> or \<open>panicf\<close>\<close>
  | OutOfBounds        \<comment> \<open>an array access outside the array\<close>
  | NullDeref          \<comment> \<open>a member access through a null pointer\<close>
  | BadShift           \<comment> \<open>a shift by at least the width of the type\<close>
  | DivideByZero       \<comment> \<open>an integer division by zero\<close>
  | Hang               \<comment> \<open>a wait that nothing ends\<close>

type_synonym 'a outcome = "fault + 'a"

definition bindE :: "'a outcome \<Rightarrow> ('a \<Rightarrow> 'b outcome) \<Rightarrow> 'b outcome" where
  "bindE m f = (case m of Inl e \<Rightarrow> Inl e | Inr x \<Rightarrow> f x)"

fun foldE :: "('x \<Rightarrow> 's \<Rightarrow> 's outcome) \<Rightarrow> 'x list \<Rightarrow> 's \<Rightarrow> 's outcome" where
  "foldE f [] s = Inr s"
| "foldE f (x # xs) s = bindE (f x s) (foldE f xs)"

named_theorems outcome_simps \<open>evaluation of outcomes\<close>

lemma bindE_simps [simp, outcome_simps]:
  "bindE (Inr x) f = f x"
  "bindE (Inl e) f = Inl e"
  by (simp_all add: bindE_def)

lemma bindE_Inr_iff: "bindE m f = Inr y \<longleftrightarrow> (\<exists>x. m = Inr x \<and> f x = Inr y)"
  by (cases m) auto

lemma bindE_Inl_iff: "bindE m f = Inl e \<longleftrightarrow> m = Inl e \<or> (\<exists>x. m = Inr x \<and> f x = Inl e)"
  by (cases m) auto

lemma bindE_cong [fundef_cong]:
  "m = m' \<Longrightarrow> (\<And>x. m' = Inr x \<Longrightarrow> f x = f' x) \<Longrightarrow> bindE m f = bindE m' f'"
  by (cases m') auto

lemma bindE_assoc: "bindE (bindE m f) g = bindE m (\<lambda>x. bindE (f x) g)"
  by (cases m) auto

lemma foldE_append: "foldE f (xs @ ys) s = bindE (foldE f xs s) (foldE f ys)"
proof (induction xs arbitrary: s)
  case (Cons x xs)
  then show ?case by (cases "f x s") simp_all
qed simp

lemma foldE_single: "foldE f [x] s = f x s"
  by (cases "f x s") simp_all

text \<open>The rule for a loop that cannot fault: an invariant indexed by the prefix already
  processed.\<close>

lemma foldE_invariant:
  assumes "I [] s"
    and "\<And>ys x zs t. xs = ys @ x # zs \<Longrightarrow> I ys t \<Longrightarrow> \<exists>t'. f x t = Inr t' \<and> I (ys @ [x]) t'"
  shows "\<exists>t. foldE f xs s = Inr t \<and> I xs t"
  using assms(2)
proof (induction xs rule: rev_induct)
  case Nil
  then show ?case using assms(1) by simp
next
  case (snoc x xs)
  have "\<exists>t. foldE f xs s = Inr t \<and> I xs t"
    by (rule snoc.IH) (use snoc.prems in force)
  then obtain t where t: "foldE f xs s = Inr t" "I xs t" by blast
  then obtain t' where "f x t = Inr t'" "I (xs @ [x]) t'"
    using snoc.prems [of xs x "[]" t] by auto
  with t(1) show ?case by (simp add: foldE_append)
qed

section \<open>Runs\<close>

text \<open>Running a list of operations and collecting what each one returns; the second form stops
  at the first fault.\<close>

fun run_steps :: "('o \<Rightarrow> 's \<Rightarrow> 'r \<times> 's) \<Rightarrow> 'o list \<Rightarrow> 's \<Rightarrow> 'r list \<times> 's" where
  "run_steps f [] s = ([], s)"
| "run_steps f (x # xs) s = (let (r, s') = f x s; (rs, s'') = run_steps f xs s' in (r # rs, s''))"

fun run_stepsE :: "('o \<Rightarrow> 's \<Rightarrow> ('r \<times> 's) outcome) \<Rightarrow> 'o list \<Rightarrow> 's \<Rightarrow> ('r list \<times> 's) outcome" where
  "run_stepsE f [] s = Inr ([], s)"
| "run_stepsE f (x # xs) s =
     bindE (f x s) (\<lambda>(r, s'). bindE (run_stepsE f xs s') (\<lambda>(rs, s''). Inr (r # rs, s'')))"

section \<open>Transition systems\<close>

text \<open>A predicate that every step keeps holds in every reachable state.\<close>

locale kept_by_steps =
  fixes step :: "'s \<Rightarrow> 's \<Rightarrow> bool" and keeps :: "'s \<Rightarrow> bool"
  assumes kept: "keeps s \<Longrightarrow> step s s' \<Longrightarrow> keeps s'"
begin

lemma reachable: "step\<^sup>*\<^sup>* s s' \<Longrightarrow> keeps s \<Longrightarrow> keeps s'"
  by (induction rule: rtranclp_induct) (auto intro: kept)

end

section \<open>Lists\<close>

lemma nth_list_update_case:
  "i < length xs \<Longrightarrow> xs[i := v] ! j = (if j = i then v else xs ! j)"
  by simp

lemma upt_split_at: "m \<le> i \<Longrightarrow> i < n \<Longrightarrow> [m..<n] = [m..<i] @ i # [Suc i..<n]"
  using upt_add_eq_append [of m i "n - i"] upt_conv_Cons [of i n] by simp

lemma upt_0_Suc: "[0..<Suc n] = 0 # map Suc [0..<n]"
  by (simp add: map_Suc_upt upt_conv_Cons del: upt_Suc)

section \<open>Words\<close>

lemma unat_of_nat_u32: "n < 2 ^ 32 \<Longrightarrow> unat (of_nat n :: u32) = n"
  by (simp add: unat_of_nat take_bit_nat_eq_self)

lemma unat_lt_u32: "unat (x :: u32) < 2 ^ 32"
  using unsigned_less [of x] by simp

lemma unat_pred_less: "x \<noteq> 0 \<Longrightarrow> unat (x - 1 :: 'a :: len word) < unat x"
  by (simp add: unat_minus_one unat_gt_0)

lemma unat_inc_u32: "unat (v :: u32) + 1 < 2 ^ 32 \<Longrightarrow> unat (v + 1) = unat v + 1"
  using unat_add_lem [of v 1] by simp

end
