(* ===== verification/Bitset.thy ===== *)
theory Bitset
  imports Xyris_Prelude
begin

text \<open>
  \<open>Kernel/Library/Bitset.hpp\<close>: a fixed array of 32-bit words seen as an array of bits.
  The template parameter \<open>t_num_bits\<close> is the argument \<open>n\<close>; positions are natural
  numbers (no operation of the class computes a position that can wrap), the counter
  \<open>m_count\<close> and the result of the searches are 32-bit words.  An access outside
  \<open>m_bitset\<close> is the fault \<open>OutOfBounds\<close>.  The locale \<open>bit_array\<close> is what the memory
  managers and the prime sieve rely on; the class is interpreted as one at the end.
\<close>

section \<open>The class\<close>

record bitset =
  m_numBits :: u32
  m_count :: u32
  m_bitset :: "u32 list"

definition Bitset_make :: "nat \<Rightarrow> bool \<Rightarrow> bitset" where
  "Bitset_make n defaultValue =
     \<lparr>m_numBits = of_nat n, m_count = 0,
      m_bitset = replicate (n div 32) (if defaultValue then - 1 else 0)\<rparr>"

definition TypeSize :: nat where
  "TypeSize = 32"

definition Index :: "nat \<Rightarrow> nat" where
  "Index position = position div TypeSize"

definition Offset :: "nat \<Rightarrow> nat" where
  "Offset position = position mod TypeSize"

definition npos :: u32 where
  "npos = - 1"

definition Bitset_Size :: "bitset \<Rightarrow> u32" where
  "Bitset_Size b = m_numBits b"

definition Bitset_Count :: "bitset \<Rightarrow> u32" where
  "Bitset_Count b = m_count b"

definition Set :: "nat \<Rightarrow> bitset \<Rightarrow> bitset outcome" where
  "Set pos b =
     (let ws = m_bitset b; k = Index pos in
      if k < length ws
      then Inr (b\<lparr>m_count := m_count b + 1,
                  m_bitset := ws[k := ws ! k OR push_bit (Offset pos) 1]\<rparr>)
      else Inl OutOfBounds)"

definition Clear :: "nat \<Rightarrow> bitset \<Rightarrow> bitset outcome" where
  "Clear pos b =
     (let ws = m_bitset b; k = Index pos in
      if k < length ws
      then Inr (b\<lparr>m_count := m_count b - 1,
                  m_bitset := ws[k := ws ! k AND NOT (push_bit (Offset pos) 1)]\<rparr>)
      else Inl OutOfBounds)"

definition Test :: "nat \<Rightarrow> bitset \<Rightarrow> bool outcome" where
  "Test pos b =
     (let ws = m_bitset b; k = Index pos in
      if k < length ws then Inr ((drop_bit (Offset pos) (ws ! k) AND 1) \<noteq> 0)
      else Inl OutOfBounds)"

definition Flip :: "nat \<Rightarrow> bitset \<Rightarrow> bitset outcome" where
  "Flip pos b = bindE (Test pos b) (\<lambda>v. if v then Clear pos b else Set pos b)"

definition Bitset_Any :: "bitset \<Rightarrow> bool" where
  "Bitset_Any b = (m_count b > 0)"

definition Bitset_None :: "bitset \<Rightarrow> bool" where
  "Bitset_None b = (m_count b = 0)"

definition Bitset_All :: "bitset \<Rightarrow> bool" where
  "Bitset_All b = (m_count b = m_numBits b)"

fun FindFirstBit_loop :: "bitset \<Rightarrow> bool \<Rightarrow> nat list \<Rightarrow> u32 outcome" where
  "FindFirstBit_loop b isSet [] = Inr npos"
| "FindFirstBit_loop b isSet (i # is) =
     bindE (Test i b) (\<lambda>v. if v = isSet then Inr (of_nat i) else FindFirstBit_loop b isSet is)"

definition FindFirstBit :: "nat \<Rightarrow> bitset \<Rightarrow> bool \<Rightarrow> u32 outcome" where
  "FindFirstBit n b isSet = FindFirstBit_loop b isSet [0..<n]"

text \<open>One iteration of \<open>FindFirstRange\<close> reads the window of 32 bits that starts at \<open>i\<close>;
  the second word is read whenever the offset is not 0.\<close>

definition range_window :: "bitset \<Rightarrow> nat \<Rightarrow> u32 outcome" where
  "range_window b i =
     (let ws = m_bitset b; idx = Index i; off = Offset i in
      if idx < length ws then
        (if off \<noteq> 0 then
           (if idx + 1 < length ws
            then Inr (drop_bit off (ws ! idx) OR push_bit (TypeSize - off) (ws ! (idx + 1)))
            else Inl OutOfBounds)
         else Inr (drop_bit off (ws ! idx) OR 0))
      else Inl OutOfBounds)"

fun FindFirstRange_loop :: "bitset \<Rightarrow> u32 \<Rightarrow> bool \<Rightarrow> nat list \<Rightarrow> u32 outcome" where
  "FindFirstRange_loop b msk isSet [] = Inr npos"
| "FindFirstRange_loop b msk isSet (i # is) =
     bindE (range_window b i)
       (\<lambda>check. if (check AND msk) = (if isSet then 1 else 0) then Inr (of_nat i)
                else FindFirstRange_loop b msk isSet is)"

definition FindFirstRange :: "nat \<Rightarrow> bitset \<Rightarrow> u32 \<Rightarrow> bool \<Rightarrow> u32 outcome" where
  "FindFirstRange n b count isSet =
     (if unat count < TypeSize
      then FindFirstRange_loop b (push_bit (unat count) 1 - 1) isSet
             [0..<unat (of_nat n - count :: u32)]
      else Inl BadShift)"

section \<open>The bits a bitset represents\<close>

definition bits :: "bitset \<Rightarrow> nat \<Rightarrow> bool" where
  "bits b p \<longleftrightarrow> Index p < length (m_bitset b) \<and> bit (m_bitset b ! Index p) (Offset p)"

definition capacity :: "bitset \<Rightarrow> nat" where
  "capacity b = TypeSize * length (m_bitset b)"

lemma Offset_less [simp]: "Offset p < 32"
  by (simp add: Offset_def TypeSize_def)

lemma Index_less_iff: "Index p < length (m_bitset b) \<longleftrightarrow> p < capacity b"
  by (simp add: Index_def capacity_def TypeSize_def div_less_iff_less_mult mult.commute)

lemma Index_Offset_inject: "Index p = Index q \<Longrightarrow> Offset p = Offset q \<Longrightarrow> p = q"
  by (metis Index_def Offset_def div_mult_mod_eq)

lemma odd_drop_bit_u32: "(drop_bit k (w :: u32) AND 1) \<noteq> 0 \<longleftrightarrow> bit w k"
  by (simp add: and_one_eq mod_2_eq_odd bit_iff_odd_drop_bit)

lemma bit_set_u32: "j < 32 \<Longrightarrow> bit (w OR 2 ^ k :: u32) j \<longleftrightarrow> bit w j \<or> j = k"
  by (auto simp: bit_or_iff bit_exp_iff)

lemma bit_clear_u32: "j < 32 \<Longrightarrow> bit (w AND NOT (2 ^ k) :: u32) j \<longleftrightarrow> bit w j \<and> j \<noteq> k"
  by (auto simp: bit_and_iff bit_not_iff bit_exp_iff)

lemma Test_in_range: "p < capacity b \<Longrightarrow> Test p b = Inr (bits b p)"
  by (simp add: Test_def Let_def Index_less_iff odd_drop_bit_u32 bits_def)

lemma Set_in_range:
  "p < capacity b \<Longrightarrow> \<exists>b'. Set p b = Inr b' \<and> capacity b' = capacity b \<and> bits b' = (bits b)(p := True)
     \<and> m_count b' = m_count b + 1 \<and> m_numBits b' = m_numBits b"
  by (auto simp: Set_def Let_def Index_less_iff bits_def capacity_def fun_eq_iff
      nth_list_update_case bit_set_u32 dest: Index_Offset_inject)

lemma Clear_in_range:
  "p < capacity b \<Longrightarrow> \<exists>b'. Clear p b = Inr b' \<and> capacity b' = capacity b \<and> bits b' = (bits b)(p := False)
     \<and> m_count b' = m_count b - 1 \<and> m_numBits b' = m_numBits b"
  by (auto simp: Clear_def Let_def Index_less_iff bits_def capacity_def fun_eq_iff
      nth_list_update_case bit_clear_u32 dest: Index_Offset_inject)

lemma out_of_range_faults:
  "capacity b \<le> p \<Longrightarrow> Test p b = Inl OutOfBounds \<and> Set p b = Inl OutOfBounds \<and> Clear p b = Inl OutOfBounds"
  by (simp add: Test_def Set_def Clear_def Let_def Index_less_iff)

section \<open>The interface of an array of bits\<close>

locale bit_array =
  fixes inv :: "'b \<Rightarrow> bool"
    and size_of :: "'b \<Rightarrow> nat"
    and val :: "'b \<Rightarrow> nat \<Rightarrow> bool"
    and test :: "nat \<Rightarrow> 'b \<Rightarrow> bool outcome"
    and set_bit_at :: "nat \<Rightarrow> 'b \<Rightarrow> 'b outcome"
    and clear_bit_at :: "nat \<Rightarrow> 'b \<Rightarrow> 'b outcome"
  assumes test_spec: "inv b \<Longrightarrow> p < size_of b \<Longrightarrow> test p b = Inr (val b p)"
    and set_spec: "inv b \<Longrightarrow> p < size_of b \<Longrightarrow>
      \<exists>b'. set_bit_at p b = Inr b' \<and> inv b' \<and> size_of b' = size_of b \<and> val b' = (val b)(p := True)"
    and clear_spec: "inv b \<Longrightarrow> p < size_of b \<Longrightarrow>
      \<exists>b'. clear_bit_at p b = Inr b' \<and> inv b' \<and> size_of b' = size_of b \<and> val b' = (val b)(p := False)"
begin

lemma set_many:
  assumes "inv b" and "\<forall>p \<in> set ps. p < size_of b"
  shows "\<exists>b'. foldE set_bit_at ps b = Inr b' \<and> inv b' \<and> size_of b' = size_of b
    \<and> (\<forall>p. val b' p \<longleftrightarrow> val b p \<or> p \<in> set ps)"
proof -
  have "\<exists>b'. foldE set_bit_at ps b = Inr b' \<and> (inv b' \<and> size_of b' = size_of b
      \<and> (\<forall>p. val b' p \<longleftrightarrow> val b p \<or> p \<in> set ps))"
    by (rule foldE_invariant [where I = "\<lambda>qs b'. inv b' \<and> size_of b' = size_of b
        \<and> (\<forall>p. val b' p \<longleftrightarrow> val b p \<or> p \<in> set qs)"])
      (use assms set_spec in force)+
  then show ?thesis .
qed

lemma clear_many:
  assumes "inv b" and "\<forall>p \<in> set ps. p < size_of b"
  shows "\<exists>b'. foldE clear_bit_at ps b = Inr b' \<and> inv b' \<and> size_of b' = size_of b
    \<and> (\<forall>p. val b' p \<longleftrightarrow> val b p \<and> p \<notin> set ps)"
proof -
  have "\<exists>b'. foldE clear_bit_at ps b = Inr b' \<and> (inv b' \<and> size_of b' = size_of b
      \<and> (\<forall>p. val b' p \<longleftrightarrow> val b p \<and> p \<notin> set ps))"
    by (rule foldE_invariant [where I = "\<lambda>qs b'. inv b' \<and> size_of b' = size_of b
        \<and> (\<forall>p. val b' p \<longleftrightarrow> val b p \<and> p \<notin> set qs)"])
      (use assms clear_spec in force)+
  then show ?thesis .
qed

lemma set_then_clear:
  assumes "inv b" and "p < size_of b"
  shows "\<exists>b'. bindE (set_bit_at p b) (clear_bit_at p) = Inr b' \<and> inv b' \<and> val b' = (val b)(p := False)"
  using set_spec [OF assms] clear_spec assms(2) by fastforce

end

text \<open>A bitset whose capacity is the template parameter is an array of bits.\<close>

definition wf_bitset :: "nat \<Rightarrow> bitset \<Rightarrow> bool" where
  "wf_bitset n b \<longleftrightarrow> capacity b = n \<and> n < 2 ^ 32 \<and> m_numBits b = of_nat n"

interpretation bs: bit_array "wf_bitset n" capacity bits Test Set Clear
  for n :: nat
proof
  show "wf_bitset n b \<Longrightarrow> p < capacity b \<Longrightarrow> Test p b = Inr (bits b p)" for b p
    by (rule Test_in_range)
  show "\<exists>b'. Set p b = Inr b' \<and> wf_bitset n b' \<and> capacity b' = capacity b \<and> bits b' = (bits b)(p := True)"
    if "wf_bitset n b" "p < capacity b" for b p
    using Set_in_range [OF that(2)] that(1) by (auto simp: wf_bitset_def)
  show "\<exists>b'. Clear p b = Inr b' \<and> wf_bitset n b' \<and> capacity b' = capacity b \<and> bits b' = (bits b)(p := False)"
    if "wf_bitset n b" "p < capacity b" for b p
    using Clear_in_range [OF that(2)] that(1) by (auto simp: wf_bitset_def)
qed

lemma wf_Bitset_make: "32 dvd n \<Longrightarrow> n < 2 ^ 32 \<Longrightarrow> wf_bitset n (Bitset_make n v)"
  by (simp add: wf_bitset_def Bitset_make_def capacity_def TypeSize_def)

lemma bits_Bitset_make: "32 dvd n \<Longrightarrow> p < n \<Longrightarrow> bits (Bitset_make n v) p = v"
  by (auto simp: bits_def Bitset_make_def Index_def TypeSize_def elim!: dvdE)

section \<open>The searches\<close>

lemma FindFirstBit_loop_spec:
  assumes "\<forall>i \<in> set is. i < capacity b"
  shows "FindFirstBit_loop b v is =
    Inr (case find (\<lambda>i. bits b i = v) is of None \<Rightarrow> npos | Some i \<Rightarrow> of_nat i)"
  using assms by (induction "is") (auto simp: Test_in_range)

lemma find_upt_Some:
  "find P [m..<n] = Some i \<longleftrightarrow> m \<le> i \<and> i < n \<and> P i \<and> (\<forall>j. m \<le> j \<and> j < i \<longrightarrow> \<not> P j)"
    (is "?l \<longleftrightarrow> ?r")
proof
  assume ?l
  then obtain k where k: "k < n - m" "P (m + k)" "i = m + k" "\<forall>j<k. \<not> P (m + j)"
    by (auto simp: find_Some_iff)
  have "\<not> P j" if "m \<le> j" "j < i" for j
    using k(3) k(4) [rule_format, of "j - m"] that by simp
  with k show ?r by auto
next
  assume r: ?r
  then have "\<not> P (m + j)" if "j < i - m" for j using that by simp
  with r show ?l
    by (auto simp: find_Some_iff intro!: exI [of _ "i - m"])
qed

lemma find_upt_None: "find P [m..<n] = None \<longleftrightarrow> (\<forall>i. m \<le> i \<and> i < n \<longrightarrow> \<not> P i)"
  by (auto simp: find_None_iff)

lemma div_mod_add_32:
  assumes "x < 32" "k < 32"
  shows "(x + k) div 32 = (if x + k < 32 then 0 else 1 :: nat)"
    and "(x + k) mod 32 = (if x + k < 32 then x + k else x + k - 32 :: nat)"
  using assms by (auto simp: div_nat_eqI mod_if)

lemma Index_add: "k < 32 \<Longrightarrow> Index (i + k) = (if Offset i + k < 32 then Index i else Suc (Index i))"
  using div_mod_add_32(1) [of "i mod 32" k]
  by (simp add: Index_def Offset_def TypeSize_def div_add1_eq [of i k])

lemma Offset_add:
  "k < 32 \<Longrightarrow> Offset (i + k) = (if Offset i + k < 32 then Offset i + k else Offset i + k - 32)"
  using div_mod_add_32(2) [of "i mod 32" k]
  by (simp add: Offset_def TypeSize_def mod_add_left_eq)

text \<open>The window read at \<open>i\<close> holds the 32 bits from \<open>i\<close> on, as long as they exist.\<close>

lemma range_window_bits:
  assumes "i + 32 \<le> capacity b"
  shows "\<exists>w. range_window b i = Inr w \<and> (\<forall>k<32. bit w k \<longleftrightarrow> bits b (i + k))"
proof -
  have idx: "Index i < length (m_bitset b)"
    using assms by (simp add: Index_less_iff)
  have off: "Suc (Index i) < length (m_bitset b)" if "Offset i \<noteq> 0"
  proof -
    have "i = 32 * Index i + Offset i" "0 < Offset i"
      using that by (simp_all add: Index_def Offset_def TypeSize_def)
    with assms show ?thesis by (simp add: capacity_def TypeSize_def)
  qed
  show ?thesis
  proof (cases "Offset i = 0")
    case True
    then show ?thesis
      using idx by (simp add: range_window_def Let_def bits_def Index_add Offset_add bit_or_iff)
  next
    case False
    have "bit (drop_bit (Offset i) (m_bitset b ! Index i) OR
        push_bit (32 - Offset i) (m_bitset b ! Suc (Index i))) k \<longleftrightarrow> bits b (i + k)" if "k < 32" for k
      using idx off [OF False] that diff_diff_right [of "Offset i" 32 k]
      by (auto simp: bits_def Index_add Offset_add bit_or_iff bit_drop_bit_eq bit_push_bit_iff
          impossible_bit add.commute less_imp_le)
    then show ?thesis
      using False idx off by (simp add: range_window_def Let_def TypeSize_def)
  qed
qed

lemma range_window_overrun:
  "Offset i \<noteq> 0 \<Longrightarrow> capacity b < i + 32 \<Longrightarrow> range_window b i = Inl OutOfBounds"
  by (auto simp: range_window_def Let_def Index_def Offset_def capacity_def TypeSize_def)

lemma low_mask_zero_iff:
  fixes w :: u32
  assumes "c < 32"
  shows "w AND (2 ^ c - 1) = 0 \<longleftrightarrow> (\<forall>k<c. \<not> bit w k)"
proof -
  have "2 ^ c - 1 = (mask c :: u32)" by (simp add: mask_eq_exp_minus_1)
  then have "w AND (2 ^ c - 1) = 0 \<longleftrightarrow> (\<forall>k<32. \<not> (bit w k \<and> k < c))"
    by (auto simp: bit_eq_iff bit_and_iff bit_mask_iff)
  also have "\<dots> \<longleftrightarrow> (\<forall>k<c. \<not> bit w k)"
    using assms by (meson less_trans)
  finally show ?thesis .
qed

definition free_range :: "bitset \<Rightarrow> nat \<Rightarrow> nat \<Rightarrow> bool" where
  "free_range b c i \<longleftrightarrow> (\<forall>k<c. \<not> bits b (i + k))"

lemma range_window_free:
  assumes "i + 32 \<le> capacity b" and "c < 32"
  obtains w where "range_window b i = Inr w" "w AND (2 ^ c - 1) = 0 \<longleftrightarrow> free_range b c i"
proof -
  obtain w where "range_window b i = Inr w" "\<forall>k<32. bit w k \<longleftrightarrow> bits b (i + k)"
    using range_window_bits [OF assms(1)] by blast
  moreover from this(2) have "w AND (2 ^ c - 1) = 0 \<longleftrightarrow> free_range b c i"
    unfolding low_mask_zero_iff [OF assms(2)] free_range_def using assms(2) by auto
  ultimately show thesis using that by blast
qed

lemma FindFirstRange_loop_hit:
  assumes "c < 32" and "find (free_range b c) is = Some i"
    and "\<forall>j \<in> set (takeWhile (\<lambda>j. j \<noteq> i) is @ [i]). j + 32 \<le> capacity b"
  shows "FindFirstRange_loop b (2 ^ c - 1) False is = Inr (of_nat i)"
  using assms(2,3)
proof (induction "is")
  case (Cons j js)
  obtain w where w: "range_window b j = Inr w" "w AND (2 ^ c - 1) = 0 \<longleftrightarrow> free_range b c j"
    using range_window_free [of j b c] Cons.prems assms(1) by (auto split: if_splits)
  show ?case
  proof (cases "free_range b c j")
    case True
    then show ?thesis using w Cons.prems by simp
  next
    case False
    then have "j \<noteq> i" "find (free_range b c) js = Some i"
      using Cons.prems by (auto simp: find_Some_iff)
    then show ?thesis using w False Cons by simp
  qed
qed simp

lemma FindFirstRange_loop_overrun:
  assumes "c < 32" and "\<forall>j \<in> set js. j + 32 \<le> capacity b \<and> \<not> free_range b c j"
    and "range_window b i = Inl OutOfBounds"
  shows "FindFirstRange_loop b (2 ^ c - 1) False (js @ i # ks) = Inl OutOfBounds"
  using assms(2)
proof (induction js)
  case Nil
  then show ?case using assms(3) by simp
next
  case (Cons j js)
  obtain w where "range_window b j = Inr w" "w AND (2 ^ c - 1) = 0 \<longleftrightarrow> free_range b c j"
    using range_window_free [of j b c] Cons.prems assms(1) by auto
  then show ?case using Cons by simp
qed

text \<open>every in-range position reads back exactly what the last \<open>Set\<close> or \<open>Clear\<close> of it
  wrote, other positions are untouched, and the searches and counters see a bitset of the
  same capacity: a sequence of \<open>Set\<close> calls marks exactly the listed positions.\<close>

theorem Bitset_Set_many:
  assumes "wf_bitset n b" and "\<forall>p \<in> set ps. p < n"
  shows "\<exists>b'. foldE Set ps b = Inr b' \<and> wf_bitset n b' \<and>
    (\<forall>p<n. Test p b' = Inr (bits b p \<or> p \<in> set ps))"
proof -
  have "capacity b = n" using assms(1) by (simp add: wf_bitset_def)
  then obtain b' where "foldE Set ps b = Inr b'" "wf_bitset n b'" "capacity b' = n"
    "\<forall>p. bits b' p \<longleftrightarrow> bits b p \<or> p \<in> set ps"
    using bs.set_many [OF assms(1), of ps] assms(2) by auto
  then show ?thesis by (auto simp: Test_in_range)
qed

theorem Bitset_Set_many_witness:
  "\<exists>b'. foldE Set [3, 40] (Bitset_make 64 False) = Inr b' \<and> wf_bitset 64 b' \<and>
    (\<forall>p<64. Test p b' = Inr (bits (Bitset_make 64 False) p \<or> p \<in> set [3, 40]))"
  by (rule Bitset_Set_many) (simp_all add: wf_Bitset_make)

text \<open>C26: \<open>FindFirstBit\<close> returns the least position whose bit has the requested polarity,
  and \<open>npos\<close> exactly when there is none.\<close>

theorem FindFirstBit_correct:
  assumes "wf_bitset n b"
  shows "\<exists>r. FindFirstBit n b v = Inr r \<and>
    (if \<exists>i<n. bits b i = v
     then unat r < n \<and> bits b (unat r) = v \<and> (\<forall>j<unat r. bits b j \<noteq> v)
     else r = npos)"
proof (cases "find (\<lambda>i. bits b i = v) [0..<n]")
  case None
  then have "FindFirstBit n b v = Inr npos"
    using assms by (simp add: FindFirstBit_def FindFirstBit_loop_spec wf_bitset_def)
  moreover from None have "\<not> (\<exists>i<n. bits b i = v)" by (auto simp: find_upt_None)
  ultimately show ?thesis by auto
next
  case (Some i)
  then have i: "i < n" "bits b i = v" "\<forall>j<i. bits b j \<noteq> v" by (auto simp: find_upt_Some)
  moreover have "unat (of_nat i :: u32) = i"
    using i(1) assms by (auto intro!: unat_of_nat_u32 simp: wf_bitset_def)
  ultimately show ?thesis
    using assms Some by (auto simp: FindFirstBit_def FindFirstBit_loop_spec wf_bitset_def)
qed

theorem FindFirstBit_correct_witness:
  "\<exists>r. FindFirstBit 64 (Bitset_make 64 True) False = Inr r \<and>
    (if \<exists>i<64. bits (Bitset_make 64 True) i = False
     then unat r < 64 \<and> bits (Bitset_make 64 True) (unat r) = False
       \<and> (\<forall>j<unat r. bits (Bitset_make 64 True) j \<noteq> False)
     else r = npos)"
  by (rule FindFirstBit_correct) (simp add: wf_Bitset_make)

text \<open>\<open>FindFirstRange\<close> for clear bits returns the first position from which \<open>count\<close>
  consecutive bits are clear, when such a position exists at least one word before the end.\<close>

lemma FindFirstRange_hit:
  assumes "wf_bitset n b" and "unat count < 32"
    and "i + 32 \<le> n" and "free_range b (unat count) i"
    and "\<forall>j<i. \<not> free_range b (unat count) j"
  shows "FindFirstRange n b count False = Inr (of_nat i)"
proof -
  let ?c = "unat count"
  have n: "n < 2 ^ 32" "capacity b = n" using assms(1) by (auto simp: wf_bitset_def)
  have sub: "unat (of_nat n - count :: u32) = n - ?c"
    using assms(2,3) n(1) by (simp add: unat_sub word_le_nat_alt unat_of_nat_u32)
  have "find (free_range b ?c) [0..<n - ?c] = Some i"
    using assms(2-5) by (simp add: find_upt_Some)
  moreover have "\<forall>j \<in> set (takeWhile (\<lambda>j. j \<noteq> i) [0..<n - ?c] @ [i]). j + 32 \<le> capacity b"
  proof -
    have "[0..<n - ?c] = [0..<i] @ i # [Suc i..<n - ?c]"
      by (rule upt_split_at) (use assms(2,3) in simp_all)
    then show ?thesis using assms(3) n(2) by (auto dest!: set_takeWhileD simp: takeWhile_append)
  qed
  ultimately show ?thesis
    using FindFirstRange_loop_hit [OF assms(2), of b] assms(2) sub
    by (simp add: FindFirstRange_def TypeSize_def)
qed

text \<open>when the \<open>count\<close> clear bits are not found one word before the end, the search does
  not report \<open>npos\<close>: it reads \<open>m_bitset\<close> one element past its end.\<close>

theorem FindFirstRange_overrun:
  assumes "wf_bitset n b" and "32 \<le> n" and "unat count < 31"
    and "\<forall>j. j + 32 \<le> n \<longrightarrow> \<not> free_range b (unat count) j"
  shows "FindFirstRange n b count False = Inl OutOfBounds"
proof -
  let ?c = "unat count"
  have n: "n < 2 ^ 32" "capacity b = n" using assms(1) by (auto simp: wf_bitset_def)
  obtain q where q: "n = 32 * Suc q"
    using n(2) assms(2) by (cases "length (m_bitset b)") (auto simp: capacity_def TypeSize_def)
  then have "n - 31 = 1 + q * 32" by simp
  then have off: "Offset (n - 31) \<noteq> 0"
    by (simp only: Offset_def TypeSize_def mod_mult_self1) simp
  have sub: "unat (of_nat n - count :: u32) = n - ?c"
    using assms(2,3) n(1) by (simp add: unat_sub word_le_nat_alt unat_of_nat_u32)
  have "[0..<n - ?c] = [0..<n - 31] @ (n - 31) # [Suc (n - 31)..<n - ?c]"
    by (rule upt_split_at) (use assms(2,3) in simp_all)
  moreover have "range_window b (n - 31) = Inl OutOfBounds"
    by (rule range_window_overrun [OF off]) (use n(2) assms(2) in simp)
  ultimately show ?thesis
    using assms(3,4) n(2) sub
    by (auto simp: FindFirstRange_def TypeSize_def intro!: FindFirstRange_loop_overrun)
qed

theorem FindFirstRange_overrun_witness:
  "FindFirstRange 32 (Bitset_make 32 True) 1 False = Inl OutOfBounds"
  by (rule FindFirstRange_overrun) (simp_all add: wf_Bitset_make free_range_def bits_Bitset_make)

end
