(* ===== verification/Ring_Buffer.thy ===== *)
theory Ring_Buffer
  imports Xyris_Prelude
begin

text \<open>
  \<open>Kernel/Library/RingBuffer.hpp\<close> and the error codes of \<open>Kernel/Library/errno.hpp\<close>.  The
  template parameter \<open>S\<close> is the length of the array \<open>data\<close>.  The indices \<open>head\<close>, \<open>tail\<close> and
  \<open>length\<close> are natural numbers: on a well-formed buffer they are at most \<open>S\<close>, so the 32-bit
  additions of the code never wrap.  The locale \<open>bounded_queue\<close> is the contract of a queue of
  bounded capacity; the ring buffer is interpreted as one, and the serial driver's read loop
  (\<open>drain\<close>) is verified against the contract.
\<close>

section \<open>Error codes\<close>

datatype KernelError = LockTaken | BufferFull | InvalidValue | GenericError | OK

fun kernel_error :: "KernelError \<Rightarrow> int" where
  "kernel_error LockTaken = - 4"
| "kernel_error BufferFull = - 3"
| "kernel_error InvalidValue = - 2"
| "kernel_error GenericError = - 1"
| "kernel_error OK = 0"

section \<open>The class\<close>

record 'a ring =
  rb_data :: "'a list"
  rb_head :: nat
  rb_tail :: nat
  rb_length :: nat
  rb_error :: int

definition RingBuffer :: "'a list \<Rightarrow> 'a ring" where
  "RingBuffer storage =
     \<lparr>rb_data = storage, rb_head = 0, rb_tail = 0, rb_length = 0, rb_error = 0\<rparr>"

definition Capacity :: "'a ring \<Rightarrow> nat" where
  "Capacity r = length (rb_data r)"

definition IsEmpty :: "'a ring \<Rightarrow> bool" where
  "IsEmpty r = (rb_length r = 0)"

definition IsFull :: "'a ring \<Rightarrow> bool" where
  "IsFull r = (rb_length r = Capacity r)"

definition Length :: "'a ring \<Rightarrow> nat" where
  "Length r = rb_length r"

definition Enqueue :: "'a \<Rightarrow> 'a ring \<Rightarrow> int \<times> 'a ring" where
  "Enqueue v r =
     (if IsFull r then (- 1, r\<lparr>rb_error := kernel_error BufferFull\<rparr>)
      else (0, r\<lparr>rb_data := (rb_data r)[rb_head r := v],
                 rb_head := (rb_head r + 1) mod Capacity r,
                 rb_length := rb_length r + 1\<rparr>))"

text \<open>\<open>Dequeue(T* buf)\<close>: status, the value written through \<open>buf\<close> if any, new buffer.\<close>

definition Dequeue_to :: "'a ring \<Rightarrow> int \<times> 'a option \<times> 'a ring" where
  "Dequeue_to r =
     (if IsEmpty r then (- 1, None, r\<lparr>rb_error := kernel_error InvalidValue\<rparr>)
      else (0, Some (rb_data r ! rb_tail r),
            r\<lparr>rb_tail := (rb_tail r + 1) mod Capacity r, rb_length := rb_length r - 1\<rparr>))"

text \<open>\<open>T Dequeue()\<close>: the value is \<open>0\<close> when the buffer is empty.\<close>

definition Dequeue :: "'a::zero ring \<Rightarrow> 'a \<times> 'a ring" where
  "Dequeue r =
     (if IsEmpty r then (0, r\<lparr>rb_error := kernel_error InvalidValue\<rparr>)
      else (rb_data r ! rb_tail r,
            r\<lparr>rb_tail := (rb_tail r + 1) mod Capacity r, rb_length := rb_length r - 1\<rparr>))"

definition Peek :: "'a ring \<Rightarrow> int \<times> 'a option \<times> 'a ring" where
  "Peek r =
     (if IsEmpty r then (- 1, None, r\<lparr>rb_error := kernel_error InvalidValue\<rparr>)
      else (0, Some (rb_data r ! rb_tail r), r))"

definition Error :: "'a ring \<Rightarrow> int" where
  "Error r = rb_error r"

section \<open>A bounded queue\<close>

fun drain :: "('q \<Rightarrow> bool) \<Rightarrow> ('q \<Rightarrow> 'a \<times> 'q) \<Rightarrow> nat \<Rightarrow> 'q \<Rightarrow> 'a list \<times> 'q" where
  "drain emp deq 0 q = ([], q)"
| "drain emp deq (Suc n) q =
     (if emp q then ([], q)
      else (let (x, q') = deq q; (xs, q'') = drain emp deq n q' in (x # xs, q'')))"

locale bounded_queue =
  fixes inv :: "'q \<Rightarrow> bool"
    and cap :: "'q \<Rightarrow> nat"
    and contents :: "'q \<Rightarrow> 'a list"
    and emp :: "'q \<Rightarrow> bool"
    and enq :: "'a \<Rightarrow> 'q \<Rightarrow> int \<times> 'q"
    and deq :: "'q \<Rightarrow> 'a \<times> 'q"
  assumes bounded: "inv q \<Longrightarrow> length (contents q) \<le> cap q"
    and emp_spec: "inv q \<Longrightarrow> emp q \<longleftrightarrow> contents q = []"
    and enq_room: "inv q \<Longrightarrow> length (contents q) < cap q \<Longrightarrow>
      \<exists>q'. enq x q = (0, q') \<and> inv q' \<and> cap q' = cap q \<and> contents q' = contents q @ [x]"
    and enq_full: "inv q \<Longrightarrow> length (contents q) = cap q \<Longrightarrow>
      \<exists>q'. enq x q = (- 1, q') \<and> inv q' \<and> cap q' = cap q \<and> contents q' = contents q"
    and deq_spec: "inv q \<Longrightarrow> contents q \<noteq> [] \<Longrightarrow>
      \<exists>q'. deq q = (hd (contents q), q') \<and> inv q' \<and> cap q' = cap q \<and> contents q' = tl (contents q)"
begin

lemma drain_spec:
  "inv q \<Longrightarrow> \<exists>q'. drain emp deq n q = (take n (contents q), q') \<and> inv q' \<and> cap q' = cap q
     \<and> contents q' = drop n (contents q)"
proof (induction n arbitrary: q)
  case 0
  then show ?case by simp
next
  case (Suc n)
  show ?case
  proof (cases "contents q")
    case Nil
    then show ?thesis using Suc.prems by (simp add: emp_spec)
  next
    case (Cons x xs)
    obtain q1 where q1: "deq q = (x, q1)" "inv q1" "cap q1 = cap q" "contents q1 = xs"
      using deq_spec [OF Suc.prems] Cons by auto
    obtain q2 where "drain emp deq n q1 = (take n xs, q2)" "inv q2" "cap q2 = cap q1"
      "contents q2 = drop n xs"
      using Suc.IH [OF q1(2)] q1(4) by auto
    with q1 Cons Suc.prems show ?thesis by (simp add: emp_spec)
  qed
qed

text \<open>Feeding a whole list: what does not fit is dropped.\<close>

lemma enq_many:
  "inv q \<Longrightarrow> \<exists>q'. fold (\<lambda>x r. snd (enq x r)) xs q = q' \<and> inv q' \<and> cap q' = cap q
     \<and> contents q' = take (cap q) (contents q @ xs)"
proof (induction xs arbitrary: q)
  case Nil
  then show ?case using bounded by simp
next
  case (Cons x xs)
  show ?case
  proof (cases "length (contents q) < cap q")
    case True
    then obtain q1 where "enq x q = (0, q1)" "inv q1" "cap q1 = cap q" "contents q1 = contents q @ [x]"
      using enq_room [OF Cons.prems] by blast
    then show ?thesis using Cons.IH [of q1] by simp
  next
    case False
    then have eq: "length (contents q) = cap q" using bounded [OF Cons.prems] by simp
    then obtain q1 where "enq x q = (- 1, q1)" "inv q1" "cap q1 = cap q" "contents q1 = contents q"
      using enq_full [OF Cons.prems] by blast
    then show ?thesis using Cons.IH [of q1] eq by simp
  qed
qed

end

section \<open>The ring buffer is a bounded queue\<close>

definition rb_contents :: "'a ring \<Rightarrow> 'a list" where
  "rb_contents r = map (\<lambda>k. rb_data r ! ((rb_tail r + k) mod Capacity r)) [0..<rb_length r]"

definition wf_ring :: "'a ring \<Rightarrow> bool" where
  "wf_ring r \<longleftrightarrow> 0 < Capacity r \<and> rb_tail r < Capacity r \<and> rb_length r \<le> Capacity r
     \<and> rb_head r = (rb_tail r + rb_length r) mod Capacity r"

lemma mod_add_distinct:
  fixes t k l S :: nat
  assumes "k < l" "l < S"
  shows "(t + k) mod S \<noteq> (t + l) mod S"
proof
  assume "(t + k) mod S = (t + l) mod S"
  then have "S dvd (t + l) - (t + k)" using assms mod_eq_dvd_iff_nat [of "t + k" "t + l" S] by simp
  with assms show False by (auto dest: dvd_imp_le)
qed

lemma Enqueue_room:
  assumes "wf_ring r" and "rb_length r < Capacity r"
  shows "\<exists>r'. Enqueue v r = (0, r') \<and> wf_ring r' \<and> Capacity r' = Capacity r
    \<and> rb_contents r' = rb_contents r @ [v]"
proof -
  let ?S = "Capacity r" and ?h = "rb_head r"
  define r' where "r' = snd (Enqueue v r)"
  have h: "?h < length (rb_data r)" using assms by (simp add: wf_ring_def Capacity_def)
  have r': "rb_data r' = (rb_data r)[?h := v]" "rb_tail r' = rb_tail r" "rb_length r' = Suc (rb_length r)"
    "rb_head r' = (?h + 1) mod ?S" "Enqueue v r = (0, r')" "Capacity r' = ?S"
    using assms(2) by (simp_all add: r'_def Enqueue_def IsFull_def Capacity_def)
  have "wf_ring r'"
    using assms r' by (simp add: wf_ring_def mod_add_left_eq flip: add_Suc_right) (simp add: mod_Suc_eq)
  moreover have "rb_data r' ! ((rb_tail r + k) mod ?S) = rb_data r ! ((rb_tail r + k) mod ?S)"
    if "k < rb_length r" for k
    using that assms mod_add_distinct [of k "rb_length r" ?S "rb_tail r"]
    by (simp add: r'(1) wf_ring_def)
  then have "rb_contents r' = rb_contents r @ [v]"
    using h r' assms(1) by (simp add: rb_contents_def wf_ring_def)
  ultimately show ?thesis using r' by simp
qed

lemma Dequeue_state:
  assumes "wf_ring r" and "0 < rb_length r"
  shows "let r' = r\<lparr>rb_tail := (rb_tail r + 1) mod Capacity r, rb_length := rb_length r - 1\<rparr> in
    wf_ring r' \<and> Capacity r' = Capacity r \<and> rb_contents r = (rb_data r ! rb_tail r) # rb_contents r'"
proof -
  obtain n where n: "rb_length r = Suc n" using assms(2) gr0_implies_Suc by blast
  have "map (\<lambda>k. rb_data r ! ((rb_tail r + k) mod Capacity r)) [0..<Suc n] =
      (rb_data r ! rb_tail r) # map (\<lambda>k. rb_data r ! (((rb_tail r + 1) mod Capacity r + k) mod Capacity r)) [0..<n]"
    unfolding upt_0_Suc using assms(1) by (simp add: wf_ring_def mod_Suc_eq mod_add_left_eq comp_def)
  then show ?thesis
    using assms n by (simp add: wf_ring_def rb_contents_def Capacity_def Let_def mod_add_left_eq)
qed

lemma Enqueue_full:
  assumes "wf_ring r" and "\<not> rb_length r < Capacity r"
  shows "Enqueue v r = (- 1, r\<lparr>rb_error := kernel_error BufferFull\<rparr>)"
  using assms by (auto simp: Enqueue_def IsFull_def wf_ring_def)

lemma set_error_frame [simp]:
  "rb_contents (r\<lparr>rb_error := e\<rparr>) = rb_contents r"
  "wf_ring (r\<lparr>rb_error := e\<rparr>) = wf_ring r"
  "Capacity (r\<lparr>rb_error := e\<rparr>) = Capacity r"
  by (simp_all add: rb_contents_def wf_ring_def Capacity_def)

lemma length_rb_contents [simp]: "length (rb_contents r) = rb_length r"
  by (simp add: rb_contents_def)

lemma rb_contents_Nil_iff: "rb_contents r = [] \<longleftrightarrow> rb_length r = 0"
  by (simp add: rb_contents_def)

lemma Dequeue_to_spec:
  assumes "wf_ring r"
  shows "case rb_contents r of
      [] \<Rightarrow> Dequeue_to r = (- 1, None, r\<lparr>rb_error := kernel_error InvalidValue\<rparr>)
    | x # xs \<Rightarrow> \<exists>r'. Dequeue_to r = (0, Some x, r') \<and> wf_ring r' \<and> Capacity r' = Capacity r \<and> rb_contents r' = xs"
  using Dequeue_state [OF assms]
  by (cases "rb_contents r"; cases "rb_length r = 0")
    (auto simp: Dequeue_to_def IsEmpty_def Let_def dest: arg_cong [of _ _ length])

interpretation rb: bounded_queue wf_ring Capacity rb_contents IsEmpty Enqueue "Dequeue :: 'a::zero ring \<Rightarrow> _"
proof
  fix q :: "'a ring" and x :: 'a
  assume wf: "wf_ring q"
  show "length (rb_contents q) \<le> Capacity q"
    using wf by (simp add: rb_contents_def wf_ring_def)
  show "IsEmpty q \<longleftrightarrow> rb_contents q = []" by (simp add: IsEmpty_def rb_contents_def)
  show "\<exists>q'. Enqueue x q = (0, q') \<and> wf_ring q' \<and> Capacity q' = Capacity q \<and> rb_contents q' = rb_contents q @ [x]"
    if "length (rb_contents q) < Capacity q"
    using Enqueue_room [OF wf] that by (simp add: rb_contents_def)
  show "\<exists>q'. Enqueue x q = (- 1, q') \<and> wf_ring q' \<and> Capacity q' = Capacity q \<and> rb_contents q' = rb_contents q"
    if "length (rb_contents q) = Capacity q"
    using wf that by (simp add: Enqueue_def IsFull_def rb_contents_def wf_ring_def Capacity_def)
  show "\<exists>q'. Dequeue q = (hd (rb_contents q), q') \<and> wf_ring q' \<and> Capacity q' = Capacity q
      \<and> rb_contents q' = tl (rb_contents q)" if "rb_contents q \<noteq> []"
    using Dequeue_state [OF wf] that
    by (auto simp: Dequeue_def IsEmpty_def Let_def) (auto simp: rb_contents_def)
qed

lemma wf_RingBuffer: "storage \<noteq> [] \<Longrightarrow> wf_ring (RingBuffer storage) \<and> rb_contents (RingBuffer storage) = []"
  by (simp add: wf_ring_def RingBuffer_def Capacity_def rb_contents_def)

section \<open>Refinement of a bounded FIFO\<close>

text \<open>The abstract queue is a list; the observations are the status code and the value read.\<close>

datatype 'a rb_op = Enq 'a | Deq

fun fifo_step :: "nat \<Rightarrow> 'a rb_op \<Rightarrow> 'a list \<Rightarrow> (int \<times> 'a option) \<times> 'a list" where
  "fifo_step S (Enq v) xs = (if length xs < S then ((0, None), xs @ [v]) else ((- 1, None), xs))"
| "fifo_step S Deq [] = ((- 1, None), [])"
| "fifo_step S Deq (x # xs) = ((0, Some x), xs)"

fun ring_step :: "'a rb_op \<Rightarrow> 'a ring \<Rightarrow> (int \<times> 'a option) \<times> 'a ring" where
  "ring_step (Enq v) r = (let (st, r') = Enqueue v r in ((st, None), r'))"
| "ring_step Deq r = (let (st, v, r') = Dequeue_to r in ((st, v), r'))"

lemma ring_step_simulates:
  assumes "wf_ring r"
  shows "\<exists>o_r r'. ring_step p r = (o_r, r') \<and> fifo_step (Capacity r) p (rb_contents r) = (o_r, rb_contents r')
    \<and> wf_ring r' \<and> Capacity r' = Capacity r"
proof (cases p)
  case (Enq v)
  then show ?thesis
    using Enqueue_room [OF assms, of v] Enqueue_full [OF assms, of v] assms
    by (cases "rb_length r < Capacity r") auto
next
  case Deq
  then show ?thesis using Dequeue_to_spec [OF assms] assms by (cases "rb_contents r") auto
qed

text \<open>C31: for every sequence of \<open>Enqueue\<close> and \<open>Dequeue\<close> calls, a well-formed ring buffer returns
  the same status codes and values as a list of at most \<open>S\<close> elements, FIFO, refusing to enqueue
  when full and to dequeue when empty; wrapping around the end of the array is invisible, and the
  buffer stays well-formed.\<close>

theorem RingBuffer_refines_fifo:
  assumes "wf_ring r"
  shows "\<exists>outs r'. run_steps ring_step ops r = (outs, r')
    \<and> run_steps (fifo_step (Capacity r)) ops (rb_contents r) = (outs, rb_contents r') \<and> wf_ring r'"
  using assms
proof (induction ops arbitrary: r)
  case Nil
  then show ?case by simp
next
  case (Cons p ops)
  obtain o_r r1 where 1: "ring_step p r = (o_r, r1)" "fifo_step (Capacity r) p (rb_contents r) = (o_r, rb_contents r1)"
    "wf_ring r1" "Capacity r1 = Capacity r"
    using ring_step_simulates [OF Cons.prems] by blast
  then show ?case using Cons.IH [OF 1(3)] by auto
qed

theorem RingBuffer_refines_fifo_witness:
  "\<exists>outs r'. run_steps ring_step [Enq (1::int), Enq 2, Enq 3, Deq, Enq 4, Deq, Deq, Deq] (RingBuffer [0, 0]) = (outs, r')
    \<and> run_steps (fifo_step (Capacity (RingBuffer [0, 0::int]))) [Enq (1::int), Enq 2, Enq 3, Deq, Enq 4, Deq, Deq, Deq]
        (rb_contents (RingBuffer [0, 0])) = (outs, rb_contents r') \<and> wf_ring r'"
  by (rule RingBuffer_refines_fifo) (simp add: wf_RingBuffer)

end
