(* ===== verification/Linked_List.thy ===== *)
theory Linked_List
  imports Xyris_Prelude
begin

text \<open>
  \<open>Kernel/Library/LinkedList.hpp\<close>: a doubly linked list of heap nodes.  The heap is an explicit
  store from addresses to nodes, so that the pointer updates and their aliasing are those of the
  code; a dereference of a null or unallocated pointer is the fault \<open>NullDeref\<close>.  The allocator
  behind \<open>new\<close> (liballoc, a third-party library) is the parameter \<open>malloc\<close>; what is relied on is
  \<open>allocator\<close>: below a bound on the number of live nodes it returns an address that is not in use.
\<close>

section \<open>Nodes and lists\<close>

record 'a node =
  n_data :: 'a
  n_next :: "addr option"
  n_prev :: "addr option"

type_synonym 'a heap = "addr \<Rightarrow> 'a node option"

record 'a linked_list =
  ll_heap :: "'a heap"
  ll_head :: "addr option"
  ll_tail :: "addr option"
  ll_count :: u32

definition LinkedListNode :: "'a \<Rightarrow> 'a node" where
  "LinkedListNode v = \<lparr>n_data = v, n_next = None, n_prev = None\<rparr>"

definition deref :: "addr option \<Rightarrow> 'a heap \<Rightarrow> 'a node outcome" where
  "deref p h = (case p of None \<Rightarrow> Inl NullDeref
     | Some a \<Rightarrow> (case h a of None \<Rightarrow> Inl NullDeref | Some n \<Rightarrow> Inr n))"

definition NodeData :: "addr option \<Rightarrow> 'a heap \<Rightarrow> 'a outcome" where
  "NodeData p h = bindE (deref p h) (\<lambda>n. Inr (n_data n))"

definition NodeNext :: "addr option \<Rightarrow> 'a heap \<Rightarrow> addr option outcome" where
  "NodeNext p h = bindE (deref p h) (\<lambda>n. Inr (n_next n))"

definition NodePrevious :: "addr option \<Rightarrow> 'a heap \<Rightarrow> addr option outcome" where
  "NodePrevious p h = bindE (deref p h) (\<lambda>n. Inr (n_prev n))"

definition SetData :: "addr option \<Rightarrow> 'a \<Rightarrow> 'a heap \<Rightarrow> 'a heap outcome" where
  "SetData p v h = bindE (deref p h) (\<lambda>n. Inr (h(the p \<mapsto> n\<lparr>n_data := v\<rparr>)))"

definition SetNext :: "addr option \<Rightarrow> addr option \<Rightarrow> 'a heap \<Rightarrow> 'a heap outcome" where
  "SetNext p q h = bindE (deref p h) (\<lambda>n. Inr (h(the p \<mapsto> n\<lparr>n_next := q\<rparr>)))"

definition SetPrevious :: "addr option \<Rightarrow> addr option \<Rightarrow> 'a heap \<Rightarrow> 'a heap outcome" where
  "SetPrevious p q h = bindE (deref p h) (\<lambda>n. Inr (h(the p \<mapsto> n\<lparr>n_prev := q\<rparr>)))"

definition new_node :: "('a heap \<Rightarrow> addr option) \<Rightarrow> 'a \<Rightarrow> 'a heap \<Rightarrow> (addr \<times> 'a heap) outcome" where
  "new_node malloc v h = (case malloc h of None \<Rightarrow> Inl NullDeref
     | Some a \<Rightarrow> Inr (a, h(a \<mapsto> LinkedListNode v)))"

definition LinkedList_empty :: "'a heap \<Rightarrow> 'a linked_list" where
  "LinkedList_empty h = \<lparr>ll_heap = h, ll_head = None, ll_tail = None, ll_count = 0\<rparr>"

definition InsertBefore :: "('a heap \<Rightarrow> addr option) \<Rightarrow> addr option \<Rightarrow> 'a \<Rightarrow> 'a linked_list \<Rightarrow> 'a linked_list outcome" where
  "InsertBefore malloc next v l =
     (if next = None then Inr l else
      bindE (new_node malloc v (ll_heap l)) (\<lambda>(newNode, h1).
      bindE (NodePrevious next h1) (\<lambda>nextPrev.
      bindE (SetPrevious (Some newNode) nextPrev h1) (\<lambda>h2.
      bindE (SetPrevious next (Some newNode) h2) (\<lambda>h3.
      bindE (SetNext (Some newNode) next h3) (\<lambda>h4.
      bindE (NodePrevious (Some newNode) h4) (\<lambda>before.
        if before \<noteq> None
        then bindE (SetNext before (Some newNode) h4)
               (\<lambda>h5. Inr (l\<lparr>ll_heap := h5, ll_count := ll_count l + 1\<rparr>))
        else Inr (l\<lparr>ll_heap := h4, ll_head := Some newNode, ll_count := ll_count l + 1\<rparr>))))))))"

definition InsertAfter :: "('a heap \<Rightarrow> addr option) \<Rightarrow> addr option \<Rightarrow> 'a \<Rightarrow> 'a linked_list \<Rightarrow> 'a linked_list outcome" where
  "InsertAfter malloc prev v l =
     (if prev = None then Inr l else
      bindE (new_node malloc v (ll_heap l)) (\<lambda>(newNode, h1).
      bindE (NodeNext prev h1) (\<lambda>prevNext.
      bindE (SetNext (Some newNode) prevNext h1) (\<lambda>h2.
      bindE (SetNext prev (Some newNode) h2) (\<lambda>h3.
      bindE (SetPrevious (Some newNode) prev h3) (\<lambda>h4.
      bindE (NodeNext (Some newNode) h4) (\<lambda>after.
        if after \<noteq> None
        then bindE (SetPrevious after (Some newNode) h4)
               (\<lambda>h5. Inr (l\<lparr>ll_heap := h5, ll_count := ll_count l + 1\<rparr>))
        else Inr (l\<lparr>ll_heap := h4, ll_tail := Some newNode, ll_count := ll_count l + 1\<rparr>))))))))"

definition InsertFront :: "('a heap \<Rightarrow> addr option) \<Rightarrow> 'a \<Rightarrow> 'a linked_list \<Rightarrow> 'a linked_list outcome" where
  "InsertFront malloc v l =
     (if ll_head l \<noteq> None then InsertBefore malloc (ll_head l) v l
      else bindE (new_node malloc v (ll_heap l)) (\<lambda>(a, h).
        Inr (l\<lparr>ll_heap := h, ll_head := Some a, ll_tail := Some a, ll_count := ll_count l + 1\<rparr>)))"

definition InsertBack :: "('a heap \<Rightarrow> addr option) \<Rightarrow> 'a \<Rightarrow> 'a linked_list \<Rightarrow> 'a linked_list outcome" where
  "InsertBack malloc v l =
     (if ll_tail l \<noteq> None then InsertAfter malloc (ll_tail l) v l
      else bindE (new_node malloc v (ll_heap l)) (\<lambda>(a, h).
        Inr (l\<lparr>ll_heap := h, ll_tail := Some a, ll_head := Some a, ll_count := ll_count l + 1\<rparr>)))"

definition LinkedList_single :: "('a heap \<Rightarrow> addr option) \<Rightarrow> 'a \<Rightarrow> 'a heap \<Rightarrow> 'a linked_list outcome" where
  "LinkedList_single malloc v h = InsertFront malloc v (LinkedList_empty h)"

definition Remove :: "addr option \<Rightarrow> 'a linked_list \<Rightarrow> 'a linked_list outcome" where
  "Remove del l =
     bindE (if del = ll_head l
            then bindE (NodeNext del (ll_heap l)) (\<lambda>n. Inr (l\<lparr>ll_head := n\<rparr>)) else Inr l) (\<lambda>l1.
     bindE (if del = ll_tail l1
            then bindE (NodePrevious del (ll_heap l1)) (\<lambda>p. Inr (l1\<lparr>ll_tail := p\<rparr>)) else Inr l1) (\<lambda>l2.
     bindE (NodeNext del (ll_heap l2)) (\<lambda>n.
     bindE (if n \<noteq> None
            then bindE (NodePrevious del (ll_heap l2)) (\<lambda>p. SetPrevious n p (ll_heap l2))
            else Inr (ll_heap l2)) (\<lambda>h3.
     bindE (NodePrevious del h3) (\<lambda>p.
     bindE (if p \<noteq> None then bindE (NodeNext del h3) (\<lambda>n. SetNext p n h3) else Inr h3) (\<lambda>h4.
       Inr (l2\<lparr>ll_heap := h4, ll_count := ll_count l2 - 1\<rparr>)))))))"

definition RemoveFront :: "'a linked_list \<Rightarrow> (addr option \<times> 'a linked_list) outcome" where
  "RemoveFront l =
     (if ll_head l = None then Inr (None, l)
      else bindE (Remove (ll_head l) l) (\<lambda>l'. Inr (ll_head l, l')))"

definition RemoveBack :: "'a linked_list \<Rightarrow> (addr option \<times> 'a linked_list) outcome" where
  "RemoveBack l =
     (if ll_tail l = None then Inr (None, l)
      else bindE (Remove (ll_tail l) l) (\<lambda>l'. Inr (ll_tail l, l')))"

definition RemoveBefore :: "addr option \<Rightarrow> 'a linked_list \<Rightarrow> (addr option \<times> 'a linked_list) outcome" where
  "RemoveBefore node l =
     (if node = None then Inr (None, l)
      else bindE (NodePrevious node (ll_heap l)) (\<lambda>before.
        bindE (Remove before l) (\<lambda>l'. Inr (before, l'))))"

definition RemoveAfter :: "addr option \<Rightarrow> 'a linked_list \<Rightarrow> (addr option \<times> 'a linked_list) outcome" where
  "RemoveAfter node l =
     (if node = None then Inr (None, l)
      else bindE (NodeNext node (ll_heap l)) (\<lambda>after.
        bindE (Remove after l) (\<lambda>l'. Inr (after, l'))))"

definition Head :: "'a linked_list \<Rightarrow> addr option" where
  "Head l = ll_head l"

definition Tail :: "'a linked_list \<Rightarrow> addr option" where
  "Tail l = ll_tail l"

definition List_Count :: "'a linked_list \<Rightarrow> u32" where
  "List_Count l = ll_count l"

definition List_IsEmpty :: "'a linked_list \<Rightarrow> bool" where
  "List_IsEmpty l = (List_Count l = 0)"

text \<open>The destructor removes from the back and frees until \<open>RemoveBack\<close> returns null; \<open>None\<close> is a
  loop that has not ended within the fuel.\<close>

fun LinkedList_destroy :: "nat \<Rightarrow> 'a linked_list \<Rightarrow> 'a linked_list outcome option" where
  "LinkedList_destroy 0 l = None"
| "LinkedList_destroy (Suc fuel) l =
     (case RemoveBack l of
        Inl e \<Rightarrow> Some (Inl e)
      | Inr (None, l') \<Rightarrow> Some (Inr l')
      | Inr (Some back, l') \<Rightarrow>
          LinkedList_destroy fuel (l'\<lparr>ll_heap := (ll_heap l')(back := None)\<rparr>))"

section \<open>Segments of a doubly linked list\<close>

definition first_of :: "addr list \<Rightarrow> addr option \<Rightarrow> addr option" where
  "first_of xs q = (case xs of [] \<Rightarrow> q | x # _ \<Rightarrow> Some x)"

definition last_of :: "addr option \<Rightarrow> addr list \<Rightarrow> addr option" where
  "last_of p xs = (if xs = [] then p else Some (last xs))"

fun dseg :: "'a heap \<Rightarrow> addr option \<Rightarrow> addr list \<Rightarrow> addr option \<Rightarrow> bool" where
  "dseg h p [] q = True"
| "dseg h p (a # as) q =
     ((\<exists>d. h a = Some \<lparr>n_data = d, n_next = first_of as q, n_prev = p\<rparr>) \<and> dseg h (Some a) as q)"

lemma first_of_simps [simp]:
  "first_of [] q = q" "first_of (x # xs) q = Some x"
  "first_of (xs @ ys) q = first_of xs (first_of ys q)"
  by (simp_all add: first_of_def split: list.split)

lemma last_of_simps [simp]:
  "last_of p [] = p" "last_of p (x # xs) = last_of (Some x) xs"
  "last_of p (xs @ ys) = last_of (last_of p xs) ys"
  by (simp_all add: last_of_def)

lemma first_last_neq [simp]:
  assumes "a \<noteq> b" and "a \<notin> set xs"
  shows "Some a \<noteq> first_of xs (Some b)" "Some a \<noteq> last_of (Some b) xs"
    "first_of xs (Some b) \<noteq> Some a" "last_of (Some b) xs \<noteq> Some a"
  using assms by (cases xs; auto simp: last_of_def)+

lemma dseg_append [simp]:
  "dseg h p (xs @ ys) q \<longleftrightarrow> dseg h p xs (first_of ys q) \<and> dseg h (last_of p xs) ys q"
  by (induction xs arbitrary: p) auto

lemma dseg_frame [simp]: "a \<notin> set xs \<Longrightarrow> dseg (h(a := v)) p xs q = dseg h p xs q"
  by (induction xs arbitrary: p) auto

lemma dseg_dom: "dseg h p xs q \<Longrightarrow> set xs \<subseteq> dom h"
  by (induction xs arbitrary: p) auto

definition node_data :: "'a heap \<Rightarrow> addr list \<Rightarrow> 'a list" where
  "node_data h xs = map (\<lambda>a. n_data (the (h a))) xs"

lemma node_data_simps [simp]:
  "node_data h [] = []" "node_data h (a # xs) = n_data (the (h a)) # node_data h xs"
  "node_data h (xs @ ys) = node_data h xs @ node_data h ys"
  "length (node_data h xs) = length xs"
  by (simp_all add: node_data_def)

lemma node_data_frame [simp]: "a \<notin> set xs \<Longrightarrow> node_data (h(a := v)) xs = node_data h xs"
  by (induction xs) auto

text \<open>\<open>dll l xs\<close>: the list object \<open>l\<close> owns exactly the nodes \<open>xs\<close>, in this order.\<close>

definition dll :: "'a linked_list \<Rightarrow> addr list \<Rightarrow> bool" where
  "dll l xs \<longleftrightarrow> distinct xs \<and> dseg (ll_heap l) None xs None \<and> ll_head l = first_of xs None
     \<and> ll_tail l = last_of None xs \<and> ll_count l = of_nat (length xs)"

lemmas node_ops = deref_def NodeData_def NodeNext_def NodePrevious_def SetNext_def SetPrevious_def
  new_node_def LinkedListNode_def

text \<open>What a call of \<open>malloc\<close> that succeeds relies on: the address is not in use.\<close>

lemma InsertBefore_spec:
  assumes "dll l (ys @ a # zs)" and "malloc (ll_heap l) = Some n" and "ll_heap l n = None"
  shows "\<exists>l'. InsertBefore malloc (Some a) v l = Inr l' \<and> dll l' (ys @ n # a # zs)
    \<and> node_data (ll_heap l') (ys @ n # a # zs) = node_data (ll_heap l) ys @ v # node_data (ll_heap l) (a # zs)
    \<and> dom (ll_heap l') = insert n (dom (ll_heap l))"
proof -
  have n: "n \<noteq> a" "n \<notin> set ys" "n \<notin> set zs"
    using assms(1,3) by (auto simp: dll_def dest!: dseg_dom)
  show ?thesis
  proof (cases ys rule: rev_cases)
    case Nil
    then show ?thesis
      using assms n by (auto simp: InsertBefore_def node_ops dll_def insert_commute)
  next
    case (snoc ys' b)
    then show ?thesis
      using assms n by (auto simp: InsertBefore_def node_ops dll_def insert_commute)
  qed
qed

lemma InsertAfter_spec:
  assumes "dll l (ys @ a # zs)" and "malloc (ll_heap l) = Some n" and "ll_heap l n = None"
  shows "\<exists>l'. InsertAfter malloc (Some a) v l = Inr l' \<and> dll l' (ys @ a # n # zs)
    \<and> node_data (ll_heap l') (ys @ a # n # zs) = node_data (ll_heap l) (ys @ [a]) @ v # node_data (ll_heap l) zs
    \<and> dom (ll_heap l') = insert n (dom (ll_heap l))"
proof -
  have n: "n \<noteq> a" "n \<notin> set ys" "n \<notin> set zs"
    using assms(1,3) by (auto simp: dll_def dest!: dseg_dom)
  show ?thesis
  proof (cases zs)
    case Nil
    then show ?thesis
      using assms n by (auto simp: InsertAfter_def node_ops dll_def insert_commute)
  next
    case (Cons b zs')
    then show ?thesis
      using assms n by (auto simp: InsertAfter_def node_ops dll_def insert_commute)
  qed
qed

lemma Remove_spec:
  assumes "dll l (ys @ a # zs)"
  shows "\<exists>l'. Remove (Some a) l = Inr l' \<and> dll l' (ys @ zs)
    \<and> node_data (ll_heap l') (ys @ zs) = node_data (ll_heap l) (ys @ zs)
    \<and> ll_heap l' a = ll_heap l a \<and> dom (ll_heap l') = dom (ll_heap l)"
proof (cases ys rule: rev_cases)
  case Nil
  then show ?thesis
    using assms by (cases zs) (auto simp: Remove_def node_ops dll_def)
next
  case (snoc ys' b)
  then show ?thesis
    using assms by (cases zs) (auto simp: Remove_def node_ops dll_def)
qed

lemma first_of_None [simp]: "first_of xs None = None \<longleftrightarrow> xs = []"
  by (cases xs) auto

lemma last_of_None [simp]: "last_of None xs = None \<longleftrightarrow> xs = []"
  by (simp add: last_of_def)

lemma InsertFront_spec:
  assumes "dll l xs" and "malloc (ll_heap l) = Some n" and "ll_heap l n = None"
  shows "\<exists>l'. InsertFront malloc v l = Inr l' \<and> dll l' (n # xs)
    \<and> node_data (ll_heap l') (n # xs) = v # node_data (ll_heap l) xs
    \<and> dom (ll_heap l') = insert n (dom (ll_heap l))"
proof (cases xs)
  case Nil
  then show ?thesis using assms by (auto simp: InsertFront_def node_ops dll_def)
next
  case (Cons a zs)
  then have "ll_head l = Some a" "dll l ([] @ a # zs)" using assms(1) by (auto simp: dll_def)
  then show ?thesis
    using InsertBefore_spec [of l "[]" a zs malloc n v] assms(2,3) Cons by (simp add: InsertFront_def)
qed

lemma InsertBack_spec:
  assumes "dll l xs" and "malloc (ll_heap l) = Some n" and "ll_heap l n = None"
  shows "\<exists>l'. InsertBack malloc v l = Inr l' \<and> dll l' (xs @ [n])
    \<and> node_data (ll_heap l') (xs @ [n]) = node_data (ll_heap l) xs @ [v]
    \<and> dom (ll_heap l') = insert n (dom (ll_heap l))"
proof (cases xs rule: rev_cases)
  case Nil
  then show ?thesis using assms by (auto simp: InsertBack_def node_ops dll_def)
next
  case (snoc ys a)
  then have "ll_tail l = Some a" "dll l (ys @ a # [])" using assms(1) by (auto simp: dll_def)
  then show ?thesis
    using InsertAfter_spec [of l ys a "[]" malloc n v] assms(2,3) snoc by (simp add: InsertBack_def)
qed

lemma RemoveFront_spec:
  assumes "dll l (a # xs)"
  shows "\<exists>l'. RemoveFront l = Inr (Some a, l') \<and> dll l' xs
    \<and> node_data (ll_heap l') xs = node_data (ll_heap l) xs
    \<and> ll_heap l' a = ll_heap l a \<and> dom (ll_heap l') = dom (ll_heap l)"
proof -
  have "ll_head l = Some a" using assms by (simp add: dll_def)
  then show ?thesis using Remove_spec [of l "[]" a xs] assms by (auto simp: RemoveFront_def)
qed

lemma RemoveBack_spec:
  assumes "dll l (xs @ [a])"
  shows "\<exists>l'. RemoveBack l = Inr (Some a, l') \<and> dll l' xs
    \<and> node_data (ll_heap l') xs = node_data (ll_heap l) xs
    \<and> ll_heap l' a = ll_heap l a \<and> dom (ll_heap l') = dom (ll_heap l)"
proof -
  have "ll_tail l = Some a" using assms by (simp add: dll_def)
  then show ?thesis using Remove_spec [of l xs a "[]"] assms by (auto simp: RemoveBack_def)
qed

lemma Remove_empty [simp]: "dll l [] \<Longrightarrow> RemoveFront l = Inr (None, l) \<and> RemoveBack l = Inr (None, l)"
  by (simp add: dll_def RemoveFront_def RemoveBack_def)

section \<open>Refinement of a double-ended queue\<close>

definition allocator :: "nat \<Rightarrow> ('a heap \<Rightarrow> addr option) \<Rightarrow> bool" where
  "allocator N malloc \<longleftrightarrow>
     (\<forall>h. finite (dom h) \<longrightarrow> card (dom h) < N \<longrightarrow> (\<exists>a. malloc h = Some a \<and> h a = None))"

text \<open>One allocator with this property: the least of \<open>N\<close> addresses that is not in use.\<close>

definition first_free :: "nat \<Rightarrow> 'a heap \<Rightarrow> addr option" where
  "first_free N h = find (\<lambda>a. h a = None) [0..<N]"

lemma first_free_allocator: "allocator N (first_free N)"
  unfolding allocator_def
proof (intro allI impI)
  fix h :: "'a heap"
  assume "finite (dom h)" and "card (dom h) < N"
  then have "\<not> {0..<N} \<subseteq> dom h" by (metis card_atLeastLessThan card_mono diff_zero not_less)
  then obtain a where "a \<in> {0..<N}" "a \<notin> dom h" by blast
  then have "first_free N h \<noteq> None" by (auto simp: first_free_def find_None_iff)
  then show "\<exists>a. first_free N h = Some a \<and> h a = None"
    by (auto simp: first_free_def find_Some_iff)
qed

datatype 'a list_op = InsFront 'a | InsBack 'a | RemFront | RemBack

text \<open>A client of the list: a removed node is read and then deleted, as the unit tests do.\<close>

definition take_node :: "(addr option \<times> 'a linked_list) outcome \<Rightarrow> ('a option \<times> 'a linked_list) outcome" where
  "take_node r = bindE r (\<lambda>(p, l). case p of None \<Rightarrow> Inr (None, l)
     | Some a \<Rightarrow> bindE (NodeData p (ll_heap l)) (\<lambda>v. Inr (Some v, l\<lparr>ll_heap := (ll_heap l)(a := None)\<rparr>)))"

fun list_step :: "('a heap \<Rightarrow> addr option) \<Rightarrow> 'a list_op \<Rightarrow> 'a linked_list \<Rightarrow> ('a option \<times> 'a linked_list) outcome" where
  "list_step malloc (InsFront v) l = bindE (InsertFront malloc v l) (\<lambda>l'. Inr (None, l'))"
| "list_step malloc (InsBack v) l = bindE (InsertBack malloc v l) (\<lambda>l'. Inr (None, l'))"
| "list_step malloc RemFront l = take_node (RemoveFront l)"
| "list_step malloc RemBack l = take_node (RemoveBack l)"

fun deque_step :: "'a list_op \<Rightarrow> 'a list \<Rightarrow> 'a option \<times> 'a list" where
  "deque_step (InsFront v) xs = (None, v # xs)"
| "deque_step (InsBack v) xs = (None, xs @ [v])"
| "deque_step RemFront xs = (if xs = [] then (None, []) else (Some (hd xs), tl xs))"
| "deque_step RemBack xs = (if xs = [] then (None, []) else (Some (last xs), butlast xs))"

lemma dll_free: "dll l xs \<Longrightarrow> a \<notin> set xs \<Longrightarrow> dll (l\<lparr>ll_heap := (ll_heap l)(a := None)\<rparr>) xs"
  by (simp add: dll_def)

lemma node_data_last: "xs \<noteq> [] \<Longrightarrow> node_data h xs \<noteq> [] \<and> last (node_data h xs) = n_data (the (h (last xs)))
  \<and> butlast (node_data h xs) = node_data h (butlast xs)"
  by (simp add: node_data_def last_map map_butlast)

lemma take_removed:
  assumes "r = Inr (Some a, l')" and "dll l' ys" and "node_data (ll_heap l') ys = node_data (ll_heap l) ys"
    and "ll_heap l' a = ll_heap l a" and "dom (ll_heap l') = dom (ll_heap l)"
    and "a \<notin> set ys" and "ll_heap l a \<noteq> None" and "finite (dom (ll_heap l))"
  shows "\<exists>l''. take_node r = Inr (Some (n_data (the (ll_heap l a))), l'') \<and> dll l'' ys
    \<and> node_data (ll_heap l'') ys = node_data (ll_heap l) ys
    \<and> finite (dom (ll_heap l'')) \<and> card (dom (ll_heap l'')) \<le> card (dom (ll_heap l))"
  using assms dll_free [OF assms(2,6)] card_Diff1_le [of "dom (ll_heap l)" a]
  by (auto simp: take_node_def node_ops)

lemma RemFront_step:
  assumes "dll l (a # ys)" and "finite (dom (ll_heap l))"
  shows "\<exists>l'. take_node (RemoveFront l) = Inr (Some (n_data (the (ll_heap l a))), l') \<and> dll l' ys
    \<and> node_data (ll_heap l') ys = node_data (ll_heap l) ys
    \<and> finite (dom (ll_heap l')) \<and> card (dom (ll_heap l')) \<le> card (dom (ll_heap l))"
proof -
  obtain l' where l': "RemoveFront l = Inr (Some a, l')" "dll l' ys" "node_data (ll_heap l') ys = node_data (ll_heap l) ys"
    "ll_heap l' a = ll_heap l a" "dom (ll_heap l') = dom (ll_heap l)"
    using RemoveFront_spec [OF assms(1)] by blast
  show ?thesis by (rule take_removed [OF l']) (use assms in \<open>auto simp: dll_def\<close>)
qed

lemma RemBack_step:
  assumes "dll l (ys @ [a])" and "finite (dom (ll_heap l))"
  shows "\<exists>l'. take_node (RemoveBack l) = Inr (Some (n_data (the (ll_heap l a))), l') \<and> dll l' ys
    \<and> node_data (ll_heap l') ys = node_data (ll_heap l) ys
    \<and> finite (dom (ll_heap l')) \<and> card (dom (ll_heap l')) \<le> card (dom (ll_heap l))"
proof -
  obtain l' where l': "RemoveBack l = Inr (Some a, l')" "dll l' ys" "node_data (ll_heap l') ys = node_data (ll_heap l) ys"
    "ll_heap l' a = ll_heap l a" "dom (ll_heap l') = dom (ll_heap l)"
    using RemoveBack_spec [OF assms(1)] by blast
  show ?thesis by (rule take_removed [OF l']) (use assms in \<open>auto simp: dll_def\<close>)
qed

lemma list_step_simulates:
  assumes "dll l xs" and "allocator N malloc" and "finite (dom (ll_heap l))" and "card (dom (ll_heap l)) < N"
  shows "\<exists>v l' xs'. list_step malloc p l = Inr (v, l') \<and> dll l' xs'
    \<and> deque_step p (node_data (ll_heap l) xs) = (v, node_data (ll_heap l') xs')
    \<and> finite (dom (ll_heap l')) \<and> card (dom (ll_heap l')) \<le> Suc (card (dom (ll_heap l)))"
proof -
  obtain n where n: "malloc (ll_heap l) = Some n" "ll_heap l n = None"
    using assms(2-4) by (auto simp: allocator_def)
  have card: "card (insert n (dom (ll_heap l))) \<le> Suc (card (dom (ll_heap l)))"
    using assms(3) by (simp add: card_insert_if)
  show ?thesis
  proof (cases p)
    case (InsFront v)
    then show ?thesis using InsertFront_spec [of l xs malloc n v] n assms(1,3) card by fastforce
  next
    case (InsBack v)
    then show ?thesis using InsertBack_spec [of l xs malloc n v] n assms(1,3) card by fastforce
  next
    case RemFront
    then show ?thesis using RemFront_step [of l] assms(1,3)
      by (cases xs) (fastforce simp: take_node_def)+
  next
    case RemBack
    then show ?thesis using RemBack_step [of l] assms(1,3)
      by (cases xs rule: rev_cases) (fastforce simp: take_node_def)+
  qed
qed

text \<open>C38: every sequence of insertions and removals at either end of a linked list succeeds and
  behaves as on a double-ended queue of values, as long as the allocator has room: the same values
  come out, and the pointer structure stays a well-formed doubly linked list.\<close>

theorem LinkedList_refines_deque:
  assumes "dll l xs" and "allocator N malloc" and "finite (dom (ll_heap l))"
    and "card (dom (ll_heap l)) + length ops \<le> N"
  shows "\<exists>outs l' xs'. run_stepsE (list_step malloc) ops l = Inr (outs, l') \<and> dll l' xs'
    \<and> run_steps deque_step ops (node_data (ll_heap l) xs) = (outs, node_data (ll_heap l') xs')"
  using assms(1,3,4)
proof (induction ops arbitrary: l xs)
  case Nil
  then show ?case by auto
next
  case (Cons p ops)
  obtain v l1 xs1 where 1: "list_step malloc p l = Inr (v, l1)" "dll l1 xs1"
    "deque_step p (node_data (ll_heap l) xs) = (v, node_data (ll_heap l1) xs1)"
    "finite (dom (ll_heap l1))" "card (dom (ll_heap l1)) \<le> Suc (card (dom (ll_heap l)))"
    using list_step_simulates [OF Cons.prems(1) assms(2) Cons.prems(2), of p] Cons.prems(3) by auto
  have "card (dom (ll_heap l1)) + length ops \<le> N" using 1(5) Cons.prems(3) by simp
  from Cons.IH [OF 1(2,4) this] 1 show ?case by fastforce
qed

lemma dll_empty: "dll (LinkedList_empty h) []"
  by (simp add: dll_def LinkedList_empty_def)

theorem LinkedList_refines_deque_witness:
  "\<exists>outs l' xs'. run_stepsE (list_step (first_free 4)) [InsBack (7::int), InsFront 5, RemBack, RemFront]
        (LinkedList_empty Map.empty) = Inr (outs, l') \<and> dll l' xs'
    \<and> run_steps deque_step [InsBack 7, InsFront 5, RemBack, RemFront]
        (node_data (ll_heap (LinkedList_empty Map.empty)) []) = (outs, node_data (ll_heap l') xs')"
  by (rule LinkedList_refines_deque [OF dll_empty first_free_allocator])
    (simp_all add: LinkedList_empty_def)

text \<open>\<open>Remove\<close> of any node of the list unlinks exactly that node, wherever it is, keeps the
  data of the others and their order, and decrements the count.\<close>

theorem Remove_unlinks:
  assumes "dll l (ys @ a # zs)"
  shows "\<exists>l'. Remove (Some a) l = Inr l' \<and> dll l' (ys @ zs)
    \<and> node_data (ll_heap l') (ys @ zs) = node_data (ll_heap l) (ys @ zs)
    \<and> List_Count l' = List_Count l - 1"
proof -
  obtain l' where l': "Remove (Some a) l = Inr l'" "dll l' (ys @ zs)"
    "node_data (ll_heap l') (ys @ zs) = node_data (ll_heap l) (ys @ zs)"
    using Remove_spec [OF assms] by blast
  moreover have "List_Count l' = List_Count l - 1"
    using l'(2) assms by (simp add: dll_def List_Count_def)
  ultimately show ?thesis by blast
qed

definition three_nodes :: "int linked_list" where
  "three_nodes = \<lparr>ll_heap = [8 \<mapsto> \<lparr>n_data = 10, n_next = Some 16, n_prev = None\<rparr>,
     16 \<mapsto> \<lparr>n_data = 20, n_next = Some 24, n_prev = Some 8\<rparr>,
     24 \<mapsto> \<lparr>n_data = 30, n_next = None, n_prev = Some 16\<rparr>],
     ll_head = Some 8, ll_tail = Some 24, ll_count = 3\<rparr>"

lemma dll_three_nodes: "dll three_nodes [8, 16, 24]"
  by (simp add: dll_def three_nodes_def last_of_def)

theorem Remove_unlinks_witness:
  "\<exists>l'. Remove (Some 16) three_nodes = Inr l' \<and> dll l' ([8] @ [24])
    \<and> node_data (ll_heap l') ([8] @ [24]) = node_data (ll_heap three_nodes) ([8] @ [24])
    \<and> List_Count l' = List_Count three_nodes - 1"
  by (rule Remove_unlinks) (simp add: dll_three_nodes)

lemma Remove_null: "ll_head l \<noteq> None \<Longrightarrow> ll_tail l \<noteq> None \<Longrightarrow> Remove None l = Inl NullDeref"
  by (auto simp: Remove_def node_ops)

text \<open>\<open>RemoveBefore\<close> of the first node and \<open>RemoveAfter\<close> of the last one do not return null:
  they dereference the null pointer they found.\<close>

theorem RemoveBefore_head_faults:
  assumes "dll l xs" and "xs \<noteq> []"
  shows "RemoveBefore (Head l) l = Inl NullDeref \<and> RemoveAfter (Tail l) l = Inl NullDeref"
proof -
  obtain a ys where a: "xs = a # ys" using assms(2) by (cases xs) auto
  obtain b zs where b: "xs = zs @ [b]" using assms(2) by (cases xs rule: rev_cases) auto
  have ht: "ll_head l = Some a" "ll_tail l = Some b"
    using assms(1) a b by (auto simp: dll_def dest: arg_cong [of _ _ "\<lambda>x. last_of None x"])
  have "NodePrevious (Some a) (ll_heap l) = Inr None"
    using assms(1) a by (auto simp: dll_def node_ops)
  moreover have "NodeNext (Some b) (ll_heap l) = Inr None"
    using assms(1) unfolding b by (auto simp: dll_def node_ops)
  ultimately show ?thesis
    using ht Remove_null [of l] by (simp add: RemoveBefore_def RemoveAfter_def Head_def Tail_def)
qed

theorem RemoveBefore_head_faults_witness:
  "RemoveBefore (Head three_nodes) three_nodes = Inl NullDeref
    \<and> RemoveAfter (Tail three_nodes) three_nodes = Inl NullDeref"
  by (rule RemoveBefore_head_faults [OF dll_three_nodes]) simp

text \<open>C39: the destructor terminates (one turn per node and one to see the empty list), does not
  fault, and frees exactly the nodes of the list.\<close>

theorem LinkedList_destroy_frees_all:
  assumes "dll l xs" and "length xs < fuel"
  shows "\<exists>l'. LinkedList_destroy fuel l = Some (Inr l') \<and> dll l' []
    \<and> dom (ll_heap l') = dom (ll_heap l) - set xs"
  using assms
proof (induction fuel arbitrary: l xs)
  case 0
  then show ?case by simp
next
  case (Suc fuel)
  show ?case
  proof (cases xs rule: rev_cases)
    case Nil
    then show ?thesis using Suc.prems by auto
  next
    case (snoc ys a)
    obtain l1 where l1: "RemoveBack l = Inr (Some a, l1)" "dll l1 ys" "dom (ll_heap l1) = dom (ll_heap l)"
      using RemoveBack_spec Suc.prems(1) snoc by blast
    have "a \<notin> set ys" using Suc.prems(1) snoc by (simp add: dll_def)
    then have "dll (l1\<lparr>ll_heap := (ll_heap l1)(a := None)\<rparr>) ys" by (rule dll_free [OF l1(2)])
    moreover have "length ys < fuel" using Suc.prems(2) snoc by simp
    ultimately obtain l' where "LinkedList_destroy fuel (l1\<lparr>ll_heap := (ll_heap l1)(a := None)\<rparr>) = Some (Inr l')"
      "dll l' []" "dom (ll_heap l') = dom (ll_heap l1) - {a} - set ys"
      using Suc.IH by fastforce
    then show ?thesis using l1 snoc by auto
  qed
qed

theorem LinkedList_destroy_frees_all_witness:
  "\<exists>l'. LinkedList_destroy 4 three_nodes = Some (Inr l') \<and> dll l' []
    \<and> dom (ll_heap l') = dom (ll_heap three_nodes) - set [8, 16, 24]"
  by (rule LinkedList_destroy_frees_all [OF dll_three_nodes]) simp

end
