(* ===== verification/List_Tests.thy ===== *)
theory List_Tests
  imports Linked_List
begin

text \<open>
  The project's own unit test, \<open>Tests/test-lib/test-linkedlist.cpp\<close>, on the model of the list: every section is a
  function that fails where a \<open>REQUIRE\<close> of the test would, and for every allocator with room for 255 nodes none
  fails.  The data are the bytes of \<open>uint8_t\<close>; the comparison with the loop counter is one of integers.
\<close>

section \<open>The sections\<close>

definition UINT8_MAX :: nat where "UINT8_MAX = 255"

definition REQUIRE :: "bool \<Rightarrow> unit outcome" where
  "REQUIRE b = (if b then Inr () else Inl (Panic ''REQUIRE''))"

definition constructor_section :: "(u8 heap \<Rightarrow> addr option) \<Rightarrow> u8 heap \<Rightarrow> unit outcome" where
  "constructor_section malloc h =
     bindE (LinkedList_single malloc 0 h) (\<lambda>list2.
     bindE (REQUIRE (Head list2 \<noteq> None)) (\<lambda>_.
     bindE (NodeData (Head list2) (ll_heap list2)) (\<lambda>d. REQUIRE (d = 0))))"

definition insert_all :: "(u8 \<Rightarrow> u8 linked_list \<Rightarrow> u8 linked_list outcome) \<Rightarrow> u8 linked_list \<Rightarrow> u8 linked_list outcome" where
  "insert_all ins list =
     bindE (foldE (\<lambda>i. ins (of_nat i)) [0..<UINT8_MAX] list) (\<lambda>l.
     bindE (REQUIRE (List_Count l = of_nat UINT8_MAX)) (\<lambda>_. Inr l))"

text \<open>The loop that removes, checks and deletes, with the value that each round requires.\<close>

definition remove_all ::
    "(u8 linked_list \<Rightarrow> (addr option \<times> u8 linked_list) outcome) \<Rightarrow> nat list \<Rightarrow> u8 linked_list \<Rightarrow> unit outcome" where
  "remove_all rem wanted list =
     bindE (foldE (\<lambda>w l. bindE (take_node (rem l)) (\<lambda>(d, l1). bindE (REQUIRE (map_option unat d = Some w)) (\<lambda>_. Inr l1))) wanted list)
       (\<lambda>l. REQUIRE (List_Count l = 0))"

definition counting_down :: "nat list" where
  "counting_down = rev [1..<UINT8_MAX + 1]"

definition linked_list_sections :: "(u8 heap \<Rightarrow> addr option) \<Rightarrow> u8 heap \<Rightarrow> unit outcome list" where
  "linked_list_sections malloc h =
     (let list = LinkedList_empty h in
      [constructor_section malloc h,
       bindE (insert_all (InsertBack malloc) list) (\<lambda>_. Inr ()),
       bindE (insert_all (InsertBack malloc) list) (remove_all RemoveBack (map (\<lambda>i. i - 1) counting_down)),
       bindE (insert_all (InsertBack malloc) list) (remove_all RemoveFront [0..<UINT8_MAX]),
       bindE (insert_all (InsertFront malloc) list) (remove_all RemoveBack (map (\<lambda>i. UINT8_MAX - i) counting_down)),
       bindE (insert_all (InsertFront malloc) list) (remove_all RemoveFront (map (\<lambda>i. i - 1) counting_down))])"

section \<open>The test passes\<close>

lemma counting: "map (\<lambda>i. i - 1) counting_down = rev [0..<255]" "map (\<lambda>i. UINT8_MAX - i) counting_down = [0..<255]"
proof -
  show "map (\<lambda>i. i - 1) counting_down = rev [0..<255]"
    unfolding counting_down_def UINT8_MAX_def by (rule nth_equalityI) (simp_all add: rev_nth nth_upt)
  show "map (\<lambda>i. UINT8_MAX - i) counting_down = [0..<255]"
    unfolding counting_down_def UINT8_MAX_def by (rule nth_equalityI) (simp_all add: rev_nth nth_upt)
qed

definition holds :: "nat \<Rightarrow> u8 linked_list \<Rightarrow> nat list \<Rightarrow> bool" where
  "holds m l ws \<longleftrightarrow> (\<exists>xs. dll l xs \<and> node_data (ll_heap l) xs = map of_nat ws) \<and> finite (dom (ll_heap l))
     \<and> card (dom (ll_heap l)) \<le> m \<and> (\<forall>w \<in> set ws. w < 256)"

lemma holds_count: "holds m l ws \<Longrightarrow> List_Count l = of_nat (length ws)"
  by (auto simp: holds_def dll_def List_Count_def node_data_def dest!: arg_cong [of "map _ _" _ length])

lemma insert_holds:
  assumes "holds m l ws" "allocator N malloc" "m < N" "w < 256"
  shows "\<exists>l'. InsertBack malloc (of_nat w) l = Inr l' \<and> holds (Suc m) l' (ws @ [w])"
    "\<exists>l'. InsertFront malloc (of_nat w) l = Inr l' \<and> holds (Suc m) l' (w # ws)"
proof -
  obtain xs where xs: "dll l xs" "node_data (ll_heap l) xs = map of_nat ws" and f: "finite (dom (ll_heap l))" "card (dom (ll_heap l)) \<le> m"
    using assms(1) by (auto simp: holds_def)
  obtain n where n: "malloc (ll_heap l) = Some n" "ll_heap l n = None"
    using assms(2,3) f by (auto simp: allocator_def)
  have c: "card (insert n (dom (ll_heap l))) \<le> Suc m" using f by (simp add: card_insert_if)
  show "\<exists>l'. InsertBack malloc (of_nat w) l = Inr l' \<and> holds (Suc m) l' (ws @ [w])"
    using InsertBack_spec [of l xs malloc n "of_nat w", OF xs(1) n] xs(2) f c assms(1,4) by (fastforce simp: holds_def)
  show "\<exists>l'. InsertFront malloc (of_nat w) l = Inr l' \<and> holds (Suc m) l' (w # ws)"
    using InsertFront_spec [of l xs malloc n "of_nat w", OF xs(1) n] xs(2) f c assms(1,4) by (fastforce simp: holds_def)
qed

lemma insert_many:
  assumes "holds m l ws" "allocator N malloc" "m + length is \<le> N" "\<forall>i \<in> set is. i < 256"
  shows "\<exists>l'. foldE (\<lambda>i. InsertBack malloc (of_nat i)) is l = Inr l' \<and> holds (m + length is) l' (ws @ is)"
    "\<exists>l'. foldE (\<lambda>i. InsertFront malloc (of_nat i)) is l = Inr l' \<and> holds (m + length is) l' (rev is @ ws)"
  using assms(1,3,4)
proof (induction "is" arbitrary: m l ws)
  case (Cons i "is")
  {
    case 1
    then obtain l1 where l1: "InsertBack malloc (of_nat i) l = Inr l1" "holds (Suc m) l1 (ws @ [i])"
      using insert_holds(1) [OF 1(1) assms(2), of i] by auto
    from Cons.IH(1) [OF l1(2)] l1(1) 1(2,3) show ?case by simp
  next
    case 2
    then obtain l1 where l1: "InsertFront malloc (of_nat i) l = Inr l1" "holds (Suc m) l1 (i # ws)"
      using insert_holds(2) [OF 2(1) assms(2), of i] by auto
    from Cons.IH(2) [OF l1(2)] l1(1) 2(2,3) show ?case by simp
  }
qed simp_all

lemma remove_holds:
  "holds m l (w # ws) \<Longrightarrow> \<exists>l'. take_node (RemoveFront l) = Inr (Some (of_nat w), l') \<and> holds m l' ws"
  "holds m l (ws @ [w]) \<Longrightarrow> \<exists>l'. take_node (RemoveBack l) = Inr (Some (of_nat w), l') \<and> holds m l' ws"
proof -
  assume h: "holds m l (w # ws)"
  then obtain a xs where "dll l (a # xs)" "n_data (the (ll_heap l a)) = of_nat w" "node_data (ll_heap l) xs = map of_nat ws"
    by (auto simp: holds_def node_data_def map_eq_Cons_conv)
  with RemFront_step [of l a xs] h show "\<exists>l'. take_node (RemoveFront l) = Inr (Some (of_nat w), l') \<and> holds m l' ws"
    by (fastforce simp: holds_def)
next
  assume h: "holds m l (ws @ [w])"
  then obtain a xs where "dll l (xs @ [a])" "n_data (the (ll_heap l a)) = of_nat w" "node_data (ll_heap l) xs = map of_nat ws"
    by (auto simp: holds_def node_data_def map_eq_append_conv)
  with RemBack_step [of l xs a] h show "\<exists>l'. take_node (RemoveBack l) = Inr (Some (of_nat w), l') \<and> holds m l' ws"
    by (fastforce simp: holds_def)
qed

lemma unat_byte: "w < 256 \<Longrightarrow> unat (of_nat w :: u8) = w"
  by (simp add: unat_of_nat take_bit_nat_eq_self)

lemma remove_all_passes:
  "holds m l ws \<Longrightarrow> remove_all RemoveFront ws l = Inr ()"
  "holds m l ws \<Longrightarrow> remove_all RemoveBack (rev ws) l = Inr ()"
proof -
  have zero: "REQUIRE (List_Count l = 0) = Inr ()" if "holds m l []" for l using holds_count [OF that] by (simp add: REQUIRE_def)
  show "holds m l ws \<Longrightarrow> remove_all RemoveFront ws l = Inr ()"
  proof (induction ws arbitrary: l)
    case (Cons w ws)
    obtain l1 where l1: "take_node (RemoveFront l) = Inr (Some (of_nat w), l1)" "holds m l1 ws" using remove_holds(1) [OF Cons.prems] by blast
    have "w < 256" using Cons.prems by (simp add: holds_def)
    then show ?case using Cons.IH [OF l1(2)] l1(1) by (simp add: remove_all_def REQUIRE_def unat_byte)
  qed (simp add: remove_all_def zero)
  show "holds m l ws \<Longrightarrow> remove_all RemoveBack (rev ws) l = Inr ()"
  proof (induction ws arbitrary: l rule: rev_induct)
    case (snoc w ws)
    obtain l1 where l1: "take_node (RemoveBack l) = Inr (Some (of_nat w), l1)" "holds m l1 ws" using remove_holds(2) [OF snoc.prems] by blast
    have "w < 256" using snoc.prems by (simp add: holds_def)
    then show ?case using snoc.IH [OF l1(2)] l1(1) by (simp add: remove_all_def REQUIRE_def unat_byte)
  qed (simp add: remove_all_def zero)
qed

theorem linked_list_test_passes:
  assumes "finite (dom h)" "allocator N malloc" "card (dom h) + 255 \<le> N"
  shows "\<forall>r \<in> set (linked_list_sections malloc h). r = Inr ()"
proof -
  let ?m = "card (dom h)"
  have e: "holds ?m (LinkedList_empty h) []" using dll_empty [of h] assms(1) by (auto simp: holds_def LinkedList_empty_def node_data_def)
  have n: "?m + length [0..<UINT8_MAX] \<le> N" "\<forall>i \<in> set [0..<UINT8_MAX]. i < 256" using assms(3) by (simp_all add: UINT8_MAX_def)
  obtain b where b: "insert_all (InsertBack malloc) (LinkedList_empty h) = Inr b" "holds (?m + 255) b [0..<255]"
    using insert_many(1) [OF e assms(2) n] holds_count by (fastforce simp: insert_all_def REQUIRE_def UINT8_MAX_def)
  obtain f where f: "insert_all (InsertFront malloc) (LinkedList_empty h) = Inr f" "holds (?m + 255) f (rev [0..<255])"
    using insert_many(2) [OF e assms(2) n] holds_count by (fastforce simp: insert_all_def REQUIRE_def UINT8_MAX_def)
  have "card (dom h) < N" using assms(3) by simp
  then obtain n where "malloc h = Some n" using assms(1,2) unfolding allocator_def by blast
  then have "constructor_section malloc h = Inr ()"
    by (simp add: constructor_section_def LinkedList_single_def InsertFront_def LinkedList_empty_def node_ops Head_def REQUIRE_def)
  then show ?thesis
    using b(1) f(1) remove_all_passes(1) [OF b(2)] remove_all_passes(2) [OF b(2)] remove_all_passes(1) [OF f(2)] remove_all_passes(2) [OF f(2)]
    unfolding linked_list_sections_def Let_def counting by (simp add: UINT8_MAX_def)
qed

theorem linked_list_test_passes_witness:
  "\<forall>r \<in> set (linked_list_sections (first_free 255) Map.empty). r = Inr ()"
  by (rule linked_list_test_passes [OF _ first_free_allocator]) simp_all

end
