(* ===== verification/Task_Queue.thy ===== *)
theory Task_Queue
  imports Xyris_Prelude
begin

text \<open>
  The task control block and the intrusive singly linked task lists of
  \<open>Kernel/Scheduler/tasks.hpp\<close> and \<open>tasks.cpp\<close>.  All task structures live in one store
  \<open>addr \<Rightarrow> task\<close>; a list is its \<open>head\<close> and \<open>tail\<close> pointer.  \<open>tlist\<close> relates a list object to
  the sequence of tasks it threads through the \<open>next\<close> fields; the lemmas say how the three list
  operations act on that sequence and what they leave alone.
\<close>

section \<open>Task control blocks and lists\<close>

datatype task_state =
  TASK_RUNNING | TASK_READY | TASK_SLEEPING | TASK_BLOCKED | TASK_STOPPED | TASK_PAUSED

datatype task_alloc = ALLOC_STATIC | ALLOC_DYNAMIC

record task =
  stack_top :: u32
  page_dir :: u32
  t_next :: "addr option"
  t_state :: task_state
  time_used :: u64
  wakeup_time :: u64
  t_name :: string
  t_alloc :: task_alloc

record tasklist =
  tl_head :: "addr option"
  tl_tail :: "addr option"

type_synonym task_store = "addr \<Rightarrow> task"

definition empty_list :: tasklist where
  "empty_list = \<lparr>tl_head = None, tl_tail = None\<rparr>"

definition set_next :: "addr \<Rightarrow> addr option \<Rightarrow> task_store \<Rightarrow> task_store" where
  "set_next t q h = h(t := (h t)\<lparr>t_next := q\<rparr>)"

definition enqueue_task :: "tasklist \<Rightarrow> addr \<Rightarrow> task_store \<Rightarrow> tasklist \<times> task_store" where
  "enqueue_task list task h =
     (let list1 = (if tl_head list = None then list\<lparr>tl_head := Some task\<rparr> else list);
          h1 = (case tl_tail list1 of None \<Rightarrow> h | Some z \<Rightarrow> set_next z (Some task) h);
          h2 = set_next task None h1
      in (list1\<lparr>tl_tail := Some task\<rparr>, h2))"

definition dequeue_task :: "tasklist \<Rightarrow> task_store \<Rightarrow> addr option \<times> tasklist \<times> task_store" where
  "dequeue_task list h =
     (case tl_head list of
        None \<Rightarrow> (None, list, h)
      | Some task \<Rightarrow>
          (let list1 = list\<lparr>tl_head := t_next (h task)\<rparr>;
               list2 = (if tl_head list1 = None then list1\<lparr>tl_tail := None\<rparr> else list1)
           in (Some task, list2, set_next task None h)))"

definition remove_task :: "tasklist \<Rightarrow> addr \<Rightarrow> addr option \<Rightarrow> task_store \<Rightarrow> (tasklist \<times> task_store) outcome" where
  "remove_task list task previous h =
     (if (case previous of None \<Rightarrow> False | Some p \<Rightarrow> t_next (h p) \<noteq> Some task)
      then Inl (Panic ''Bogus arguments to _remove_task.'')
      else
        (let list1 = (if tl_head list = Some task then list\<lparr>tl_head := t_next (h task)\<rparr> else list);
             list2 = (if tl_tail list1 = Some task then list1\<lparr>tl_tail := previous\<rparr> else list1);
             h1 = (case previous of None \<Rightarrow> h | Some p \<Rightarrow> set_next p (t_next (h task)) h)
         in Inr (list2, set_next task None h1)))"

section \<open>The sequence of tasks a list holds\<close>

fun chain :: "task_store \<Rightarrow> addr option \<Rightarrow> addr list \<Rightarrow> addr option \<Rightarrow> bool" where
  "chain h p [] q \<longleftrightarrow> p = q"
| "chain h p (a # as) q \<longleftrightarrow> p = Some a \<and> chain h (t_next (h a)) as q"

definition last_ptr :: "addr list \<Rightarrow> addr option" where
  "last_ptr xs = (if xs = [] then None else Some (last xs))"

definition tlist :: "task_store \<Rightarrow> tasklist \<Rightarrow> addr list \<Rightarrow> bool" where
  "tlist h l xs \<longleftrightarrow> distinct xs \<and> chain h (tl_head l) xs None \<and> tl_tail l = last_ptr xs"

lemma last_ptr_simps [simp]:
  "last_ptr [] = None" "last_ptr (xs @ [x]) = Some x" "last_ptr (x # y # ys) = last_ptr (y # ys)"
  "last_ptr [x] = Some x" "last_ptr (xs @ y # ys) = last_ptr (y # ys)"
  "last_ptr (x # xs @ y # ys) = last_ptr (y # ys)"
  by (simp_all add: last_ptr_def)

lemma last_ptr_None_iff [simp]: "last_ptr xs = None \<longleftrightarrow> xs = []"
  by (simp add: last_ptr_def)

lemma last_ptr_notin [simp]: "t \<notin> set xs \<Longrightarrow> last_ptr xs \<noteq> Some t"
  by (auto simp: last_ptr_def)

lemma chain_None [simp]: "chain h None xs q \<longleftrightarrow> xs = [] \<and> q = None"
  by (cases xs) auto

lemma chain_append [simp]: "chain h p (xs @ ys) q \<longleftrightarrow> (\<exists>r. chain h p xs r \<and> chain h r ys q)"
  by (induction xs arbitrary: p) auto

lemma chain_cong: "(\<And>a. a \<in> set xs \<Longrightarrow> t_next (h' a) = t_next (h a)) \<Longrightarrow> chain h' p xs q = chain h p xs q"
  by (induction xs arbitrary: p) auto

lemma chain_set_next [simp]: "a \<notin> set xs \<Longrightarrow> chain (set_next a r h) p xs q = chain h p xs q"
  by (rule chain_cong) (auto simp: set_next_def)

lemma set_next_simps [simp]:
  "t_next (set_next a r h a) = r" "b \<noteq> a \<Longrightarrow> set_next a r h b = h b"
  "t_state (set_next a r h b) = t_state (h b)" "wakeup_time (set_next a r h b) = wakeup_time (h b)"
  "time_used (set_next a r h b) = time_used (h b)" "stack_top (set_next a r h b) = stack_top (h b)"
  "t_name (set_next a r h b) = t_name (h b)" "t_alloc (set_next a r h b) = t_alloc (h b)"
  "page_dir (set_next a r h b) = page_dir (h b)"
  by (simp_all add: set_next_def)

text \<open>A list does not depend on tasks that are not in it, nor on fields other than \<open>next\<close>.\<close>

lemma tlist_cong: "(\<And>a. a \<in> set xs \<Longrightarrow> t_next (h' a) = t_next (h a)) \<Longrightarrow> tlist h' l xs = tlist h l xs"
  using chain_cong [of xs h' h] by (auto simp: tlist_def)

lemma tlist_empty [simp]: "tlist h empty_list []"
  by (simp add: tlist_def empty_list_def)

lemma tlist_head: "tlist h l xs \<Longrightarrow> tl_head l = (case xs of [] \<Rightarrow> None | x # _ \<Rightarrow> Some x)"
  by (cases xs) (auto simp: tlist_def)

lemma tlist_unique: "tlist h l xs \<Longrightarrow> tlist h l ys \<Longrightarrow> xs = ys"
proof -
  have "chain h p xs None \<Longrightarrow> chain h p ys None \<Longrightarrow> xs = ys" for p
  proof (induction xs arbitrary: p ys)
    case Nil
    then show ?case by (cases ys) auto
  next
    case (Cons x xs)
    then show ?case by (cases ys) auto
  qed
  then show "tlist h l xs \<Longrightarrow> tlist h l ys \<Longrightarrow> xs = ys" by (auto simp: tlist_def)
qed

text \<open>\<open>frame h' h A\<close>: only the \<open>next\<close> fields of the tasks in \<open>A\<close> may have changed.\<close>

definition frame :: "task_store \<Rightarrow> task_store \<Rightarrow> addr set \<Rightarrow> bool" where
  "frame h' h A \<longleftrightarrow> (\<forall>a. a \<notin> A \<longrightarrow> h' a = h a) \<and> (\<forall>a. (h' a)\<lparr>t_next := None\<rparr> = (h a)\<lparr>t_next := None\<rparr>)"

lemma frame_refl [simp]: "frame h h A"
  by (simp add: frame_def)

lemma frame_trans: "frame h2 h1 A \<Longrightarrow> frame h1 h0 A \<Longrightarrow> frame h2 h0 A"
  by (auto simp: frame_def)

lemma frame_mono: "frame h' h A \<Longrightarrow> A \<subseteq> B \<Longrightarrow> frame h' h B"
  by (auto simp: frame_def)

lemma frame_set_next: "a \<in> A \<Longrightarrow> frame (set_next a q h) h A"
  by (auto simp: frame_def set_next_def)

lemma frame_fields:
  assumes "frame h' h A"
  shows "t_state (h' a) = t_state (h a)" "wakeup_time (h' a) = wakeup_time (h a)"
    "time_used (h' a) = time_used (h a)" "stack_top (h' a) = stack_top (h a)"
proof -
  have "(h' a)\<lparr>t_next := None\<rparr> = (h a)\<lparr>t_next := None\<rparr>" using assms by (simp add: frame_def)
  then show "t_state (h' a) = t_state (h a)" "wakeup_time (h' a) = wakeup_time (h a)"
    "time_used (h' a) = time_used (h a)" "stack_top (h' a) = stack_top (h a)"
    by (metis task.select_convs(4) task.surjective task.update_convs(3),
        metis task.select_convs(6) task.surjective task.update_convs(3),
        metis task.select_convs(5) task.surjective task.update_convs(3),
        metis task.select_convs(1) task.surjective task.update_convs(3))
qed

lemma tlist_frame: "frame h' h A \<Longrightarrow> set xs \<inter> A = {} \<Longrightarrow> tlist h l xs \<Longrightarrow> tlist h' l xs"
  by (subst tlist_cong [of xs h' h]) (auto simp: frame_def)

section \<open>The three operations on the sequence\<close>

lemma enqueue_task_spec:
  assumes "tlist h l xs" and "t \<notin> set xs"
  shows "\<exists>l' h'. enqueue_task l t h = (l', h') \<and> tlist h' l' (xs @ [t]) \<and> frame h' h (insert t (set xs))"
proof (cases xs rule: rev_cases)
  case Nil
  then show ?thesis
    using assms by (simp add: enqueue_task_def tlist_def frame_set_next)
next
  case (snoc ys z)
  have "frame (set_next t None (set_next z (Some t) h)) h (insert t (set xs))"
    by (rule frame_trans; rule frame_set_next) (simp_all add: snoc)
  then show ?thesis
    using assms snoc
    by (cases "tl_head l") (auto simp: enqueue_task_def tlist_def)
qed

lemma dequeue_task_Nil: "tlist h l [] \<Longrightarrow> dequeue_task l h = (None, l, h)"
  by (simp add: dequeue_task_def tlist_def)

lemma dequeue_task_Cons:
  assumes "tlist h l (t # xs)"
  shows "\<exists>l' h'. dequeue_task l h = (Some t, l', h') \<and> tlist h' l' xs \<and> frame h' h {t}"
  using assms by (cases xs) (auto simp: dequeue_task_def tlist_def frame_set_next)

lemma remove_task_spec:
  assumes "tlist h l (ys @ t # zs)"
  shows "\<exists>l' h'. remove_task l t (last_ptr ys) h = Inr (l', h') \<and> tlist h' l' (ys @ zs)
    \<and> frame h' h (insert t (set ys))"
proof (cases ys rule: rev_cases)
  case Nil
  then show ?thesis
    using assms by (cases zs) (auto simp: remove_task_def tlist_def frame_set_next Let_def)
next
  case (snoc ws p)
  have fr: "frame (set_next t None (set_next p q h)) h (insert t (set ys))" for q
    by (rule frame_trans; rule frame_set_next) (simp_all add: snoc)
  have d: "t \<notin> set ys" "p \<notin> set ws" "p \<noteq> t" "t \<notin> set zs" "p \<notin> set zs" "distinct (ys @ zs)"
    using assms snoc by (auto simp: tlist_def)
  have hd: "tl_head l \<noteq> Some t"
    using tlist_head [OF assms] d(1,3) snoc by (cases ws) auto
  obtain r where r: "chain h (tl_head l) ws (Some p)" "t_next (h p) = Some t" "chain h (t_next (h t)) zs None"
    using assms snoc by (auto simp: tlist_def)
  let ?h = "set_next t None (set_next p (t_next (h t)) h)"
  have ch: "chain ?h (tl_head l) (ws @ p # zs) None"
    using r d snoc by simp
  show ?thesis
  proof (cases zs rule: rev_cases)
    case Nil
    then have "tl_tail l = Some t" using assms by (simp add: tlist_def)
    then show ?thesis
      using r hd ch d fr snoc Nil by (simp add: remove_task_def tlist_def Let_def)
  next
    case (snoc us z)
    then have "tl_tail l = Some z" "z \<noteq> t" using assms d by (auto simp: tlist_def)
    then show ?thesis
      using r hd ch d fr snoc \<open>ys = ws @ [p]\<close> by (simp add: remove_task_def tlist_def Let_def)
  qed
qed

end
