(* ===== verification/Scheduler.thy ===== *)
theory Scheduler
  imports Task_Queue
begin

text \<open>
  \<open>Kernel/Scheduler/tasks.cpp\<close> and the context switch \<open>tasks_switch_to\<close> of
  \<open>Kernel/Arch/i686/Assembly/tasks.s\<close>: one record holds the file's static variables, the CPU
  registers the code touches and the task store.

  A pointer to a task list is a \<open>qid\<close>.  The time stamp counter is a stream: read number \<open>i\<close> of
  \<open>rdtsc\<close> returns \<open>tsc i\<close>.  Calls of the logger are left out.

  One execution is followed through all tasks.  A real switch happens only inside the
  \<open>_schedule\<close> that an outermost \<open>_release_scheduler_lock\<close> makes; what the switched-to task does
  next is the rest of its own outermost release, or \<open>_task_starting\<close>, and both are the same two
  statements (\<open>_scheduler_lock--\<close> and \<open>sti\<close> at zero).  So continuing after the switch in the model
  is continuing in the new task.

  \<open>_schedule\<close> waits in an idle loop when nothing is ready, and the loop is left through timer
  interrupts, whose handler calls \<open>_schedule\<close> again.  The recursion is unfolded by the number of
  timer interrupts \<open>n\<close> the idle loop may take; \<open>Hang\<close> means that \<open>n\<close> interrupts made nothing
  ready.  Other interrupts do not touch the scheduler's state.
\<close>

section \<open>State\<close>

record task_sync =
  possessor :: "addr option"
  dbg_name :: "string option"
  waiting :: tasklist

datatype qid = QReady | QSleeping | QStopped | QWait addr

record sched =
  tasks :: task_store
  current_task :: "addr option"
  tasks_ready :: tasklist
  tasks_sleeping :: tasklist
  tasks_stopped :: tasklist
  syncs :: "addr \<Rightarrow> task_sync"
  idle_time :: u64
  idle_start :: u64
  last_time :: u64
  time_slice_remaining :: u64
  last_timer_time :: u64
  scheduler_lock :: u32
  postpone_count :: u32
  scheduler_postponed :: bool
  instr_per_ns :: u64
  intr :: bool
  tsc :: "nat \<Rightarrow> u64"
  tsc_reads :: nat
  cpu_esp :: u32
  cpu_cr3 :: u32
  stack_mem :: "u32 \<Rightarrow> u32"

definition TIME_SLICE_SIZE :: u64 where
  "TIME_SLICE_SIZE = 1 * 1000 * 1000"

definition tasks_sync_init :: "addr \<Rightarrow> sched \<Rightarrow> sched" where
  "tasks_sync_init ts s =
     s\<lparr>syncs := (syncs s)(ts := \<lparr>possessor = None, dbg_name = None, waiting = empty_list\<rparr>)\<rparr>"

fun qlist :: "sched \<Rightarrow> qid \<Rightarrow> tasklist" where
  "qlist s QReady = tasks_ready s"
| "qlist s QSleeping = tasks_sleeping s"
| "qlist s QStopped = tasks_stopped s"
| "qlist s (QWait a) = waiting (syncs s a)"

fun set_qlist :: "qid \<Rightarrow> tasklist \<Rightarrow> sched \<Rightarrow> sched" where
  "set_qlist QReady l s = s\<lparr>tasks_ready := l\<rparr>"
| "set_qlist QSleeping l s = s\<lparr>tasks_sleeping := l\<rparr>"
| "set_qlist QStopped l s = s\<lparr>tasks_stopped := l\<rparr>"
| "set_qlist (QWait a) l s = s\<lparr>syncs := (syncs s)(a := (syncs s a)\<lparr>waiting := l\<rparr>)\<rparr>"

definition upd_task :: "addr \<Rightarrow> (task \<Rightarrow> task) \<Rightarrow> sched \<Rightarrow> sched" where
  "upd_task t f s = s\<lparr>tasks := (tasks s)(t := f (tasks s t))\<rparr>"

text \<open>The list operations on the lists of the state.\<close>

definition enqueue_on :: "qid \<Rightarrow> addr \<Rightarrow> sched \<Rightarrow> sched" where
  "enqueue_on q t s =
     (let (l, h) = enqueue_task (qlist s q) t (tasks s) in set_qlist q l (s\<lparr>tasks := h\<rparr>))"

definition dequeue_on :: "qid \<Rightarrow> sched \<Rightarrow> addr option \<times> sched" where
  "dequeue_on q s =
     (let (t, l, h) = dequeue_task (qlist s q) (tasks s) in (t, set_qlist q l (s\<lparr>tasks := h\<rparr>)))"

definition remove_on :: "qid \<Rightarrow> addr \<Rightarrow> addr option \<Rightarrow> sched \<Rightarrow> sched outcome" where
  "remove_on q t pre s =
     bindE (remove_task (qlist s q) t pre (tasks s))
       (\<lambda>(l, h). Inr (set_qlist q l (s\<lparr>tasks := h\<rparr>)))"

definition tasks_enqueue_ready :: "addr \<Rightarrow> sched \<Rightarrow> sched" where
  "tasks_enqueue_ready t s = enqueue_on QReady t s"

definition tasks_dequeue_ready :: "sched \<Rightarrow> addr option \<times> sched" where
  "tasks_dequeue_ready s = dequeue_on QReady s"

section \<open>The scheduler lock and the clock\<close>

definition aquire_scheduler_lock :: "sched \<Rightarrow> sched" where
  "aquire_scheduler_lock s =
     s\<lparr>intr := False, postpone_count := postpone_count s + 1, scheduler_lock := scheduler_lock s + 1\<rparr>"

definition release_with :: "(sched \<Rightarrow> sched outcome) \<Rightarrow> sched \<Rightarrow> sched outcome" where
  "release_with schedule s =
     (let s1 = s\<lparr>postpone_count := postpone_count s - 1\<rparr> in
      bindE (if postpone_count s1 = 0 \<and> scheduler_postponed s1
             then schedule (s1\<lparr>scheduler_postponed := False\<rparr>) else Inr s1)
        (\<lambda>s2. let s3 = s2\<lparr>scheduler_lock := scheduler_lock s2 - 1\<rparr> in
              Inr (if scheduler_lock s3 = 0 then s3\<lparr>intr := True\<rparr> else s3)))"

definition rdtsc :: "sched \<Rightarrow> u64 \<times> sched" where
  "rdtsc s = (tsc s (tsc_reads s), s\<lparr>tsc_reads := tsc_reads s + 1\<rparr>)"

text \<open>The busy wait on \<open>timer_tick\<close> between the two reads has no effect on the state.\<close>

definition discover_cpu_speed :: "sched \<Rightarrow> sched" where
  "discover_cpu_speed s =
     (let (curr_rtsc, s1) = rdtsc s; (now, s2) = rdtsc s1;
          d = (now - curr_rtsc) div 1000000
      in s2\<lparr>instr_per_ns := (if d = 0 then 1 else d)\<rparr>)"

text \<open>A zero divisor would fault on the machine; \<open>discover_cpu_speed\<close> excludes it.\<close>

definition get_cpu_time_ns :: "sched \<Rightarrow> u64 \<times> sched" where
  "get_cpu_time_ns s = (let (c, s1) = rdtsc s in (c div instr_per_ns s, s1))"

definition tasks_update_time :: "sched \<Rightarrow> sched" where
  "tasks_update_time s =
     (let (current_time, s1) = get_cpu_time_ns s;
          delta = current_time - last_time s1;
          s2 = (case current_task s1 of
                  None \<Rightarrow> s1\<lparr>idle_time := idle_time s1 + delta\<rparr>
                | Some c \<Rightarrow> upd_task c (\<lambda>t. t\<lparr>time_used := time_used t + delta\<rparr>) s1)
      in s2\<lparr>last_time := current_time\<rparr>)"

section \<open>Context switch\<close>

text \<open>The call pushes the return address and the routine four registers; the matching pops and
  \<open>ret\<close> of the new task's stack undo the same twenty bytes.\<close>

definition tasks_switch_to :: "addr \<Rightarrow> sched \<Rightarrow> sched outcome" where
  "tasks_switch_to new_task s =
     (case current_task s of
        None \<Rightarrow> Inl NullDeref
      | Some prev \<Rightarrow>
          (let s1 = upd_task prev (\<lambda>t. t\<lparr>stack_top := cpu_esp s - 20\<rparr>) s;
               s2 = (if t_state (tasks s1 prev) = TASK_RUNNING
                     then tasks_enqueue_ready prev (upd_task prev (\<lambda>t. t\<lparr>t_state := TASK_READY\<rparr>) s1)
                     else s1);
               s3 = s2\<lparr>current_task := Some new_task, cpu_esp := stack_top (tasks s2 new_task) + 20\<rparr>;
               s4 = upd_task new_task (\<lambda>t. t\<lparr>t_state := TASK_RUNNING\<rparr>) s3
           in Inr (s4\<lparr>cpu_cr3 := page_dir (tasks s4 new_task)\<rparr>)))"

section \<open>Scheduling\<close>

definition schedule_with :: "(sched \<Rightarrow> (addr \<times> sched) outcome) \<Rightarrow> sched \<Rightarrow> sched outcome" where
  "schedule_with idle s =
     (if postpone_count s \<noteq> 0 then Inr (s\<lparr>scheduler_postponed := True\<rparr>)
      else case current_task s of
        None \<Rightarrow> Inr s
      | Some cur \<Rightarrow>
          (let (task, s1) = tasks_dequeue_ready s;
               switch = (\<lambda>(t, s2).
                 let (now, s3) = get_cpu_time_ns (s2\<lparr>time_slice_remaining := TIME_SLICE_SIZE\<rparr>)
                 in tasks_switch_to t (s3\<lparr>last_timer_time := now\<rparr>))
           in case task of
                Some t \<Rightarrow> switch (t, tasks_update_time s1)
              | None \<Rightarrow>
                  if t_state (tasks s1 cur) = TASK_RUNNING
                  then Inr (s1\<lparr>time_slice_remaining := TIME_SLICE_SIZE\<rparr>)
                  else
                    (let s2 = tasks_update_time (s1\<lparr>time_slice_remaining := 0\<rparr>);
                         (start, s3) = get_cpu_time_ns (s2\<lparr>current_task := None\<rparr>)
                     in bindE (idle (s3\<lparr>idle_start := start\<rparr>))
                          (\<lambda>(t, s4).
                             let s5 = (tasks_update_time s4)\<lparr>current_task := Some cur\<rparr>;
                                 (now, s6) = get_cpu_time_ns s5;
                                 s7 = s6\<lparr>idle_start := idle_start s6 - now\<rparr>
                             in switch (t, s7\<lparr>idle_time := idle_time s7 + idle_start s7\<rparr>)))))"

definition wakeup :: "addr \<Rightarrow> sched \<Rightarrow> sched" where
  "wakeup t s =
     tasks_enqueue_ready t (upd_task t (\<lambda>k. k\<lparr>t_state := TASK_READY, wakeup_time := 0 - 1\<rparr>) s)"

text \<open>The loop over the sleeping list: the result says whether a task was woken.\<close>

partial_function (option) wake_sleepers ::
    "u64 \<Rightarrow> addr option \<Rightarrow> addr option \<Rightarrow> bool \<Rightarrow> sched \<Rightarrow> (bool \<times> sched) outcome option" where
  "wake_sleepers time pre task need s =
     (case task of
        None \<Rightarrow> Some (Inr (need, s))
      | Some t \<Rightarrow>
          (let nxt = t_next (tasks s t) in
           if time \<ge> wakeup_time (tasks s t)
           then (case remove_on QSleeping t pre s of
                   Inl e \<Rightarrow> Some (Inl e)
                 | Inr s1 \<Rightarrow>
                     wake_sleepers time pre nxt True
                       (upd_task t (\<lambda>k. k\<lparr>t_next := None\<rparr>) (wakeup t s1)))
           else wake_sleepers time (Some t) nxt need s))"

definition on_timer_with :: "(sched \<Rightarrow> sched outcome) \<Rightarrow> sched \<Rightarrow> sched outcome" where
  "on_timer_with schedule s =
     (let s0 = aquire_scheduler_lock s;
          (time, s1) = get_cpu_time_ns s0
      in case wake_sleepers time None (tl_head (tasks_sleeping s1)) False s1 of
           None \<Rightarrow> Inl Hang
         | Some r \<Rightarrow> bindE r (\<lambda>(need, s2).
             let time_delta = time - last_timer_time s2;
                 (need1, s3) =
                   (if time_slice_remaining s2 \<noteq> 0
                    then (if time_delta \<ge> time_slice_remaining s2
                          then (True, s2\<lparr>last_timer_time := time\<rparr>)
                          else (need, s2\<lparr>last_timer_time := time,
                                         time_slice_remaining := time_slice_remaining s2 - time_delta\<rparr>))
                    else (need, s2))
             in bindE (if need1 then schedule s3 else Inr s3) (release_with schedule)))"

primrec idle_loop :: "nat \<Rightarrow> sched \<Rightarrow> (addr \<times> sched) outcome" where
  "idle_loop 0 s = Inl Hang"
| "idle_loop (Suc n) s =
     bindE (on_timer_with (schedule_with (idle_loop n)) (s\<lparr>intr := True\<rparr>))
       (\<lambda>s1. let (task, s2) = tasks_dequeue_ready (s1\<lparr>intr := False\<rparr>)
             in case task of None \<Rightarrow> idle_loop n s2 | Some t \<Rightarrow> Inr (t, s2))"

definition schedule :: "nat \<Rightarrow> sched \<Rightarrow> sched outcome" where
  "schedule n = schedule_with (idle_loop n)"

definition release_scheduler_lock :: "nat \<Rightarrow> sched \<Rightarrow> sched outcome" where
  "release_scheduler_lock n = release_with (schedule n)"

definition on_timer :: "nat \<Rightarrow> sched \<Rightarrow> sched outcome" where
  "on_timer n = on_timer_with (schedule n)"

section \<open>The interface of the scheduler\<close>

definition tasks_schedule :: "nat \<Rightarrow> sched \<Rightarrow> sched outcome" where
  "tasks_schedule n s =
     bindE (schedule n (aquire_scheduler_lock s)) (release_scheduler_lock n)"

definition tasks_get_self_time :: "sched \<Rightarrow> (u64 \<times> sched) outcome" where
  "tasks_get_self_time s =
     (let s1 = tasks_update_time s in
      case current_task s1 of None \<Rightarrow> Inl NullDeref | Some c \<Rightarrow> Inr (time_used (tasks s1 c), s1))"

definition tasks_block_current :: "nat \<Rightarrow> task_state \<Rightarrow> sched \<Rightarrow> sched outcome" where
  "tasks_block_current n reason s =
     (let s0 = aquire_scheduler_lock s in
      case current_task s0 of
        None \<Rightarrow> Inl NullDeref
      | Some c \<Rightarrow>
          bindE (schedule n (upd_task c (\<lambda>t. t\<lparr>t_state := reason\<rparr>) s0)) (release_scheduler_lock n))"

definition tasks_unblock :: "nat \<Rightarrow> addr \<Rightarrow> sched \<Rightarrow> sched outcome" where
  "tasks_unblock n t s =
     release_scheduler_lock n
       (tasks_enqueue_ready t (upd_task t (\<lambda>k. k\<lparr>t_state := TASK_READY\<rparr>) (aquire_scheduler_lock s)))"

definition tasks_nano_sleep_until :: "nat \<Rightarrow> u64 \<Rightarrow> sched \<Rightarrow> sched outcome" where
  "tasks_nano_sleep_until n time s =
     (let s0 = aquire_scheduler_lock s in
      case current_task s0 of
        None \<Rightarrow> Inl NullDeref
      | Some c \<Rightarrow>
          bindE (schedule n (enqueue_on QSleeping c
                  (upd_task c (\<lambda>t. t\<lparr>t_state := TASK_SLEEPING, wakeup_time := time\<rparr>) s0)))
            (release_scheduler_lock n))"

definition tasks_nano_sleep :: "nat \<Rightarrow> u64 \<Rightarrow> sched \<Rightarrow> sched outcome" where
  "tasks_nano_sleep n time s =
     (let (now, s1) = get_cpu_time_ns s in tasks_nano_sleep_until n (now + time) s1)"

definition tasks_exit :: "nat \<Rightarrow> addr \<Rightarrow> sched \<Rightarrow> sched outcome" where
  "tasks_exit n cleaner_task s =
     (let s0 = aquire_scheduler_lock s in
      case current_task s0 of
        None \<Rightarrow> Inl NullDeref
      | Some c \<Rightarrow>
          bindE (tasks_block_current n TASK_STOPPED (enqueue_on QStopped c s0)) (\<lambda>s1.
          bindE (tasks_unblock n cleaner_task s1) (release_scheduler_lock n)))"

definition tasks_sync_block :: "nat \<Rightarrow> addr \<Rightarrow> sched \<Rightarrow> sched outcome" where
  "tasks_sync_block n ts s =
     (let s0 = aquire_scheduler_lock s in
      case current_task s0 of
        None \<Rightarrow> Inl NullDeref
      | Some c \<Rightarrow>
          bindE (tasks_block_current n TASK_BLOCKED (enqueue_on (QWait ts) c s0))
            (release_scheduler_lock n))"

partial_function (option) wake_waiters :: "addr option \<Rightarrow> sched \<Rightarrow> sched option" where
  "wake_waiters task s =
     (case task of
        None \<Rightarrow> Some s
      | Some t \<Rightarrow>
          (let nxt = t_next (tasks s t)
           in wake_waiters nxt (upd_task t (\<lambda>k. k\<lparr>t_next := None\<rparr>) (wakeup t s))))"

definition tasks_sync_unblock :: "nat \<Rightarrow> addr \<Rightarrow> sched \<Rightarrow> sched outcome" where
  "tasks_sync_unblock n ts s =
     (let s0 = aquire_scheduler_lock s in
      if tl_head (waiting (syncs s0 ts)) = None then release_scheduler_lock n s0
      else case wake_waiters (tl_head (waiting (syncs s0 ts))) s0 of
             None \<Rightarrow> Inl Hang
           | Some s1 \<Rightarrow>
               bindE (schedule n (set_qlist (QWait ts) empty_list s1)) (release_scheduler_lock n))"

section \<open>Creating and cleaning up tasks\<close>

definition stack_push_word :: "u32 \<Rightarrow> u32 \<times> (u32 \<Rightarrow> u32) \<Rightarrow> u32 \<times> (u32 \<Rightarrow> u32)" where
  "stack_push_word x = (\<lambda>(sp, m). let sp1 = sp - 4 in (sp1, m(sp1 := x)))"

text \<open>\<open>malloc\<close>, \<open>stack\<close> and \<open>pdir\<close> are what the calls of \<open>malloc\<close>, \<open>Memory::newPage\<close> (\<open>0\<close> is null) and
  \<open>Memory::getPageDirPhysAddr\<close> return; \<open>entry\<close>, \<open>starting\<close> and \<open>stopping\<close> are the addresses of the
  functions.\<close>

definition tasks_new ::
    "addr option \<Rightarrow> u32 \<Rightarrow> u32 \<Rightarrow> u32 \<Rightarrow> u32 \<Rightarrow> u32 \<Rightarrow> addr option \<Rightarrow> task_state \<Rightarrow> string \<Rightarrow> sched \<Rightarrow> (addr \<times> sched) outcome" where
  "tasks_new malloc stack pdir starting stopping entry storage st nm s =
     (case (case storage of None \<Rightarrow> malloc | Some t \<Rightarrow> Some t) of
        None \<Rightarrow> Inl (Panic ''Unable to allocate memory for new task struct.'')
      | Some t \<Rightarrow>
          if stack = 0 then Inl (Panic ''Unable to allocate memory for new task stack.'')
          else
            (let (sp, m) = fold stack_push_word [0, stopping, entry, starting, 0, 0, 0, 0]
                             (stack + 4096, stack_mem s);
                 s1 = upd_task t (\<lambda>k. k\<lparr>stack_top := sp, page_dir := pdir, t_next := None,
                        t_state := st, time_used := 0, t_name := nm,
                        t_alloc := (if storage = None then ALLOC_DYNAMIC else ALLOC_STATIC)\<rparr>)
                        (s\<lparr>stack_mem := m\<rparr>);
                 s2 = (if st = TASK_READY then tasks_enqueue_ready t s1 else s1)
             in Inr (t, s2)))"

definition task_starting :: "sched \<Rightarrow> sched" where
  "task_starting s =
     (let s1 = s\<lparr>scheduler_lock := scheduler_lock s - 1\<rparr>
      in if scheduler_lock s1 = 0 then s1\<lparr>intr := True\<rparr> else s1)"

text \<open>The statement after \<open>tasks_exit\<close> runs only if the exiting task gets the CPU back.\<close>

definition task_stopping :: "nat \<Rightarrow> addr \<Rightarrow> sched \<Rightarrow> sched outcome" where
  "task_stopping n cleaner_task s =
     bindE (tasks_exit n cleaner_task s) (\<lambda>s1.
       if current_task s1 = current_task s then Inl (Panic ''Attempted to schedule a stopped task'')
       else Inr s1)"

definition tasks_init :: "u32 \<Rightarrow> u32 \<Rightarrow> u32 \<Rightarrow> u32 \<Rightarrow> u32 \<Rightarrow> addr \<Rightarrow> addr \<Rightarrow> sched \<Rightarrow> sched outcome" where
  "tasks_init stack pdir starting stopping cleaner_impl first_task cleaner_task s =
     (let s1 = discover_cpu_speed s;
          s2 = upd_task first_task (\<lambda>_. \<lparr>stack_top = 0, page_dir = pdir, t_next = None,
                 t_state = TASK_RUNNING, time_used = 0, wakeup_time = 0, t_name = ''[main]'',
                 t_alloc = ALLOC_STATIC\<rparr>) s1
      in bindE (tasks_new None stack pdir starting stopping cleaner_impl (Some cleaner_task) TASK_PAUSED
                  ''[cleaner]'' s2) (\<lambda>(_, s3).
           let s4 = upd_task cleaner_task (\<lambda>k. k\<lparr>t_state := TASK_PAUSED\<rparr>) s3;
               (now, s5) = get_cpu_time_ns s4
           in Inr (s5\<lparr>last_time := now, last_timer_time := now,
                      time_slice_remaining := TIME_SLICE_SIZE, current_task := Some first_task\<rparr>)))"

text \<open>\<open>_clean_stopped_task\<close> gives back the stack page and, for a dynamic task, the structure.\<close>

definition clean_stopped_task :: "addr \<Rightarrow> sched \<Rightarrow> u32 \<times> addr list" where
  "clean_stopped_task t s =
     (stack_top (tasks s t) AND NOT 0xFFF, if t_alloc (tasks s t) = ALLOC_DYNAMIC then [t] else [])"

text \<open>One round of the cleaner's endless loop; \<open>freed\<close> collects what it gave back.\<close>

partial_function (option) clean_loop ::
    "(u32 \<times> addr list) list \<Rightarrow> sched \<Rightarrow> ((u32 \<times> addr list) list \<times> sched) option" where
  "clean_loop freed s =
     (case dequeue_on QStopped s of
        (None, s1) \<Rightarrow> Some (freed, s1)
      | (Some t, s1) \<Rightarrow> clean_loop (freed @ [clean_stopped_task t s1]) s1)"

definition cleaner_round :: "nat \<Rightarrow> sched \<Rightarrow> ((u32 \<times> addr list) list \<times> sched) outcome" where
  "cleaner_round n s =
     (case clean_loop [] (aquire_scheduler_lock s) of
        None \<Rightarrow> Inl Hang
      | Some (freed, s1) \<Rightarrow>
          bindE (tasks_block_current n TASK_PAUSED s1) (\<lambda>s2.
          bindE (release_scheduler_lock n s2) (\<lambda>s3. Inr (freed, s3))))"

end
