(* ===== verification/Scheduler_Invariant.thy ===== *)
theory Scheduler_Invariant
  imports Scheduler
begin

text \<open>
  The invariant of the scheduler and how every operation keeps it.  \<open>queues_ok\<close> relates the list
  objects to a sequence of tasks per list (\<open>L\<close>): every list is well linked, no task is on two
  lists, and a task's \<open>state\<close> names the list it is on.  A running task is therefore on no list.
\<close>

fun qstate :: "qid \<Rightarrow> task_state" where
  "qstate QReady = TASK_READY"
| "qstate QSleeping = TASK_SLEEPING"
| "qstate QStopped = TASK_STOPPED"
| "qstate (QWait _) = TASK_BLOCKED"

definition queues_ok :: "task_store \<Rightarrow> (qid \<Rightarrow> tasklist) \<Rightarrow> (qid \<Rightarrow> addr list) \<Rightarrow> bool" where
  "queues_ok h Q L \<longleftrightarrow> (\<forall>q. tlist h (Q q) (L q)) \<and> (\<forall>q r. q \<noteq> r \<longrightarrow> set (L q) \<inter> set (L r) = {})
     \<and> (\<forall>q. \<forall>t \<in> set (L q). t_state (h t) = qstate q)"

definition queued :: "(qid \<Rightarrow> addr list) \<Rightarrow> addr set" where
  "queued L = (\<Union>q. set (L q))"

abbreviation sched_ok :: "sched \<Rightarrow> (qid \<Rightarrow> addr list) \<Rightarrow> bool" where
  "sched_ok s L \<equiv> queues_ok (tasks s) (qlist s) L"

section \<open>Frames of the state accessors\<close>

lemma qlist_set_qlist [simp]: "qlist (set_qlist q l s) = (qlist s)(q := l)"
  by (rule ext, cases q) (case_tac x, auto)+

lemma qlist_frame [simp]:
  "qlist (s\<lparr>tasks := h\<rparr>) = qlist s" "qlist (s\<lparr>current_task := c\<rparr>) = qlist s"
  "qlist (s\<lparr>idle_time := w\<rparr>) = qlist s" "qlist (s\<lparr>idle_start := w\<rparr>) = qlist s"
  "qlist (s\<lparr>last_time := w\<rparr>) = qlist s" "qlist (s\<lparr>time_slice_remaining := w\<rparr>) = qlist s"
  "qlist (s\<lparr>last_timer_time := w\<rparr>) = qlist s" "qlist (s\<lparr>scheduler_lock := v\<rparr>) = qlist s"
  "qlist (s\<lparr>postpone_count := v\<rparr>) = qlist s" "qlist (s\<lparr>scheduler_postponed := b\<rparr>) = qlist s"
  "qlist (s\<lparr>instr_per_ns := w\<rparr>) = qlist s" "qlist (s\<lparr>intr := b\<rparr>) = qlist s"
  "qlist (s\<lparr>tsc_reads := n\<rparr>) = qlist s" "qlist (s\<lparr>cpu_esp := v\<rparr>) = qlist s"
  "qlist (s\<lparr>cpu_cr3 := v\<rparr>) = qlist s" "qlist (s\<lparr>stack_mem := m\<rparr>) = qlist s"
  by (rule ext, case_tac x, simp_all)+

text \<open>The part of the state that list operations never touch.\<close>

definition ctl :: "sched \<Rightarrow> _" where
  "ctl s = (current_task s, idle_time s, idle_start s, last_time s, time_slice_remaining s,
     last_timer_time s, scheduler_lock s, postpone_count s, scheduler_postponed s, instr_per_ns s,
     intr s, tsc s, tsc_reads s, cpu_esp s, cpu_cr3 s, stack_mem s)"

lemma ctl_set_qlist [simp]: "ctl (set_qlist q l s) = ctl s"
  by (cases q) (simp_all add: ctl_def)

lemma tasks_set_qlist [simp]: "tasks (set_qlist q l s) = tasks s"
  by (cases q) simp_all

lemma ctl_tasks [simp]: "ctl (s\<lparr>tasks := h\<rparr>) = ctl s"
  by (simp add: ctl_def)

lemma upd_task_simps [simp]:
  "tasks (upd_task t f s) = (tasks s)(t := f (tasks s t))" "qlist (upd_task t f s) = qlist s"
  "ctl (upd_task t f s) = ctl s"
  by (simp_all add: upd_task_def)

lemma ctl_enqueue_on [simp]: "ctl (enqueue_on q t s) = ctl s"
  by (simp add: enqueue_on_def split: prod.split)

lemma ctl_dequeue_on [simp]: "ctl (snd (dequeue_on q s)) = ctl s"
  by (simp add: dequeue_on_def split: prod.split)

lemma ctl_fields:
  assumes "ctl s' = ctl s"
  shows "current_task s' = current_task s" "postpone_count s' = postpone_count s"
    "scheduler_lock s' = scheduler_lock s" "scheduler_postponed s' = scheduler_postponed s"
    "intr s' = intr s" "instr_per_ns s' = instr_per_ns s" "tsc s' = tsc s" "tsc_reads s' = tsc_reads s"
    "time_slice_remaining s' = time_slice_remaining s" "last_timer_time s' = last_timer_time s"
    "cpu_esp s' = cpu_esp s"
  using assms by (simp_all add: ctl_def)

lemmas ctl_upd_task_fields [simp] = ctl_fields [OF upd_task_simps(3)]
lemmas ctl_enqueue_fields [simp] = ctl_fields [OF ctl_enqueue_on]

section \<open>List operations under the invariant\<close>

lemma queues_okD:
  assumes "queues_ok h Q L"
  shows "tlist h (Q q) (L q)" "q \<noteq> r \<Longrightarrow> set (L q) \<inter> set (L r) = {}" "t \<in> set (L q) \<Longrightarrow> t_state (h t) = qstate q"
    "distinct (L q)"
  using assms by (auto simp: queues_ok_def tlist_def)

lemma queues_ok_unqueued:
  assumes "queues_ok h Q L" and "\<forall>q. t_state (h t) \<noteq> qstate q"
  shows "t \<notin> queued L"
  using assms by (auto simp: queues_ok_def queued_def)

lemma qstate_neq [simp]: "qstate q \<noteq> TASK_RUNNING" "qstate q \<noteq> TASK_PAUSED"
  "TASK_RUNNING \<noteq> qstate q" "TASK_PAUSED \<noteq> qstate q"
  by (cases q; simp)+

lemma running_unqueued: "queues_ok h Q L \<Longrightarrow> t_state (h t) = TASK_RUNNING \<Longrightarrow> t \<notin> queued L"
  by (rule queues_ok_unqueued) auto

lemma paused_unqueued: "queues_ok h Q L \<Longrightarrow> t_state (h t) = TASK_PAUSED \<Longrightarrow> t \<notin> queued L"
  by (rule queues_ok_unqueued) auto

lemma queues_ok_cong:
  assumes "queues_ok h Q L" and "\<And>t. t \<in> queued L \<Longrightarrow> t_next (h' t) = t_next (h t) \<and> t_state (h' t) = t_state (h t)"
  shows "queues_ok h' Q L"
  unfolding queues_ok_def
proof (intro conjI allI impI ballI)
  fix q
  show "tlist h' (Q q) (L q)"
    using queues_okD(1) [OF assms(1), of q] assms(2) by (subst tlist_cong [of _ h' h]) (auto simp: queued_def)
next
  fix q r :: qid
  assume "q \<noteq> r"
  then show "set (L q) \<inter> set (L r) = {}" by (rule queues_okD(2) [OF assms(1)])
next
  fix q t
  assume "t \<in> set (L q)"
  then show "t_state (h' t) = qstate q" using queues_okD(3) [OF assms(1), of t q] assms(2) [of t] by (auto simp: queued_def)
qed

lemma queues_ok_upd [simp]:
  "queues_ok h Q L \<Longrightarrow> t \<notin> queued L \<Longrightarrow> queues_ok (h(t := k)) Q L"
  by (rule queues_ok_cong [where h = h]) auto

text \<open>One list is changed by an operation that only touches the tasks in \<open>A\<close>.\<close>

lemma queues_ok_change:
  assumes ok: "queues_ok h Q L" and fr: "frame h' h A"
    and A: "\<And>r. r \<noteq> q \<Longrightarrow> set (L r) \<inter> (A \<union> set xs) = {}"
    and tl: "tlist h' l xs" and st: "\<And>t. t \<in> set xs \<Longrightarrow> t_state (h t) = qstate q"
  shows "queues_ok h' (Q(q := l)) (L(q := xs))"
  unfolding queues_ok_def
proof (intro conjI allI impI ballI)
  fix r
  show "tlist h' ((Q(q := l)) r) ((L(q := xs)) r)"
    using tl tlist_frame [OF fr _ queues_okD(1) [OF ok, of r]] A [of r] by auto
next
  fix r r' :: qid
  assume "r \<noteq> r'"
  then show "set ((L(q := xs)) r) \<inter> set ((L(q := xs)) r') = {}"
    using queues_okD(2) [OF ok, of r r'] A [of r] A [of r'] by auto
next
  fix r t
  assume "t \<in> set ((L(q := xs)) r)"
  then show "t_state (h' t) = qstate r"
    using st queues_okD(3) [OF ok, of t r] frame_fields(1) [OF fr] by (auto split: if_splits)
qed

definition same_fields :: "task_store \<Rightarrow> task_store \<Rightarrow> bool" where
  "same_fields h' h \<longleftrightarrow> (\<forall>a. (h' a)\<lparr>t_next := None\<rparr> = (h a)\<lparr>t_next := None\<rparr>)"

lemma frame_same_fields: "frame h' h A \<Longrightarrow> same_fields h' h"
  by (simp add: frame_def same_fields_def)

lemma same_fieldsD:
  assumes "same_fields h' h"
  shows "t_state (h' a) = t_state (h a)" "wakeup_time (h' a) = wakeup_time (h a)"
    "time_used (h' a) = time_used (h a)" "stack_top (h' a) = stack_top (h a)"
proof -
  have fr: "frame h' h UNIV" using assms by (simp add: same_fields_def frame_def)
  show "t_state (h' a) = t_state (h a)" "wakeup_time (h' a) = wakeup_time (h a)"
    "time_used (h' a) = time_used (h a)" "stack_top (h' a) = stack_top (h a)"
    by (rule frame_fields [OF fr])+
qed

lemma enqueue_on_ok:
  assumes ok: "sched_ok s L" and t: "t \<notin> queued L" and st: "t_state (tasks s t) = qstate q"
  shows "sched_ok (enqueue_on q t s) (L(q := L q @ [t])) \<and> same_fields (tasks (enqueue_on q t s)) (tasks s)"
proof -
  have nt: "t \<notin> set (L r)" for r using t by (auto simp: queued_def)
  obtain l h where e: "enqueue_task (qlist s q) t (tasks s) = (l, h)" "tlist h l (L q @ [t])"
      "frame h (tasks s) (insert t (set (L q)))"
    using enqueue_task_spec [OF queues_okD(1) [OF ok] nt] by metis
  have "queues_ok h ((qlist s)(q := l)) (L(q := L q @ [t]))"
  proof (rule queues_ok_change [OF ok e(3) _ e(2)])
    show "set (L r) \<inter> (insert t (set (L q)) \<union> set (L q @ [t])) = {}" if "r \<noteq> q" for r
      using queues_okD(2) [OF ok that] nt by auto
    show "t_state (tasks s u) = qstate q" if "u \<in> set (L q @ [t])" for u
      using that st queues_okD(3) [OF ok, of u q] by auto
  qed
  then show ?thesis using e frame_same_fields [OF e(3)] by (simp add: enqueue_on_def)
qed

lemma dequeue_on_Nil:
  assumes "sched_ok s L" and "L q = []"
  shows "\<exists>s'. dequeue_on q s = (None, s') \<and> sched_ok s' L \<and> tasks s' = tasks s \<and> ctl s' = ctl s \<and> qlist s' = qlist s"
proof -
  have "dequeue_task (qlist s q) (tasks s) = (None, qlist s q, tasks s)"
    using dequeue_task_Nil queues_okD(1) [OF assms(1), of q] assms(2) by simp
  then show ?thesis using assms(1) by (simp add: dequeue_on_def)
qed

lemma dequeue_on_Cons:
  assumes ok: "sched_ok s L" and q: "L q = t # ts"
  shows "\<exists>s'. dequeue_on q s = (Some t, s') \<and> sched_ok s' (L(q := ts)) \<and> same_fields (tasks s') (tasks s)
    \<and> ctl s' = ctl s"
proof -
  have "tlist (tasks s) (qlist s q) (t # ts)" using queues_okD(1) [OF ok, of q] q by simp
  from dequeue_task_Cons [OF this] obtain l h where
    e: "dequeue_task (qlist s q) (tasks s) = (Some t, l, h)" "tlist h l ts" "frame h (tasks s) {t}"
    by blast
  have "queues_ok h ((qlist s)(q := l)) (L(q := ts))"
  proof (rule queues_ok_change [OF ok e(3) _ e(2)])
    show "set (L r) \<inter> ({t} \<union> set ts) = {}" if "r \<noteq> q" for r
      using queues_okD(2) [OF ok that] q by auto
    show "t_state (tasks s u) = qstate q" if "u \<in> set ts" for u
      using that queues_okD(3) [OF ok, of u q] q by auto
  qed
  then show ?thesis using e frame_same_fields [OF e(3)] by (simp add: dequeue_on_def)
qed

lemma remove_on_ok:
  assumes ok: "sched_ok s L" and q: "L q = ys @ t # zs"
  shows "\<exists>s'. remove_on q t (last_ptr ys) s = Inr s' \<and> sched_ok s' (L(q := ys @ zs))
    \<and> same_fields (tasks s') (tasks s) \<and> ctl s' = ctl s
    \<and> (\<forall>a. a \<notin> insert t (set ys) \<longrightarrow> tasks s' a = tasks s a)"
proof -
  have "tlist (tasks s) (qlist s q) (ys @ t # zs)" using queues_okD(1) [OF ok, of q] q by simp
  from remove_task_spec [OF this] obtain l h where
    e: "remove_task (qlist s q) t (last_ptr ys) (tasks s) = Inr (l, h)" "tlist h l (ys @ zs)"
      "frame h (tasks s) (insert t (set ys))" by blast
  have "queues_ok h ((qlist s)(q := l)) (L(q := ys @ zs))"
  proof (rule queues_ok_change [OF ok e(3) _ e(2)])
    show "set (L r) \<inter> (insert t (set ys) \<union> set (ys @ zs)) = {}" if "r \<noteq> q" for r
      using queues_okD(2) [OF ok that] q by auto
    show "t_state (tasks s u) = qstate q" if "u \<in> set (ys @ zs)" for u
      using that queues_okD(3) [OF ok, of u q] q by auto
  qed
  then show ?thesis using e frame_same_fields [OF e(3)] by (auto simp: remove_on_def frame_def)
qed

lemma queued_upd: "queued (L(q := xs)) = (\<Union>r \<in> - {q}. set (L r)) \<union> set xs"
  by (force simp: queued_def split: if_splits)

lemma notin_queued: "t \<notin> queued L \<longleftrightarrow> (\<forall>q. t \<notin> set (L q))"
  by (auto simp: queued_def)

section \<open>Frames of the clock operations\<close>

lemma get_cpu_time_ns_eq [simp]:
  "get_cpu_time_ns s = (tsc s (tsc_reads s) div instr_per_ns s, s\<lparr>tsc_reads := tsc_reads s + 1\<rparr>)"
  by (simp add: get_cpu_time_ns_def rdtsc_def)

lemma update_time_frame [simp]:
  "qlist (tasks_update_time s) = qlist s" "current_task (tasks_update_time s) = current_task s"
  "postpone_count (tasks_update_time s) = postpone_count s"
  "scheduler_lock (tasks_update_time s) = scheduler_lock s" "intr (tasks_update_time s) = intr s"
  "scheduler_postponed (tasks_update_time s) = scheduler_postponed s"
  "instr_per_ns (tasks_update_time s) = instr_per_ns s" "tsc (tasks_update_time s) = tsc s"
  "tsc_reads (tasks_update_time s) = tsc_reads s + 1"
  "time_slice_remaining (tasks_update_time s) = time_slice_remaining s"
  "cpu_esp (tasks_update_time s) = cpu_esp s"
  "t_next (tasks (tasks_update_time s) a) = t_next (tasks s a)"
  "t_state (tasks (tasks_update_time s) a) = t_state (tasks s a)"
  "wakeup_time (tasks (tasks_update_time s) a) = wakeup_time (tasks s a)"
  "stack_top (tasks (tasks_update_time s) a) = stack_top (tasks s a)"
  by (cases "current_task s"; simp add: tasks_update_time_def Let_def ctl_def)+

lemma update_time_ok [simp]: "queues_ok (tasks s) Q L \<Longrightarrow> queues_ok (tasks (tasks_update_time s)) Q L"
  by (rule queues_ok_cong [where h = "tasks s"]) simp_all

section \<open>The context switch\<close>

text \<open>Where the stack pointer of a task is: in the register while it has the CPU, otherwise twenty
  bytes above the saved \<open>stack_top\<close>.\<close>

definition saved_esp :: "sched \<Rightarrow> addr \<Rightarrow> u32" where
  "saved_esp s a = (if current_task s = Some a then cpu_esp s else stack_top (tasks s a) + 20)"

definition wake_times :: "sched \<Rightarrow> addr \<Rightarrow> u64" where
  "wake_times s = (\<lambda>a. wakeup_time (tasks s a))"

text \<open>Lock fields, clock and stack pointers as one value.\<close>

definition locks :: "sched \<Rightarrow> u32 \<times> u32 \<times> bool \<times> bool" where
  "locks s = (scheduler_lock s, postpone_count s, scheduler_postponed s, intr s)"

definition clock :: "sched \<Rightarrow> (nat \<Rightarrow> u64) \<times> u64" where
  "clock s = (tsc s, instr_per_ns s)"

lemma switch_ok:
  assumes ok: "sched_ok s L" and c: "current_task s = Some c" and t: "t \<notin> queued L"
    and tc: "t_state (tasks s c) = TASK_RUNNING \<Longrightarrow> t \<noteq> c"
  shows "\<exists>s'. tasks_switch_to t s = Inr s'
    \<and> sched_ok s' (if t_state (tasks s c) = TASK_RUNNING then L(QReady := L QReady @ [c]) else L)
    \<and> current_task s' = Some t \<and> t_state (tasks s' t) = TASK_RUNNING \<and> locks s' = locks s
    \<and> clock s' = clock s \<and> time_slice_remaining s' = time_slice_remaining s
    \<and> saved_esp s' = saved_esp s \<and> wake_times s' = wake_times s"
proof (cases "t_state (tasks s c) = TASK_RUNNING")
  case False
  have "saved_esp s' = saved_esp s"
    if "s' = (upd_task t (\<lambda>k. k\<lparr>t_state := TASK_RUNNING\<rparr>) ((upd_task c (\<lambda>t. t\<lparr>stack_top := cpu_esp s - 20\<rparr>) s)
      \<lparr>current_task := Some t, cpu_esp := stack_top (((tasks s)(c := (tasks s c)\<lparr>stack_top := cpu_esp s - 20\<rparr>)) t) + 20\<rparr>))
      \<lparr>cpu_cr3 := v\<rparr>" for s' v
    unfolding that using c by (auto simp: saved_esp_def upd_task_def)
  moreover have "queues_ok ((tasks s)(c := (tasks s c)\<lparr>stack_top := cpu_esp s - 20\<rparr>)) (qlist s) L"
    using ok by (rule queues_ok_cong) simp
  ultimately show ?thesis
    using False c t by (auto simp: tasks_switch_to_def Let_def locks_def clock_def wake_times_def intro!: ext)
next
  case True
  let ?s2 = "upd_task c (\<lambda>t. t\<lparr>t_state := TASK_READY\<rparr>) (upd_task c (\<lambda>t. t\<lparr>stack_top := cpu_esp s - 20\<rparr>) s)"
  have cn: "c \<notin> queued L" using running_unqueued [OF ok True] .
  have ok2: "sched_ok ?s2 L" using ok cn by simp
  have ok3: "sched_ok (enqueue_on QReady c ?s2) (L(QReady := L QReady @ [c]))"
    and sf: "same_fields (tasks (enqueue_on QReady c ?s2)) (tasks ?s2)"
    using enqueue_on_ok [OF ok2 cn, of QReady] by simp_all
  have nt: "t \<notin> queued (L(QReady := L QReady @ [c]))" using t tc [OF True] by (auto simp: queued_upd notin_queued)
  have st: "stack_top (tasks (enqueue_on QReady c ?s2) a) = (if a = c then cpu_esp s - 20 else stack_top (tasks s a))" for a
    using same_fieldsD(4) [OF sf, of a] by simp
  have wk: "wakeup_time (tasks (enqueue_on QReady c ?s2) a) = wakeup_time (tasks s a)" for a
    using same_fieldsD(2) [OF sf, of a] by simp
  show ?thesis
    using True c ok3 nt tc [OF True] st wk
    by (auto simp: wake_times_def tasks_switch_to_def Let_def locks_def clock_def tasks_enqueue_ready_def saved_esp_def fun_eq_iff)
qed

section \<open>Scheduling with a task ready\<close>

definition requeue :: "bool \<Rightarrow> addr \<Rightarrow> addr list \<Rightarrow> (qid \<Rightarrow> addr list) \<Rightarrow> qid \<Rightarrow> addr list" where
  "requeue running c ts L = L(QReady := ts @ (if running then [c] else []))"

lemma schedule_with_ready:
  assumes ok: "sched_ok s L" and c: "current_task s = Some c" and p: "postpone_count s = 0"
    and r: "L QReady = t # ts"
  shows "\<exists>s'. schedule_with idle s = Inr s' \<and> sched_ok s' (requeue (t_state (tasks s c) = TASK_RUNNING) c ts L)
    \<and> current_task s' = Some t \<and> t_state (tasks s' t) = TASK_RUNNING \<and> locks s' = locks s
    \<and> clock s' = clock s \<and> time_slice_remaining s' = TIME_SLICE_SIZE \<and> saved_esp s' = saved_esp s
    \<and> wake_times s' = wake_times s"
proof -
  obtain s1 where s1: "dequeue_on QReady s = (Some t, s1)" "sched_ok s1 (L(QReady := ts))"
    "same_fields (tasks s1) (tasks s)" "ctl s1 = ctl s"
    using dequeue_on_Cons [OF ok r] by blast
  define s2 where "s2 = tasks_update_time s1"
  define s3 where "s3 = s2\<lparr>time_slice_remaining := TIME_SLICE_SIZE, tsc_reads := tsc_reads s2 + 1,
    last_timer_time := tsc s2 (tsc_reads s2) div instr_per_ns s2\<rparr>"
  have f: "current_task s3 = Some c" "locks s3 = locks s" "clock s3 = clock s" "time_slice_remaining s3 = TIME_SLICE_SIZE"
    "cpu_esp s3 = cpu_esp s" "t_state (tasks s3 a) = t_state (tasks s a)" "stack_top (tasks s3 a) = stack_top (tasks s a)"
    "wake_times s3 = wake_times s" for a
    using c ctl_fields [OF s1(4)] same_fieldsD [OF s1(3)] by (simp_all add: s3_def s2_def locks_def clock_def wake_times_def)
  have ok3: "sched_ok s3 (L(QReady := ts))" using s1(2) by (simp add: s3_def s2_def)
  have st: "t_state (tasks s t) = TASK_READY" using queues_okD(3) [OF ok, of t QReady] r by simp
  have "t \<notin> set (L q)" if "q \<noteq> QReady" for q using queues_okD(2) [OF ok that] r by auto
  moreover have "t \<notin> set ts" using queues_okD(4) [OF ok, of QReady] r by simp
  ultimately have nt: "t \<notin> queued (L(QReady := ts))" by (auto simp: notin_queued)
  have "t_state (tasks s3 c) = TASK_RUNNING \<Longrightarrow> t \<noteq> c" using st f(6) by auto
  from switch_ok [OF ok3 f(1) nt this] obtain s' where s': "tasks_switch_to t s3 = Inr s'"
    "sched_ok s' (requeue (t_state (tasks s c) = TASK_RUNNING) c ts L)"
    "current_task s' = Some t" "t_state (tasks s' t) = TASK_RUNNING" "locks s' = locks s3"
    "clock s' = clock s3" "time_slice_remaining s' = time_slice_remaining s3" "saved_esp s' = saved_esp s3"
    "wake_times s' = wake_times s3"
    using f(6) by (auto simp: requeue_def fun_upd_same fun_upd_upd split: if_splits)
  have "saved_esp s3 = saved_esp s" using f c by (simp add: saved_esp_def fun_eq_iff)
  moreover have "schedule_with idle s = Inr s'"
    using s1(1) s'(1) c p by (simp add: schedule_with_def tasks_dequeue_ready_def Let_def s3_def s2_def)
  ultimately show ?thesis using s' f by simp
qed

lemma schedule_with_alone:
  assumes ok: "sched_ok s L" and c: "current_task s = Some c" and p: "postpone_count s = 0"
    and r: "L QReady = []" and run: "t_state (tasks s c) = TASK_RUNNING"
  shows "\<exists>s'. schedule_with idle s = Inr s' \<and> sched_ok s' L \<and> current_task s' = Some c
    \<and> t_state (tasks s' c) = TASK_RUNNING \<and> locks s' = locks s \<and> clock s' = clock s
    \<and> time_slice_remaining s' = TIME_SLICE_SIZE \<and> saved_esp s' = saved_esp s
    \<and> wake_times s' = wake_times s"
proof -
  obtain s1 where s1: "dequeue_on QReady s = (None, s1)" "sched_ok s1 L" "tasks s1 = tasks s" "ctl s1 = ctl s"
    using dequeue_on_Nil [OF ok r] by blast
  then have "schedule_with idle s = Inr (s1\<lparr>time_slice_remaining := TIME_SLICE_SIZE\<rparr>)"
    using c p run by (simp add: schedule_with_def tasks_dequeue_ready_def)
  moreover have "saved_esp (s1\<lparr>time_slice_remaining := TIME_SLICE_SIZE\<rparr>) = saved_esp s"
    using s1 ctl_fields [OF s1(4)] by (simp add: saved_esp_def fun_eq_iff)
  ultimately show ?thesis using s1 ctl_fields [OF s1(4)] c run by (simp add: locks_def clock_def wake_times_def)
qed

section \<open>Waking tasks\<close>

lemma enqueue_on_frame:
  assumes "sched_ok s L" and "t \<notin> queued L"
  shows "frame (tasks (enqueue_on q t s)) (tasks s) (insert t (set (L q)))"
proof -
  have "t \<notin> set (L q)" using assms(2) by (auto simp: queued_def)
  from enqueue_task_spec [OF queues_okD(1) [OF assms(1)] this] show ?thesis
    by (auto simp: enqueue_on_def)
qed

lemma last_has_no_next: "sched_ok s L \<Longrightarrow> L q = xs @ [t] \<Longrightarrow> t_next (tasks s t) = None"
  using queues_okD(1) [of "tasks s" "qlist s" L q] by (auto simp: tlist_def)

lemma upd_next_None: "t_next (tasks s t) = None \<Longrightarrow> upd_task t (\<lambda>k. k\<lparr>t_next := None\<rparr>) s = s"
proof -
  assume "t_next (tasks s t) = None"
  then have "(tasks s t)\<lparr>t_next := None\<rparr> = tasks s t" by (cases "tasks s t") simp
  then show ?thesis by (cases s) (simp add: upd_task_def)
qed

text \<open>\<open>_wakeup\<close> followed by \<open>task->next = NULL\<close>, as both waking loops do it.\<close>

definition wake_one :: "addr \<Rightarrow> sched \<Rightarrow> sched" where
  "wake_one t s = upd_task t (\<lambda>k. k\<lparr>t_next := None\<rparr>) (wakeup t s)"

lemma wake_one_ok:
  assumes ok: "sched_ok s L" and t: "t \<notin> queued L"
  shows "sched_ok (wake_one t s) (L(QReady := L QReady @ [t])) \<and> ctl (wake_one t s) = ctl s
    \<and> (\<forall>a. a \<notin> insert t (set (L QReady)) \<longrightarrow> tasks (wake_one t s) a = tasks s a)
    \<and> (\<forall>a. stack_top (tasks (wake_one t s) a) = stack_top (tasks s a))
    \<and> (\<forall>a. a \<noteq> t \<longrightarrow> t_state (tasks (wake_one t s) a) = t_state (tasks s a)
          \<and> wakeup_time (tasks (wake_one t s) a) = wakeup_time (tasks s a))"
proof -
  let ?s1 = "upd_task t (\<lambda>k. k\<lparr>t_state := TASK_READY, wakeup_time := 0 - 1\<rparr>) s"
  have ok1: "sched_ok ?s1 L" using ok t by simp
  have ok2: "sched_ok (wakeup t s) (L(QReady := L QReady @ [t]))"
    using enqueue_on_ok [OF ok1 t, of QReady] by (simp add: wakeup_def tasks_enqueue_ready_def)
  have eq: "wake_one t s = wakeup t s"
    unfolding wake_one_def by (rule upd_next_None, rule last_has_no_next [OF ok2, of QReady]) simp
  have fr: "frame (tasks (wakeup t s)) (tasks ?s1) (insert t (set (L QReady)))"
    using enqueue_on_frame [OF ok1 t, of QReady] by (simp add: wakeup_def tasks_enqueue_ready_def)
  have "a \<notin> insert t (set (L QReady)) \<Longrightarrow> tasks (wakeup t s) a = tasks s a" for a
    using fr by (simp add: frame_def)
  moreover have "stack_top (tasks (wakeup t s) a) = stack_top (tasks s a)"
    "a \<noteq> t \<Longrightarrow> t_state (tasks (wakeup t s) a) = t_state (tasks s a)"
    "a \<noteq> t \<Longrightarrow> wakeup_time (tasks (wakeup t s) a) = wakeup_time (tasks s a)" for a
    using frame_fields [OF fr, of a] by simp_all
  ultimately show ?thesis using ok2 by (simp add: eq wakeup_def tasks_enqueue_ready_def)
qed

definition expired :: "sched \<Rightarrow> u64 \<Rightarrow> addr \<Rightarrow> bool" where
  "expired s time t \<longleftrightarrow> wakeup_time (tasks s t) \<le> time"

abbreviation woken_lists :: "sched \<Rightarrow> u64 \<Rightarrow> (qid \<Rightarrow> addr list) \<Rightarrow> qid \<Rightarrow> addr list" where
  "woken_lists s time L \<equiv>
     L(QSleeping := filter (\<lambda>t. \<not> expired s time t) (L QSleeping),
       QReady := L QReady @ filter (expired s time) (L QSleeping))"

text \<open>Waking the sleeping task behind \<open>keep\<close>.\<close>

lemma wake_head:
  assumes "sched_ok s L" "L QSleeping = keep @ t # rest"
  obtains s1 where "remove_on QSleeping t (last_ptr keep) s = Inr s1"
    "sched_ok (wake_one t s1) (L(QSleeping := keep @ rest, QReady := L QReady @ [t]))" "ctl (wake_one t s1) = ctl s"
    "\<forall>a. stack_top (tasks (wake_one t s1) a) = stack_top (tasks s a)"
    "\<forall>a. a \<noteq> t \<longrightarrow> t_state (tasks (wake_one t s1) a) = t_state (tasks s a)
       \<and> wakeup_time (tasks (wake_one t s1) a) = wakeup_time (tasks s a)"
proof -
  have "tlist (tasks s) (tasks_sleeping s) (keep @ t # rest)"
    using queues_okD(1) [OF assms(1), of QSleeping] assms(2) by simp
  then have d: "t \<notin> set keep" "t \<notin> set rest" by (auto simp: tlist_def)
  obtain s1 where s1: "remove_on QSleeping t (last_ptr keep) s = Inr s1"
    "sched_ok s1 (L(QSleeping := keep @ rest))" "same_fields (tasks s1) (tasks s)" "ctl s1 = ctl s"
    using remove_on_ok [OF assms] by blast
  have "t \<notin> set (L q)" if "q \<noteq> QSleeping" for q
    using queues_okD(2) [OF assms(1) that] assms(2) by auto
  then have nt: "t \<notin> queued (L(QSleeping := keep @ rest))" using d by (auto simp: notin_queued)
  show thesis
    using that [OF s1(1)] wake_one_ok [OF s1(2) nt] s1(4) same_fieldsD [OF s1(3)] by auto
qed

lemma wake_sleepers_spec:
  assumes "sched_ok s L" and "L QSleeping = keep @ rest"
  shows "\<exists>s'. wake_sleepers time (last_ptr keep) (case rest of [] \<Rightarrow> None | t # _ \<Rightarrow> Some t) need s =
        Some (Inr (need \<or> filter (expired s time) rest \<noteq> [], s'))
    \<and> sched_ok s' (L(QSleeping := keep @ filter (\<lambda>t. \<not> expired s time t) rest,
                     QReady := L QReady @ filter (expired s time) rest))
    \<and> ctl s' = ctl s \<and> (\<forall>a. stack_top (tasks s' a) = stack_top (tasks s a))
    \<and> (\<forall>a. a \<notin> set (filter (expired s time) rest) \<longrightarrow>
          t_state (tasks s' a) = t_state (tasks s a) \<and> wakeup_time (tasks s' a) = wakeup_time (tasks s a))"
  using assms
proof (induction rest arbitrary: keep need s L)
  case Nil
  then show ?case by (subst wake_sleepers.simps) (simp add: fun_upd_idem)
next
  case (Cons t rest)
  have tl: "tlist (tasks s) (tasks_sleeping s) (keep @ t # rest)"
    using queues_okD(1) [OF Cons.prems(1), of QSleeping] Cons.prems(2) by simp
  have d: "t \<notin> set keep" "t \<notin> set rest" "set keep \<inter> set rest = {}"
    using tl by (auto simp: tlist_def)
  have nx: "t_next (tasks s t) = (case rest of [] \<Rightarrow> None | u # _ \<Rightarrow> Some u)"
    using tl by (cases rest) (auto simp: tlist_def)
  show ?case
  proof (cases "expired s time t")
    case False
    have "\<exists>s'. wake_sleepers time (last_ptr (keep @ [t])) (case rest of [] \<Rightarrow> None | t # _ \<Rightarrow> Some t) need s =
        Some (Inr (need \<or> filter (expired s time) rest \<noteq> [], s'))
      \<and> sched_ok s' (L(QSleeping := (keep @ [t]) @ filter (\<lambda>t. \<not> expired s time t) rest,
                     QReady := L QReady @ filter (expired s time) rest))
      \<and> ctl s' = ctl s \<and> (\<forall>a. stack_top (tasks s' a) = stack_top (tasks s a))
      \<and> (\<forall>a. a \<notin> set (filter (expired s time) rest) \<longrightarrow>
          t_state (tasks s' a) = t_state (tasks s a) \<and> wakeup_time (tasks s' a) = wakeup_time (tasks s a))"
      by (rule Cons.IH [OF Cons.prems(1)]) (simp add: Cons.prems(2))
    then show ?thesis
      using False nx by (subst wake_sleepers.simps) (simp add: expired_def Let_def)
  next
    case True
    obtain s1 s2 where s1: "remove_on QSleeping t (last_ptr keep) s = Inr s1" "s2 = wake_one t s1"
      and w: "sched_ok s2 (L(QSleeping := keep @ rest, QReady := L QReady @ [t]))" "ctl s2 = ctl s"
      "\<forall>a. stack_top (tasks s2 a) = stack_top (tasks s a)"
      "\<forall>a. a \<noteq> t \<longrightarrow> t_state (tasks s2 a) = t_state (tasks s a) \<and> wakeup_time (tasks s2 a) = wakeup_time (tasks s a)"
      using wake_head [OF Cons.prems] by metis
    have ex: "filter (expired s2 time) rest = filter (expired s time) rest"
      "filter (\<lambda>t. \<not> expired s2 time t) rest = filter (\<lambda>t. \<not> expired s time t) rest"
      using w(4) d(2) by (auto intro!: filter_cong simp: expired_def)
    obtain s3 where s3: "wake_sleepers time (last_ptr keep) (case rest of [] \<Rightarrow> None | t # _ \<Rightarrow> Some t) True s2 =
        Some (Inr (True, s3))"
      "sched_ok s3 (L(QSleeping := keep @ filter (\<lambda>t. \<not> expired s time t) rest,
                     QReady := (L QReady @ [t]) @ filter (expired s time) rest))"
      "ctl s3 = ctl s" "\<forall>a. stack_top (tasks s3 a) = stack_top (tasks s2 a)"
      "\<forall>a. a \<notin> set (filter (expired s time) rest) \<longrightarrow>
          t_state (tasks s3 a) = t_state (tasks s2 a) \<and> wakeup_time (tasks s3 a) = wakeup_time (tasks s2 a)"
    proof -
      have "L(QSleeping := keep @ rest, QReady := L QReady @ [t], QSleeping := xs, QReady := ys) = L(QSleeping := xs, QReady := ys)"
        for xs ys by (simp add: fun_eq_iff)
      note IH = Cons.IH [OF w(1), of keep True, unfolded ex this w(2)]
      show thesis using that IH by (auto simp: fun_upd_def)
    qed
    have "wake_sleepers time (last_ptr keep) (Some t) need s = Some (Inr (True, s3))"
      using True s1(1) s3(1) nx
      by (subst wake_sleepers.simps) (simp add: expired_def Let_def s1(2) wake_one_def)
    then show ?thesis using True s3 w by (simp del: fun_upd_apply)
  qed
qed

lemma set_qlist_commute:
  "enqueue_on QReady t (set_qlist (QWait a) l s) = set_qlist (QWait a) l (enqueue_on QReady t s)"
  "upd_task t f (set_qlist (QWait a) l s) = set_qlist (QWait a) l (upd_task t f s)"
  by (simp_all add: enqueue_on_def upd_task_def split: prod.split)

lemma wake_one_commute: "wake_one t (set_qlist (QWait a) l s) = set_qlist (QWait a) l (wake_one t s)"
  by (simp only: wake_one_def wakeup_def tasks_enqueue_ready_def set_qlist_commute)

lemma wake_waiters_spec:
  assumes "sched_ok (set_qlist (QWait b) empty_list s) L" and "chain (tasks s) p ws None"
    and "distinct ws" and "set ws \<inter> queued L = {}"
  shows "\<exists>s'. wake_waiters p s = Some s' \<and> sched_ok (set_qlist (QWait b) empty_list s') (L(QReady := L QReady @ ws))
    \<and> ctl s' = ctl s \<and> (\<forall>a. stack_top (tasks s' a) = stack_top (tasks s a))
    \<and> (\<forall>a. a \<notin> set ws \<longrightarrow> t_state (tasks s' a) = t_state (tasks s a))"
  using assms
proof (induction ws arbitrary: p s L)
  case Nil
  then show ?case by (subst wake_waiters.simps) simp
next
  case (Cons t ws)
  let ?e = "set_qlist (QWait b) empty_list"
  have t: "t \<notin> queued L" "t \<notin> set ws" and p: "p = Some t" "chain (tasks s) (t_next (tasks s t)) ws None"
    using Cons.prems by auto
  define s1 where "s1 = wake_one t s"
  have w: "sched_ok (?e s1) (L(QReady := L QReady @ [t]))" "ctl s1 = ctl s"
    "a \<notin> insert t (set (L QReady)) \<Longrightarrow> tasks s1 a = tasks s a"
    "stack_top (tasks s1 a) = stack_top (tasks s a)" "a \<noteq> t \<Longrightarrow> t_state (tasks s1 a) = t_state (tasks s a)" for a
    using wake_one_ok [OF Cons.prems(1) t(1)] unfolding s1_def wake_one_commute by (simp_all del: set_qlist.simps)
  have "u \<notin> insert t (set (L QReady))" if "u \<in> set ws" for u
    using that Cons.prems(3,4) t by (auto simp: queued_def)
  then have ch: "chain (tasks s1) (t_next (tasks s t)) ws None"
    using p(2) w(3) by (subst chain_cong [of _ _ "tasks s"]) simp_all
  have dj: "set ws \<inter> queued (L(QReady := L QReady @ [t])) = {}"
    using Cons.prems(4) t(2) by (simp add: queued_upd) (auto simp: queued_def)
  have eq: "L(QReady := L QReady @ [t], QReady := (L(QReady := L QReady @ [t])) QReady @ ws) = L(QReady := L QReady @ t # ws)"
    by simp
  obtain s' where s': "wake_waiters (t_next (tasks s t)) s1 = Some s'"
    "sched_ok (?e s') (L(QReady := L QReady @ t # ws))" "ctl s' = ctl s1"
    "\<forall>a. stack_top (tasks s' a) = stack_top (tasks s1 a)"
    "\<forall>a. a \<notin> set ws \<longrightarrow> t_state (tasks s' a) = t_state (tasks s1 a)"
    using Cons.IH [OF w(1) ch _ dj, unfolded eq] Cons.prems(3) by (auto simp: fun_upd_def)
  have "wake_waiters p s = Some s'"
    using s'(1) p(1) by (subst wake_waiters.simps) (simp add: Let_def wake_one_def s1_def)
  then show ?case using s' w(2,4,5) by (simp del: fun_upd_apply)
qed

end
