(* ===== verification/Scheduler_Correct.thy ===== *)
theory Scheduler_Correct
  imports Scheduler_Invariant
begin

text \<open>
  Correctness of the scheduler's entry points.  Between two calls the scheduler is \<open>quiet\<close>: the
  invariant holds, a task runs, the lock counters are zero and interrupts are on.  The first part
  shows what the closing \<open>_schedule\<close> of an entry point does (switch, stay, or idle until a timer
  interrupt wakes a sleeper), the second part what each entry point does with the lists, and the
  last part the properties of whole runs.
\<close>

section \<open>Quiet states and the lock\<close>

definition quiet :: "sched \<Rightarrow> addr \<Rightarrow> (qid \<Rightarrow> addr list) \<Rightarrow> bool" where
  "quiet s c L \<longleftrightarrow> sched_ok s L \<and> current_task s = Some c \<and> t_state (tasks s c) = TASK_RUNNING
     \<and> locks s = (0, 0, False, True)"

lemma quietD:
  assumes "quiet s c L"
  shows "sched_ok s L" "current_task s = Some c" "t_state (tasks s c) = TASK_RUNNING" "c \<notin> queued L"
    "scheduler_lock s = 0" "postpone_count s = 0" "scheduler_postponed s = False" "intr s = True"
  using assms running_unqueued [of "tasks s" "qlist s" L c] by (simp_all add: quiet_def locks_def)

lemma quiet_disjoint: "quiet s c L \<Longrightarrow> c \<notin> set (L q)"
  using quietD(4) by (auto simp: queued_def)

text \<open>The tail of a release is what a starting task executes.\<close>

lemma release_with_eq:
  "release_with sch s =
     bindE (if postpone_count s - 1 = 0 \<and> scheduler_postponed s
            then sch (s\<lparr>postpone_count := 0, scheduler_postponed := False\<rparr>)
            else Inr (s\<lparr>postpone_count := postpone_count s - 1\<rparr>)) (\<lambda>s. Inr (task_starting s))"
  by (simp add: release_with_def task_starting_def Let_def)

lemma task_starting_frame [simp]:
  "tasks (task_starting s) = tasks s" "qlist (task_starting s) = qlist s"
  "current_task (task_starting s) = current_task s" "clock (task_starting s) = clock s"
  "saved_esp (task_starting s) = saved_esp s" "wake_times (task_starting s) = wake_times s"
  "time_slice_remaining (task_starting s) = time_slice_remaining s"
  "tsc_reads (task_starting s) = tsc_reads s" "cpu_esp (task_starting s) = cpu_esp s"
  by (simp_all add: task_starting_def clock_def saved_esp_def wake_times_def Let_def fun_eq_iff)

lemma locks_task_starting: "locks s = (1, 0, False, False) \<Longrightarrow> locks (task_starting s) = (0, 0, False, True)"
  by (simp add: task_starting_def locks_def)

lemma aquire_frame [simp]:
  "tasks (aquire_scheduler_lock s) = tasks s" "qlist (aquire_scheduler_lock s) = qlist s"
  "current_task (aquire_scheduler_lock s) = current_task s" "clock (aquire_scheduler_lock s) = clock s"
  "saved_esp (aquire_scheduler_lock s) = saved_esp s" "syncs (aquire_scheduler_lock s) = syncs s"
  "time_slice_remaining (aquire_scheduler_lock s) = time_slice_remaining s"
  "tsc_reads (aquire_scheduler_lock s) = tsc_reads s" "tsc (aquire_scheduler_lock s) = tsc s"
  "instr_per_ns (aquire_scheduler_lock s) = instr_per_ns s" "cpu_esp (aquire_scheduler_lock s) = cpu_esp s"
  "tasks_sleeping (aquire_scheduler_lock s) = tasks_sleeping s"
  "last_timer_time (aquire_scheduler_lock s) = last_timer_time s"
  "scheduler_postponed (aquire_scheduler_lock s) = scheduler_postponed s"
  by (simp_all add: aquire_scheduler_lock_def clock_def saved_esp_def fun_eq_iff)

lemma locks_aquire: "locks (aquire_scheduler_lock s) =
    (scheduler_lock s + 1, postpone_count s + 1, scheduler_postponed s, False)"
  by (simp add: aquire_scheduler_lock_def locks_def)

text \<open>Under one lock a schedule is postponed to the release, which then really schedules.\<close>

lemma postponed_schedule:
  assumes "locks s = (1, 1, b, False)"
  shows "bindE (schedule_with idle s) (release_with (schedule_with idle)) =
    bindE (schedule_with idle (s\<lparr>postpone_count := 0, scheduler_postponed := False\<rparr>)) (\<lambda>s. Inr (task_starting s))"
  using assms by (simp add: schedule_with_def [of idle s] release_with_eq locks_def)

lemma release_quiet:
  assumes "locks s = (1, 1, False, False)"
  shows "release_with sch s = Inr (task_starting (s\<lparr>postpone_count := 0\<rparr>))"
  using assms by (simp add: release_with_eq locks_def)

lemma release_postponed:
  assumes "locks s = (1, 1, True, False)"
  shows "release_with (schedule_with idle) s =
    bindE (schedule_with idle s) (release_with (schedule_with idle))"
  using assms by (simp add: postponed_schedule) (simp add: release_with_eq locks_def)

section \<open>The timer interrupt\<close>

abbreviation cpu_time :: "sched \<Rightarrow> u64" where
  "cpu_time s \<equiv> tsc s (tsc_reads s) div instr_per_ns s"

lemma expired_cong: "tasks s' = tasks s \<Longrightarrow> expired s' = expired s"
  by (simp add: expired_def fun_eq_iff)

text \<open>The part of \<open>_on_timer\<close> before the closing schedule.\<close>

lemma on_timer_with_eq:
  assumes ok: "sched_ok s L"
  shows "\<exists>s3. on_timer_with sch s =
      bindE (if filter (expired s (cpu_time s)) (L QSleeping) \<noteq> []
             \<or> (time_slice_remaining s \<noteq> 0 \<and> time_slice_remaining s \<le> cpu_time s - last_timer_time s)
             then sch s3 else Inr s3) (release_with sch)
    \<and> sched_ok s3 (woken_lists s (cpu_time s) L) \<and> current_task s3 = current_task s
    \<and> locks s3 = (scheduler_lock s + 1, postpone_count s + 1, scheduler_postponed s, False)
    \<and> clock s3 = clock s \<and> tsc_reads s3 = tsc_reads s + 1 \<and> saved_esp s3 = saved_esp s
    \<and> cpu_esp s3 = cpu_esp s \<and> (\<forall>a. stack_top (tasks s3 a) = stack_top (tasks s a))
    \<and> (time_slice_remaining s = 0 \<longrightarrow> time_slice_remaining s3 = 0)
    \<and> (\<forall>a. a \<notin> set (filter (expired s (cpu_time s)) (L QSleeping)) \<longrightarrow>
          t_state (tasks s3 a) = t_state (tasks s a) \<and> wakeup_time (tasks s3 a) = wakeup_time (tasks s a))"
proof -
  define s1 where "s1 = (aquire_scheduler_lock s)\<lparr>tsc_reads := tsc_reads s + 1\<rparr>"
  have s1: "tasks s1 = tasks s" "qlist s1 = qlist s" "current_task s1 = current_task s" "clock s1 = clock s"
    "locks s1 = (scheduler_lock s + 1, postpone_count s + 1, scheduler_postponed s, False)"
    "tsc_reads s1 = tsc_reads s + 1" "time_slice_remaining s1 = time_slice_remaining s"
    "last_timer_time s1 = last_timer_time s" "cpu_esp s1 = cpu_esp s" "tasks_sleeping s1 = tasks_sleeping s"
    using locks_aquire [of s] by (simp_all add: s1_def clock_def locks_def aquire_scheduler_lock_def)
  have hd: "tl_head (tasks_sleeping s1) = (case L QSleeping of [] \<Rightarrow> None | t # _ \<Rightarrow> Some t)"
    using tlist_head [OF queues_okD(1) [OF ok, of QSleeping]] s1 by simp
  have "sched_ok s1 L" using ok s1 by simp
  from wake_sleepers_spec [OF this, of "[]" "L QSleeping" "cpu_time s" False] obtain s2 where
    s2: "wake_sleepers (cpu_time s) None (tl_head (tasks_sleeping s1)) False s1 =
        Some (Inr (filter (expired s (cpu_time s)) (L QSleeping) \<noteq> [], s2))"
      "sched_ok s2 (woken_lists s (cpu_time s) L)" "ctl s2 = ctl s1"
      "\<forall>a. stack_top (tasks s2 a) = stack_top (tasks s a)"
      "\<forall>a. a \<notin> set (filter (expired s (cpu_time s)) (L QSleeping)) \<longrightarrow>
          t_state (tasks s2 a) = t_state (tasks s a) \<and> wakeup_time (tasks s2 a) = wakeup_time (tasks s a)"
    using hd expired_cong [OF s1(1)] s1(1) by (auto simp del: fun_upd_apply)
  note c2 = ctl_fields [OF s2(3)]
  let ?d = "cpu_time s - last_timer_time s"
  define s3 where "s3 = (if time_slice_remaining s \<noteq> 0 then
      (if time_slice_remaining s \<le> ?d then s2\<lparr>last_timer_time := cpu_time s\<rparr>
       else s2\<lparr>last_timer_time := cpu_time s, time_slice_remaining := time_slice_remaining s - ?d\<rparr>) else s2)"
  have f: "tasks s3 = tasks s2" "qlist s3 = qlist s2" "current_task s3 = current_task s2" "clock s3 = clock s2"
    "locks s3 = locks s2" "tsc_reads s3 = tsc_reads s2" "cpu_esp s3 = cpu_esp s2"
    by (simp_all add: s3_def clock_def locks_def)
  have "on_timer_with sch s =
      bindE (if filter (expired s (cpu_time s)) (L QSleeping) \<noteq> []
             \<or> (time_slice_remaining s \<noteq> 0 \<and> time_slice_remaining s \<le> ?d)
             then sch s3 else Inr s3) (release_with sch)"
    using s2(1) [unfolded s1_def] c2(9,10) s1(7,8) by (simp add: on_timer_with_def Let_def s3_def)
  moreover have "saved_esp s3 = saved_esp s"
    using f c2 s1 s2(4) by (simp add: saved_esp_def fun_eq_iff)
  moreover have "time_slice_remaining s = 0 \<longrightarrow> time_slice_remaining s3 = 0"
    using c2 s1 by (simp add: s3_def)
  moreover have "locks s2 = locks s1" "clock s2 = clock s1" using c2 by (simp_all add: locks_def clock_def)
  ultimately show ?thesis
    using s2 f c2 s1 by (intro exI [of _ s3]) (simp del: fun_upd_apply)
qed

section \<open>Idling\<close>

definition idling :: "sched \<Rightarrow> (qid \<Rightarrow> addr list) \<Rightarrow> bool" where
  "idling s L \<longleftrightarrow> sched_ok s L \<and> current_task s = None \<and> scheduler_lock s = 1 \<and> postpone_count s = 0
     \<and> \<not> scheduler_postponed s \<and> time_slice_remaining s = 0"

text \<open>A timer interrupt while idling only moves the expired sleepers to the ready list.\<close>

lemma on_timer_idling:
  assumes "idling s L"
  shows "\<exists>s'. on_timer_with (schedule_with idle) s = Inr s' \<and> idling s' (woken_lists s (cpu_time s) L)
    \<and> clock s' = clock s \<and> tsc_reads s' = tsc_reads s + 1
    \<and> cpu_esp s' = cpu_esp s \<and> (\<forall>a. stack_top (tasks s' a) = stack_top (tasks s a))
    \<and> (\<forall>a. a \<notin> set (filter (expired s (cpu_time s)) (L QSleeping)) \<longrightarrow>
          t_state (tasks s' a) = t_state (tasks s a) \<and> wakeup_time (tasks s' a) = wakeup_time (tasks s a))"
proof -
  have i: "sched_ok s L" "current_task s = None" "scheduler_lock s = 1" "postpone_count s = 0"
    "\<not> scheduler_postponed s" "time_slice_remaining s = 0"
    using assms by (simp_all add: idling_def)
  obtain s3 where s3: "on_timer_with (schedule_with idle) s =
      bindE (if filter (expired s (cpu_time s)) (L QSleeping) \<noteq> [] then schedule_with idle s3 else Inr s3)
        (release_with (schedule_with idle))"
    "sched_ok s3 (woken_lists s (cpu_time s) L)" "current_task s3 = None"
    "locks s3 = (2, 1, False, False)" "clock s3 = clock s" "tsc_reads s3 = tsc_reads s + 1"
    "cpu_esp s3 = cpu_esp s" "\<forall>a. stack_top (tasks s3 a) = stack_top (tasks s a)"
    "time_slice_remaining s3 = 0"
    "\<forall>a. a \<notin> set (filter (expired s (cpu_time s)) (L QSleeping)) \<longrightarrow>
          t_state (tasks s3 a) = t_state (tasks s a) \<and> wakeup_time (tasks s3 a) = wakeup_time (tasks s a)"
    using on_timer_with_eq [OF i(1), of "schedule_with idle"] i by (auto simp del: fun_upd_apply)
  define s' where "s' = s3\<lparr>postpone_count := 0, scheduler_postponed := False, scheduler_lock := 1\<rparr>"
  have l: "postpone_count s3 = 1" "scheduler_lock s3 = 2" "\<not> scheduler_postponed s3"
    using s3(4) by (simp_all add: locks_def)
  have "on_timer_with (schedule_with idle) s = Inr s'"
    using s3(3) l by (cases s3) (simp add: s3(1) schedule_with_def release_with_eq task_starting_def s'_def)
  then show ?thesis
    using s3 by (intro exI [of _ s']) (simp add: s'_def idling_def clock_def del: fun_upd_apply)
qed

abbreviation tick_time :: "sched \<Rightarrow> nat \<Rightarrow> u64" where
  "tick_time s j \<equiv> tsc s (tsc_reads s + j) div instr_per_ns s"

lemma idling_intr [simp]: "idling (s\<lparr>intr := b\<rparr>) L = idling s L"
  by (simp add: idling_def)

lemma idling_dequeue_Nil:
  assumes "idling s L" and "L QReady = []"
  shows "\<exists>s'. dequeue_on QReady s = (None, s') \<and> idling s' L \<and> tasks s' = tasks s \<and> clock s' = clock s
    \<and> tsc_reads s' = tsc_reads s \<and> cpu_esp s' = cpu_esp s \<and> intr s' = intr s"
proof -
  have "sched_ok s L" using assms(1) by (simp add: idling_def)
  from dequeue_on_Nil [OF this assms(2)] obtain s' where
    s': "dequeue_on QReady s = (None, s')" "sched_ok s' L" "tasks s' = tasks s" "ctl s' = ctl s" by blast
  then show ?thesis using assms(1) ctl_fields [OF s'(4)] by (simp add: idling_def clock_def)
qed

lemma idling_dequeue_Cons:
  assumes "idling s L" and "L QReady = t # ts"
  shows "\<exists>s'. dequeue_on QReady s = (Some t, s') \<and> idling s' (L(QReady := ts)) \<and> same_fields (tasks s') (tasks s)
    \<and> clock s' = clock s \<and> cpu_esp s' = cpu_esp s \<and> intr s' = intr s"
proof -
  have "sched_ok s L" using assms(1) by (simp add: idling_def)
  from dequeue_on_Cons [OF this assms(2)] obtain s' where
    s': "dequeue_on QReady s = (Some t, s')" "sched_ok s' (L(QReady := ts))" "same_fields (tasks s') (tasks s)"
      "ctl s' = ctl s" by blast
  then show ?thesis using assms(1) ctl_fields [OF s'(4)] by (simp add: idling_def clock_def)
qed

text \<open>The idle loop ends at the first timer interrupt that finds an expired sleeper; if none of
  the \<open>n\<close> interrupts does, it hangs.\<close>

definition idles_until :: "sched \<Rightarrow> (qid \<Rightarrow> addr list) \<Rightarrow> nat \<Rightarrow> nat \<Rightarrow> addr \<Rightarrow> (qid \<Rightarrow> addr list) \<Rightarrow> bool" where
  "idles_until s L n j t L' \<longleftrightarrow> j < n \<and> (\<forall>i<j. filter (expired s (tick_time s i)) (L QSleeping) = [])
     \<and> (\<exists>ts. filter (expired s (tick_time s j)) (L QSleeping) = t # ts
         \<and> L' = L(QSleeping := filter (\<lambda>t. \<not> expired s (tick_time s j) t) (L QSleeping), QReady := ts))"

text \<open>One timer interrupt in the idle loop: without an expired sleeper the loop goes on from an unchanged set of tasks, with
  one it ends with the first of them.\<close>

lemma idle_tick:
  assumes "idling s L"
  obtains s1 where "on_timer_with (schedule_with (idle_loop n)) (s\<lparr>intr := True\<rparr>) = Inr s1"
    "idling s1 (woken_lists s (cpu_time s) L)" "clock s1 = clock s" "tsc_reads s1 = tsc_reads s + 1" "cpu_esp s1 = cpu_esp s"
    "\<forall>a. stack_top (tasks s1 a) = stack_top (tasks s a)"
    "\<forall>a. a \<notin> set (filter (expired s (cpu_time s)) (L QSleeping)) \<longrightarrow>
        t_state (tasks s1 a) = t_state (tasks s a) \<and> wakeup_time (tasks s1 a) = wakeup_time (tasks s a)"
proof -
  have "idling (s\<lparr>intr := True\<rparr>) L" using assms by simp
  from that on_timer_idling [OF this, of "idle_loop n"] show thesis
    using expired_cong [of "s\<lparr>intr := True\<rparr>" s] by (auto simp: clock_def simp del: fun_upd_apply)
qed

lemma idle_tick_quiet:
  assumes "idling s L" "L QReady = []" and Nil: "filter (expired s (cpu_time s)) (L QSleeping) = []"
  obtains s2 where "idle_loop (Suc n) s = idle_loop n s2" "idling s2 L" "clock s2 = clock s" "tsc_reads s2 = tsc_reads s + 1"
    "cpu_esp s2 = cpu_esp s" "\<forall>a. stack_top (tasks s2 a) = stack_top (tasks s a)"
    "\<forall>a. t_state (tasks s2 a) = t_state (tasks s a) \<and> wakeup_time (tasks s2 a) = wakeup_time (tasks s a)"
proof -
  obtain s1 where s1: "on_timer_with (schedule_with (idle_loop n)) (s\<lparr>intr := True\<rparr>) = Inr s1"
      "idling s1 (woken_lists s (cpu_time s) L)" "clock s1 = clock s" "tsc_reads s1 = tsc_reads s + 1" "cpu_esp s1 = cpu_esp s"
      "\<forall>a. stack_top (tasks s1 a) = stack_top (tasks s a)"
      "\<forall>a. a \<notin> set (filter (expired s (cpu_time s)) (L QSleeping)) \<longrightarrow>
          t_state (tasks s1 a) = t_state (tasks s a) \<and> wakeup_time (tasks s1 a) = wakeup_time (tasks s a)"
    by (rule idle_tick [OF assms(1), of n])
  have "woken_lists s (cpu_time s) L = L" using Nil assms(2) by (auto simp: fun_eq_iff filter_empty_conv intro: filter_True)
  then have "idling (s1\<lparr>intr := False\<rparr>) L" using s1(2) by simp
  from idling_dequeue_Nil [OF this assms(2)] obtain s2 where
    s2: "dequeue_on QReady (s1\<lparr>intr := False\<rparr>) = (None, s2)" "idling s2 L" "tasks s2 = tasks s1" "clock s2 = clock s1"
      "tsc_reads s2 = tsc_reads s1" "cpu_esp s2 = cpu_esp s1"
    by (auto simp: clock_def)
  have "idle_loop (Suc n) s = idle_loop n s2" using s1(1) s2(1) by (simp add: tasks_dequeue_ready_def)
  then show thesis using that s1 s2 Nil by simp
qed

lemma idle_tick_wakes:
  assumes "idling s L" "L QReady = []" and Cons: "filter (expired s (cpu_time s)) (L QSleeping) = t # ts"
  obtains s2 where "idle_loop (Suc n) s = Inr (t, s2)"
    "idling s2 (L(QSleeping := filter (\<lambda>t. \<not> expired s (cpu_time s) t) (L QSleeping), QReady := ts))"
    "\<not> intr s2" "clock s2 = clock s" "cpu_esp s2 = cpu_esp s" "\<forall>a. stack_top (tasks s2 a) = stack_top (tasks s a)"
    "\<forall>a. t_state (tasks s a) \<noteq> TASK_RUNNING \<longrightarrow> t_state (tasks s2 a) \<noteq> TASK_RUNNING"
proof -
  obtain s1 where s1: "on_timer_with (schedule_with (idle_loop n)) (s\<lparr>intr := True\<rparr>) = Inr s1"
      "idling s1 (woken_lists s (cpu_time s) L)" "clock s1 = clock s" "tsc_reads s1 = tsc_reads s + 1" "cpu_esp s1 = cpu_esp s"
      "\<forall>a. stack_top (tasks s1 a) = stack_top (tasks s a)"
      "\<forall>a. a \<notin> set (filter (expired s (cpu_time s)) (L QSleeping)) \<longrightarrow>
          t_state (tasks s1 a) = t_state (tasks s a) \<and> wakeup_time (tasks s1 a) = wakeup_time (tasks s a)"
    by (rule idle_tick [OF assms(1), of n])
  have i1: "idling (s1\<lparr>intr := False\<rparr>) (woken_lists s (cpu_time s) L)" using s1(2) by simp
  have "woken_lists s (cpu_time s) L QReady = t # ts" using Cons assms(2) by simp
  from idling_dequeue_Cons [OF i1 this] obtain s2 where
    s2: "dequeue_on QReady (s1\<lparr>intr := False\<rparr>) = (Some t, s2)"
      "idling s2 (L(QSleeping := filter (\<lambda>t. \<not> expired s (cpu_time s) t) (L QSleeping), QReady := ts))"
      "same_fields (tasks s2) (tasks s1)" "clock s2 = clock s1" "cpu_esp s2 = cpu_esp s1" "\<not> intr s2"
    by (auto simp: clock_def simp del: fun_upd_apply)
  have "idle_loop (Suc n) s = Inr (t, s2)" using s1(1) s2(1) by (simp add: tasks_dequeue_ready_def)
  moreover have "t_state (tasks s2 a) \<noteq> TASK_RUNNING" if "t_state (tasks s a) \<noteq> TASK_RUNNING" for a
  proof (cases "a \<in> set (t # ts)")
    case True
    have "sched_ok s1 (woken_lists s (cpu_time s) L)" using s1(2) by (simp add: idling_def)
    from queues_okD(3) [OF this, of a QReady] True Cons same_fieldsD(1) [OF s2(3)] show ?thesis by auto
  next
    case False
    with s1(7) Cons that same_fieldsD(1) [OF s2(3)] show ?thesis by simp
  qed
  ultimately show thesis using that s1 s2 same_fieldsD(4) [OF s2(3)] by (auto simp del: fun_upd_apply idle_loop.simps)
qed

lemma idle_loop_spec:
  assumes "idling s L" and "L QReady = []"
  shows "if \<forall>j<n. filter (expired s (tick_time s j)) (L QSleeping) = [] then idle_loop n s = Inl Hang
    else \<exists>j t L' s'. idle_loop n s = Inr (t, s') \<and> idles_until s L n j t L' \<and> idling s' L' \<and> \<not> intr s' \<and> clock s' = clock s
      \<and> cpu_esp s' = cpu_esp s \<and> (\<forall>a. stack_top (tasks s' a) = stack_top (tasks s a))
      \<and> (\<forall>a. t_state (tasks s a) \<noteq> TASK_RUNNING \<longrightarrow> t_state (tasks s' a) \<noteq> TASK_RUNNING)"
  using assms
proof (induction n arbitrary: s)
  case 0
  then show ?case by simp
next
  case (Suc n)
  show ?case
  proof (cases "filter (expired s (cpu_time s)) (L QSleeping)")
    case Nil
    obtain s2 where st: "idle_loop (Suc n) s = idle_loop n s2" and s2: "idling s2 L" "clock s2 = clock s" "tsc_reads s2 = tsc_reads s + 1"
      "cpu_esp s2 = cpu_esp s" "\<forall>a. stack_top (tasks s2 a) = stack_top (tasks s a)"
      "\<forall>a. t_state (tasks s2 a) = t_state (tasks s a) \<and> wakeup_time (tasks s2 a) = wakeup_time (tasks s a)"
      by (rule idle_tick_quiet [OF Suc.prems Nil, of n])
    have ex: "expired s2 (tick_time s2 j) = expired s (tick_time s (Suc j))" for j
      using s2(2,3,6) by (simp add: expired_def clock_def fun_eq_iff)
    have iu: "idles_until s L (Suc n) (Suc j) t L'" if "idles_until s2 L n j t L'" for j t L'
      using that Nil unfolding idles_until_def by (auto simp: ex less_Suc_eq_0_disj simp del: fun_upd_apply)
    have all: "(\<forall>j<Suc n. filter (expired s (tick_time s j)) (L QSleeping) = []) \<longleftrightarrow>
        (\<forall>j<n. filter (expired s2 (tick_time s2 j)) (L QSleeping) = [])"
      using Nil by (simp add: All_less_Suc2 ex)
    show ?thesis
    proof (cases "\<forall>j<n. filter (expired s2 (tick_time s2 j)) (L QSleeping) = []")
      case True
      then show ?thesis using Suc.IH [OF s2(1) Suc.prems(2)] unfolding st all by simp
    next
      case False
      then show ?thesis
        using Suc.IH [OF s2(1) Suc.prems(2), unfolded if_not_P [OF False]] iu s2
        unfolding st all if_not_P [OF False] by metis
    qed
  next
    case (Cons t ts)
    let ?L' = "L(QSleeping := filter (\<lambda>t. \<not> expired s (cpu_time s) t) (L QSleeping), QReady := ts)"
    have "idles_until s L (Suc n) 0 t ?L'" using Cons by (simp add: idles_until_def del: fun_upd_apply)
    moreover have "tick_time s 0 = cpu_time s" by simp
    then have "\<not> (\<forall>j<Suc n. filter (expired s (tick_time s j)) (L QSleeping) = [])"
      using Cons by (metis list.distinct(1) zero_less_Suc)
    ultimately show ?thesis
      using idle_tick_wakes [OF Suc.prems Cons, of n] by (metis (no_types))
  qed
qed

section \<open>The closing schedule of an entry point\<close>

text \<open>What the ready list and the running task become when something can run.\<close>

definition pick :: "bool \<Rightarrow> addr \<Rightarrow> (qid \<Rightarrow> addr list) \<Rightarrow> addr \<times> (qid \<Rightarrow> addr list)" where
  "pick running c L = (case L QReady of [] \<Rightarrow> (c, L) | t # ts \<Rightarrow> (t, requeue running c ts L))"

lemma finish_runnable:
  assumes ok: "sched_ok s L" and c: "current_task s = Some c" and l: "locks s = (1, 1, b, False)"
    and r: "L QReady \<noteq> [] \<or> t_state (tasks s c) = TASK_RUNNING"
  shows "\<exists>s'. bindE (schedule n s) (release_scheduler_lock n) = Inr s'
    \<and> quiet s' (fst (pick (t_state (tasks s c) = TASK_RUNNING) c L)) (snd (pick (t_state (tasks s c) = TASK_RUNNING) c L))
    \<and> clock s' = clock s \<and> time_slice_remaining s' = TIME_SLICE_SIZE \<and> saved_esp s' = saved_esp s
    \<and> wake_times s' = wake_times s"
proof -
  let ?s = "s\<lparr>postpone_count := 0, scheduler_postponed := False\<rparr>"
  have e: "bindE (schedule n s) (release_scheduler_lock n) =
      bindE (schedule_with (idle_loop n) ?s) (\<lambda>s. Inr (task_starting s))"
    unfolding schedule_def release_scheduler_lock_def by (rule postponed_schedule [OF l])
  have 1: "sched_ok ?s L" "current_task ?s = Some c" "postpone_count ?s = 0" using ok c by simp_all
  have 2: "locks ?s = (1, 0, False, False)" "clock ?s = clock s" "saved_esp ?s = saved_esp s" "wake_times ?s = wake_times s"
    using l by (simp_all add: locks_def clock_def saved_esp_def wake_times_def fun_eq_iff)
  show ?thesis
  proof (cases "L QReady")
    case Nil
    then have "t_state (tasks ?s c) = TASK_RUNNING" using r by simp
    from schedule_with_alone [OF 1 Nil this, of "idle_loop n"] 2 show ?thesis
      using Nil by (auto simp: e quiet_def pick_def locks_task_starting)
  next
    case (Cons t ts)
    from schedule_with_ready [OF 1 Cons, of "idle_loop n"] 2 show ?thesis
      using Cons by (auto simp: e quiet_def pick_def locks_task_starting)
  qed
qed

text \<open>Leaving the idle loop: the borrowed task is current again and the switch follows.\<close>

definition leave_idle :: "addr \<Rightarrow> addr \<Rightarrow> sched \<Rightarrow> sched outcome" where
  "leave_idle c t s4 =
     (let s5 = (tasks_update_time s4)\<lparr>current_task := Some c\<rparr>;
          (now, s6) = get_cpu_time_ns s5; s7 = s6\<lparr>idle_start := idle_start s6 - now\<rparr>;
          (now', s8) = get_cpu_time_ns (s7\<lparr>idle_time := idle_time s7 + idle_start s7, time_slice_remaining := TIME_SLICE_SIZE\<rparr>)
      in tasks_switch_to t (s8\<lparr>last_timer_time := now'\<rparr>))"

lemma leave_idle_ok:
  assumes i: "idling s L" and it: "\<not> intr s" and t: "t \<notin> queued L" and nr: "t_state (tasks s c) \<noteq> TASK_RUNNING"
  shows "\<exists>s'. bindE (leave_idle c t s) (\<lambda>s. Inr (task_starting s)) = Inr s' \<and> quiet s' t L \<and> clock s' = clock s
    \<and> time_slice_remaining s' = TIME_SLICE_SIZE
    \<and> saved_esp s' = (\<lambda>a. if a = c then cpu_esp s else stack_top (tasks s a) + 20)"
proof -
  define u where "u = (tasks_update_time s)\<lparr>current_task := Some c\<rparr>"
  define v where "v = u\<lparr>idle_start := idle_start u - cpu_time u,
    idle_time := idle_time u + (idle_start u - cpu_time u), time_slice_remaining := TIME_SLICE_SIZE,
    tsc_reads := tsc_reads u + 2, last_timer_time := tick_time u 1\<rparr>"
  have lv: "leave_idle c t s = tasks_switch_to t v"
    by (simp add: leave_idle_def u_def v_def Let_def)
  have f: "sched_ok v L" "current_task v = Some c" "t_state (tasks v c) \<noteq> TASK_RUNNING"
    "clock v = clock s" "locks v = (1, 0, False, False)" "time_slice_remaining v = TIME_SLICE_SIZE"
    "saved_esp v = (\<lambda>a. if a = c then cpu_esp s else stack_top (tasks s a) + 20)"
    using i it nr by (simp_all add: v_def u_def idling_def clock_def locks_def saved_esp_def fun_eq_iff)
  from switch_ok [OF f(1,2) t] f obtain s' where "tasks_switch_to t v = Inr s'" "sched_ok s' L"
    "current_task s' = Some t" "t_state (tasks s' t) = TASK_RUNNING" "locks s' = (1, 0, False, False)"
    "clock s' = clock s" "time_slice_remaining s' = TIME_SLICE_SIZE"
    "saved_esp s' = (\<lambda>a. if a = c then cpu_esp s else stack_top (tasks s a) + 20)"
    by auto
  then show ?thesis by (simp add: lv quiet_def locks_task_starting)
qed

lemma idles_until_unqueued:
  assumes "idles_until s L n j t L'" and ok: "sched_ok s L" and "L QReady = []"
  shows "t \<notin> queued L'"
proof -
  obtain ts where f: "filter (expired s (tick_time s j)) (L QSleeping) = t # ts"
    and L': "L' = L(QSleeping := filter (\<lambda>t. \<not> expired s (tick_time s j) t) (L QSleeping), QReady := ts)"
    using assms(1) by (auto simp: idles_until_def)
  have "t \<in> set (filter (expired s (tick_time s j)) (L QSleeping))" by (simp add: f)
  then have t: "t \<in> set (L QSleeping)" "expired s (tick_time s j) t" by simp_all
  have "distinct (t # ts)" using queues_okD(4) [OF ok, of QSleeping] by (metis distinct_filter f)
  moreover have "t \<notin> set (L q)" if "q \<noteq> QSleeping" for q using queues_okD(2) [OF ok that] t by auto
  ultimately show ?thesis using t(2) by (auto simp: notin_queued L')
qed

lemma finish_idle:
  assumes ok: "sched_ok s L" and c: "current_task s = Some c" and l: "locks s = (1, 1, b, False)"
    and r: "L QReady = []" and nr: "t_state (tasks s c) \<noteq> TASK_RUNNING"
  shows "\<exists>s3. tasks s3 = tasks (tasks_update_time s) \<and> clock s3 = clock s \<and> tsc_reads s3 = tsc_reads s + 2 \<and>
    (if \<forall>j<n. filter (expired s3 (tick_time s3 j)) (L QSleeping) = []
     then bindE (schedule n s) (release_scheduler_lock n) = Inl Hang
     else \<exists>s' t L' j. bindE (schedule n s) (release_scheduler_lock n) = Inr s' \<and> idles_until s3 L n j t L'
       \<and> quiet s' t L' \<and> clock s' = clock s \<and> time_slice_remaining s' = TIME_SLICE_SIZE \<and> saved_esp s' = saved_esp s)"
proof -
  let ?s = "s\<lparr>postpone_count := 0, scheduler_postponed := False\<rparr>"
  have e: "bindE (schedule n s) (release_scheduler_lock n) =
      bindE (schedule_with (idle_loop n) ?s) (\<lambda>s. Inr (task_starting s))"
    unfolding schedule_def release_scheduler_lock_def by (rule postponed_schedule [OF l])
  have ok': "sched_ok ?s L" using ok by simp
  from dequeue_on_Nil [OF ok' r] obtain s1 where s1: "dequeue_on QReady ?s = (None, s1)" "sched_ok s1 L"
    "tasks s1 = tasks ?s" "ctl s1 = ctl ?s" "qlist s1 = qlist ?s" by blast
  note c1 = ctl_fields [OF s1(4)]
  define s2 where "s2 = (tasks_update_time (s1\<lparr>time_slice_remaining := 0\<rparr>))\<lparr>current_task := None\<rparr>"
  define s3 where "s3 = s2\<lparr>tsc_reads := tsc_reads s2 + 1, idle_start := cpu_time s2\<rparr>"
  have ll: "scheduler_lock s = 1" using l by (simp add: locks_def)
  have i3: "idling s3 L" using s1(2) c1 ll c unfolding idling_def s3_def s2_def by simp
  have last: "last_time s1 = last_time s" using s1(4) by (simp add: ctl_def)
  have t3: "tasks s3 = tasks (tasks_update_time s)" "clock s3 = clock s" "tsc_reads s3 = tsc_reads s + 2"
    "cpu_esp s3 = cpu_esp s"
    using s1(3) c1 c last by (simp_all add: s3_def s2_def clock_def tasks_update_time_def Let_def)
  have sw: "schedule_with (idle_loop n) ?s = bindE (idle_loop n s3) (\<lambda>(t, s4). leave_idle c t s4)"
    using s1(1,3) c nr c1
    by (simp add: schedule_with_def tasks_dequeue_ready_def s3_def s2_def Let_def case_prod_beta leave_idle_def)
  have st3: "t_state (tasks s3 a) = t_state (tasks s a)" "stack_top (tasks s3 a) = stack_top (tasks s a)" for a
    by (simp_all add: t3)
  show ?thesis
  proof (intro exI [of _ s3] conjI t3(1-3), cases "\<forall>j<n. filter (expired s3 (tick_time s3 j)) (L QSleeping) = []")
    case True
    with idle_loop_spec [OF i3 r, of n, unfolded if_P [OF True]] show "if \<forall>j<n. filter (expired s3 (tick_time s3 j)) (L QSleeping) = []
     then bindE (schedule n s) (release_scheduler_lock n) = Inl Hang
     else \<exists>s' t L' j. bindE (schedule n s) (release_scheduler_lock n) = Inr s' \<and> idles_until s3 L n j t L'
       \<and> quiet s' t L' \<and> clock s' = clock s \<and> time_slice_remaining s' = TIME_SLICE_SIZE \<and> saved_esp s' = saved_esp s"
      by (simp add: e sw)
  next
    case False
    obtain j t L' s4 where s4: "idle_loop n s3 = Inr (t, s4)" "idles_until s3 L n j t L'" "idling s4 L'" "\<not> intr s4"
        "clock s4 = clock s3" "cpu_esp s4 = cpu_esp s3" "\<forall>a. stack_top (tasks s4 a) = stack_top (tasks s3 a)"
        "\<forall>a. t_state (tasks s3 a) \<noteq> TASK_RUNNING \<longrightarrow> t_state (tasks s4 a) \<noteq> TASK_RUNNING"
      using idle_loop_spec [OF i3 r, of n, unfolded if_not_P [OF False]] by blast
    have "t_state (tasks s4 c) \<noteq> TASK_RUNNING" "sched_ok s3 L" using nr st3 s4(8) i3 by (simp_all add: idling_def)
    moreover have "(\<lambda>a. if a = c then cpu_esp s4 else stack_top (tasks s4 a) + 20) = saved_esp s"
      using s4(6,7) t3(4) st3 c by (simp add: saved_esp_def fun_eq_iff)
    ultimately have fin: "\<exists>s'. bindE (schedule n s) (release_scheduler_lock n) = Inr s' \<and> quiet s' t L' \<and> clock s' = clock s
        \<and> time_slice_remaining s' = TIME_SLICE_SIZE \<and> saved_esp s' = saved_esp s"
      using leave_idle_ok [OF s4(3,4) idles_until_unqueued [OF s4(2) _ r], of c] s4(1,5) t3(2) by (simp add: e sw)
    show "if \<forall>j<n. filter (expired s3 (tick_time s3 j)) (L QSleeping) = []
     then bindE (schedule n s) (release_scheduler_lock n) = Inl Hang
     else \<exists>s' t L' j. bindE (schedule n s) (release_scheduler_lock n) = Inr s' \<and> idles_until s3 L n j t L'
       \<and> quiet s' t L' \<and> clock s' = clock s \<and> time_slice_remaining s' = TIME_SLICE_SIZE \<and> saved_esp s' = saved_esp s"
      unfolding if_not_P [OF False] using fin s4(2) by blast
  qed
qed

end
