(* ===== verification/Scheduler_Api.thy ===== *)
theory Scheduler_Api
  imports Scheduler_Correct
begin

text \<open>
  The entry points of the scheduler.  Each is first reduced to its effect on the lists followed by
  the closing schedule of \<open>Scheduler_Correct\<close>; the properties of single calls and of whole runs
  follow.
\<close>

section \<open>Reductions\<close>

lemma queued_split: "queued L = (\<Union>r \<in> - {q}. set (L r)) \<union> set (L q)"
  using queued_upd [of L q "L q"] by simp

lemma pick_population:
  assumes "L QReady \<noteq> [] \<or> run"
  shows "insert (fst (pick run c L)) (queued (snd (pick run c L))) = (if run then insert c (queued L) else queued L)"
  using assms queued_split [of L QReady]
  by (cases "L QReady") (auto simp: pick_def requeue_def queued_upd simp del: fun_upd_apply)

lemma finish_any:
  assumes ok: "sched_ok s L" and c: "current_task s = Some c" and l: "locks s = (1, 1, b, False)"
    and ret: "bindE (schedule n s) (release_scheduler_lock n) = Inr s'"
  shows "\<exists>t L'. quiet s' t L' \<and> saved_esp s' = saved_esp s \<and> clock s' = clock s
    \<and> insert t (queued L') = (if t_state (tasks s c) = TASK_RUNNING then insert c (queued L) else queued L)"
proof (cases "L QReady \<noteq> [] \<or> t_state (tasks s c) = TASK_RUNNING")
  case True
  let ?p = "pick (t_state (tasks s c) = TASK_RUNNING) c L"
  show ?thesis
    using finish_runnable [OF ok c l True, of n] ret pick_population [where L = L and c = c, OF True]
    by (intro exI [of _ "fst ?p"] exI [of _ "snd ?p"]) auto
next
  case False
  then have r: "L QReady = []" and nr: "t_state (tasks s c) \<noteq> TASK_RUNNING" by auto
  from finish_idle [OF ok c l r nr, of n] ret obtain s3 t L' j where
    i: "idles_until s3 L n j t L'" and q: "quiet s' t L'" "clock s' = clock s" "saved_esp s' = saved_esp s"
    by (auto split: if_splits)
  have "insert t (queued L') = queued L"
  proof -
    obtain ts where f: "filter (expired s3 (tick_time s3 j)) (L QSleeping) = t # ts"
      and L': "L' = L(QSleeping := filter (\<lambda>t. \<not> expired s3 (tick_time s3 j) t) (L QSleeping), QReady := ts)"
      using i by (auto simp: idles_until_def)
    have "set (t # ts) = {x \<in> set (L QSleeping). expired s3 (tick_time s3 j) x}" by (simp flip: f)
    then have "set (L QSleeping) = insert t (set ts) \<union> {x \<in> set (L QSleeping). \<not> expired s3 (tick_time s3 j) x}"
      by auto
    moreover have "queued L = (\<Union>q \<in> - {QReady, QSleeping}. set (L q)) \<union> set (L QSleeping)"
      using r by (auto simp: queued_def) (rule_tac x = q in bexI; auto)
    moreover have "queued L' = (\<Union>q \<in> - {QReady, QSleeping}. set (L q)) \<union> set ts
        \<union> {x \<in> set (L QSleeping). \<not> expired s3 (tick_time s3 j) x}"
      by (auto simp: queued_def L' split: if_splits)
    ultimately show ?thesis using r by auto
  qed
  with q nr show ?thesis by auto
qed

lemma enqueue_state_commute:
  "upd_task c (\<lambda>k. k\<lparr>t_state := x\<rparr>) (enqueue_on q t s) = enqueue_on q t (upd_task c (\<lambda>k. k\<lparr>t_state := x\<rparr>) s)"
  by (cases q; cases "tl_tail (qlist s q)")
    (auto simp: enqueue_on_def enqueue_task_def upd_task_def set_next_def Let_def fun_eq_iff)

lemma block_nested:
  assumes "locks s = (1, 1, b, False)" and "current_task s = Some c"
  shows "tasks_block_current n reason s =
    Inr ((upd_task c (\<lambda>t. t\<lparr>t_state := reason\<rparr>) s)\<lparr>scheduler_postponed := True\<rparr>)"
  using assms
  by (cases s) (simp add: tasks_block_current_def aquire_scheduler_lock_def schedule_def schedule_with_def
      release_scheduler_lock_def release_with_def locks_def upd_task_def Let_def)

lemma unblock_nested:
  assumes "locks s = (1, 1, b, False)"
  shows "tasks_unblock n t s = Inr (tasks_enqueue_ready t (upd_task t (\<lambda>k. k\<lparr>t_state := TASK_READY\<rparr>) s))"
  using assms
  by (cases s) (simp add: tasks_unblock_def aquire_scheduler_lock_def tasks_enqueue_ready_def enqueue_on_def
      release_scheduler_lock_def release_with_def locks_def upd_task_def Let_def split: prod.split)

lemma locks_quiet_aquire: "quiet s c L \<Longrightarrow> locks (aquire_scheduler_lock s) = (1, 1, False, False)"
  by (simp add: quietD locks_aquire)

lemma ctl_locks: "ctl s' = ctl s \<Longrightarrow> locks s' = locks s \<and> clock s' = clock s"
  by (simp add: ctl_def locks_def clock_def)

text \<open>What each entry point hands to the closing schedule: a state whose lists are \<open>L1\<close>, still
  locked, with the same task current.\<close>

definition hands_over :: "sched \<Rightarrow> addr \<Rightarrow> (qid \<Rightarrow> addr list) \<Rightarrow> sched \<Rightarrow> bool" where
  "hands_over s c L1 s1 \<longleftrightarrow> sched_ok s1 L1 \<and> current_task s1 = Some c \<and> locks s1 = (1, 1, scheduler_postponed s1, False)
     \<and> clock s1 = clock s \<and> saved_esp s1 = saved_esp s"

lemma saved_esp_ctl:
  "ctl s' = ctl s \<Longrightarrow> (\<And>a. stack_top (tasks s' a) = stack_top (tasks s a)) \<Longrightarrow> saved_esp s' = saved_esp s"
  using ctl_fields [of s' s] by (simp add: saved_esp_def fun_eq_iff)

lemma hands_over_enqueue:
  assumes q: "quiet s c L" and f: "\<And>k. t_state (f k) = qstate qq" "\<And>k. stack_top (f k) = stack_top k"
  shows "hands_over s c (L(qq := L qq @ [c])) (enqueue_on qq c (upd_task c f (aquire_scheduler_lock s)))
    \<and> t_state (tasks (enqueue_on qq c (upd_task c f (aquire_scheduler_lock s))) c) = qstate qq
    \<and> wake_times (enqueue_on qq c (upd_task c f (aquire_scheduler_lock s))) = (wake_times s)(c := wakeup_time (f (tasks s c)))
    \<and> tsc_reads (enqueue_on qq c (upd_task c f (aquire_scheduler_lock s))) = tsc_reads s"
proof -
  let ?s = "upd_task c f (aquire_scheduler_lock s)"
  have ok: "sched_ok ?s L" and cn: "c \<notin> queued L" using quietD [OF q] by simp_all
  have e: "sched_ok (enqueue_on qq c ?s) (L(qq := L qq @ [c]))" "same_fields (tasks (enqueue_on qq c ?s)) (tasks ?s)"
    using enqueue_on_ok [OF ok cn, of qq] f by simp_all
  have ct: "ctl (enqueue_on qq c ?s) = ctl (aquire_scheduler_lock s)" by simp
  have "saved_esp (enqueue_on qq c ?s) = saved_esp (aquire_scheduler_lock s)"
    by (rule saved_esp_ctl [OF ct]) (simp add: same_fieldsD(4) [OF e(2)] f)
  then show ?thesis
    using e(1) quietD(2,7) [OF q] ctl_locks [OF ct] locks_quiet_aquire [OF q] same_fieldsD [OF e(2)] f ctl_fields(8) [OF ct]
    by (simp add: hands_over_def wake_times_def fun_upd_def del: fun_upd_apply) (auto intro!: ext)
qed

lemma tasks_schedule_reduce:
  assumes "quiet s c L"
  shows "\<exists>s1. tasks_schedule n s = bindE (schedule n s1) (release_scheduler_lock n) \<and> hands_over s c L s1
    \<and> t_state (tasks s1 c) = TASK_RUNNING"
  using quietD [OF assms] locks_quiet_aquire [OF assms]
  by (intro exI [of _ "aquire_scheduler_lock s"]) (simp add: tasks_schedule_def hands_over_def)

lemma tasks_nano_sleep_until_reduce:
  assumes q: "quiet s c L"
  shows "\<exists>s1. tasks_nano_sleep_until n w s = bindE (schedule n s1) (release_scheduler_lock n)
    \<and> hands_over s c (L(QSleeping := L QSleeping @ [c])) s1 \<and> t_state (tasks s1 c) = TASK_SLEEPING
    \<and> wake_times s1 = (wake_times s)(c := w) \<and> tsc_reads s1 = tsc_reads s"
  using hands_over_enqueue [OF q, of "\<lambda>t. t\<lparr>t_state := TASK_SLEEPING, wakeup_time := w\<rparr>" QSleeping] quietD [OF q]
  by (auto simp: tasks_nano_sleep_until_def simp del: fun_upd_apply upd_task_simps)

lemma quiet_aquire_nested:
  assumes "quiet s c L"
  shows "locks (enqueue_on qq c (aquire_scheduler_lock s)) = (1, 1, False, False)"
    "current_task (enqueue_on qq c (aquire_scheduler_lock s)) = Some c"
  using ctl_locks [OF ctl_enqueue_on, of qq c "aquire_scheduler_lock s"] locks_quiet_aquire [OF assms] quietD(2) [OF assms]
  by simp_all

lemma hands_over_postponed:
  "hands_over s c L (s1\<lparr>scheduler_postponed := True\<rparr>) = hands_over s c L s1"
  by (auto simp: hands_over_def locks_def clock_def saved_esp_def fun_eq_iff)

lemma release_postponed_n:
  assumes "hands_over s c L s1"
  shows "release_scheduler_lock n (s1\<lparr>scheduler_postponed := True\<rparr>) =
    bindE (schedule n (s1\<lparr>scheduler_postponed := True\<rparr>)) (release_scheduler_lock n)"
proof -
  have "locks (s1\<lparr>scheduler_postponed := True\<rparr>) = (1, 1, True, False)"
    using assms by (auto simp: hands_over_def locks_def)
  from release_postponed [OF this] show ?thesis by (simp add: schedule_def release_scheduler_lock_def)
qed

lemma tasks_sync_block_reduce:
  assumes q: "quiet s c L"
  shows "\<exists>s1. tasks_sync_block n ts s = bindE (schedule n s1) (release_scheduler_lock n)
    \<and> hands_over s c (L(QWait ts := L (QWait ts) @ [c])) s1 \<and> t_state (tasks s1 c) = TASK_BLOCKED"
proof -
  let ?s1 = "enqueue_on (QWait ts) c (upd_task c (\<lambda>t. t\<lparr>t_state := TASK_BLOCKED\<rparr>) (aquire_scheduler_lock s))"
  have h: "hands_over s c (L(QWait ts := L (QWait ts) @ [c])) ?s1" "t_state (tasks ?s1 c) = TASK_BLOCKED"
    using hands_over_enqueue [OF q, of "\<lambda>t. t\<lparr>t_state := TASK_BLOCKED\<rparr>" "QWait ts"] by simp_all
  have "tasks_sync_block n ts s = bindE (schedule n (?s1\<lparr>scheduler_postponed := True\<rparr>)) (release_scheduler_lock n)"
    using quietD(2) [OF q] block_nested [OF quiet_aquire_nested [OF q], of n] release_postponed_n [OF h(1), of n]
    by (simp add: tasks_sync_block_def enqueue_state_commute del: upd_task_simps)
  then show ?thesis
    using h by (intro exI [of _ "?s1\<lparr>scheduler_postponed := True\<rparr>"]) (simp add: hands_over_postponed del: fun_upd_apply)
qed

lemma tasks_sync_unblock_reduce:
  assumes q: "quiet s c L" and w: "L (QWait ts) \<noteq> []"
  shows "\<exists>s1. tasks_sync_unblock n ts s = bindE (schedule n s1) (release_scheduler_lock n)
    \<and> hands_over s c (L(QWait ts := [], QReady := L QReady @ L (QWait ts))) s1 \<and> t_state (tasks s1 c) = TASK_RUNNING"
proof -
  let ?s0 = "aquire_scheduler_lock s" and ?ws = "L (QWait ts)" and ?L = "L(QWait ts := [])"
  note ok = quietD(1) [OF q]
  have tl: "tlist (tasks s) (waiting (syncs s ts)) ?ws" using queues_okD(1) [OF ok, of "QWait ts"] by simp
  then have hd: "tl_head (waiting (syncs s ts)) \<noteq> None" and ch: "chain (tasks s) (tl_head (waiting (syncs s ts))) ?ws None"
    and d: "distinct ?ws"
    using w by (cases "L (QWait ts)"; auto simp: tlist_def)+
  have "queues_ok (tasks s) ((qlist s)(QWait ts := empty_list)) ?L"
    by (rule queues_ok_change [OF ok frame_refl [of _ "{}"]]) simp_all
  then have ok0: "sched_ok (set_qlist (QWait ts) empty_list ?s0) ?L" by (simp del: set_qlist.simps)
  have dj: "set ?ws \<inter> queued ?L = {}"
  proof -
    have "x \<notin> set (L r)" if "x \<in> set ?ws" "r \<noteq> QWait ts" for x r
      using queues_okD(2) [OF ok that(2)] that(1) by blast
    then show ?thesis by (auto simp: queued_def split: if_splits)
  qed
  from wake_waiters_spec [OF ok0 _ d dj, of "tl_head (waiting (syncs s ts))"] ch obtain s1 where
    s1: "wake_waiters (tl_head (waiting (syncs s ts))) ?s0 = Some s1"
      "sched_ok (set_qlist (QWait ts) empty_list s1) (?L(QReady := ?L QReady @ ?ws))" "ctl s1 = ctl ?s0"
      "\<forall>a. stack_top (tasks s1 a) = stack_top (tasks ?s0 a)" "\<forall>a. a \<notin> set ?ws \<longrightarrow> t_state (tasks s1 a) = t_state (tasks ?s0 a)"
    by (auto simp del: set_qlist.simps fun_upd_apply)
  let ?s2 = "set_qlist (QWait ts) empty_list s1"
  have ct: "ctl ?s2 = ctl ?s0" using s1(3) by (simp del: set_qlist.simps)
  have "saved_esp ?s2 = saved_esp ?s0"
    by (rule saved_esp_ctl [OF ct]) (use s1(4) in \<open>simp del: set_qlist.simps\<close>)
  then have "hands_over s c (?L(QReady := ?L QReady @ ?ws)) ?s2"
    using s1(2) ctl_fields(1,4) [OF ct] ctl_locks [OF ct] quietD(2,7) [OF q] locks_quiet_aquire [OF q]
    by (simp add: hands_over_def del: set_qlist.simps fun_upd_apply)
  moreover have "t_state (tasks ?s2 c) = TASK_RUNNING"
    using s1(5) quiet_disjoint [OF q, of "QWait ts"] quietD(3) [OF q] by (simp del: set_qlist.simps)
  moreover have "tasks_sync_unblock n ts s = bindE (schedule n ?s2) (release_scheduler_lock n)"
    using hd s1(1) by (auto simp: tasks_sync_unblock_def Let_def)
  ultimately show ?thesis by (intro exI [of _ ?s2]) (simp del: set_qlist.simps fun_upd_apply, simp)
qed

lemma release_to_quiet:
  assumes "sched_ok s1 L1" and "current_task s1 = Some c" and "t_state (tasks s1 c) = TASK_RUNNING"
    and "locks s1 = (1, 1, False, False)"
  shows "\<exists>s'. release_scheduler_lock n s1 = Inr s' \<and> quiet s' c L1 \<and> saved_esp s' = saved_esp s1 \<and> clock s' = clock s1
    \<and> tasks s' = tasks s1"
proof -
  let ?s = "s1\<lparr>postpone_count := 0\<rparr>"
  have "locks ?s = (1, 0, False, False)" using assms(4) by (simp add: locks_def)
  moreover have "saved_esp ?s = saved_esp s1" "clock ?s = clock s1" by (simp_all add: saved_esp_def clock_def fun_eq_iff)
  ultimately show ?thesis
    using assms release_quiet [OF assms(4), of "schedule n"]
    by (simp add: release_scheduler_lock_def quiet_def locks_task_starting)
qed

lemma tasks_sync_unblock_none:
  assumes q: "quiet s c L" and w: "L (QWait ts) = []"
  shows "\<exists>s'. tasks_sync_unblock n ts s = Inr s' \<and> quiet s' c L \<and> saved_esp s' = saved_esp s \<and> clock s' = clock s"
proof -
  have "tl_head (waiting (syncs s ts)) = None"
    using queues_okD(1) [OF quietD(1) [OF q], of "QWait ts"] w by (simp add: tlist_def)
  then show ?thesis
    using release_to_quiet [of "aquire_scheduler_lock s" L c n] quietD [OF q] locks_quiet_aquire [OF q]
    by (auto simp: tasks_sync_unblock_def)
qed

lemma tasks_unblock_quiet:
  assumes q: "quiet s c L" and t: "t \<notin> queued L" "t \<noteq> c"
  shows "\<exists>s'. tasks_unblock n t s = Inr s' \<and> quiet s' c (L(QReady := L QReady @ [t])) \<and> saved_esp s' = saved_esp s
    \<and> clock s' = clock s"
proof -
  let ?s = "upd_task t (\<lambda>k. k\<lparr>t_state := TASK_READY\<rparr>) (aquire_scheduler_lock s)"
  have ok: "sched_ok ?s L" using quietD(1) [OF q] t by simp
  have e: "sched_ok (enqueue_on QReady t ?s) (L(QReady := L QReady @ [t]))"
    "same_fields (tasks (enqueue_on QReady t ?s)) (tasks ?s)"
    using enqueue_on_ok [OF ok t(1), of QReady] by simp_all
  have ct: "ctl (enqueue_on QReady t ?s) = ctl (aquire_scheduler_lock s)" by simp
  have se: "saved_esp (enqueue_on QReady t ?s) = saved_esp s"
    by (subst saved_esp_ctl [OF ct]) (simp_all add: same_fieldsD(4) [OF e(2)])
  have "t_state (tasks (enqueue_on QReady t ?s) c) = TASK_RUNNING"
    using same_fieldsD(1) [OF e(2), of c] quietD(3) [OF q] t(2) by simp
  from release_to_quiet [OF e(1) _ this, of n] show ?thesis
    using ctl_locks [OF ct] locks_quiet_aquire [OF q] quietD(2) [OF q] se
    by (auto simp: tasks_unblock_def tasks_enqueue_ready_def simp del: fun_upd_apply)
qed

lemma tasks_exit_reduce:
  assumes q: "quiet s c L" and k: "k \<notin> queued L" "k \<noteq> c"
  shows "\<exists>s1. tasks_exit n k s = bindE (schedule n s1) (release_scheduler_lock n)
    \<and> hands_over s c (L(QStopped := L QStopped @ [c], QReady := L QReady @ [k])) s1
    \<and> t_state (tasks s1 c) = TASK_STOPPED"
proof -
  let ?s1 = "enqueue_on QStopped c (upd_task c (\<lambda>t. t\<lparr>t_state := TASK_STOPPED\<rparr>) (aquire_scheduler_lock s))"
  let ?L = "L(QStopped := L QStopped @ [c])"
  have h: "hands_over s c ?L ?s1" "t_state (tasks ?s1 c) = TASK_STOPPED"
    using hands_over_enqueue [OF q, of "\<lambda>t. t\<lparr>t_state := TASK_STOPPED\<rparr>" QStopped] by simp_all
  define s2 where "s2 = ?s1\<lparr>scheduler_postponed := True\<rparr>"
  have h2: "hands_over s c ?L s2" "t_state (tasks s2 c) = TASK_STOPPED" "scheduler_postponed s2"
    using h hands_over_postponed [of s c ?L ?s1] by (simp_all add: s2_def)
  have kn: "k \<notin> queued ?L" using k by (auto simp: queued_def split: if_splits)
  let ?s3 = "upd_task k (\<lambda>t. t\<lparr>t_state := TASK_READY\<rparr>) s2"
  have ok: "sched_ok ?s3 ?L" using h2(1) kn by (simp add: hands_over_def)
  define s4 where "s4 = enqueue_on QReady k ?s3"
  have e: "sched_ok s4 (L(QStopped := L QStopped @ [c], QReady := L QReady @ [k]))" "same_fields (tasks s4) (tasks ?s3)"
    using enqueue_on_ok [OF ok kn, of QReady] by (simp_all add: s4_def)
  have ct: "ctl s4 = ctl s2" by (simp add: s4_def)
  have l2: "locks s2 = (1, 1, True, False)" using h2 by (simp add: hands_over_def)
  have se: "saved_esp s4 = saved_esp s2" by (rule saved_esp_ctl [OF ct]) (simp add: same_fieldsD(4) [OF e(2)])
  have ho: "hands_over s c (L(QStopped := L QStopped @ [c], QReady := L QReady @ [k])) s4"
    using e(1) ctl_fields(1,4) [OF ct] ctl_locks [OF ct] h2 l2 se by (simp add: hands_over_def del: fun_upd_apply)
  have bl: "tasks_block_current n TASK_STOPPED (enqueue_on QStopped c (aquire_scheduler_lock s)) = Inr s2"
    using block_nested [OF quiet_aquire_nested [OF q], of n TASK_STOPPED] by (simp add: enqueue_state_commute s2_def del: upd_task_simps)
  have p4: "scheduler_postponed s4" using ctl_fields(4) [OF ct] h2(3) by simp
  then have "release_scheduler_lock n s4 = bindE (schedule n s4) (release_scheduler_lock n)"
    using release_postponed_n [OF ho, of n] by (cases s4) simp
  then have "tasks_exit n k s = bindE (schedule n s4) (release_scheduler_lock n)"
    using quietD(2) [OF q] bl unblock_nested [OF l2, of n k] by (simp add: tasks_exit_def tasks_enqueue_ready_def s4_def)
  moreover have "t_state (tasks s4 c) = TASK_STOPPED" using same_fieldsD(1) [OF e(2), of c] h2(2) k(2) by simp
  ultimately show ?thesis using ho by blast
qed

lemma on_timer_reduce:
  assumes q: "quiet s c L"
  shows "\<exists>s1. on_timer n s = (if filter (expired s (cpu_time s)) (L QSleeping) \<noteq> []
             \<or> (time_slice_remaining s \<noteq> 0 \<and> time_slice_remaining s \<le> cpu_time s - last_timer_time s)
         then bindE (schedule n s1) (release_scheduler_lock n) else release_scheduler_lock n s1)
    \<and> hands_over s c (woken_lists s (cpu_time s) L) s1 \<and> t_state (tasks s1 c) = TASK_RUNNING
    \<and> \<not> scheduler_postponed s1"
proof -
  note d = quietD [OF q]
  obtain s3 where s3: "on_timer_with (schedule n) s =
      bindE (if filter (expired s (cpu_time s)) (L QSleeping) \<noteq> []
             \<or> (time_slice_remaining s \<noteq> 0 \<and> time_slice_remaining s \<le> cpu_time s - last_timer_time s)
             then schedule n s3 else Inr s3) (release_with (schedule n))"
    "sched_ok s3 (woken_lists s (cpu_time s) L)" "current_task s3 = Some c" "locks s3 = (1, 1, False, False)"
    "clock s3 = clock s" "saved_esp s3 = saved_esp s"
    "\<forall>a. a \<notin> set (filter (expired s (cpu_time s)) (L QSleeping)) \<longrightarrow>
          t_state (tasks s3 a) = t_state (tasks s a) \<and> wakeup_time (tasks s3 a) = wakeup_time (tasks s a)"
    using on_timer_with_eq [OF d(1), of "schedule n"] d by (auto simp del: fun_upd_apply)
  have "t_state (tasks s3 c) = TASK_RUNNING" using s3(7) d(3) quiet_disjoint [OF q, of QSleeping] by simp
  then show ?thesis
    using s3 by (intro exI [of _ s3]) (simp add: on_timer_def release_scheduler_lock_def hands_over_def locks_def del: fun_upd_apply)
qed

section \<open>Single calls\<close>

lemma finish_hands_over:
  assumes h: "hands_over s c L1 s1" and r: "L1 QReady \<noteq> [] \<or> t_state (tasks s1 c) = TASK_RUNNING"
  shows "\<exists>s'. bindE (schedule n s1) (release_scheduler_lock n) = Inr s'
    \<and> quiet s' (fst (pick (t_state (tasks s1 c) = TASK_RUNNING) c L1)) (snd (pick (t_state (tasks s1 c) = TASK_RUNNING) c L1))
    \<and> time_slice_remaining s' = TIME_SLICE_SIZE \<and> saved_esp s' = saved_esp s \<and> clock s' = clock s
    \<and> wake_times s' = wake_times s1"
  using finish_runnable [of s1 L1 c _ n] h r unfolding hands_over_def by auto

text \<open>The two outcomes, for a running task and for one that has blocked.\<close>

definition passes_on :: "sched \<Rightarrow> addr \<Rightarrow> (qid \<Rightarrow> addr list) \<Rightarrow> bool" where
  "passes_on s' c L \<longleftrightarrow>
     (case L QReady of [] \<Rightarrow> quiet s' c L | t # ts \<Rightarrow> quiet s' t (L(QReady := ts @ [c])))"

lemma finish_running:
  assumes "hands_over s c L1 s1" and "t_state (tasks s1 c) = TASK_RUNNING"
  shows "\<exists>s'. bindE (schedule n s1) (release_scheduler_lock n) = Inr s' \<and> passes_on s' c L1
    \<and> time_slice_remaining s' = TIME_SLICE_SIZE \<and> saved_esp s' = saved_esp s \<and> wake_times s' = wake_times s1"
  using finish_hands_over [OF assms(1), of n] assms(2)
  by (cases "L1 QReady") (auto simp: passes_on_def pick_def requeue_def simp del: fun_upd_apply)

lemma finish_blocked:
  assumes "hands_over s c L1 s1" and "t_state (tasks s1 c) \<noteq> TASK_RUNNING" and "L1 QReady = t # ts"
  shows "\<exists>s'. bindE (schedule n s1) (release_scheduler_lock n) = Inr s' \<and> quiet s' t (L1(QReady := ts))
    \<and> saved_esp s' = saved_esp s \<and> wake_times s' = wake_times s1"
  using finish_hands_over [OF assms(1), of n] assms(2,3)
  by (auto simp: pick_def requeue_def simp del: fun_upd_apply)

text \<open>round robin.  Yielding gives the CPU to the task at the head of the ready list and puts the
  yielding task at its end; alone it keeps the CPU.  The call always returns to a quiet state, every
  other list is unchanged, the time slice is renewed and every task finds its stack pointer where it
  left it.\<close>

theorem tasks_schedule_round_robin:
  assumes "quiet s c L"
  shows "\<exists>s'. tasks_schedule n s = Inr s' \<and> time_slice_remaining s' = TIME_SLICE_SIZE \<and> saved_esp s' = saved_esp s
    \<and> (case L QReady of [] \<Rightarrow> quiet s' c L | t # ts \<Rightarrow> quiet s' t (L(QReady := ts @ [c])))"
proof -
  obtain s1 where s1: "tasks_schedule n s = bindE (schedule n s1) (release_scheduler_lock n)" "hands_over s c L s1"
    "t_state (tasks s1 c) = TASK_RUNNING"
    using tasks_schedule_reduce [OF assms] by blast
  from finish_running [OF s1(2,3), of n] show ?thesis using s1(1) by (auto simp: passes_on_def)
qed

text \<open>C18: the timer interrupt moves exactly the sleepers whose wake-up time has come to the end of
  the ready list, in the order in which they went to sleep, and leaves the others asleep.  If some
  task was woken or the time slice is used up it pre-empts the running task, otherwise that task
  continues.\<close>

theorem on_timer_wakes_exactly_expired:
  assumes "quiet s c L"
  defines "woken \<equiv> filter (\<lambda>t. wakeup_time (tasks s t) \<le> cpu_time s) (L QSleeping)"
  defines "L1 \<equiv> L(QSleeping := filter (\<lambda>t. cpu_time s < wakeup_time (tasks s t)) (L QSleeping), QReady := L QReady @ woken)"
  shows "\<exists>s'. on_timer n s = Inr s' \<and> saved_esp s' = saved_esp s \<and>
    (if woken \<noteq> [] \<or> (time_slice_remaining s \<noteq> 0 \<and> time_slice_remaining s \<le> cpu_time s - last_timer_time s)
     then (case L1 QReady of [] \<Rightarrow> quiet s' c L1 | t # ts \<Rightarrow> quiet s' t (L1(QReady := ts @ [c])))
     else quiet s' c L1)"
proof -
  have e: "expired s (cpu_time s) = (\<lambda>t. wakeup_time (tasks s t) \<le> cpu_time s)"
    by (auto simp: expired_def)
  obtain s1 where s1: "on_timer n s = (if woken \<noteq> []
             \<or> (time_slice_remaining s \<noteq> 0 \<and> time_slice_remaining s \<le> cpu_time s - last_timer_time s)
         then bindE (schedule n s1) (release_scheduler_lock n) else release_scheduler_lock n s1)"
    "hands_over s c L1 s1" "t_state (tasks s1 c) = TASK_RUNNING" "\<not> scheduler_postponed s1"
    using on_timer_reduce [OF assms(1), of n, unfolded e not_le, folded woken_def, folded L1_def] by blast
  have h: "sched_ok s1 L1" "current_task s1 = Some c" "locks s1 = (1, 1, False, False)" "saved_esp s1 = saved_esp s"
    using s1(2,4) by (simp_all add: hands_over_def)
  show ?thesis
  proof (cases "woken \<noteq> [] \<or> (time_slice_remaining s \<noteq> 0 \<and> time_slice_remaining s \<le> cpu_time s - last_timer_time s)")
    case True
    with finish_running [OF s1(2,3), of n] s1(1) show ?thesis by (auto simp: passes_on_def)
  next
    case False
    with release_to_quiet [OF h(1,2) s1(3) h(3), of n] s1(1) h(4) show ?thesis by auto
  qed
qed

text \<open>a task that goes to sleep while another task is ready is appended to the sleeping list with
  the requested wake-up time, and the CPU goes to the head of the ready list.\<close>

theorem tasks_nano_sleep_until_runs_next:
  assumes "quiet s c L" and "L QReady = t # ts"
  shows "\<exists>s'. tasks_nano_sleep_until n w s = Inr s' \<and> saved_esp s' = saved_esp s
    \<and> wakeup_time (tasks s' c) = w \<and> quiet s' t (L(QSleeping := L QSleeping @ [c], QReady := ts))"
proof -
  obtain s1 where s1: "tasks_nano_sleep_until n w s = bindE (schedule n s1) (release_scheduler_lock n)"
    "hands_over s c (L(QSleeping := L QSleeping @ [c])) s1" "t_state (tasks s1 c) = TASK_SLEEPING"
    "wake_times s1 = (wake_times s)(c := w)"
    using tasks_nano_sleep_until_reduce [OF assms(1)] by blast
  obtain s' where s': "tasks_nano_sleep_until n w s = Inr s'" "saved_esp s' = saved_esp s" "wake_times s' = wake_times s1"
    "quiet s' t (L(QSleeping := L QSleeping @ [c], QReady := ts))"
    using finish_blocked [OF s1(2), of t ts n] s1(1,3) assms(2) by auto
  have "wakeup_time (tasks s' c) = w" using fun_cong [OF s'(3), of c] fun_cong [OF s1(4), of c] by (simp add: wake_times_def)
  with s' show ?thesis by blast
qed

text \<open>a task that blocks on a lock or semaphore is appended to that object's waiting list, and
  the CPU goes to the head of the ready list.\<close>

theorem tasks_sync_block_runs_next:
  assumes "quiet s c L" and "L QReady = t # ts"
  shows "\<exists>s'. tasks_sync_block n a s = Inr s' \<and> saved_esp s' = saved_esp s
    \<and> quiet s' t (L(QWait a := L (QWait a) @ [c], QReady := ts))"
proof -
  obtain s1 where s1: "tasks_sync_block n a s = bindE (schedule n s1) (release_scheduler_lock n)"
    "hands_over s c (L(QWait a := L (QWait a) @ [c])) s1" "t_state (tasks s1 c) = TASK_BLOCKED"
    using tasks_sync_block_reduce [OF assms(1)] by blast
  then show ?thesis using finish_blocked [OF s1(2), of t ts n] assms(2) by auto
qed

text \<open>C21: unblocking an object makes all of its waiting tasks ready, in the order in which they blocked
  and behind the tasks already ready, empties its waiting list, and yields; with nobody waiting it
  changes nothing.\<close>

theorem tasks_sync_unblock_wakes_all:
  assumes "quiet s c L"
  shows "\<exists>s'. tasks_sync_unblock n a s = Inr s' \<and> saved_esp s' = saved_esp s \<and>
    (case L QReady @ L (QWait a) of
       [] \<Rightarrow> quiet s' c L
     | t # ts \<Rightarrow> if L (QWait a) = [] then quiet s' c L else quiet s' t (L(QWait a := [], QReady := ts @ [c])))"
proof (cases "L (QWait a) = []")
  case True
  then show ?thesis using tasks_sync_unblock_none [OF assms True, of n] by (auto split: list.split)
next
  case False
  let ?L = "L(QWait a := [], QReady := L QReady @ L (QWait a))"
  obtain s1 where s1: "tasks_sync_unblock n a s = bindE (schedule n s1) (release_scheduler_lock n)"
    "hands_over s c ?L s1" "t_state (tasks s1 c) = TASK_RUNNING"
    using tasks_sync_unblock_reduce [OF assms False] by blast
  obtain s' where s': "tasks_sync_unblock n a s = Inr s'" "passes_on s' c ?L" "saved_esp s' = saved_esp s"
    using finish_running [OF s1(2,3), of n] s1(1) by auto
  obtain t ts where "L QReady @ L (QWait a) = t # ts" using False by (cases "L QReady @ L (QWait a)") auto
  with s' False show ?thesis by (simp add: passes_on_def del: fun_upd_apply) (simp add: fun_upd_apply)
qed

text \<open>an exiting task is put on the stopped list, the cleaner is made ready and the CPU goes to
  the head of the ready list, provided the cleaner is not on a list already.\<close>

theorem tasks_exit_stops_and_wakes_cleaner:
  assumes "quiet s c L" and "k \<notin> queued L" and "k \<noteq> c"
  shows "\<exists>s' t ts. L QReady @ [k] = t # ts \<and> task_stopping n k s = Inr s' \<and> saved_esp s' = saved_esp s
    \<and> quiet s' t (L(QStopped := L QStopped @ [c], QReady := ts))"
proof -
  obtain s1 where s1: "tasks_exit n k s = bindE (schedule n s1) (release_scheduler_lock n)"
    "hands_over s c (L(QStopped := L QStopped @ [c], QReady := L QReady @ [k])) s1" "t_state (tasks s1 c) = TASK_STOPPED"
    using tasks_exit_reduce [OF assms] by blast
  obtain t ts where t: "L QReady @ [k] = t # ts" by (cases "L QReady @ [k]") auto
  have "t \<noteq> c" using t quiet_disjoint [OF assms(1), of QReady] assms(3) by (cases "L QReady") auto
  moreover obtain s' where "tasks_exit n k s = Inr s'" "saved_esp s' = saved_esp s"
    "quiet s' t (L(QStopped := L QStopped @ [c], QReady := ts))"
    using finish_blocked [OF s1(2), of t ts n] s1(1,3) t by auto
  ultimately show ?thesis
    using t quietD(2) [OF assms(1)] quietD(2) [of s' t] by (auto simp: task_stopping_def)
qed

section \<open>Sleeping on an idle machine\<close>

text \<open>C19: a task that goes to sleep while nothing is ready.  The CPU idles; \<open>T j\<close> is the time of the
  \<open>j\<close>-th timer interrupt.  If one of the next \<open>n\<close> interrupts comes after a sleeper's deadline, the
  call returns at the first such interrupt: the earliest sleeper on the list that has expired runs, the
  other expired ones are ready behind it, and nobody sleeps past that moment with an expired
  deadline.  If no interrupt comes after a deadline, the machine idles for ever.\<close>

theorem sleep_idles_until_deadline:
  fixes w :: u64
  assumes "quiet s c L" and "L QReady = []"
  defines "T \<equiv> \<lambda>j. tsc s (tsc_reads s + 2 + j) div instr_per_ns s"
    and "wk \<equiv> (wake_times s)(c := w)" and "sleepers \<equiv> L QSleeping @ [c]"
  shows "if \<forall>j<n. filter (\<lambda>t. wk t \<le> T j) sleepers = [] then tasks_nano_sleep_until n w s = Inl Hang
    else \<exists>s' t ts j. tasks_nano_sleep_until n w s = Inr s' \<and> saved_esp s' = saved_esp s
      \<and> j < n \<and> (\<forall>i<j. filter (\<lambda>t. wk t \<le> T i) sleepers = [])
      \<and> filter (\<lambda>t. wk t \<le> T j) sleepers = t # ts
      \<and> quiet s' t (L(QSleeping := filter (\<lambda>t. T j < wk t) sleepers, QReady := ts))"
proof -
  obtain s1 where s1: "tasks_nano_sleep_until n w s = bindE (schedule n s1) (release_scheduler_lock n)"
    "hands_over s c (L(QSleeping := sleepers)) s1" "t_state (tasks s1 c) = TASK_SLEEPING"
    "wake_times s1 = wk" "tsc_reads s1 = tsc_reads s"
    using tasks_nano_sleep_until_reduce [OF assms(1), of n w] unfolding wk_def sleepers_def by blast
  have h: "sched_ok s1 (L(QSleeping := sleepers))" "current_task s1 = Some c" "locks s1 = (1, 1, scheduler_postponed s1, False)"
    "clock s1 = clock s" "saved_esp s1 = saved_esp s"
    using s1(2) by (simp_all add: hands_over_def del: fun_upd_apply)
  have "(L(QSleeping := sleepers)) QReady = []" "t_state (tasks s1 c) \<noteq> TASK_RUNNING" using assms(2) s1(3) by simp_all
  from finish_idle [OF h(1-3) this, of n] obtain s3 where s3: "tasks s3 = tasks (tasks_update_time s1)"
    "clock s3 = clock s1" "tsc_reads s3 = tsc_reads s1 + 2"
    and fin: "if \<forall>j<n. filter (expired s3 (tick_time s3 j)) sleepers = []
     then tasks_nano_sleep_until n w s = Inl Hang
     else \<exists>s' t L' j. tasks_nano_sleep_until n w s = Inr s' \<and> idles_until s3 (L(QSleeping := sleepers)) n j t L'
       \<and> quiet s' t L' \<and> clock s' = clock s1 \<and> time_slice_remaining s' = TIME_SLICE_SIZE \<and> saved_esp s' = saved_esp s1"
    unfolding s1(1) fun_upd_same by blast
  have wk: "wakeup_time (tasks s3 a) = wk a" for a
    using s3(1) fun_cong [OF s1(4), of a] by (simp add: wake_times_def)
  have tt: "tick_time s3 j = T j" for j
    using s3(2,3) h(4) s1(5) by (simp add: clock_def T_def)
  have ex: "expired s3 (tick_time s3 j) = (\<lambda>t. wk t \<le> T j)" for j unfolding tt by (simp add: expired_def wk fun_eq_iff)
  show ?thesis
  proof (cases "\<forall>j<n. filter (\<lambda>t. wk t \<le> T j) sleepers = []")
    case True
    with fin show ?thesis unfolding ex by simp
  next
    case False
    with fin obtain s' t L' j where r: "tasks_nano_sleep_until n w s = Inr s'"
      "idles_until s3 (L(QSleeping := sleepers)) n j t L'" "quiet s' t L'" "saved_esp s' = saved_esp s1"
      unfolding ex if_not_P [OF False] by blast
    then show ?thesis
      unfolding if_not_P [OF False] idles_until_def ex fun_upd_same not_le
      using h(5) by (auto simp: fun_upd_twist simp del: fun_upd_apply)
  qed
qed

section \<open>Runs\<close>

datatype sched_call = Yield | SleepUntil u64 | SyncBlock addr | SyncUnblock addr | TimerIrq

fun sched_step :: "nat \<Rightarrow> sched_call \<Rightarrow> sched \<Rightarrow> sched outcome" where
  "sched_step n Yield = tasks_schedule n"
| "sched_step n (SleepUntil w) = tasks_nano_sleep_until n w"
| "sched_step n (SyncBlock a) = tasks_sync_block n a"
| "sched_step n (SyncUnblock a) = tasks_sync_unblock n a"
| "sched_step n TimerIrq = on_timer n"

text \<open>The same tasks are present, each on one list or running.\<close>

definition keeps_tasks :: "addr \<Rightarrow> (qid \<Rightarrow> addr list) \<Rightarrow> sched \<Rightarrow> sched \<Rightarrow> bool" where
  "keeps_tasks c L s s' \<longleftrightarrow> (\<exists>c' L'. quiet s' c' L' \<and> insert c' (queued L') = insert c (queued L) \<and> saved_esp s' = saved_esp s)"

lemma keeps_tasksI:
  "quiet s' c' L' \<Longrightarrow> insert c' (queued L') = insert c (queued L) \<Longrightarrow> saved_esp s' = saved_esp s \<Longrightarrow> keeps_tasks c L s s'"
  by (auto simp: keeps_tasks_def)

lemma finish_keeps:
  assumes h: "hands_over s c L1 s1"
    and pop: "(if t_state (tasks s1 c) = TASK_RUNNING then insert c (queued L1) else queued L1) = insert c (queued L)"
  shows "case bindE (schedule n s1) (release_scheduler_lock n) of Inl e \<Rightarrow> e = Hang | Inr s' \<Rightarrow> keeps_tasks c L s s'"
proof (cases "bindE (schedule n s1) (release_scheduler_lock n)")
  case (Inr s')
  with finish_any [of s1 L1 c _ n s'] h pop show ?thesis
    unfolding hands_over_def keeps_tasks_def by (auto split: if_splits)
next
  case (Inl e)
  have ok: "sched_ok s1 L1" "current_task s1 = Some c" "locks s1 = (1, 1, scheduler_postponed s1, False)"
    using h by (simp_all add: hands_over_def)
  show ?thesis
  proof (cases "L1 QReady \<noteq> [] \<or> t_state (tasks s1 c) = TASK_RUNNING")
    case True
    with finish_runnable [OF ok True, of n] Inl show ?thesis by auto
  next
    case False
    with finish_idle [OF ok, of n] Inl show ?thesis by (auto split: if_splits)
  qed
qed

lemma sched_step_keeps:
  assumes q: "quiet s c L"
  shows "case sched_step n p s of Inl e \<Rightarrow> e = Hang | Inr s' \<Rightarrow> keeps_tasks c L s s'"
proof (cases p)
  case Yield
  obtain s1 where "tasks_schedule n s = bindE (schedule n s1) (release_scheduler_lock n)" "hands_over s c L s1"
    "t_state (tasks s1 c) = TASK_RUNNING" using tasks_schedule_reduce [OF q] by blast
  with finish_keeps [of s c L s1 L n] Yield show ?thesis by simp
next
  case (SleepUntil w)
  obtain s1 where s1: "tasks_nano_sleep_until n w s = bindE (schedule n s1) (release_scheduler_lock n)"
    "hands_over s c (L(QSleeping := L QSleeping @ [c])) s1" "t_state (tasks s1 c) = TASK_SLEEPING"
    using tasks_nano_sleep_until_reduce [OF q] by blast
  have "queued (L(QSleeping := L QSleeping @ [c])) = insert c (queued L)"
    unfolding queued_upd queued_split [of L QSleeping] by simp
  with finish_keeps [OF s1(2), of L n] s1 SleepUntil show ?thesis by simp
next
  case (SyncBlock a)
  obtain s1 where s1: "tasks_sync_block n a s = bindE (schedule n s1) (release_scheduler_lock n)"
    "hands_over s c (L(QWait a := L (QWait a) @ [c])) s1" "t_state (tasks s1 c) = TASK_BLOCKED"
    using tasks_sync_block_reduce [OF q] by blast
  have "queued (L(QWait a := L (QWait a) @ [c])) = insert c (queued L)"
    unfolding queued_upd queued_split [of L "QWait a"] by simp
  with finish_keeps [OF s1(2), of L n] s1 SyncBlock show ?thesis by simp
next
  case (SyncUnblock a)
  show ?thesis
  proof (cases "L (QWait a) = []")
    case True
    with tasks_sync_unblock_none [OF q True, of n] SyncUnblock show ?thesis by (auto intro: keeps_tasksI)
  next
    case False
    obtain s1 where s1: "tasks_sync_unblock n a s = bindE (schedule n s1) (release_scheduler_lock n)"
      "hands_over s c (L(QWait a := [], QReady := L QReady @ L (QWait a))) s1" "t_state (tasks s1 c) = TASK_RUNNING"
      using tasks_sync_unblock_reduce [OF q False] by blast
    have "queued (L(QWait a := [], QReady := L QReady @ L (QWait a))) = queued L"
      by (auto simp: queued_def split: if_splits) (metis qid.distinct(5))
    with finish_keeps [OF s1(2), of L n] s1 SyncUnblock show ?thesis by simp
  qed
next
  case TimerIrq
  have pop: "queued (woken_lists s (cpu_time s) L) = queued L"
    by (auto simp: queued_def split: if_splits) (metis qid.distinct(1))
  obtain s1 where s1: "on_timer n s = bindE (schedule n s1) (release_scheduler_lock n) \<or> on_timer n s = release_scheduler_lock n s1"
    "hands_over s c (woken_lists s (cpu_time s) L) s1" "t_state (tasks s1 c) = TASK_RUNNING" "\<not> scheduler_postponed s1"
    using on_timer_reduce [OF q, of n] by (meson)
  obtain s' where "release_scheduler_lock n s1 = Inr s'" "quiet s' c (woken_lists s (cpu_time s) L)" "saved_esp s' = saved_esp s"
    using release_to_quiet [OF _ _ s1(3), of "woken_lists s (cpu_time s) L" n] s1(2,4) by (auto simp: hands_over_def)
  then have "\<exists>s'. release_scheduler_lock n s1 = Inr s' \<and> keeps_tasks c L s s'"
    using keeps_tasksI [of s' c _ c L s] pop by blast
  with finish_keeps [OF s1(2), of L n] s1(1,3) pop TimerIrq show ?thesis
    by auto
qed

text \<open>C1: for every sequence of yields, sleeps, blocking and unblocking calls and timer interrupts, the
  scheduler ends in a quiet state in which the same tasks exist, each of them running or on exactly
  one well-linked list that matches its state, with its stack pointer intact; the only way not to
  return is to idle for ever.  In particular no call panics or follows a null pointer.\<close>

theorem scheduler_run_keeps_all_tasks:
  assumes "quiet s c L"
  shows "case foldE (sched_step n) ops s of
      Inl e \<Rightarrow> e = Hang
    | Inr s' \<Rightarrow> \<exists>c' L'. quiet s' c' L' \<and> insert c' (queued L') = insert c (queued L) \<and> saved_esp s' = saved_esp s"
  using assms
proof (induction ops arbitrary: s c L)
  case Nil
  then show ?case by auto
next
  case (Cons p ops)
  note st = sched_step_keeps [OF Cons.prems, of n p]
  show ?case
  proof (cases "sched_step n p s")
    case (Inl e)
    with st show ?thesis by simp
  next
    case (Inr s1)
    with st obtain c1 L1 where q1: "quiet s1 c1 L1" "insert c1 (queued L1) = insert c (queued L)" "saved_esp s1 = saved_esp s"
      by (auto simp: keeps_tasks_def)
    with Cons.IH [OF q1(1), unfolded q1(2,3)] Inr show ?thesis by simp
  qed
qed

text \<open>C17: fairness.  After \<open>k\<close> yields the CPU is with the \<open>k\<close>-th task of the cycle that starts with the
  running task and continues with the ready list; so every ready task gets the CPU within as many
  yields as there are tasks before it, and the first task gets it back after the last.\<close>

theorem yields_rotate_the_ready_tasks:
  assumes "quiet s c L"
  shows "\<exists>s'. foldE (sched_step n) (replicate k Yield) s = Inr s'
    \<and> quiet s' (hd (rotate k (c # L QReady))) (L(QReady := tl (rotate k (c # L QReady))))"
  using assms
proof (induction k arbitrary: s c L)
  case 0
  then show ?case by simp
next
  case (Suc k)
  obtain s1 where s1: "tasks_schedule n s = bindE (schedule n s1) (release_scheduler_lock n)" "hands_over s c L s1"
    "t_state (tasks s1 c) = TASK_RUNNING"
    using tasks_schedule_reduce [OF Suc.prems] by blast
  obtain s2 where s2: "tasks_schedule n s = Inr s2" "passes_on s2 c L"
    using finish_running [OF s1(2,3), of n] s1(1) by auto
  show ?case
  proof (cases "L QReady")
    case Nil
    then have "quiet s2 c L" using s2(2) by (simp add: passes_on_def)
    from Suc.IH [OF this] Nil s2(1) show ?thesis by (simp add: fun_upd_idem rotate_length01)
  next
    case (Cons t ts)
    then have "quiet s2 t (L(QReady := ts @ [c]))" using s2(2) by (simp add: passes_on_def)
    from Suc.IH [OF this] Cons s2(1) show ?thesis
      by (simp add: rotate1_rotate_swap del: fun_upd_apply) (simp add: rotate_def funpow_swap1)
  qed
qed

section \<open>A concrete scheduler state\<close>

text \<open>Task 9 runs, 2 and 3 are ready, 4 and 5 sleep until times 10 and 90, task 6 waits on object 7.
  The clock advances by twenty with every read.\<close>

definition demo_task :: "task_state \<Rightarrow> addr option \<Rightarrow> u64 \<Rightarrow> task" where
  "demo_task st nx wk = \<lparr>stack_top = 0x1000, page_dir = 0, t_next = nx, t_state = st, time_used = 0,
     wakeup_time = wk, t_name = ''demo'', t_alloc = ALLOC_DYNAMIC\<rparr>"

definition demo_store :: task_store where
  "demo_store = (\<lambda>_. demo_task TASK_PAUSED None 0)
     (9 := demo_task TASK_RUNNING None 0, 2 := demo_task TASK_READY (Some 3) 0, 3 := demo_task TASK_READY None 0,
      4 := demo_task TASK_SLEEPING (Some 5) 10, 5 := demo_task TASK_SLEEPING None 90, 6 := demo_task TASK_BLOCKED None 0)"

definition demo_sched :: sched where
  "demo_sched = \<lparr>tasks = demo_store, current_task = Some 9,
     tasks_ready = \<lparr>tl_head = Some 2, tl_tail = Some 3\<rparr>, tasks_sleeping = \<lparr>tl_head = Some 4, tl_tail = Some 5\<rparr>,
     tasks_stopped = empty_list,
     syncs = (\<lambda>_. \<lparr>possessor = None, dbg_name = None, waiting = empty_list\<rparr>)
       (7 := \<lparr>possessor = None, dbg_name = None, waiting = \<lparr>tl_head = Some 6, tl_tail = Some 6\<rparr>\<rparr>),
     idle_time = 0, idle_start = 0, last_time = 0, time_slice_remaining = 15, last_timer_time = 0,
     scheduler_lock = 0, postpone_count = 0, scheduler_postponed = False, instr_per_ns = 1, intr = True,
     tsc = (\<lambda>i. 20 * of_nat (i + 1)), tsc_reads = 0, cpu_esp = 0x2000, cpu_cr3 = 0, stack_mem = (\<lambda>_. 0)\<rparr>"

fun demo_lists :: "qid \<Rightarrow> addr list" where
  "demo_lists QReady = [2, 3]"
| "demo_lists QSleeping = [4, 5]"
| "demo_lists QStopped = []"
| "demo_lists (QWait a) = (if a = 7 then [6] else [])"

lemma quiet_demo: "quiet demo_sched 9 demo_lists"
proof -
  have "tlist demo_store (qlist demo_sched q) (demo_lists q)" for q
    by (cases q) (auto simp: tlist_def demo_store_def demo_task_def demo_sched_def empty_list_def last_ptr_def)
  moreover have "set (demo_lists q) \<inter> set (demo_lists r) = {}" if "q \<noteq> r" for q r
    using that by (cases q; cases r) auto
  moreover have "t_state (demo_store t) = qstate q" if "t \<in> set (demo_lists q)" for t q
    using that by (cases q) (auto simp: demo_store_def demo_task_def split: if_splits)
  ultimately show ?thesis
    by (simp add: quiet_def queues_ok_def locks_def) (simp add: demo_sched_def demo_store_def demo_task_def)
qed

text \<open>The same state with the ready tasks taken away.\<close>

definition demo_idle :: sched where
  "demo_idle = demo_sched\<lparr>tasks_ready := empty_list\<rparr>"

lemma quiet_demo_idle: "quiet demo_idle 9 (demo_lists(QReady := []))"
proof -
  have "queues_ok (tasks demo_sched) ((qlist demo_sched)(QReady := empty_list)) (demo_lists(QReady := []))"
    by (rule queues_ok_change [OF quietD(1) [OF quiet_demo] frame_refl [of _ "{}"]]) simp_all
  moreover have "qlist demo_idle = (qlist demo_sched)(QReady := empty_list)"
    unfolding demo_idle_def using qlist_set_qlist [of QReady empty_list demo_sched] by simp
  ultimately show ?thesis
    using quietD [OF quiet_demo] by (simp add: quiet_def demo_idle_def locks_def del: fun_upd_apply)
qed

lemma demo_simps:
  "tsc demo_sched i = 20 * of_nat (i + 1)" "tsc_reads demo_sched = 0" "instr_per_ns demo_sched = 1"
  "wakeup_time (tasks demo_sched 4) = 10" "wakeup_time (tasks demo_sched 5) = 90"
  "time_slice_remaining demo_sched = 15" "last_timer_time demo_sched = 0"
  "tsc demo_idle i = 20 * of_nat (i + 1)" "tsc_reads demo_idle = 0" "instr_per_ns demo_idle = 1"
  "wake_times demo_idle 4 = 10" "wake_times demo_idle 5 = 90"
  by (simp_all add: demo_sched_def demo_store_def demo_task_def demo_idle_def wake_times_def)

theorem tasks_schedule_round_robin_witness:
  "\<exists>s'. tasks_schedule 0 demo_sched = Inr s' \<and> time_slice_remaining s' = TIME_SLICE_SIZE \<and> saved_esp s' = saved_esp demo_sched
    \<and> quiet s' 2 (demo_lists(QReady := [3, 9]))"
  using tasks_schedule_round_robin [OF quiet_demo, of 0] by (simp del: fun_upd_apply)

theorem on_timer_wakes_exactly_expired_witness:
  "\<exists>s'. on_timer 0 demo_sched = Inr s' \<and> saved_esp s' = saved_esp demo_sched
    \<and> quiet s' 2 (demo_lists(QSleeping := [5], QReady := [3, 4, 9]))"
proof -
  have w: "filter (\<lambda>t. wakeup_time (tasks demo_sched t) \<le> cpu_time demo_sched) (demo_lists QSleeping) = [4]"
    and k: "filter (\<lambda>t. cpu_time demo_sched < wakeup_time (tasks demo_sched t)) (demo_lists QSleeping) = [5]"
    by (simp_all add: demo_simps)
  show ?thesis
    using on_timer_wakes_exactly_expired [OF quiet_demo, of 0, unfolded w k] by (simp add: fun_upd_same del: fun_upd_apply)
qed

theorem tasks_nano_sleep_until_runs_next_witness:
  "\<exists>s'. tasks_nano_sleep_until 0 50 demo_sched = Inr s' \<and> saved_esp s' = saved_esp demo_sched
    \<and> wakeup_time (tasks s' 9) = 50 \<and> quiet s' 2 (demo_lists(QSleeping := [4, 5, 9], QReady := [3]))"
  using tasks_nano_sleep_until_runs_next [OF quiet_demo, of 2 "[3]" 0 50] by (simp del: fun_upd_apply)

theorem tasks_sync_block_runs_next_witness:
  "\<exists>s'. tasks_sync_block 0 7 demo_sched = Inr s' \<and> saved_esp s' = saved_esp demo_sched
    \<and> quiet s' 2 (demo_lists(QWait 7 := [6, 9], QReady := [3]))"
  using tasks_sync_block_runs_next [OF quiet_demo, of 2 "[3]" 0 7] by (simp del: fun_upd_apply)

theorem tasks_sync_unblock_wakes_all_witness:
  "\<exists>s'. tasks_sync_unblock 0 7 demo_sched = Inr s' \<and> saved_esp s' = saved_esp demo_sched
    \<and> quiet s' 2 (demo_lists(QWait 7 := [], QReady := [3, 6, 9]))"
  using tasks_sync_unblock_wakes_all [OF quiet_demo, of 0 7] by (simp del: fun_upd_apply)

lemma demo_unqueued: "8 \<notin> queued demo_lists"
proof -
  have "8 \<notin> set (demo_lists q)" for q by (cases q) auto
  then show ?thesis by (auto simp: queued_def)
qed

theorem tasks_exit_stops_and_wakes_cleaner_witness:
  "\<exists>s' t ts. demo_lists QReady @ [8] = t # ts \<and> task_stopping 0 8 demo_sched = Inr s' \<and> saved_esp s' = saved_esp demo_sched
    \<and> quiet s' t (demo_lists(QStopped := [9], QReady := ts))"
  using tasks_exit_stops_and_wakes_cleaner [OF quiet_demo demo_unqueued, of 0] by (simp del: fun_upd_apply)

text \<open>With three timer interrupts at times 60, 80 and 100, task 4 (deadline 10) and the caller (deadline
  55) have expired at the first.\<close>

theorem sleep_idles_until_deadline_witness:
  "\<exists>s'. tasks_nano_sleep_until 3 55 demo_idle = Inr s' \<and> saved_esp s' = saved_esp demo_idle
    \<and> quiet s' 4 (demo_lists(QReady := [], QSleeping := [5], QReady := [9]))"
proof -
  have T: "tsc demo_idle (tsc_reads demo_idle + 2 + j) div instr_per_ns demo_idle = 60 + 20 * of_nat j" for j
    by (simp add: demo_simps algebra_simps)
  let ?wk = "(wake_times demo_idle)(9 := 55)"
  have f0: "filter (\<lambda>t. ?wk t \<le> 60 + 20 * of_nat 0) ((demo_lists(QReady := [])) QSleeping @ [9]) = [4, 9]"
    by (simp add: demo_simps)
  have g0: "filter (\<lambda>t. 60 + 20 * of_nat 0 < ?wk t) ((demo_lists(QReady := [])) QSleeping @ [9]) = [5]"
    by (simp add: demo_simps)
  have n: "\<not> (\<forall>j<3. filter (\<lambda>t. ?wk t \<le> 60 + 20 * of_nat j) ((demo_lists(QReady := [])) QSleeping @ [9]) = [])"
    using f0 by (metis list.distinct(1) zero_less_numeral)
  obtain s' t ts j where r: "tasks_nano_sleep_until 3 55 demo_idle = Inr s'" "saved_esp s' = saved_esp demo_idle"
      "\<forall>i<j. filter (\<lambda>t. ?wk t \<le> 60 + 20 * of_nat i) ((demo_lists(QReady := [])) QSleeping @ [9]) = []"
      "filter (\<lambda>t. ?wk t \<le> 60 + 20 * of_nat j) ((demo_lists(QReady := [])) QSleeping @ [9]) = t # ts"
      "quiet s' t (demo_lists(QReady := [], QSleeping := filter (\<lambda>t. 60 + 20 * of_nat j < ?wk t) ((demo_lists(QReady := [])) QSleeping @ [9]), QReady := ts))"
    using sleep_idles_until_deadline [OF quiet_demo_idle fun_upd_same, of 3 55, unfolded T if_not_P [OF n]] by blast
  have "j = 0" using r(3) f0 by (metis list.distinct(1) gr0I)
  then have "t = 4" "ts = [9]" using r(4) f0 by auto
  then show ?thesis using r(1,2,5) g0 unfolding \<open>j = 0\<close> by (auto simp del: fun_upd_apply)
qed

theorem scheduler_run_keeps_all_tasks_witness:
  "case foldE (sched_step 0) [SyncBlock 7, TimerIrq, SleepUntil 70, SyncUnblock 7, Yield, TimerIrq] demo_sched of
      Inl e \<Rightarrow> e = Hang
    | Inr s' \<Rightarrow> \<exists>c' L'. quiet s' c' L' \<and> insert c' (queued L') = insert 9 (queued demo_lists) \<and> saved_esp s' = saved_esp demo_sched"
  by (rule scheduler_run_keeps_all_tasks [OF quiet_demo])

theorem yields_rotate_the_ready_tasks_witness:
  "\<exists>s'. foldE (sched_step 0) (replicate 2 Yield) demo_sched = Inr s' \<and> quiet s' 3 (demo_lists(QReady := [9, 2]))"
  using yields_rotate_the_ready_tasks [OF quiet_demo, of 0 2] by (simp add: numeral_2_eq_2 del: fun_upd_apply replicate.simps)

end
