(* ===== verification/Scheduler_Lifecycle.thy ===== *)
theory Scheduler_Lifecycle
  imports Scheduler_Api
begin

text \<open>
  The life of a task: \<open>tasks_init\<close> establishes the quiet state, \<open>tasks_new\<close> adds a task whose first
  switch enters \<open>_task_starting\<close>, the entry function and \<open>_task_stopping\<close> in this order, the cleaner
  gives back what stopped tasks held, and a second exit before the cleaner has run loses tasks.
\<close>

section \<open>Initialisation\<close>

definition blank :: "sched \<Rightarrow> bool" where
  "blank s \<longleftrightarrow> tasks_ready s = empty_list \<and> tasks_sleeping s = empty_list \<and> tasks_stopped s = empty_list
     \<and> (\<forall>a. waiting (syncs s a) = empty_list) \<and> locks s = (0, 0, False, True)"

text \<open>from zeroed static variables with interrupts on, \<open>tasks_init\<close> reaches the quiet state in
  which the first task runs, nothing is queued and the time scale cannot be zero; it panics only when
  the cleaner's stack page cannot be allocated.\<close>

theorem tasks_init_quiet:
  assumes "blank s" and "first \<noteq> cleaner"
  shows "if stack = 0 then tasks_init stack pdir st sp impl first cleaner s =
        Inl (Panic ''Unable to allocate memory for new task stack.'')
    else \<exists>s'. tasks_init stack pdir st sp impl first cleaner s = Inr s' \<and> quiet s' first (\<lambda>_. [])
      \<and> instr_per_ns s' \<noteq> 0 \<and> time_slice_remaining s' = TIME_SLICE_SIZE \<and> t_state (tasks s' cleaner) = TASK_PAUSED"
proof -
  have q: "qlist s q = empty_list" for q using assms(1) by (cases q) (simp_all add: blank_def)
  have "queues_ok h (qlist s) (\<lambda>_. [])" for h by (simp add: queues_ok_def q)
  moreover have "(x :: u64) \<noteq> 0 \<Longrightarrow> x \<noteq> 0" for x .
  ultimately show ?thesis
    using assms
    by (auto simp: tasks_init_def tasks_new_def discover_cpu_speed_def rdtsc_def Let_def quiet_def blank_def locks_def
        split: prod.split)
qed

text \<open>The eight words a new stack holds, lowest address first.\<close>

lemma fold_push_words:
  "fold stack_push_word xs (sp, m) = (sp', m') \<Longrightarrow> sp' = sp - 4 * of_nat (length xs)"
proof (induction xs arbitrary: sp m)
  case (Cons a xs)
  have "stack_push_word a (sp, m) = (sp - 4, m(sp - 4 := a))" by (simp add: stack_push_word_def Let_def)
  then have "fold stack_push_word xs (sp - 4, m(sp - 4 := a)) = (sp', m')" using Cons.prems by simp
  from Cons.IH [OF this] show ?case by (simp add: algebra_simps)
qed simp

lemma tasks_new_storage:
  assumes q: "quiet s c L" and t: "t \<notin> queued L" "t \<noteq> c" and st: "stack \<noteq> 0"
  and a: "alloc = (if storage = None then ALLOC_DYNAMIC else ALLOC_STATIC)" "storage = None \<and> malloc = Some t \<or> storage = Some t"
  shows "\<exists>s'. tasks_new malloc stack pdir starting stopping entry storage TASK_READY nm s = Inr (t, s')
    \<and> quiet s' c (L(QReady := L QReady @ [t])) \<and> stack_top (tasks s' t) = stack + 4064
    \<and> stack_mem s' = snd (fold stack_push_word [0, stopping, entry, starting, 0, 0, 0, 0] (stack + 4096, stack_mem s))"
proof -
  obtain sp m where f: "fold stack_push_word [0, stopping, entry, starting, 0, 0, 0, 0] (stack + 4096, stack_mem s) = (sp, m)"
    by fastforce
  have sp: "sp = stack + 4064" using fold_push_words [OF f] by simp
  let ?u = "\<lambda>k. k\<lparr>stack_top := sp, page_dir := pdir, t_next := None, t_state := TASK_READY, time_used := 0,
      t_name := nm, t_alloc := alloc\<rparr>"
  let ?s1 = "upd_task t ?u (s\<lparr>stack_mem := m\<rparr>)"
  have ok: "sched_ok ?s1 L" using quietD(1) [OF q] t by simp
  have e: "sched_ok (enqueue_on QReady t ?s1) (L(QReady := L QReady @ [t]))"
    "same_fields (tasks (enqueue_on QReady t ?s1)) (tasks ?s1)"
    using enqueue_on_ok [OF ok t(1), of QReady] by simp_all
  have ct: "ctl (enqueue_on QReady t ?s1) = ctl (s\<lparr>stack_mem := m\<rparr>)" by simp
  then have "locks (enqueue_on QReady t ?s1) = locks s" "stack_mem (enqueue_on QReady t ?s1) = m"
    by (simp_all add: ctl_def locks_def)
  moreover have "t_state (tasks (enqueue_on QReady t ?s1) c) = TASK_RUNNING"
    "stack_top (tasks (enqueue_on QReady t ?s1) t) = stack + 4064"
    using same_fieldsD [OF e(2)] quietD(3) [OF q] t(2) sp by simp_all
  moreover have "locks s = (0, 0, False, True)" using q by (simp add: quiet_def)
  ultimately show ?thesis
    using e(1) quietD(2) [OF q] f st a
    by (auto simp: tasks_new_def tasks_enqueue_ready_def quiet_def Let_def simp del: fun_upd_apply)
qed

lemma tasks_new_ready:
  assumes "quiet s c L" "t \<notin> queued L" "t \<noteq> c" "stack \<noteq> 0"
  shows "\<exists>s'. tasks_new (Some t) stack pdir starting stopping entry None TASK_READY nm s = Inr (t, s')
    \<and> quiet s' c (L(QReady := L QReady @ [t])) \<and> stack_top (tasks s' t) = stack + 4064
    \<and> stack_mem s' = snd (fold stack_push_word [0, stopping, entry, starting, 0, 0, 0, 0] (stack + 4096, stack_mem s))"
  by (rule tasks_new_storage [OF assms refl]) simp

lemma tasks_new_static_ready:
  assumes "quiet s c L" "t \<notin> queued L" "t \<noteq> c" "stack \<noteq> 0"
  shows "\<exists>s'. tasks_new malloc stack pdir starting stopping entry (Some t) TASK_READY nm s = Inr (t, s')
    \<and> quiet s' c (L(QReady := L QReady @ [t])) \<and> stack_top (tasks s' t) = stack + 4064
    \<and> stack_mem s' = snd (fold stack_push_word [0, stopping, entry, starting, 0, 0, 0, 0] (stack + 4096, stack_mem s))"
  by (rule tasks_new_storage [OF assms refl]) simp

lemma new_stack_words:
  "snd (fold stack_push_word [0, stopping, entry, starting, 0, 0, 0, 0] (sp + 4096, m)) =
     m(sp + 4092 := 0, sp + 4088 := stopping, sp + 4084 := entry, sp + 4080 := starting, sp + 4076 := 0,
       sp + 4072 := 0, sp + 4068 := 0, sp + 4064 := 0)"
  by (simp add: stack_push_word_def Let_def add.commute [of sp])

text \<open>C22: a new ready task is appended to the ready list and the caller keeps the CPU.  When the task is
  first switched to, the four register pops and the \<open>ret\<close> of \<open>tasks_switch_to\<close> take it to
  \<open>_task_starting\<close>; returning from there enters the entry function, and returning from that enters
  \<open>_task_stopping\<close>, below which lies a null frame.\<close>

theorem tasks_new_first_run:
  assumes "quiet s c L" and "t \<notin> queued L" and "t \<noteq> c" and "stack \<noteq> 0"
  shows "\<exists>s'. tasks_new (Some t) stack pdir starting stopping entry None TASK_READY nm s = Inr (t, s')
    \<and> quiet s' c (L(QReady := L QReady @ [t]))
    \<and> stack_mem s' (saved_esp s' t - 4) = starting \<and> stack_mem s' (saved_esp s' t) = entry
    \<and> stack_mem s' (saved_esp s' t + 4) = stopping \<and> stack_mem s' (saved_esp s' t + 8) = 0"
proof -
  obtain s' where s': "tasks_new (Some t) stack pdir starting stopping entry None TASK_READY nm s = Inr (t, s')"
    "quiet s' c (L(QReady := L QReady @ [t]))" "stack_top (tasks s' t) = stack + 4064"
    "stack_mem s' = snd (fold stack_push_word [0, stopping, entry, starting, 0, 0, 0, 0] (stack + 4096, stack_mem s))"
    using tasks_new_ready [OF assms, of pdir starting stopping entry nm] by blast
  have "saved_esp s' t = stack + 4084" using s'(2,3) assms(3) by (simp add: saved_esp_def quiet_def)
  then show ?thesis using s'(1,2,4) unfolding new_stack_words by (simp del: fun_upd_apply) (simp add: fun_upd_apply)
qed

theorem tasks_new_first_run_witness:
  "\<exists>s'. tasks_new (Some 8) 0x5000 0 101 102 103 None TASK_READY ''new'' demo_sched = Inr (8, s')
    \<and> quiet s' 9 (demo_lists(QReady := [2, 3, 8]))
    \<and> stack_mem s' (saved_esp s' 8 - 4) = 101 \<and> stack_mem s' (saved_esp s' 8) = 103
    \<and> stack_mem s' (saved_esp s' 8 + 4) = 102 \<and> stack_mem s' (saved_esp s' 8 + 8) = 0"
  using tasks_new_first_run [OF quiet_demo demo_unqueued, of "0x5000" 0 101 102 103 "''new''"] by (simp del: fun_upd_apply)

theorem tasks_init_quiet_witness:
  "\<exists>s'. tasks_init 0x7000 0 101 102 104 1 2 (demo_sched\<lparr>tasks_ready := empty_list, tasks_sleeping := empty_list,
      syncs := \<lambda>_. \<lparr>possessor = None, dbg_name = None, waiting = empty_list\<rparr>\<rparr>) = Inr s' \<and> quiet s' 1 (\<lambda>_. [])
      \<and> instr_per_ns s' \<noteq> 0 \<and> time_slice_remaining s' = TIME_SLICE_SIZE \<and> t_state (tasks s' 2) = TASK_PAUSED"
  using tasks_init_quiet [of "demo_sched\<lparr>tasks_ready := empty_list, tasks_sleeping := empty_list,
      syncs := \<lambda>_. \<lparr>possessor = None, dbg_name = None, waiting = empty_list\<rparr>\<rparr>" 1 2 "0x7000" 0 101 102 104]
  by (simp add: blank_def demo_sched_def locks_def)

text \<open>A task that blocks itself without a list hands the processor to the next ready task.\<close>

lemma tasks_block_current_runs_next:
  assumes q: "quiet s c L" and r: "L QReady = t # ts" and n: "reason \<noteq> TASK_RUNNING"
  shows "\<exists>s'. tasks_block_current n reason s = Inr s' \<and> quiet s' t (L(QReady := ts)) \<and> saved_esp s' = saved_esp s"
proof -
  let ?s = "upd_task c (\<lambda>t. t\<lparr>t_state := reason\<rparr>) (aquire_scheduler_lock s)"
  have ok: "sched_ok ?s L" and cn: "c \<notin> queued L" using quietD [OF q] by simp_all
  have ct: "ctl ?s = ctl (aquire_scheduler_lock s)" by simp
  have "saved_esp ?s = saved_esp (aquire_scheduler_lock s)" by (rule saved_esp_ctl [OF ct]) simp
  then have h: "hands_over s c L ?s"
    using ok quietD(2,7) [OF q] ctl_locks [OF ct] locks_quiet_aquire [OF q] by (simp add: hands_over_def)
  have "t_state (tasks ?s c) \<noteq> TASK_RUNNING" using n by simp
  from finish_blocked [OF h this r, of n] show ?thesis
    using quietD(2) [OF q] by (auto simp: tasks_block_current_def)
qed

section \<open>The cleaner\<close>

lemma clean_loop_spec:
  assumes "sched_ok s L" and "L QStopped = ts"
  shows "\<exists>s'. clean_loop freed s = Some (freed @ map (\<lambda>t. clean_stopped_task t s) ts, s')
    \<and> sched_ok s' (L(QStopped := [])) \<and> same_fields (tasks s') (tasks s) \<and> ctl s' = ctl s"
  using assms
proof (induction ts arbitrary: freed s L)
  case Nil
  then obtain s' where "dequeue_on QStopped s = (None, s')" "sched_ok s' L" "tasks s' = tasks s" "ctl s' = ctl s"
    using dequeue_on_Nil by blast
  then show ?case using Nil by (subst clean_loop.simps) (simp add: same_fields_def fun_upd_idem)
next
  case (Cons t ts)
  obtain s1 where s1: "dequeue_on QStopped s = (Some t, s1)" "sched_ok s1 (L(QStopped := ts))"
    "same_fields (tasks s1) (tasks s)" "ctl s1 = ctl s"
    using dequeue_on_Cons [OF Cons.prems(1,2)] by blast
  have fld: "t_alloc (tasks s1 a) = t_alloc (tasks s a)" for a
  proof -
    have "t_alloc ((tasks s1 a)\<lparr>t_next := None\<rparr>) = t_alloc ((tasks s a)\<lparr>t_next := None\<rparr>)"
      using s1(3) by (simp add: same_fields_def)
    then show ?thesis by simp
  qed
  then have cl: "clean_stopped_task a s1 = clean_stopped_task a s" for a
    using same_fieldsD(4) [OF s1(3), of a] by (simp add: clean_stopped_task_def)
  from Cons.IH [OF s1(2) fun_upd_same, of "freed @ [clean_stopped_task t s1]"] obtain s' where
    s': "clean_loop (freed @ [clean_stopped_task t s1]) s1 =
        Some ((freed @ [clean_stopped_task t s1]) @ map (\<lambda>t. clean_stopped_task t s1) ts, s')"
      "sched_ok s' (L(QStopped := []))" "same_fields (tasks s') (tasks s1)" "ctl s' = ctl s1"
    by (auto simp del: fun_upd_apply)
  have "same_fields (tasks s') (tasks s)" using s'(3) s1(3) by (simp add: same_fields_def)
  with s' s1 cl show ?case by (subst clean_loop.simps) (simp del: fun_upd_apply)
qed



section \<open>A second exit before the cleaner has run\<close>

lemma schedule_single_head:
  assumes "postpone_count s = 0" and "current_task s = Some c" and "t_state (tasks s c) \<noteq> TASK_RUNNING"
    and "tl_head (tasks_ready s) = Some k" and "t_next (tasks s k) = None"
  shows "\<exists>s'. schedule_with idle s = Inr s' \<and> current_task s' = Some k \<and> tasks_ready s' = empty_list
    \<and> (\<forall>a. a \<noteq> k \<longrightarrow> t_state (tasks s' a) = t_state (tasks s a))"
proof -
  define s1 where "s1 = set_qlist QReady empty_list (s\<lparr>tasks := set_next k None (tasks s)\<rparr>)"
  have d: "tasks_dequeue_ready s = (Some k, s1)"
    using assms(4,5) by (simp add: tasks_dequeue_ready_def dequeue_on_def dequeue_task_def s1_def empty_list_def Let_def)
  have r: "tasks_ready (tasks_update_time s1) = empty_list"
    using assms(2) by (simp add: tasks_update_time_def Let_def s1_def upd_task_def)
  have "current_task s1 = Some c" "t_state (tasks s1 a) = t_state (tasks s a)" for a
    using assms(2) by (simp_all add: s1_def)
  then show ?thesis
    using assms d r by (simp add: schedule_with_def tasks_switch_to_def Let_def upd_task_def)
qed

lemma enqueue_head_again:
  assumes "tl_head (qlist s q) = Some k" and "tl_tail (qlist s q) = Some z"
  shows "qlist (enqueue_on q k s) q = \<lparr>tl_head = Some k, tl_tail = Some k\<rparr>
    \<and> t_next (tasks (enqueue_on q k s) k) = None \<and> (\<forall>a. t_state (tasks (enqueue_on q k s) a) = t_state (tasks s a))"
  using assms by (simp add: enqueue_on_def enqueue_task_def Let_def)

lemma exit_with_ready_cleaner:
  assumes q: "quiet s c L" and r: "L QReady = k # ts"
  shows "\<exists>s'. tasks_exit n k s = Inr s' \<and> current_task s' = Some k \<and> tasks_ready s' = empty_list
    \<and> (\<forall>t \<in> set ts. t_state (tasks s' t) = TASK_READY)"
proof -
  have kc: "k \<noteq> c" and tsc: "c \<notin> set ts" using quiet_disjoint [OF q, of QReady] r by auto
  let ?s1 = "enqueue_on QStopped c (upd_task c (\<lambda>t. t\<lparr>t_state := TASK_STOPPED\<rparr>) (aquire_scheduler_lock s))"
  have h: "hands_over s c (L(QStopped := L QStopped @ [c])) ?s1" "t_state (tasks ?s1 c) = TASK_STOPPED"
    using hands_over_enqueue [OF q, of "\<lambda>t. t\<lparr>t_state := TASK_STOPPED\<rparr>" QStopped] by simp_all
  define s2 where "s2 = ?s1\<lparr>scheduler_postponed := True\<rparr>"
  have ok2: "sched_ok s2 (L(QStopped := L QStopped @ [c]))" "locks s2 = (1, 1, True, False)" "current_task s2 = Some c"
    "t_state (tasks s2 c) = TASK_STOPPED"
    using h by (simp_all add: s2_def hands_over_def locks_def)
  have bl: "tasks_block_current n TASK_STOPPED (enqueue_on QStopped c (aquire_scheduler_lock s)) = Inr s2"
    using block_nested [OF quiet_aquire_nested [OF q], of n TASK_STOPPED] by (simp add: enqueue_state_commute s2_def del: upd_task_simps)
  have tl: "tlist (tasks s2) (tasks_ready s2) (k # ts)" using queues_okD(1) [OF ok2(1), of QReady] r by simp
  then obtain z where hd: "tl_head (tasks_ready s2) = Some k" "tl_tail (tasks_ready s2) = Some z"
    by (auto simp: tlist_def last_ptr_def)
  let ?s3 = "upd_task k (\<lambda>t. t\<lparr>t_state := TASK_READY\<rparr>) s2"
  define s4 where "s4 = enqueue_on QReady k ?s3"
  have "qlist ?s3 QReady = tasks_ready s2" by (simp add: upd_task_def)
  then have s4: "tasks_ready s4 = \<lparr>tl_head = Some k, tl_tail = Some k\<rparr>" "t_next (tasks s4 k) = None"
    "t_state (tasks s4 a) = t_state (tasks ?s3 a)" for a
    using enqueue_head_again [of ?s3 QReady k z] hd by (simp_all add: s4_def)
  have ct: "ctl s4 = ctl s2" by (simp add: s4_def)
  have l4: "locks s4 = (1, 1, True, False)" "current_task s4 = Some c"
    using ctl_locks [OF ct] ctl_fields(1) [OF ct] ok2 by simp_all
  have rdy: "t_state (tasks s4 t) = TASK_READY" if "t \<in> set ts" for t
    using queues_okD(3) [OF ok2(1), of t QReady] r that s4(3) by simp
  have stp: "t_state (tasks s4 c) = TASK_STOPPED" using s4(3) ok2(4) kc by simp
  let ?s5 = "s4\<lparr>postpone_count := 0, scheduler_postponed := False\<rparr>"
  obtain s6 where s6: "schedule_with (idle_loop n) ?s5 = Inr s6" "current_task s6 = Some k" "tasks_ready s6 = empty_list"
    "\<forall>a. a \<noteq> k \<longrightarrow> t_state (tasks s6 a) = t_state (tasks s4 a)"
    using schedule_single_head [of ?s5 c k "idle_loop n"] l4(2) stp s4(1,2) by auto
  have "tasks_exit n k s = release_scheduler_lock n s4"
    using quietD(2) [OF q] bl unblock_nested [OF ok2(2), of n k] by (simp add: tasks_exit_def tasks_enqueue_ready_def s4_def)
  also have "\<dots> = Inr (task_starting s6)"
    using release_postponed [OF l4(1), of "idle_loop n"] postponed_schedule [OF l4(1), of "idle_loop n"] s6(1)
    by (simp add: release_scheduler_lock_def schedule_def)
  finally have "tasks_exit n k s = Inr (task_starting s6)" .
  moreover have "tasks_ready (task_starting s6) = empty_list" using s6(3) by (simp add: task_starting_def Let_def)
  moreover have "k \<notin> set ts" using tl by (simp add: tlist_def)
  then have "\<forall>t \<in> set ts. t_state (tasks s6 t) = TASK_READY" using s6(4) rdy by (metis)
  ultimately show ?thesis using s6(2) by simp
qed



end
