(* ===== verification/Locking.thy ===== *)
theory Locking
  imports Scheduler_Api
begin

text \<open>
  \<open>Kernel/Locking\<close>: \<open>Mutex\<close>, \<open>Semaphore\<close> and the RAII lock.  The member \<open>m_taskSync\<close> is the address of
  a \<open>task_sync\<close> of the scheduler's state.

  The first part gives each member function as it runs between two points where the task can lose
  the CPU: one iteration of the loop of \<open>lock\<close> and of \<open>wait\<close>, and the other functions as a whole.
  The second part is the interleaving: every task has a program counter, and a step is one atomic
  instruction or one call into the scheduler of one task.  The waiting list of the step relations is
  the list \<open>QWait\<close> of the scheduler: blocking appends to it and unblocking empties it, as shown for
  \<open>tasks_sync_block\<close> and \<open>tasks_sync_unblock\<close>.
\<close>

section \<open>Mutex\<close>

record mutex =
  m_isLocked :: bool
  mx_sync :: addr

definition set_dbg_name :: "addr \<Rightarrow> string option \<Rightarrow> sched \<Rightarrow> sched" where
  "set_dbg_name ts nm s = s\<lparr>syncs := (syncs s)(ts := (syncs s ts)\<lparr>dbg_name := nm\<rparr>)\<rparr>"

definition Mutex :: "addr \<Rightarrow> string option \<Rightarrow> sched \<Rightarrow> mutex \<times> sched" where
  "Mutex ts nm s = (\<lparr>m_isLocked = False, mx_sync = ts\<rparr>, tasks_sync_init ts (set_dbg_name ts nm s))"

definition test_and_set :: "mutex \<Rightarrow> bool \<times> mutex" where
  "test_and_set m = (m_isLocked m, m\<lparr>m_isLocked := True\<rparr>)"

text \<open>\<open>TASK_ONLY\<close> guards the calls into the scheduler.\<close>

definition task_only :: "(sched \<Rightarrow> sched outcome) \<Rightarrow> sched \<Rightarrow> sched outcome" where
  "task_only f s = (if current_task s \<noteq> None then f s else Inr s)"

text \<open>One iteration of the loop of \<open>lock\<close>: the result says whether the mutex was acquired; otherwise the
  task has called \<open>tasks_sync_block\<close> and iterates again when it gets the CPU back.\<close>

definition lock_iteration :: "nat \<Rightarrow> mutex \<Rightarrow> sched \<Rightarrow> (bool \<times> mutex \<times> sched) outcome" where
  "lock_iteration n m s =
     (let (taken, m1) = test_and_set m in
      if taken then bindE (task_only (tasks_sync_block n (mx_sync m)) s) (\<lambda>s1. Inr (False, m1, s1))
      else Inr (True, m1, s))"

definition tryLock :: "mutex \<Rightarrow> bool \<times> mutex" where
  "tryLock m = (let (taken, m1) = test_and_set m in if taken then (False, m1) else (True, m1))"

definition unlock :: "nat \<Rightarrow> mutex \<Rightarrow> sched \<Rightarrow> (bool \<times> mutex \<times> sched) outcome" where
  "unlock n m s =
     (let m1 = m\<lparr>m_isLocked := False\<rparr> in
      bindE (task_only (tasks_sync_unblock n (mx_sync m)) s) (\<lambda>s1. Inr (True, m1, s1)))"

section \<open>Semaphore\<close>

record semaphore =
  m_isShared :: bool
  m_count :: u32
  sm_sync :: addr

definition Semaphore :: "addr \<Rightarrow> u32 \<Rightarrow> bool \<Rightarrow> string option \<Rightarrow> sched \<Rightarrow> semaphore \<times> sched" where
  "Semaphore ts v share nm s =
     (\<lparr>m_isShared = share, m_count = v, sm_sync = ts\<rparr>, tasks_sync_init ts (set_dbg_name ts nm s))"

definition sem_count :: "semaphore \<Rightarrow> u32" where
  "sem_count m = m_count m"

text \<open>\<open>COMPARE_EXCHANGE\<close>: success, the new value of \<open>curVal\<close>, the semaphore.\<close>

definition compare_exchange :: "u32 \<Rightarrow> semaphore \<Rightarrow> bool \<times> u32 \<times> semaphore" where
  "compare_exchange curVal m =
     (if m_count m = curVal then (True, curVal, m\<lparr>m_count := curVal - 1\<rparr>) else (False, m_count m, m))"

text \<open>\<open>tryWait\<close> without interference needs one exchange.\<close>

definition tryWait :: "semaphore \<Rightarrow> bool \<times> semaphore" where
  "tryWait m =
     (let curVal = sem_count m in
      if curVal = 0 then (False, m) else (let (ok, _, m1) = compare_exchange curVal m in (ok, m1)))"

definition post :: "nat \<Rightarrow> semaphore \<Rightarrow> sched \<Rightarrow> (bool \<times> semaphore \<times> sched) outcome" where
  "post n m s =
     (let m1 = m\<lparr>m_count := m_count m + 1\<rparr> in
      bindE (task_only (tasks_sync_unblock n (sm_sync m)) s) (\<lambda>s1. Inr (True, m1, s1)))"

section \<open>Interleavings of a mutex\<close>

datatype mutex_pc =
    Outside      \<comment> \<open>not in a member function and not holding the mutex\<close>
  | TestAndSet   \<comment> \<open>in \<open>lock\<close>, before \<open>__atomic_test_and_set\<close>\<close>
  | Block        \<comment> \<open>in \<open>lock\<close>, the flag was set, before \<open>tasks_sync_block\<close>\<close>
  | Waiting      \<comment> \<open>on the waiting list\<close>
  | Critical     \<comment> \<open>holds the mutex\<close>
  | Unblock      \<comment> \<open>in \<open>unlock\<close>, the flag is cleared, before \<open>tasks_sync_unblock\<close>\<close>

record mutex_sys =
  flag :: bool
  wait_list :: "addr list"
  pc :: "addr \<Rightarrow> mutex_pc"

abbreviation goto :: "addr \<Rightarrow> mutex_pc \<Rightarrow> mutex_sys \<Rightarrow> mutex_sys" where
  "goto t p s \<equiv> s\<lparr>pc := (pc s)(t := p)\<rparr>"

inductive mutex_step :: "mutex_sys \<Rightarrow> mutex_sys \<Rightarrow> bool" where
  call_lock: "pc s t = Outside \<Longrightarrow> mutex_step s (goto t TestAndSet s)"
| lock_taken: "pc s t = TestAndSet \<Longrightarrow> flag s \<Longrightarrow> mutex_step s (goto t Block s)"
| lock_free: "pc s t = TestAndSet \<Longrightarrow> \<not> flag s \<Longrightarrow> mutex_step s (goto t Critical (s\<lparr>flag := True\<rparr>))"
| lock_block: "pc s t = Block \<Longrightarrow> mutex_step s (goto t Waiting (s\<lparr>wait_list := wait_list s @ [t]\<rparr>))"
| try_free: "pc s t = Outside \<Longrightarrow> \<not> flag s \<Longrightarrow> mutex_step s (goto t Critical (s\<lparr>flag := True\<rparr>))"
| try_taken: "pc s t = Outside \<Longrightarrow> flag s \<Longrightarrow> mutex_step s s"
| unlock_clear: "pc s t = Critical \<Longrightarrow> mutex_step s (goto t Unblock (s\<lparr>flag := False\<rparr>))"
| unlock_wake: "pc s t = Unblock \<Longrightarrow>
    mutex_step s (s\<lparr>wait_list := [],
      pc := (\<lambda>u. if u \<in> set (wait_list s) then TestAndSet else if u = t then Outside else pc s u)\<rparr>)"

definition mutex_start :: mutex_sys where
  "mutex_start = \<lparr>flag = False, wait_list = [], pc = (\<lambda>_. Outside)\<rparr>"

definition mutex_inv :: "mutex_sys \<Rightarrow> bool" where
  "mutex_inv s \<longleftrightarrow> (\<forall>t u. pc s t = Critical \<longrightarrow> pc s u = Critical \<longrightarrow> t = u)
     \<and> (\<forall>t. pc s t = Critical \<longrightarrow> flag s) \<and> (flag s \<longrightarrow> (\<exists>t. pc s t = Critical))
     \<and> distinct (wait_list s) \<and> (\<forall>t. t \<in> set (wait_list s) \<longleftrightarrow> pc s t = Waiting)"

lemma mutex_inv_other:
  assumes "mutex_inv s" and "pc s t \<noteq> Critical" and "flag s"
  shows "\<exists>u. u \<noteq> t \<and> pc s u = Critical"
  using assms by (metis mutex_inv_def)

interpretation mtx: kept_by_steps mutex_step mutex_inv
proof
  fix s s'
  assume i: "mutex_inv s" and st: "mutex_step s s'"
  from st show "mutex_inv s'"
  proof (cases rule: mutex_step.cases)
    case (unlock_wake t)
    have "\<exists>u. u \<noteq> t \<and> u \<notin> set (wait_list s) \<and> pc s u = Critical" if fl: "flag s"
    proof -
      obtain u where u: "u \<noteq> t" "pc s u = Critical" using mutex_inv_other [OF i _ fl, of t] unlock_wake by auto
      moreover have "u \<in> set (wait_list s) \<longleftrightarrow> pc s u = Waiting" using i by (simp add: mutex_inv_def)
      ultimately show ?thesis by auto
    qed
    then show ?thesis using i unlock_wake by (auto simp: mutex_inv_def split: if_splits)
  next
    case (lock_block t)
    then show ?thesis using i mutex_inv_other [OF i, of t] by (auto simp: mutex_inv_def)
  next
    case (call_lock t)
    then show ?thesis using i mutex_inv_other [OF i, of t] by (auto simp: mutex_inv_def)
  next
    case (lock_taken t)
    then show ?thesis using i mutex_inv_other [OF i, of t] by (auto simp: mutex_inv_def)
  qed (use i in \<open>auto simp: mutex_inv_def\<close>)
qed

text \<open>C2: mutual exclusion.  In every interleaving of \<open>lock\<close>, \<open>tryLock\<close> and \<open>unlock\<close> at most one task
  holds the mutex, a task holds it exactly while the flag is set, and the waiting list holds exactly
  the blocked tasks, each once.\<close>

theorem mutex_mutual_exclusion:
  assumes "mutex_step\<^sup>*\<^sup>* mutex_start s"
  shows "(\<forall>t u. pc s t = Critical \<longrightarrow> pc s u = Critical \<longrightarrow> t = u) \<and> (flag s \<longleftrightarrow> (\<exists>t. pc s t = Critical))
    \<and> distinct (wait_list s) \<and> (\<forall>t. t \<in> set (wait_list s) \<longleftrightarrow> pc s t = Waiting)"
proof -
  have "mutex_inv mutex_start" by (simp add: mutex_inv_def mutex_start_def)
  from mtx.reachable [OF assms this] show ?thesis unfolding mutex_inv_def by blast
qed


section \<open>Interleavings of a semaphore\<close>

text \<open>\<open>Check\<close> and \<open>TryCheck\<close> carry the local variable \<open>curVal\<close>; \<open>granted\<close> and \<open>posted\<close> count the successful
  waits and the posts.  \<open>timeWait\<close> polls: its counter goes back to \<open>TimeLoad\<close>.\<close>

datatype sem_pc =
    SOutside | Load | Check u32 | SBlock | SWaiting | TryLoad | TryCheck u32 | TimeLoad | TimeCheck u32 | Wake

record sem_sys =
  sem_val :: u32
  sem_waiters :: "addr list"
  spc :: "addr \<Rightarrow> sem_pc"
  granted :: nat
  posted :: nat

abbreviation sgoto :: "addr \<Rightarrow> sem_pc \<Rightarrow> sem_sys \<Rightarrow> sem_sys" where
  "sgoto t p s \<equiv> s\<lparr>spc := (spc s)(t := p)\<rparr>"

inductive sem_step :: "sem_sys \<Rightarrow> sem_sys \<Rightarrow> bool" where
  call_wait: "spc s t = SOutside \<Longrightarrow> sem_step s (sgoto t Load s)"
| wait_load: "spc s t = Load \<Longrightarrow> sem_step s (sgoto t (Check (sem_val s)) s)"
| wait_zero: "spc s t = Check 0 \<Longrightarrow> sem_step s (sgoto t SBlock s)"
| wait_block: "spc s t = SBlock \<Longrightarrow> sem_step s (sgoto t SWaiting (s\<lparr>sem_waiters := sem_waiters s @ [t]\<rparr>))"
| wait_cas: "spc s t = Check v \<Longrightarrow> v \<noteq> 0 \<Longrightarrow> sem_val s = v \<Longrightarrow>
    sem_step s (sgoto t SOutside (s\<lparr>sem_val := v - 1, granted := granted s + 1\<rparr>))"
| wait_cas_fail: "spc s t = Check v \<Longrightarrow> v \<noteq> 0 \<Longrightarrow> sem_val s \<noteq> v \<Longrightarrow> sem_step s (sgoto t (Check (sem_val s)) s)"
| call_try: "spc s t = SOutside \<Longrightarrow> sem_step s (sgoto t TryLoad s)"
| try_load: "spc s t = TryLoad \<Longrightarrow> sem_step s (sgoto t (TryCheck (sem_val s)) s)"
| try_zero: "spc s t = TryCheck 0 \<Longrightarrow> sem_step s (sgoto t SOutside s)"
| try_cas: "spc s t = TryCheck v \<Longrightarrow> v \<noteq> 0 \<Longrightarrow> sem_val s = v \<Longrightarrow>
    sem_step s (sgoto t SOutside (s\<lparr>sem_val := v - 1, granted := granted s + 1\<rparr>))"
| try_cas_fail: "spc s t = TryCheck v \<Longrightarrow> v \<noteq> 0 \<Longrightarrow> sem_val s \<noteq> v \<Longrightarrow> sem_step s (sgoto t (TryCheck (sem_val s)) s)"
| call_time: "spc s t = SOutside \<Longrightarrow> sem_step s (sgoto t TimeLoad s)"
| time_load: "spc s t = TimeLoad \<Longrightarrow> sem_step s (sgoto t (TimeCheck (sem_val s)) s)"
| time_zero: "spc s t = TimeCheck 0 \<Longrightarrow> sem_step s (sgoto t TimeLoad s)"
| time_cas: "spc s t = TimeCheck v \<Longrightarrow> v \<noteq> 0 \<Longrightarrow> sem_val s = v \<Longrightarrow>
    sem_step s (sgoto t SOutside (s\<lparr>sem_val := v - 1, granted := granted s + 1\<rparr>))"
| time_cas_fail: "spc s t = TimeCheck v \<Longrightarrow> v \<noteq> 0 \<Longrightarrow> sem_val s \<noteq> v \<Longrightarrow> sem_step s (sgoto t (TimeCheck (sem_val s)) s)"
| post_add: "spc s t = SOutside \<Longrightarrow>
    sem_step s (sgoto t Wake (s\<lparr>sem_val := sem_val s + 1, posted := posted s + 1\<rparr>))"
| post_wake: "spc s t = Wake \<Longrightarrow>
    sem_step s (s\<lparr>sem_waiters := [],
      spc := (\<lambda>u. if u \<in> set (sem_waiters s) then Load else if u = t then SOutside else spc s u)\<rparr>)"

definition sem_start :: "u32 \<Rightarrow> sem_sys" where
  "sem_start v = \<lparr>sem_val = v, sem_waiters = [], spc = (\<lambda>_. SOutside), granted = 0, posted = 0\<rparr>"

definition sem_inv :: "u32 \<Rightarrow> sem_sys \<Rightarrow> bool" where
  "sem_inv v0 s \<longleftrightarrow> (unat v0 + posted s < 2 ^ 32 \<longrightarrow> unat (sem_val s) + granted s = unat v0 + posted s)"

lemma unat_dec_u32: "(v :: u32) \<noteq> 0 \<Longrightarrow> unat (v - 1) + 1 = unat v"
  using unat_gt_0 [of v] by (simp add: unat_minus_one)

lemma sem_inv_take: "sem_inv v0 s \<Longrightarrow> sem_val s \<noteq> 0 \<Longrightarrow>
    sem_inv v0 (sgoto t p (s\<lparr>sem_val := sem_val s - 1, granted := granted s + 1\<rparr>))"
  using unat_dec_u32 [of "sem_val s"] by (auto simp: sem_inv_def)

lemma sem_inv_post: "sem_inv v0 s \<Longrightarrow>
    sem_inv v0 (sgoto t p (s\<lparr>sem_val := sem_val s + 1, posted := posted s + 1\<rparr>))"
  using unat_inc_u32 [of "sem_val s"] by (auto simp: sem_inv_def)

interpretation sem: kept_by_steps sem_step "sem_inv v0" for v0
proof
  fix s s'
  assume i: "sem_inv v0 s" and st: "sem_step s s'"
  from st show "sem_inv v0 s'"
  proof (cases rule: sem_step.cases)
    case (wait_cas t)
    then show ?thesis using sem_inv_take [OF i, of t SOutside] by simp
  next
    case (try_cas t)
    then show ?thesis using sem_inv_take [OF i, of t SOutside] by simp
  next
    case (time_cas t)
    then show ?thesis using sem_inv_take [OF i, of t SOutside] by simp
  next
    case (post_add t)
    then show ?thesis using sem_inv_post [OF i, of t Wake] by simp
  qed (use i in \<open>simp_all add: sem_inv_def\<close>)
qed

text \<open>C3: a semaphore never grants more than it holds.  In every interleaving of \<open>wait\<close>, \<open>tryWait\<close>,
  \<open>timeWait\<close> and \<open>post\<close>, as long as the initial value and the posts fit into 32 bits, the number of
  successful waits plus the counter is the initial value plus the number of posts.\<close>

theorem semaphore_counts_exactly:
  assumes "sem_step\<^sup>*\<^sup>* (sem_start v) s" and "unat v + posted s < 2 ^ 32"
  shows "granted s + unat (sem_val s) = unat v + posted s"
proof -
  have "sem_inv v (sem_start v)" by (simp add: sem_inv_def sem_start_def)
  from sem.reachable [OF assms(1) this] assms(2) show ?thesis by (simp add: sem_inv_def)
qed

text \<open>a name given to a mutex or a semaphore is lost: the constructor stores it and then calls
  \<open>tasks_sync_init\<close>, which overwrites the whole structure, so the debugging output guarded by the name
  never happens.\<close>

theorem constructors_drop_the_name:
  "dbg_name (syncs (snd (Mutex ts (Some nm) s)) ts) = None \<and> dbg_name (syncs (snd (Semaphore ts v sh (Some nm) s)) ts) = None"
  by (simp add: Mutex_def Semaphore_def tasks_sync_init_def)

section \<open>A contended mutex and the scheduler\<close>

text \<open>hand-over.  A task that finds the mutex taken is queued on it and the next ready task \<open>t\<close> runs;
  when \<open>t\<close> releases the mutex the flag is clear and every waiter, the first one included, is ready
  behind the tasks that were ready before.\<close>

theorem mutex_hand_over:
  assumes "quiet s c L" and "L QReady = t # ts" and "m_isLocked m"
  shows "\<exists>s1 s2 u us. lock_iteration n m s = Inr (False, m, s1)
    \<and> quiet s1 t (L(QWait (mx_sync m) := L (QWait (mx_sync m)) @ [c], QReady := ts))
    \<and> unlock n m s1 = Inr (True, m\<lparr>m_isLocked := False\<rparr>, s2)
    \<and> ts @ L (QWait (mx_sync m)) @ [c] = u # us
    \<and> quiet s2 u (L(QWait (mx_sync m) := [], QReady := us @ [t]))"
proof -
  let ?w = "QWait (mx_sync m)" and ?L1 = "L(QWait (mx_sync m) := L (QWait (mx_sync m)) @ [c], QReady := ts)"
  obtain s0 where s0: "tasks_sync_block n (mx_sync m) s = bindE (schedule n s0) (release_scheduler_lock n)"
    "hands_over s c (L(?w := L ?w @ [c])) s0" "t_state (tasks s0 c) = TASK_BLOCKED"
    using tasks_sync_block_reduce [OF assms(1)] by blast
  obtain s1 where s1: "tasks_sync_block n (mx_sync m) s = Inr s1" "quiet s1 t ?L1"
    using finish_blocked [OF s0(2), of t ts n] s0(1,3) assms(2) by auto
  have w: "?L1 ?w = L ?w @ [c]" "?L1 QReady = ts" by simp_all
  obtain s3 where s3: "tasks_sync_unblock n (mx_sync m) s1 = bindE (schedule n s3) (release_scheduler_lock n)"
    "hands_over s1 t (?L1(?w := [], QReady := ts @ L ?w @ [c])) s3" "t_state (tasks s3 t) = TASK_RUNNING"
    using tasks_sync_unblock_reduce [OF s1(2), of "mx_sync m" n] unfolding w by auto
  obtain s2 where s2: "tasks_sync_unblock n (mx_sync m) s1 = Inr s2" "passes_on s2 t (?L1(?w := [], QReady := ts @ L ?w @ [c]))"
    using finish_running [OF s3(2,3), of n] s3(1) by auto
  obtain u us where u: "ts @ L ?w @ [c] = u # us" by (cases "ts @ L ?w @ [c]") auto
  have "?L1(?w := [], QReady := xs) = L(?w := [], QReady := xs)" for xs by (simp add: fun_eq_iff)
  then have "quiet s2 u (L(?w := [], QReady := us @ [t]))" using s2(2) by (simp only: passes_on_def fun_upd_same u list.case fun_upd_upd)
  moreover have "lock_iteration n m s = Inr (False, m, s1)"
    using assms(3) s1(1) quietD(2) [OF assms(1)] by (cases m) (simp add: lock_iteration_def test_and_set_def task_only_def)
  moreover have "unlock n m s1 = Inr (True, m\<lparr>m_isLocked := False\<rparr>, s2)"
    using s2(1) quietD(2) [OF s1(2)] by (simp add: unlock_def task_only_def)
  ultimately show ?thesis using s1(2) u by blast
qed

theorem mutex_mutual_exclusion_witness:
  "\<exists>s. mutex_step\<^sup>*\<^sup>* mutex_start s \<and> pc s 1 = Critical
    \<and> (\<forall>t u. pc s t = Critical \<longrightarrow> pc s u = Critical \<longrightarrow> t = u) \<and> (flag s \<longleftrightarrow> (\<exists>t. pc s t = Critical))"
proof -
  let ?s = "goto 1 Critical (mutex_start\<lparr>flag := True\<rparr>)"
  have "mutex_step mutex_start ?s" by (rule try_free) (simp_all add: mutex_start_def)
  then have r: "mutex_step\<^sup>*\<^sup>* mutex_start ?s" by blast
  have c: "pc ?s 1 = Critical" by simp
  note m = mutex_mutual_exclusion [OF r]
  show ?thesis by (intro exI [of _ ?s] conjI r c m [THEN conjunct1] m [THEN conjunct2, THEN conjunct1])
qed

theorem semaphore_counts_exactly_witness:
  "\<exists>s. sem_step\<^sup>*\<^sup>* (sem_start 2) s \<and> posted s = 1 \<and> granted s + unat (sem_val s) = 3"
proof -
  let ?s = "sgoto 1 Wake ((sem_start 2)\<lparr>sem_val := sem_val (sem_start 2) + 1, posted := posted (sem_start 2) + 1\<rparr>)"
  have "sem_step (sem_start 2) ?s" by (rule post_add) (simp add: sem_start_def)
  then have r: "sem_step\<^sup>*\<^sup>* (sem_start 2) ?s" by blast
  have p: "posted ?s = 1" by (simp add: sem_start_def)
  from semaphore_counts_exactly [OF r] p have "granted ?s + unat (sem_val ?s) = 3" by simp
  with r p show ?thesis by blast
qed

theorem mutex_hand_over_witness:
  "\<exists>s1 s2 u us. lock_iteration 0 \<lparr>m_isLocked = True, mx_sync = 7\<rparr> demo_sched = Inr (False, \<lparr>m_isLocked = True, mx_sync = 7\<rparr>, s1)
    \<and> quiet s1 2 (demo_lists(QWait 7 := [6, 9], QReady := [3]))
    \<and> unlock 0 \<lparr>m_isLocked = True, mx_sync = 7\<rparr> s1 = Inr (True, \<lparr>m_isLocked = False, mx_sync = 7\<rparr>, s2)
    \<and> [3, 6, 9] = u # us \<and> quiet s2 u (demo_lists(QWait 7 := [], QReady := us @ [2]))"
  using mutex_hand_over [OF quiet_demo, of 2 "[3]" "\<lparr>m_isLocked = True, mx_sync = 7\<rparr>" 0] by (simp del: fun_upd_apply)

end
