(* ===== verification/Arch_Memory.thy ===== *)
theory Arch_Memory
  imports Xyris_Prelude
begin

text \<open>
  The i686 memory types of \<open>Kernel/Arch/i686/Memory\<close> (\<open>Types.h\<close>, \<open>Address.hpp\<close>, \<open>Functions.h\<close>) and the
  macros of \<open>Kernel/Arch/Memory.hpp\<close>.  A bit field of \<open>w\<close> bits is a \<open>w word\<close>, a one-bit field a
  \<open>bool\<close>; the conversions place the fields from the least significant bit on, as the compiler does for
  this target.  The union of \<open>Address\<close> is its 32-bit value, and its other views are conversions.
\<close>

section \<open>Types\<close>

definition ARCH_PAGE_SIZE :: u32 where "ARCH_PAGE_SIZE = 4096"
definition ARCH_PAGE_ALIGN :: u32 where "ARCH_PAGE_ALIGN = 0xFFFFF000"
definition ARCH_PAGE_TABLE_ENTRIES :: nat where "ARCH_PAGE_TABLE_ENTRIES = 1024"
definition ARCH_PAGE_DIR_ENTRIES :: nat where "ARCH_PAGE_DIR_ENTRIES = 1024"

definition ARCH_DIR_ALIGN :: "u32 \<Rightarrow> u32" where
  "ARCH_DIR_ALIGN x = x AND 0xFFC00000"

definition ARCH_DIR_ALIGN_UP :: "u32 \<Rightarrow> u32" where
  "ARCH_DIR_ALIGN_UP x = (x + (0x00400000 - 1)) AND 0xFFC00000"

record page =
  p_offset :: "12 word"
  p_pageAddr :: "20 word"

record table_entry =
  te_present :: bool
  te_readWrite :: bool
  te_usermode :: bool
  te_writeThrough :: bool
  te_cacheDisable :: bool
  te_accessed :: bool
  te_dirty :: bool
  te_pageAttrTable :: bool
  te_global :: bool
  te_unused :: "3 word"
  te_pageAddr :: "20 word"

definition getPhysicalAddress :: "table_entry \<Rightarrow> u32" where
  "getPhysicalAddress e = ucast (te_pageAddr e) * ARCH_PAGE_SIZE"

record directory_entry =
  de_present :: bool
  de_readWrite :: bool
  de_usermode :: bool
  de_writeThrough :: bool
  de_cacheDisable :: bool
  de_accessed :: bool
  de_ignoredA :: bool
  de_size :: bool
  de_ignoredB :: "4 word"
  de_tableAddr :: "20 word"

record virtual_address =
  va_offset :: "12 word"
  va_tableIndex :: "10 word"
  va_dirIndex :: "10 word"

text \<open>\<open>getTableEntry\<close> and \<open>getDirectoryEntry\<close>: the entry, with the bound of the array.\<close>

definition getTableEntry :: "table_entry list \<Rightarrow> nat \<Rightarrow> table_entry outcome" where
  "getTableEntry entries idx = (if idx < length entries then Inr (entries ! idx) else Inl OutOfBounds)"

definition getDirectoryEntry :: "directory_entry list \<Rightarrow> nat \<Rightarrow> directory_entry outcome" where
  "getDirectoryEntry entries idx = (if idx < length entries then Inr (entries ! idx) else Inl OutOfBounds)"

section \<open>Address\<close>

definition virtualAddress :: "u32 \<Rightarrow> virtual_address" where
  "virtualAddress a = \<lparr>va_offset = ucast a, va_tableIndex = ucast (drop_bit 12 a), va_dirIndex = ucast (drop_bit 22 a)\<rparr>"

definition Address_of_virtual :: "virtual_address \<Rightarrow> u32" where
  "Address_of_virtual v =
     ucast (va_offset v) OR push_bit 12 (ucast (va_tableIndex v)) OR push_bit 22 (ucast (va_dirIndex v))"

definition page_of :: "u32 \<Rightarrow> page" where
  "page_of a = \<lparr>p_offset = ucast a, p_pageAddr = ucast (drop_bit 12 a)\<rparr>"

definition Address_of_page :: "page \<Rightarrow> u32" where
  "Address_of_page p = ucast (p_offset p) OR push_bit 12 (ucast (p_pageAddr p))"

definition Address_add :: "u32 \<Rightarrow> u32 \<Rightarrow> u32" where
  "Address_add a v = a + v"

definition Address_sub :: "u32 \<Rightarrow> u32 \<Rightarrow> u32" where
  "Address_sub a v = a - v"

section \<open>Functions and macros\<close>

definition pageAlign :: "u32 \<Rightarrow> u32" where
  "pageAlign addr = addr AND ARCH_PAGE_ALIGN"

definition pageAlignUp :: "u32 \<Rightarrow> u32" where
  "pageAlignUp addr = (addr + NOT ARCH_PAGE_ALIGN) AND ARCH_PAGE_ALIGN"

definition pageIsAligned :: "u32 \<Rightarrow> bool" where
  "pageIsAligned addr \<longleftrightarrow> addr mod ARCH_PAGE_SIZE = 0"

definition B_TO_MB :: "u32 \<Rightarrow> u32" where
  "B_TO_MB b = b div 1024 div 1024"

definition B_TO_PAGES :: "u32 \<Rightarrow> u32" where
  "B_TO_PAGES bytes = (bytes + ARCH_PAGE_SIZE - 1) div ARCH_PAGE_SIZE"

definition PAGE_COUNT :: "u32 \<Rightarrow> u32" where
  "PAGE_COUNT s = s div ARCH_PAGE_SIZE + 1"

definition PAGE_IDX_TO_ADDRESS :: "u32 \<Rightarrow> u32" where
  "PAGE_IDX_TO_ADDRESS idx = idx * ARCH_PAGE_SIZE"

definition ADDRESS_TO_PAGE_IDX :: "u32 \<Rightarrow> u32" where
  "ADDRESS_TO_PAGE_IDX addr = addr div ARCH_PAGE_SIZE"

definition MEM_BITMAP_SIZE :: nat where
  "MEM_BITMAP_SIZE = 0x100000000 div 4096"

section \<open>The views of an address agree\<close>

lemma unat_page_idx: "unat (ADDRESS_TO_PAGE_IDX a) = unat a div 4096"
  by (simp add: ADDRESS_TO_PAGE_IDX_def ARCH_PAGE_SIZE_def unat_div)

lemma page_idx_bound: "unat (ADDRESS_TO_PAGE_IDX a) < MEM_BITMAP_SIZE"
  using unat_lt_u32 [of a] by (simp add: unat_page_idx MEM_BITMAP_SIZE_def)

lemma page_idx_drop_bit: "ADDRESS_TO_PAGE_IDX a = drop_bit 12 a"
  by (simp add: ADDRESS_TO_PAGE_IDX_def ARCH_PAGE_SIZE_def drop_bit_eq_div)

lemma bit_beyond_field:
  "\<not> bit (x :: 12 word) (12 + n)" "\<not> bit (x :: 12 word) (22 + n)" "\<not> bit (y :: 10 word) (10 + n)"
proof -
  show "\<not> bit (x :: 12 word) (12 + n)" using bit_imp_le_length [of x "12 + n"] by auto
  show "\<not> bit (x :: 12 word) (22 + n)" using bit_imp_le_length [of x "22 + n"] by auto
  show "\<not> bit (y :: 10 word) (10 + n)" using bit_imp_le_length [of y "10 + n"] by auto
qed

lemma Address_virtual_roundtrip: "Address_of_virtual (virtualAddress a) = a"
proof (rule bit_word_eqI)
  fix n assume "n < LENGTH(32)"
  then show "bit (Address_of_virtual (virtualAddress a)) n = bit a n"
    by (cases "n < 12"; cases "n < 22") (auto simp: Address_of_virtual_def virtualAddress_def bit_simps)
qed

lemma unat_fields:
  "unat (va_dirIndex (virtualAddress a)) = unat a div 4096 div 1024"
  "unat (va_tableIndex (virtualAddress a)) = unat a div 4096 mod 1024"
  "unat (va_offset (virtualAddress a)) = unat a mod 4096"
  "unat (p_pageAddr (page_of a)) = unat a div 4096"
proof -
  have q: "unat a div 4096 < 1048576" "unat a div 4194304 = unat a div 4096 div 1024"
    using unat_lt_u32 [of a] by (simp_all add: div_mult2_eq [of _ 4096 1024, simplified])
  then have "unat a div 4096 div 1024 < 1024" by simp
  with q show "unat (va_dirIndex (virtualAddress a)) = unat a div 4096 div 1024"
    "unat (va_tableIndex (virtualAddress a)) = unat a div 4096 mod 1024"
    "unat (va_offset (virtualAddress a)) = unat a mod 4096" "unat (p_pageAddr (page_of a)) = unat a div 4096"
    by (simp_all add: page_of_def virtualAddress_def unsigned_ucast_eq unat_drop_bit_eq drop_bit_eq_div take_bit_eq_mod unat_div)
qed

text \<open>the three views of an address are the same 32 bits.  Splitting an address into directory
  index, table index and offset, or into page and offset, and joining the parts again gives the
  address, and joining and splitting gives the parts; the page number is the directory and table
  index in one.\<close>

theorem Address_views_roundtrip:
  "Address_of_virtual (virtualAddress a) = a \<and> virtualAddress (Address_of_virtual v) = v
   \<and> Address_of_page (page_of a) = a \<and> page_of (Address_of_page p) = p
   \<and> unat (p_pageAddr (page_of a)) = 1024 * unat (va_dirIndex (virtualAddress a)) + unat (va_tableIndex (virtualAddress a))"
proof (intro conjI)
  show "Address_of_virtual (virtualAddress a) = a" by (rule Address_virtual_roundtrip)
  show "Address_of_page (page_of a) = a"
    by (rule bit_word_eqI) (auto simp: Address_of_page_def page_of_def bit_simps)
  show "virtualAddress (Address_of_virtual v) = v"
    by (cases v) (auto intro!: bit_word_eqI simp: Address_of_virtual_def virtualAddress_def bit_simps bit_beyond_field)
  show "page_of (Address_of_page p) = p"
    by (cases p) (auto intro!: bit_word_eqI simp: Address_of_page_def page_of_def bit_simps bit_beyond_field)
  show "unat (p_pageAddr (page_of a)) = 1024 * unat (va_dirIndex (virtualAddress a)) + unat (va_tableIndex (virtualAddress a))"
    by (simp add: unat_fields)
qed

section \<open>Alignment\<close>

lemma AND_page_mask: "x AND 0xFFFFF000 = 4096 * (x div 4096)" for x :: u32
proof -
  have "x AND 0xFFFFF000 = push_bit 12 (drop_bit 12 x)"
  proof (rule bit_word_eqI)
    fix n assume n: "n < LENGTH(32)"
    have eq: "(0xFFFFF000 :: u32) = NOT (mask 12)" by (simp add: mask_eq_exp_minus_1 not_eq_complement)
    show "bit (x AND 0xFFFFF000) n = bit (push_bit 12 (drop_bit 12 x)) n"
      unfolding eq using n by (cases "n < 12") (auto simp: bit_simps)
  qed
  then show ?thesis by (simp add: push_bit_eq_mult drop_bit_eq_div)
qed

lemma unat_page_floor: "unat (4096 * (x div 4096) :: u32) = 4096 * (unat x div 4096)"
proof -
  have "4096 * (unat x div 4096) < 2 ^ 32" using unat_lt_u32 [of x] by simp
  then show ?thesis by (simp add: unat_word_ariths unat_div)
qed

lemma unat_pageAlign: "unat (pageAlign a) = 4096 * (unat a div 4096)"
  by (simp add: pageAlign_def ARCH_PAGE_ALIGN_def AND_page_mask unat_page_floor)

text \<open>\<open>pageAlign\<close> is the start of the page that contains the address; \<open>pageAlignUp\<close> is the first page
  start at or after it, except in the last page of the address space, where it wraps to zero.\<close>

theorem page_align_bounds:
  "unat (pageAlign a) = 4096 * (unat a div 4096) \<and> pageIsAligned (pageAlign a)
   \<and> unat (pageAlignUp a) = (if unat a \<le> 0xFFFFF000 then 4096 * ((unat a + 4095) div 4096) else 0)
   \<and> pageIsAligned (pageAlignUp a)"
proof (intro conjI)
  have al: "pageIsAligned (4096 * (x div 4096))" for x :: u32
    by (simp add: pageIsAligned_def ARCH_PAGE_SIZE_def word_unat_eq_iff unat_mod unat_page_floor)
  show "unat (pageAlign a) = 4096 * (unat a div 4096)" by (rule unat_pageAlign)
  show "pageIsAligned (pageAlign a)" using al [of a] by (simp add: pageAlign_def ARCH_PAGE_ALIGN_def AND_page_mask)
  have up: "pageAlignUp a = 4096 * ((a + 0xFFF) div 4096)"
  proof -
    have "NOT ARCH_PAGE_ALIGN = 0xFFF" by (simp add: ARCH_PAGE_ALIGN_def)
    then show ?thesis by (simp add: pageAlignUp_def) (simp add: ARCH_PAGE_ALIGN_def AND_page_mask)
  qed
  then show "pageIsAligned (pageAlignUp a)" using al by simp
  have "unat (a + 0xFFF) = (unat a + 4095) mod 2 ^ 32" by (simp add: unat_word_ariths)
  then show "unat (pageAlignUp a) = (if unat a \<le> 0xFFFFF000 then 4096 * ((unat a + 4095) div 4096) else 0)"
    using unat_lt_u32 [of a] by (auto simp: up unat_page_floor mod_if)
qed

end
