(* ===== verification/Physical_Memory.thy ===== *)
theory Physical_Memory
  imports Arch_Memory Bitset
begin

text \<open>
  \<open>Kernel/Memory/MemorySection.hpp\<close>, \<open>MemoryMap.hpp\<close> and the physical memory manager of
  \<open>Physical.hpp\<close>.  The manager's state is its bitmap, one bit per page frame, set for a frame in use;
  its log messages are left out.  The manager uses the bitmap through the interface \<open>bit_array\<close>.
\<close>

section \<open>Sections and the memory map\<close>

datatype mem_type = Available | Reserved | ACPI | NVS | Bad | Bootloader | Kernel | Unknown

record section_t =
  m_base :: u32
  m_size :: u32
  m_type :: mem_type

definition Section_empty :: section_t where
  "Section_empty = \<lparr>m_base = 0, m_size = 0, m_type = Unknown\<rparr>"

definition Section :: "u32 \<Rightarrow> u32 \<Rightarrow> section_t" where
  "Section base sz = \<lparr>m_base = base, m_size = sz, m_type = Unknown\<rparr>"

definition Section_typed :: "u32 \<Rightarrow> u32 \<Rightarrow> mem_type \<Rightarrow> section_t" where
  "Section_typed base sz ty = \<lparr>m_base = base, m_size = sz, m_type = ty\<rparr>"

definition initialized :: "section_t \<Rightarrow> bool" where
  "initialized s \<longleftrightarrow> m_base s \<noteq> 0 \<and> m_size s \<noteq> 0"

definition section_end :: "section_t \<Rightarrow> u32" where
  "section_end s = m_base s + m_size s"

definition pages :: "section_t \<Rightarrow> u32" where
  "pages s = m_size s div ARCH_PAGE_SIZE"

fun type_string :: "mem_type \<Rightarrow> string" where
  "type_string Available = ''Available''"
| "type_string Reserved = ''Reserved''"
| "type_string ACPI = ''ACPI''"
| "type_string NVS = ''NVS''"
| "type_string Bad = ''Bad''"
| "type_string Bootloader = ''Bootloader''"
| "type_string Kernel = ''Kernel''"
| "type_string Unknown = ''Unknown''"

definition typeString :: "section_t \<Rightarrow> string" where
  "typeString s = type_string (m_type s)"

definition setType :: "mem_type \<Rightarrow> section_t \<Rightarrow> section_t" where
  "setType ty s = s\<lparr>m_type := ty\<rparr>"

definition section_empty :: "section_t \<Rightarrow> bool" where
  "section_empty s \<longleftrightarrow> m_size s = 0"

definition contains :: "section_t \<Rightarrow> u32 \<Rightarrow> bool" where
  "contains s addr \<longleftrightarrow> section_end s \<ge> addr \<and> addr \<le> m_base s"

type_synonym memory_map = "section_t list"

definition MemoryMap :: memory_map where
  "MemoryMap = replicate 32 Section_empty"

definition MemoryMap_Count :: nat where
  "MemoryMap_Count = 32"

definition MemoryMap_Get :: "nat \<Rightarrow> memory_map \<Rightarrow> section_t outcome" where
  "MemoryMap_Get idx m = (if idx < length m then Inr (m ! idx) else Inl OutOfBounds)"

section \<open>The manager\<close>

definition Physical_Manager :: bitset where
  "Physical_Manager = Bitset_make MEM_BITMAP_SIZE True"

definition setFree :: "u32 \<Rightarrow> bitset \<Rightarrow> bitset outcome" where
  "setFree addr b = Clear (unat (ADDRESS_TO_PAGE_IDX addr)) b"

definition setUsed :: "u32 \<Rightarrow> bitset \<Rightarrow> bitset outcome" where
  "setUsed addr b = Set (unat (ADDRESS_TO_PAGE_IDX addr)) b"

definition isFree :: "u32 \<Rightarrow> bitset \<Rightarrow> bool outcome" where
  "isFree addr b = bindE (Test (unat (ADDRESS_TO_PAGE_IDX addr)) b) (\<lambda>v. Inr (\<not> v))"

definition setFree_section :: "section_t \<Rightarrow> bitset \<Rightarrow> bitset outcome" where
  "setFree_section sect b =
     foldE (\<lambda>i. setFree (m_base sect + of_nat i * ARCH_PAGE_SIZE)) [0..<unat (pages sect)] b"

definition setUsed_section :: "section_t \<Rightarrow> bitset \<Rightarrow> bitset outcome" where
  "setUsed_section sect b =
     foldE (\<lambda>i. setUsed (ADDRESS_TO_PAGE_IDX (m_base sect) + of_nat i)) [0..<unat (pages sect)] b"

text \<open>The condition of the loop is \<open>(!isFree(base)) + i * ARCH_PAGE_SIZE\<close>.\<close>

fun isFree_loop :: "u32 \<Rightarrow> nat list \<Rightarrow> bitset \<Rightarrow> bool outcome" where
  "isFree_loop base [] b = Inr True"
| "isFree_loop base (i # is) b =
     bindE (isFree base b) (\<lambda>f.
       if (if f then 0 else 1) + of_nat i * ARCH_PAGE_SIZE \<noteq> 0 then Inr False else isFree_loop base is b)"

definition isFree_section :: "section_t \<Rightarrow> bitset \<Rightarrow> bool outcome" where
  "isFree_section sect b = isFree_loop (m_base sect) [0..<unat (pages sect)] b"

text \<open>The loop of \<open>initialize\<close>: the free and reserved megabytes it logs, and the bitmap.\<close>

definition initialize_step :: "memory_map \<Rightarrow> nat \<Rightarrow> u32 \<times> u32 \<times> bitset \<Rightarrow> (u32 \<times> u32 \<times> bitset) outcome" where
  "initialize_step m i = (\<lambda>(fr, re, b).
     bindE (MemoryMap_Get i m) (\<lambda>sect.
       if initialized sect \<and> m_type sect = Available
       then bindE (setFree_section sect b) (\<lambda>b1. Inr (fr + B_TO_MB (m_size sect), re, b1))
       else Inr (fr, re + B_TO_MB (m_size sect), b)))"

definition Physical_initialize :: "memory_map \<Rightarrow> bitset \<Rightarrow> (u32 \<times> u32 \<times> bitset) outcome" where
  "Physical_initialize m b = foldE (initialize_step m) [0..<MemoryMap_Count] (0, 0, b)"

definition findNextFreePhysicalAddress :: "bitset \<Rightarrow> u32 outcome" where
  "findNextFreePhysicalAddress b = FindFirstBit MEM_BITMAP_SIZE b False"

definition getPage :: "bitset \<Rightarrow> (u32 \<times> bitset) outcome" where
  "getPage b =
     bindE (findNextFreePhysicalAddress b) (\<lambda>pAddr.
       if pAddr = npos then Inl (Panic ''Out of memory!'')
       else bindE (setUsed (PAGE_IDX_TO_ADDRESS pAddr) b) (\<lambda>b1. Inr (PAGE_IDX_TO_ADDRESS pAddr, b1)))"

definition freePhysicalPage :: "u32 \<Rightarrow> bitset \<Rightarrow> bitset outcome" where
  "freePhysicalPage physAddr b = setFree physAddr b"

section \<open>Frames\<close>

abbreviation wf_phys :: "bitset \<Rightarrow> bool" where
  "wf_phys \<equiv> wf_bitset MEM_BITMAP_SIZE"

lemma wf_phys_capacity: "wf_phys b \<Longrightarrow> capacity b = MEM_BITMAP_SIZE"
  by (simp add: wf_bitset_def)

lemma wf_Physical_Manager: "wf_phys Physical_Manager"
  unfolding Physical_Manager_def by (rule wf_Bitset_make) (simp_all add: MEM_BITMAP_SIZE_def)

lemma setFree_bits:
  assumes "wf_phys b"
  shows "\<exists>b'. setFree a b = Inr b' \<and> wf_phys b' \<and> bits b' = (bits b)(unat a div 4096 := False)"
  using bs.clear_spec [OF assms, of "unat (ADDRESS_TO_PAGE_IDX a)"] page_idx_bound [of a]
  by (auto simp: setFree_def wf_phys_capacity [OF assms] unat_page_idx)

lemma setUsed_bits:
  assumes "wf_phys b"
  shows "\<exists>b'. setUsed a b = Inr b' \<and> wf_phys b' \<and> bits b' = (bits b)(unat a div 4096 := True)"
  using bs.set_spec [OF assms, of "unat (ADDRESS_TO_PAGE_IDX a)"] page_idx_bound [of a]
  by (auto simp: setUsed_def wf_phys_capacity [OF assms] unat_page_idx)

lemma isFree_bits: "wf_phys b \<Longrightarrow> isFree a b = Inr (\<not> bits b (unat a div 4096))"
  using bs.test_spec [of MEM_BITMAP_SIZE b "unat (ADDRESS_TO_PAGE_IDX a)"] page_idx_bound [of a]
  by (simp add: isFree_def wf_phys_capacity unat_page_idx)

lemma pages_bound: "unat (pages s) < 2 ^ 20"
  using unat_lt_u32 [of "m_size s"] by (simp add: pages_def ARCH_PAGE_SIZE_def unat_div)

text \<open>The frames of a section, counted with 32-bit wrap-around as the loop does.\<close>

definition section_frames :: "section_t \<Rightarrow> nat set" where
  "section_frames s = (\<lambda>i. unat (m_base s + of_nat i * ARCH_PAGE_SIZE) div 4096) ` {0..<unat (pages s)}"

lemma setFree_section_bits:
  assumes "wf_phys b"
  shows "\<exists>b'. setFree_section s b = Inr b' \<and> wf_phys b' \<and> (\<forall>p. bits b' p \<longleftrightarrow> bits b p \<and> p \<notin> section_frames s)"
proof -
  let ?f = "\<lambda>i. unat (m_base s + of_nat i * ARCH_PAGE_SIZE) div 4096"
  let ?I = "\<lambda>ys t. wf_phys t \<and> (\<forall>p. bits t p \<longleftrightarrow> bits b p \<and> p \<notin> ?f ` set ys)"
  have "\<exists>b'. setFree_section s b = Inr b' \<and> ?I [0..<unat (pages s)] b'"
    unfolding setFree_section_def
  proof (rule foldE_invariant [where I = ?I])
    fix ys x zs t
    assume "?I ys t"
    then show "\<exists>t'. setFree (m_base s + of_nat x * ARCH_PAGE_SIZE) t = Inr t' \<and> ?I (ys @ [x]) t'"
      using setFree_bits [of t "m_base s + of_nat x * ARCH_PAGE_SIZE"] by auto
  qed (use assms in simp)
  then show ?thesis by (simp add: section_frames_def)
qed

text \<open>after \<open>initialize\<close> a page frame is free exactly when it lies in an initialised section of the
  memory map that the boot loader reports as available; everything else stays reserved.\<close>

theorem Physical_initialize_frees_available:
  assumes "length m = MemoryMap_Count"
  shows "\<exists>fr re b. Physical_initialize m Physical_Manager = Inr (fr, re, b) \<and> wf_phys b
    \<and> (\<forall>p < MEM_BITMAP_SIZE. \<not> bits b p \<longleftrightarrow>
        (\<exists>s \<in> set m. initialized s \<and> m_type s = Available \<and> p \<in> section_frames s))"
proof -
  let ?av = "\<lambda>i p. initialized (m ! i) \<and> m_type (m ! i) = Available \<and> p \<in> section_frames (m ! i)"
  let ?I = "\<lambda>ys (fr :: u32, re :: u32, b). wf_phys b \<and> (\<forall>p < MEM_BITMAP_SIZE. \<not> bits b p \<longleftrightarrow> (\<exists>i \<in> set ys. ?av i p))"
  have "\<exists>t. Physical_initialize m Physical_Manager = Inr t \<and> ?I [0..<MemoryMap_Count] t"
    unfolding Physical_initialize_def
  proof (rule foldE_invariant [where I = ?I])
    show "?I [] (0, 0, Physical_Manager)"
      using wf_Physical_Manager bits_Bitset_make [of MEM_BITMAP_SIZE _ True]
      by (simp add: Physical_Manager_def MEM_BITMAP_SIZE_def)
  next
    fix ys x zs t
    assume split: "[0..<MemoryMap_Count] = ys @ x # zs" and inv: "?I ys t"
    have x: "x < length m" using arg_cong [OF split, of set] assms by auto
    obtain fr re b where t: "t = (fr, re, b)" by (cases t)
    obtain b' where b': "setFree_section (m ! x) b = Inr b'" "wf_phys b'"
      "\<forall>p. bits b' p \<longleftrightarrow> bits b p \<and> p \<notin> section_frames (m ! x)"
      using setFree_section_bits [of b "m ! x"] inv t by auto
    show "\<exists>t'. initialize_step m x t = Inr t' \<and> ?I (ys @ [x]) t'"
      using x inv b' by (cases "initialized (m ! x) \<and> m_type (m ! x) = Available")
        (auto simp: t initialize_step_def MemoryMap_Get_def)
  qed
  then obtain fr re b where r: "Physical_initialize m Physical_Manager = Inr (fr, re, b)" "wf_phys b"
    "\<forall>p < MEM_BITMAP_SIZE. \<not> bits b p \<longleftrightarrow> (\<exists>i \<in> set [0..<MemoryMap_Count]. ?av i p)" by auto
  have "(\<exists>i \<in> set [0..<MemoryMap_Count]. ?av i p) \<longleftrightarrow>
      (\<exists>s \<in> set m. initialized s \<and> m_type s = Available \<and> p \<in> section_frames s)" for p
  proof -
    have "set m = (\<lambda>i. m ! i) ` set [0..<MemoryMap_Count]" using assms by (metis list.set_map map_nth)
    then show ?thesis by simp
  qed
  with r show ?thesis by auto
qed

lemma getPage_spec:
  assumes "wf_phys b"
  shows "case find (\<lambda>i. \<not> bits b i) [0..<MEM_BITMAP_SIZE] of
      None \<Rightarrow> getPage b = Inl (Panic ''Out of memory!'')
    | Some i \<Rightarrow> \<exists>b'. getPage b = Inr (of_nat (4096 * i), b') \<and> wf_phys b' \<and> bits b' = (bits b)(i := True)"
proof -
  have ff: "findNextFreePhysicalAddress b =
      Inr (case find (\<lambda>i. bits b i = False) [0..<MEM_BITMAP_SIZE] of None \<Rightarrow> npos | Some i \<Rightarrow> of_nat i)"
    unfolding findNextFreePhysicalAddress_def FindFirstBit_def
    by (rule FindFirstBit_loop_spec) (simp add: wf_phys_capacity [OF assms])
  show ?thesis
  proof (cases "find (\<lambda>i. \<not> bits b i) [0..<MEM_BITMAP_SIZE]")
    case None
    then show ?thesis using ff by (simp add: getPage_def)
  next
    case (Some i)
    then have i: "i < 1048576" by (auto simp: find_upt_Some MEM_BITMAP_SIZE_def)
    have ne: "(of_nat i :: u32) \<noteq> npos"
    proof
      assume "(of_nat i :: u32) = npos"
      then have "unat (of_nat i :: u32) = unat (- 1 :: u32)" by (simp add: npos_def)
      then show False using i by (simp add: unat_of_nat_u32 unsigned_minus_1_eq_mask mask_eq_exp_minus_1)
    qed
    have ad: "PAGE_IDX_TO_ADDRESS (of_nat i) = of_nat (4096 * i)" by (simp add: PAGE_IDX_TO_ADDRESS_def ARCH_PAGE_SIZE_def)
    have "unat (of_nat (4096 * i) :: u32) = 4096 * i" using i by (intro unat_of_nat_u32) simp
    then have "unat (of_nat (4096 * i) :: u32) div 4096 = i" by simp
    with setUsed_bits [OF assms, of "of_nat (4096 * i)"] Some ff ne ad show ?thesis
      by (auto simp: getPage_def simp del: of_nat_mult)
  qed
qed

text \<open>C27: the page frame allocator.  \<open>getPage\<close> returns the address of the lowest free frame, marks this
  frame and no other as used, and panics exactly when no frame is free; \<open>freePage\<close> on the returned
  address gives the frame back and restores the previous state of every frame.\<close>

theorem getPage_freePage:
  assumes "wf_phys b"
  shows "if \<exists>i < MEM_BITMAP_SIZE. \<not> bits b i
    then \<exists>i b1 b2. i < MEM_BITMAP_SIZE \<and> \<not> bits b i \<and> (\<forall>j<i. bits b j) \<and> getPage b = Inr (of_nat (4096 * i), b1)
      \<and> bits b1 = (bits b)(i := True) \<and> freePhysicalPage (of_nat (4096 * i)) b1 = Inr b2 \<and> bits b2 = bits b \<and> wf_phys b2
    else getPage b = Inl (Panic ''Out of memory!'')"
proof (cases "find (\<lambda>i. \<not> bits b i) [0..<MEM_BITMAP_SIZE]")
  case None
  then have "\<not> (\<exists>i < MEM_BITMAP_SIZE. \<not> bits b i)" by (simp add: find_upt_None)
  with getPage_spec [OF assms] None show ?thesis by simp
next
  case (Some i)
  then have i: "i < MEM_BITMAP_SIZE" "\<not> bits b i" "\<forall>j<i. bits b j" by (auto simp: find_upt_Some)
  obtain b1 where b1: "getPage b = Inr (of_nat (4096 * i), b1)" "wf_phys b1" "bits b1 = (bits b)(i := True)"
    using getPage_spec [OF assms] Some by auto
  have "unat (of_nat (4096 * i) :: u32) div 4096 = i"
    using i(1) by (subst unat_of_nat_u32) (simp_all add: MEM_BITMAP_SIZE_def)
  then obtain b2 where "setFree (of_nat (4096 * i)) b1 = Inr b2" "wf_phys b2" "bits b2 = (bits b1)(i := False)"
    using setFree_bits [OF b1(2), of "of_nat (4096 * i)"] by auto
  then have "freePhysicalPage (of_nat (4096 * i)) b1 = Inr b2 \<and> bits b2 = bits b \<and> wf_phys b2"
    using b1(3) i(2) by (auto simp: freePhysicalPage_def fun_eq_iff)
  with i b1 show ?thesis by (auto simp del: of_nat_mult)
qed

text \<open>\<open>isFree\<close> of a section of two or more pages is false even when every page of it is free: the sum
  of the negated test of the first page and the byte offset of page \<open>i\<close> is taken as the condition, and
  it is not zero for the second page.\<close>

theorem isFree_section_never_free:
  assumes "wf_phys b" and "2 \<le> unat (pages s)"
  shows "isFree_section s b = Inr False"
proof -
  obtain k where "unat (pages s) = Suc (Suc k)" using assms(2) by (metis Suc_le_D numeral_2_eq_2 Suc_le_mono)
  then have "[0..<unat (pages s)] = 0 # 1 # map Suc (map Suc [0..<k])" by (simp add: upt_0_Suc del: upt_Suc)
  then show ?thesis
    using isFree_bits [OF assms(1), of "m_base s"] by (simp add: isFree_section_def ARCH_PAGE_SIZE_def)
qed

text \<open>\<open>setUsed\<close> of a section passes page indices where addresses are expected, so they are divided by
  the page size twice: it marks the frames \<open>(base / 4096 + i) / 4096\<close> and, unless one of them happens
  to be one of these, leaves the frames of the section as they were.\<close>

theorem setUsed_section_marks_wrong_frames:
  assumes "wf_phys b"
  shows "\<exists>b'. setUsed_section s b = Inr b' \<and> wf_phys b'
    \<and> (\<forall>p. bits b' p \<longleftrightarrow> bits b p \<or> p \<in> (\<lambda>i. (unat (m_base s) div 4096 + i) div 4096) ` {0..<unat (pages s)})"
proof -
  let ?f = "\<lambda>i. (unat (m_base s) div 4096 + i) div 4096"
  let ?I = "\<lambda>ys t. wf_phys t \<and> (\<forall>p. bits t p \<longleftrightarrow> bits b p \<or> p \<in> ?f ` set ys)"
  have f: "unat (ADDRESS_TO_PAGE_IDX (m_base s) + of_nat i) div 4096 = ?f i" if "i < unat (pages s)" for i
  proof -
    have i: "i < 1048576" using that pages_bound [of s] by simp
    have "unat (m_base s) div 4096 < 1048576" using unat_lt_u32 [of "m_base s"] by simp
    then have "unat (ADDRESS_TO_PAGE_IDX (m_base s) + of_nat i) = unat (m_base s) div 4096 + i"
      using i by (simp add: unat_word_ariths unat_page_idx unat_of_nat_u32)
    then show ?thesis by simp
  qed
  have "\<exists>b'. setUsed_section s b = Inr b' \<and> ?I [0..<unat (pages s)] b'"
    unfolding setUsed_section_def
  proof (rule foldE_invariant [where I = ?I])
    fix ys x zs t
    assume split: "[0..<unat (pages s)] = ys @ x # zs" and inv: "?I ys t"
    have "x < unat (pages s)" using arg_cong [OF split, of set] by auto
    with inv show "\<exists>t'. setUsed (ADDRESS_TO_PAGE_IDX (m_base s) + of_nat x) t = Inr t' \<and> ?I (ys @ [x]) t'"
      using setUsed_bits [of t "ADDRESS_TO_PAGE_IDX (m_base s) + of_nat x"] f [of x] by auto
  qed (use assms in simp)
  then show ?thesis by simp
qed

section \<open>Witnesses\<close>

theorem Physical_initialize_frees_available_witness:
  "\<exists>fr re b. Physical_initialize (Section_typed 0x100000 0x4000 Available # replicate 31 Section_empty) Physical_Manager
      = Inr (fr, re, b) \<and> wf_phys b \<and> (\<forall>p < MEM_BITMAP_SIZE. \<not> bits b p \<longleftrightarrow>
        (\<exists>s \<in> set (Section_typed 0x100000 0x4000 Available # replicate 31 Section_empty).
           initialized s \<and> m_type s = Available \<and> p \<in> section_frames s))"
  by (rule Physical_initialize_frees_available) (simp add: MemoryMap_Count_def)

theorem getPage_freePage_witness: "getPage Physical_Manager = Inl (Panic ''Out of memory!'')"
proof -
  have "\<not> (\<exists>i < MEM_BITMAP_SIZE. \<not> bits Physical_Manager i)"
    unfolding Physical_Manager_def using bits_Bitset_make [of MEM_BITMAP_SIZE _ True] by (simp add: MEM_BITMAP_SIZE_def)
  with getPage_freePage [OF wf_Physical_Manager] show ?thesis by simp
qed

theorem isFree_section_never_free_witness:
  "isFree_section (Section 0x100000 0x4000) (Bitset_make MEM_BITMAP_SIZE False) = Inr False"
proof (rule isFree_section_never_free)
  show "wf_phys (Bitset_make MEM_BITMAP_SIZE False)" by (rule wf_Bitset_make) (simp_all add: MEM_BITMAP_SIZE_def)
  show "2 \<le> unat (pages (Section 0x100000 0x4000))" by (simp add: pages_def Section_def ARCH_PAGE_SIZE_def)
qed

theorem setUsed_section_marks_wrong_frames_witness:
  "\<exists>b'. setUsed_section (Section 0x100000 0x4000) (Bitset_make MEM_BITMAP_SIZE False) = Inr b' \<and> \<not> bits b' 0x100 \<and> bits b' 0"
proof -
  let ?b = "Bitset_make MEM_BITMAP_SIZE False" and ?s = "Section 0x100000 0x4000"
  have wf: "wf_phys ?b" by (rule wf_Bitset_make) (simp_all add: MEM_BITMAP_SIZE_def)
  obtain b' where b': "setUsed_section ?s ?b = Inr b'"
    "\<forall>p. bits b' p \<longleftrightarrow> bits ?b p \<or> p \<in> (\<lambda>i. (unat (m_base ?s) div 4096 + i) div 4096) ` {0..<unat (pages ?s)}"
    using setUsed_section_marks_wrong_frames [OF wf, of ?s] by blast
  have pg: "unat (pages ?s) = 4" "unat (m_base ?s) div 4096 = 256" by (simp_all add: pages_def Section_def ARCH_PAGE_SIZE_def)
  have "bits ?b 0x100 = False" by (rule bits_Bitset_make) (simp_all add: MEM_BITMAP_SIZE_def)
  then have "\<not> bits b' 0x100" using b'(2) pg by auto
  moreover have "bits b' 0" using b'(2) pg by (auto intro: image_eqI [of _ _ 0])
  ultimately show ?thesis using b'(1) by blast
qed

end
