(* ===== verification/Paging.thy ===== *)
theory Paging
  imports Physical_Memory
begin

text \<open>
  The kernel's page tables: \<open>Kernel/Memory/paging.cpp\<close> and the page hooks of the heap in
  \<open>Kernel/Memory/heap.cpp\<close>.  The directory and the 1024 tables are functions of indices below 1024 (the
  indices are ten-bit fields or are bounded by the loops); the state also holds the virtual bitmap and
  the bitmap of the physical manager.  The linker symbols are the fields of \<open>layout\<close>.  The lock
  \<open>pagingLock\<close> and the log messages are left out.
\<close>

section \<open>State\<close>

record layout =
  lk_EARLY_MEM_START :: u32
  lk_EARLY_KERNEL_START :: u32
  lk_KERNEL_BASE :: u32
  lk_KERNEL_START :: u32
  lk_KERNEL_SIZE :: u32
  lk_pageDirectory :: u32
  lk_pageTables :: "nat \<Rightarrow> u32"

record paging =
  pageDirectory :: "nat \<Rightarrow> directory_entry"
  pageTables :: "nat \<Rightarrow> nat \<Rightarrow> table_entry"
  virtualMemoryBitset :: bitset
  phys :: bitset

definition KADDR_TO_PHYS :: "layout \<Rightarrow> u32 \<Rightarrow> u32" where
  "KADDR_TO_PHYS k a = a - lk_KERNEL_BASE k"

definition zero_entry :: table_entry where
  "zero_entry = \<lparr>te_present = False, te_readWrite = False, te_usermode = False, te_writeThrough = False,
     te_cacheDisable = False, te_accessed = False, te_dirty = False, te_pageAttrTable = False,
     te_global = False, te_unused = 0, te_pageAddr = 0\<rparr>"

section \<open>Mapping\<close>

definition mapKernelPageTable :: "layout \<Rightarrow> nat \<Rightarrow> u32 \<Rightarrow> paging \<Rightarrow> paging" where
  "mapKernelPageTable k idx table st =
     st\<lparr>pageDirectory := (pageDirectory st)(idx :=
       \<lparr>de_present = True, de_readWrite = True, de_usermode = False, de_writeThrough = False,
        de_cacheDisable = False, de_accessed = False, de_ignoredA = False,
        de_size = False, de_ignoredB = 0,
        de_tableAddr = ucast (drop_bit 12 (KADDR_TO_PHYS k table))\<rparr>)\<rparr>"

definition Paging_initDirectory :: "layout \<Rightarrow> paging \<Rightarrow> paging" where
  "Paging_initDirectory k st =
     fold (\<lambda>i s. let s1 = mapKernelPageTable k i (lk_pageTables k i) s in
            fold (\<lambda>j s2. s2\<lparr>pageTables := (pageTables s2)(i := (pageTables s2 i)(j := zero_entry))\<rparr>)
              [0..<ARCH_PAGE_TABLE_ENTRIES] s1)
       [0..<ARCH_PAGE_DIR_ENTRIES - 1] st"

definition mapKernelPage :: "u32 \<Rightarrow> u32 \<Rightarrow> paging \<Rightarrow> paging outcome" where
  "mapKernelPage vaddr paddr st =
     (let pde = unat (va_dirIndex (virtualAddress vaddr));
          pte = unat (va_tableIndex (virtualAddress vaddr));
          entry = pageTables st pde pte
      in if va_offset (virtualAddress vaddr) \<noteq> 0
         then Inl (Panic ''Attempted to map a non-page-aligned virtual address.'')
         else if te_present entry
         then (if te_pageAddr entry = p_pageAddr (page_of paddr) then Inr st
               else Inl (Panic ''Attempted to map already mapped page.''))
         else
           (let st1 = st\<lparr>pageTables := (pageTables st)(pde := (pageTables st pde)(pte :=
                  zero_entry\<lparr>te_present := True, te_readWrite := True, te_pageAddr := p_pageAddr (page_of paddr)\<rparr>))\<rparr>
            in bindE (setUsed paddr (phys st1)) (\<lambda>ph.
               bindE (Set (unat (p_pageAddr (page_of vaddr))) (virtualMemoryBitset st1)) (\<lambda>vb.
               Inr (st1\<lparr>phys := ph, virtualMemoryBitset := vb\<rparr>)))))"

text \<open>The address loops compare and add in 32 bits, so a range that reaches the end of the address space
  would not end.\<close>

partial_function (option) map_range ::
    "(u32 \<Rightarrow> u32) \<Rightarrow> u32 \<Rightarrow> u32 \<Rightarrow> paging \<Rightarrow> paging outcome option" where
  "map_range f a e st =
     (if a < e then (case mapKernelPage a (f a) st of
        Inl x \<Rightarrow> Some (Inl x)
      | Inr st1 \<Rightarrow> map_range f (a + ARCH_PAGE_SIZE) e st1)
      else Some (Inr st))"

definition mapKernelRangeVirtual :: "section_t \<Rightarrow> paging \<Rightarrow> paging outcome" where
  "mapKernelRangeVirtual sect st =
     (case map_range (\<lambda>a. a) (m_base sect) (section_end sect) st of None \<Rightarrow> Inl Hang | Some r \<Rightarrow> r)"

definition mapKernelRangePhysical :: "layout \<Rightarrow> section_t \<Rightarrow> paging \<Rightarrow> paging outcome" where
  "mapKernelRangePhysical k sect st =
     (case map_range (KADDR_TO_PHYS k) (m_base sect) (section_end sect) st of None \<Rightarrow> Inl Hang | Some r \<Rightarrow> r)"

definition mapEarlyMem :: "layout \<Rightarrow> paging \<Rightarrow> paging outcome" where
  "mapEarlyMem k = mapKernelRangeVirtual
     (Section (lk_EARLY_MEM_START k) (lk_EARLY_KERNEL_START k - lk_EARLY_MEM_START k))"

definition mapKernel :: "layout \<Rightarrow> paging \<Rightarrow> paging outcome" where
  "mapKernel k = mapKernelRangePhysical k
     (Section (pageAlign (lk_KERNEL_START k)) (pageAlignUp (lk_KERNEL_SIZE k)))"

text \<open>\<open>Memory::init\<close>: the tables and the value loaded into \<open>cr3\<close>.\<close>

definition Paging_init :: "layout \<Rightarrow> paging \<Rightarrow> (u32 \<times> paging) outcome" where
  "Paging_init k st =
     bindE (mapEarlyMem k (Paging_initDirectory k st)) (\<lambda>st1.
     bindE (mapKernel k st1) (\<lambda>st2.
     Inr (pageAlign (KADDR_TO_PHYS k (lk_pageDirectory k)), st2)))"

section \<open>Allocating pages\<close>

definition findNextFreeVirtualAddress :: "u32 \<Rightarrow> paging \<Rightarrow> u32 outcome" where
  "findNextFreeVirtualAddress seq st = FindFirstRange MEM_BITMAP_SIZE (virtualMemoryBitset st) seq False"

text \<open>The loop of \<open>newPage\<close>: the flag tells whether it ended early for want of a frame.\<close>

fun newPage_loop :: "nat list \<Rightarrow> paging \<Rightarrow> (bool \<times> paging) outcome" where
  "newPage_loop [] st = Inr (True, st)"
| "newPage_loop (i # is) st =
     bindE (findNextFreePhysicalAddress (phys st)) (\<lambda>phys_page_idx.
       if phys_page_idx = npos then Inr (False, st)
       else bindE (mapKernelPage (of_nat i * ARCH_PAGE_SIZE) (phys_page_idx * ARCH_PAGE_SIZE) st) (newPage_loop is))"

definition newPage :: "u32 \<Rightarrow> paging \<Rightarrow> (u32 \<times> paging) outcome" where
  "newPage sz st =
     (let page_count = PAGE_COUNT sz in
      bindE (findNextFreeVirtualAddress page_count st) (\<lambda>free_idx.
        if free_idx = - 1 then Inr (0, st)
        else bindE (newPage_loop [unat free_idx..<unat (free_idx + page_count)] st) (\<lambda>(ok, st1).
          if ok then Inr (free_idx * ARCH_PAGE_SIZE, st1) else Inr (0, st1))))"

definition newPageMustSucceed :: "u32 \<Rightarrow> paging \<Rightarrow> (u32 \<times> paging) outcome" where
  "newPageMustSucceed sz st =
     bindE (newPage sz st) (\<lambda>(addr, st1).
       if addr = 0 then Inl (Panic ''Failed to get new page!'') else Inr (addr, st1))"

definition freePage_step :: "nat \<Rightarrow> paging \<Rightarrow> paging outcome" where
  "freePage_step i st =
     bindE (Clear i (virtualMemoryBitset st)) (\<lambda>vb.
       let d = i div ARCH_PAGE_TABLE_ENTRIES; t = i mod ARCH_PAGE_TABLE_ENTRIES; pte = pageTables st d t in
       bindE (setFree (ucast (te_pageAddr pte)) (phys st)) (\<lambda>ph.
         Inr (st\<lparr>virtualMemoryBitset := vb, phys := ph,
                 pageTables := (pageTables st)(d := (pageTables st d)(t := zero_entry))\<rparr>)))"

definition freePage :: "u32 \<Rightarrow> u32 \<Rightarrow> paging \<Rightarrow> paging outcome" where
  "freePage page sz st =
     (let page_count = unat (PAGE_COUNT sz); first = unat (va_tableIndex (virtualAddress page))
      in foldE freePage_step [first..<first + page_count] st)"

definition isPresent :: "u32 \<Rightarrow> paging \<Rightarrow> bool outcome" where
  "isPresent addr st = Test (unat (drop_bit 12 addr)) (virtualMemoryBitset st)"

definition getPageDirPhysAddr :: "layout \<Rightarrow> u32" where
  "getPageDirPhysAddr k = KADDR_TO_PHYS k (lk_pageDirectory k)"

definition liballoc_alloc :: "u32 \<Rightarrow> paging \<Rightarrow> (u32 \<times> paging) outcome" where
  "liballoc_alloc count st = newPageMustSucceed (count * ARCH_PAGE_SIZE - 1) st"

definition liballoc_free :: "u32 \<Rightarrow> u32 \<Rightarrow> paging \<Rightarrow> (int \<times> paging) outcome" where
  "liballoc_free page count st =
     bindE (freePage page (count * ARCH_PAGE_SIZE - 1) st) (\<lambda>st1. Inr (0, st1))"

section \<open>Page numbers\<close>

definition entry_at :: "paging \<Rightarrow> nat \<Rightarrow> table_entry" where
  "entry_at st v = pageTables st (v div 1024) (v mod 1024)"

definition page_addr :: "nat \<Rightarrow> u32" where
  "page_addr v = of_nat v * ARCH_PAGE_SIZE"

lemma unat_page_addr: "v < MEM_BITMAP_SIZE \<Longrightarrow> unat (page_addr v) = 4096 * v"
  by (simp add: page_addr_def ARCH_PAGE_SIZE_def unat_word_ariths unat_of_nat_u32 MEM_BITMAP_SIZE_def)

lemma page_addr_fields:
  assumes "v < MEM_BITMAP_SIZE"
  shows "unat (va_dirIndex (virtualAddress (page_addr v))) = v div 1024"
    "unat (va_tableIndex (virtualAddress (page_addr v))) = v mod 1024"
    "va_offset (virtualAddress (page_addr v)) = 0" "unat (p_pageAddr (page_of (page_addr v))) = v"
proof -
  show "va_offset (virtualAddress (page_addr v)) = 0"
    using unat_fields(3) [of "page_addr v"] unat_page_addr [OF assms] by (simp add: unat_eq_0 [symmetric])
qed (simp_all add: unat_fields unat_page_addr [OF assms])

text \<open>The bitmap of virtual pages and the tables agree.\<close>

definition paging_ok :: "paging \<Rightarrow> bool" where
  "paging_ok st \<longleftrightarrow> wf_phys (phys st) \<and> wf_bitset MEM_BITMAP_SIZE (virtualMemoryBitset st)
     \<and> (\<forall>v < MEM_BITMAP_SIZE. bits (virtualMemoryBitset st) v \<longleftrightarrow> te_present (entry_at st v))"

definition kernel_entry :: "nat \<Rightarrow> table_entry" where
  "kernel_entry f = zero_entry\<lparr>te_present := True, te_readWrite := True, te_pageAddr := p_pageAddr (page_of (page_addr f))\<rparr>"

lemma kernel_entry_frame: "f < MEM_BITMAP_SIZE \<Longrightarrow> getPhysicalAddress (kernel_entry f) = page_addr f"
proof -
  assume f: "f < MEM_BITMAP_SIZE"
  have "unat (getPhysicalAddress (kernel_entry f)) = unat (page_addr f)"
    using f page_addr_fields(4) [OF f]
    by (simp add: getPhysicalAddress_def kernel_entry_def ARCH_PAGE_SIZE_def unat_word_ariths unat_page_addr
        MEM_BITMAP_SIZE_def unsigned_ucast_eq take_bit_nat_eq_self)
  then show ?thesis by (simp add: word_unat_eq_iff)
qed

lemma entry_at_upd:
  "entry_at (st\<lparr>pageTables := (pageTables st)(v div 1024 := (pageTables st (v div 1024))(v mod 1024 := e))\<rparr>) u =
     (if u = v then e else entry_at st u)"
  by (auto simp: entry_at_def) (metis div_mult_mod_eq)

lemma mapKernelPage_new:
  assumes ok: "paging_ok st" and v: "v < MEM_BITMAP_SIZE" and np: "\<not> te_present (entry_at st v)" and f: "f < MEM_BITMAP_SIZE"
  shows "\<exists>st'. mapKernelPage (page_addr v) (page_addr f) st = Inr st' \<and> paging_ok st'
    \<and> (\<forall>u. entry_at st' u = (if u = v then kernel_entry f else entry_at st u))
    \<and> bits (phys st') = (bits (phys st))(f := True)"
proof -
  have wf: "wf_phys (phys st)" "wf_bitset MEM_BITMAP_SIZE (virtualMemoryBitset st)" using ok by (auto simp: paging_ok_def)
  obtain ph where ph: "setUsed (page_addr f) (phys st) = Inr ph" "wf_phys ph" "bits ph = (bits (phys st))(f := True)"
    using setUsed_bits [OF wf(1), of "page_addr f"] unat_page_addr [OF f] by auto
  obtain vb where vb: "Set v (virtualMemoryBitset st) = Inr vb" "wf_bitset MEM_BITMAP_SIZE vb"
    "bits vb = (bits (virtualMemoryBitset st))(v := True)"
    using bs.set_spec [OF wf(2), of v] v wf_phys_capacity [OF wf(2)] by auto
  define st' where "st' = st\<lparr>pageTables := (pageTables st)(v div 1024 := (pageTables st (v div 1024))(v mod 1024 := kernel_entry f)),
    phys := ph, virtualMemoryBitset := vb\<rparr>"
  have e: "entry_at st' u = (if u = v then kernel_entry f else entry_at st u)" for u
    using entry_at_upd [of st v "kernel_entry f" u] by (simp add: st'_def entry_at_def)
  have "mapKernelPage (page_addr v) (page_addr f) st = Inr st'"
    using np ph(1) vb(1) page_addr_fields [OF v]
    by (simp add: mapKernelPage_def Let_def entry_at_def st'_def kernel_entry_def)
  moreover have "paging_ok st'"
    using ok ph(2) vb(2,3) by (simp add: paging_ok_def e) (simp add: st'_def kernel_entry_def)
  ultimately show ?thesis using e ph(3) by (simp add: st'_def)
qed

section \<open>The allocator\<close>

definition free_frames :: "bitset \<Rightarrow> nat set" where
  "free_frames b = {f. f < MEM_BITMAP_SIZE \<and> \<not> bits b f}"

lemma finite_free_frames [simp]: "finite (free_frames b)"
  by (simp add: free_frames_def)

lemma find_frame:
  assumes "wf_phys b" and "free_frames b \<noteq> {}"
  shows "\<exists>f. findNextFreePhysicalAddress b = Inr (of_nat f) \<and> (of_nat f :: u32) \<noteq> npos \<and> f \<in> free_frames b"
proof -
  have ff: "findNextFreePhysicalAddress b =
      Inr (case find (\<lambda>i. bits b i = False) [0..<MEM_BITMAP_SIZE] of None \<Rightarrow> npos | Some i \<Rightarrow> of_nat i)"
    unfolding findNextFreePhysicalAddress_def FindFirstBit_def
    by (rule FindFirstBit_loop_spec) (simp add: wf_phys_capacity [OF assms(1)])
  obtain f where f: "find (\<lambda>i. bits b i = False) [0..<MEM_BITMAP_SIZE] = Some f"
    using assms(2) by (cases "find (\<lambda>i. bits b i = False) [0..<MEM_BITMAP_SIZE]") (auto simp: find_upt_None free_frames_def)
  then have fr: "f \<in> free_frames b" by (auto simp: find_upt_Some free_frames_def)
  then have "f < 1048576" by (simp add: free_frames_def MEM_BITMAP_SIZE_def)
  then have "unat (of_nat f :: u32) \<noteq> unat (npos)"
    by (simp add: unat_of_nat_u32 npos_def unsigned_minus_1_eq_mask mask_eq_exp_minus_1)
  then show ?thesis using ff f fr by auto
qed

lemma newPage_loop_spec:
  assumes "paging_ok st" and "i + c \<le> MEM_BITMAP_SIZE" and "\<forall>v. i \<le> v \<and> v < i + c \<longrightarrow> \<not> te_present (entry_at st v)"
    and "c \<le> card (free_frames (phys st))"
  shows "\<exists>fs st'. newPage_loop [i..<i + c] st = Inr (True, st') \<and> paging_ok st' \<and> length fs = c \<and> distinct fs
    \<and> set fs \<subseteq> free_frames (phys st) \<and> (\<forall>p. bits (phys st') p \<longleftrightarrow> bits (phys st) p \<or> p \<in> set fs)
    \<and> (\<forall>u. entry_at st' u = (if i \<le> u \<and> u < i + c then kernel_entry (fs ! (u - i)) else entry_at st u))"
  using assms
proof (induction c arbitrary: i st)
  case 0
  then show ?case by (intro exI [of _ "[]"]) auto
next
  case (Suc c)
  have wf: "wf_phys (phys st)" using Suc.prems(1) by (simp add: paging_ok_def)
  have "free_frames (phys st) \<noteq> {}" using Suc.prems(4) by force
  from find_frame [OF wf this] obtain f where f: "findNextFreePhysicalAddress (phys st) = Inr (of_nat f)"
    "(of_nat f :: u32) \<noteq> npos" "f \<in> free_frames (phys st)" by blast
  have fm: "f < MEM_BITMAP_SIZE" using f(3) by (simp add: free_frames_def)
  obtain st1 where st1: "mapKernelPage (page_addr i) (page_addr f) st = Inr st1" "paging_ok st1"
    "\<forall>u. entry_at st1 u = (if u = i then kernel_entry f else entry_at st u)" "bits (phys st1) = (bits (phys st))(f := True)"
    using mapKernelPage_new [OF Suc.prems(1) _ _ fm, of i] Suc.prems(2,3) by auto
  have ff: "free_frames (phys st1) = free_frames (phys st) - {f}" using st1(4) by (auto simp: free_frames_def)
  have "c \<le> card (free_frames (phys st1))" using Suc.prems(4) f(3) by (simp add: ff)
  moreover have "\<forall>v. Suc i \<le> v \<and> v < Suc i + c \<longrightarrow> \<not> te_present (entry_at st1 v)" using Suc.prems(3) st1(3) by auto
  ultimately obtain fs st' where r: "newPage_loop [Suc i..<Suc i + c] st1 = Inr (True, st')" "paging_ok st'" "length fs = c"
    "distinct fs" "set fs \<subseteq> free_frames (phys st1)" "\<forall>p. bits (phys st') p \<longleftrightarrow> bits (phys st1) p \<or> p \<in> set fs"
    "\<forall>u. entry_at st' u = (if Suc i \<le> u \<and> u < Suc i + c then kernel_entry (fs ! (u - Suc i)) else entry_at st1 u)"
    using Suc.IH [OF st1(2), of "Suc i"] Suc.prems(2) by auto
  have "[i..<i + Suc c] = i # [Suc i..<Suc i + c]" by (simp add: upt_rec)
  then have "newPage_loop [i..<i + Suc c] st = Inr (True, st')"
    using f(1,2) st1(1) r(1) by (simp add: page_addr_def)
  moreover have "distinct (f # fs)" "set (f # fs) \<subseteq> free_frames (phys st)" using r(4,5) ff f(3) by auto
  moreover have "bits (phys st') p \<longleftrightarrow> bits (phys st) p \<or> p \<in> set (f # fs)" for p using r(6) st1(4) by auto
  moreover have "entry_at st' u = (if i \<le> u \<and> u < i + Suc c then kernel_entry ((f # fs) ! (u - i)) else entry_at st u)" for u
    using r(7) st1(3) by (auto simp: nth_Cons' Suc_diff_Suc not_less_eq_eq)
  ultimately show ?case using r(2,3) by (intro exI [of _ "f # fs"] exI [of _ st']) simp
qed

text \<open>C10: \<open>newPage\<close> allocates.  When \<open>i\<close> is the first run of free virtual pages of the needed length, not
  in the last 32 pages, and enough frames are free, \<open>newPage\<close> returns its address, and the pages of the
  run, and no others, are now mapped present and writable to pairwise different frames that were free;
  exactly these frames become used, and tables and bitmaps keep agreeing.\<close>

theorem newPage_maps_fresh_frames:
  assumes "paging_ok st" and "unat (PAGE_COUNT sz) = c" and "c < 32" and "0 < i" and "i + 32 \<le> MEM_BITMAP_SIZE"
    and "free_range (virtualMemoryBitset st) c i" and "\<forall>j<i. \<not> free_range (virtualMemoryBitset st) c j"
    and "c \<le> card (free_frames (phys st))"
  shows "\<exists>fs st'. newPage sz st = Inr (page_addr i, st') \<and> paging_ok st' \<and> length fs = c \<and> distinct fs
    \<and> set fs \<subseteq> free_frames (phys st) \<and> (\<forall>p. bits (phys st') p \<longleftrightarrow> bits (phys st) p \<or> p \<in> set fs)
    \<and> (\<forall>u. entry_at st' u = (if i \<le> u \<and> u < i + c then kernel_entry (fs ! (u - i)) else entry_at st u))"
proof -
  have ix: "i < 1048576" using assms(5) by (simp add: MEM_BITMAP_SIZE_def)
  have ff: "findNextFreeVirtualAddress (PAGE_COUNT sz) st = Inr (of_nat i)"
    unfolding findNextFreeVirtualAddress_def
    by (rule FindFirstRange_hit) (use assms in \<open>simp_all add: paging_ok_def\<close>)
  have u: "unat (of_nat i :: u32) = i" using ix by (intro unat_of_nat_u32) simp
  have ne: "(of_nat i :: u32) \<noteq> - 1"
  proof
    assume "(of_nat i :: u32) = - 1"
    then have "i = unat (- 1 :: u32)" using u by simp
    then show False using ix by (simp add: unsigned_minus_1_eq_mask mask_eq_exp_minus_1)
  qed
  have ue: "unat (of_nat i + PAGE_COUNT sz) = i + c" using u assms(2,3) ix by (simp add: unat_word_ariths)
  have "\<forall>v. i \<le> v \<and> v < i + c \<longrightarrow> \<not> te_present (entry_at st v)"
  proof (intro allI impI)
    fix v assume v: "i \<le> v \<and> v < i + c"
    then have "\<not> bits (virtualMemoryBitset st) (i + (v - i))" using assms(6) unfolding free_range_def by (metis add_diff_inverse_nat less_diff_conv2 not_less add.commute)
    then show "\<not> te_present (entry_at st v)" using v assms(1,3,5) by (simp add: paging_ok_def)
  qed
  with newPage_loop_spec [OF assms(1), of i c] assms(3,5,8) obtain fs st' where
    r: "newPage_loop [i..<i + c] st = Inr (True, st')" "paging_ok st'" "length fs = c" "distinct fs"
      "set fs \<subseteq> free_frames (phys st)" "\<forall>p. bits (phys st') p \<longleftrightarrow> bits (phys st) p \<or> p \<in> set fs"
      "\<forall>u. entry_at st' u = (if i \<le> u \<and> u < i + c then kernel_entry (fs ! (u - i)) else entry_at st u)"
    by auto
  have "newPage sz st = Inr (page_addr i, st')"
    using ff ne r(1) by (simp add: newPage_def Let_def u ue page_addr_def)
  with r show ?thesis by blast
qed

text \<open>C13: \<open>freePage\<close> on an address outside the first four megabytes does not free it: only the table index
  of the address is used, so an entry of the first table is cleared instead and the entry of the page
  stays mapped; and the frame given back is the number of the frame divided by 4096 once more.\<close>

theorem freePage_unmaps_wrong_page:
  assumes "paging_ok st" and "unat (PAGE_COUNT sz) = 1" and "v < MEM_BITMAP_SIZE" and "1024 \<le> v"
  shows "\<exists>st'. freePage (page_addr v) sz st = Inr st' \<and> entry_at st' v = entry_at st v
    \<and> entry_at st' (v mod 1024) = zero_entry
    \<and> bits (phys st') = (bits (phys st))(unat (te_pageAddr (entry_at st (v mod 1024))) div 4096 := False)"
proof -
  let ?t = "v mod 1024" and ?e = "entry_at st (v mod 1024)"
  have wf: "wf_phys (phys st)" "wf_bitset MEM_BITMAP_SIZE (virtualMemoryBitset st)" using assms(1) by (auto simp: paging_ok_def)
  have tm: "?t < MEM_BITMAP_SIZE" by (simp add: MEM_BITMAP_SIZE_def order.strict_trans [of _ 1024])
  obtain vb where vb: "Clear ?t (virtualMemoryBitset st) = Inr vb"
    using bs.clear_spec [OF wf(2), of ?t] tm wf_phys_capacity [OF wf(2)] by auto
  have pa: "unat (ucast (te_pageAddr ?e) :: u32) = unat (te_pageAddr ?e)"
  proof -
    have "unat (te_pageAddr ?e) < 2 ^ 20" using unsigned_less [of "te_pageAddr ?e"] by simp
    then show ?thesis by (simp add: unsigned_ucast_eq take_bit_nat_eq_self)
  qed
  obtain ph where ph: "setFree (ucast (te_pageAddr ?e)) (phys st) = Inr ph"
    "bits ph = (bits (phys st))(unat (te_pageAddr ?e) div 4096 := False)"
    using setFree_bits [OF wf(1), of "ucast (te_pageAddr ?e)"] pa by auto
  define st' where "st' = st\<lparr>virtualMemoryBitset := vb, phys := ph,
    pageTables := (pageTables st)(0 := (pageTables st 0)(?t := zero_entry))\<rparr>"
  have "[?t..<?t + 1] = [?t]" by simp
  then have "freePage (page_addr v) sz st = Inr st'"
    using assms(2) page_addr_fields(2) [OF assms(3)] vb ph(1)
    by (simp add: freePage_def freePage_step_def Let_def ARCH_PAGE_TABLE_ENTRIES_def st'_def entry_at_def)
  moreover have "entry_at st' v = entry_at st v"
    using assms(4) by (simp add: st'_def entry_at_def div_greater_zero_iff)
  moreover have "entry_at st' ?t = zero_entry" by (simp add: st'_def entry_at_def)
  ultimately show ?thesis using ph(2) by (simp add: st'_def)
qed

section \<open>A concrete state\<close>

text \<open>Only virtual page 0 is mapped; every frame is free.\<close>

definition demo_paging :: paging where
  "demo_paging = \<lparr>pageDirectory = (\<lambda>_. \<lparr>de_present = True, de_readWrite = True, de_usermode = False,
       de_writeThrough = False, de_cacheDisable = False, de_accessed = False, de_ignoredA = False,
        de_size = False, de_ignoredB = 0, de_tableAddr = 0\<rparr>),
     pageTables = (\<lambda>_ _. zero_entry)(0 := (\<lambda>_. zero_entry)(0 := kernel_entry 0)),
     virtualMemoryBitset = (case Set 0 (Bitset_make MEM_BITMAP_SIZE False) of Inr b \<Rightarrow> b | Inl _ \<Rightarrow> Bitset_make MEM_BITMAP_SIZE False),
     phys = Bitset_make MEM_BITMAP_SIZE False\<rparr>"

lemma demo_wf: "wf_bitset MEM_BITMAP_SIZE (Bitset_make MEM_BITMAP_SIZE False)"
  by (rule wf_Bitset_make) (simp_all add: MEM_BITMAP_SIZE_def)

lemma demo_vb:
  "wf_bitset MEM_BITMAP_SIZE (virtualMemoryBitset demo_paging)
   \<and> (\<forall>v < MEM_BITMAP_SIZE. bits (virtualMemoryBitset demo_paging) v \<longleftrightarrow> v = 0)"
proof -
  obtain b where b: "Set 0 (Bitset_make MEM_BITMAP_SIZE False) = Inr b" "wf_bitset MEM_BITMAP_SIZE b"
    "bits b = (bits (Bitset_make MEM_BITMAP_SIZE False))(0 := True)"
    using bs.set_spec [OF demo_wf, of 0] wf_phys_capacity [OF demo_wf] by (auto simp: MEM_BITMAP_SIZE_def)
  then have e: "virtualMemoryBitset demo_paging = b" by (simp add: demo_paging_def)
  show ?thesis
    using b(2,3) e bits_Bitset_make [of MEM_BITMAP_SIZE _ False] by (simp add: MEM_BITMAP_SIZE_def)
qed

lemma demo_bits: "v < MEM_BITMAP_SIZE \<Longrightarrow> bits (virtualMemoryBitset demo_paging) v \<longleftrightarrow> v = 0"
  using demo_vb by blast

lemma demo_paging_ok: "paging_ok demo_paging"
proof -
  have "te_present (entry_at demo_paging v) \<longleftrightarrow> v = 0" for v
    by (auto simp: entry_at_def demo_paging_def zero_entry_def kernel_entry_def)
  then show ?thesis
    using demo_vb demo_wf by (simp add: paging_ok_def) (simp add: demo_paging_def)
qed

lemma demo_free_frames: "free_frames (phys demo_paging) = {..<MEM_BITMAP_SIZE}"
  using bits_Bitset_make [of MEM_BITMAP_SIZE _ False] by (auto simp: free_frames_def demo_paging_def MEM_BITMAP_SIZE_def)

theorem newPage_maps_fresh_frames_witness:
  "\<exists>fs st'. newPage 1 demo_paging = Inr (page_addr 1, st') \<and> paging_ok st' \<and> length fs = 1 \<and> distinct fs
    \<and> set fs \<subseteq> free_frames (phys demo_paging) \<and> (\<forall>p. bits (phys st') p \<longleftrightarrow> bits (phys demo_paging) p \<or> p \<in> set fs)
    \<and> (\<forall>u. entry_at st' u = (if 1 \<le> u \<and> u < 1 + 1 then kernel_entry (fs ! (u - 1)) else entry_at demo_paging u))"
proof (rule newPage_maps_fresh_frames [OF demo_paging_ok])
  show "unat (PAGE_COUNT 1) = 1" by (simp add: PAGE_COUNT_def ARCH_PAGE_SIZE_def)
  show "free_range (virtualMemoryBitset demo_paging) 1 1"
    using demo_bits [of 1] by (simp add: free_range_def MEM_BITMAP_SIZE_def)
  show "\<forall>j<1. \<not> free_range (virtualMemoryBitset demo_paging) 1 j"
    using demo_bits [of 0] by (simp add: free_range_def MEM_BITMAP_SIZE_def)
qed (simp_all add: demo_free_frames MEM_BITMAP_SIZE_def)

theorem freePage_unmaps_wrong_page_witness:
  "\<exists>st'. freePage (page_addr 1024) 1 demo_paging = Inr st' \<and> entry_at st' 1024 = entry_at demo_paging 1024
    \<and> entry_at st' (1024 mod 1024) = zero_entry
    \<and> bits (phys st') = (bits (phys demo_paging))(unat (te_pageAddr (entry_at demo_paging (1024 mod 1024))) div 4096 := False)"
  by (rule freePage_unmaps_wrong_page [OF demo_paging_ok])
    (simp_all add: PAGE_COUNT_def ARCH_PAGE_SIZE_def MEM_BITMAP_SIZE_def)

end
