(* ===== verification/Virtual_Memory.thy ===== *)
theory Virtual_Memory
  imports Physical_Memory
begin

text \<open>
  \<open>Kernel/Memory/Virtual.hpp\<close> and \<open>Virtual.cpp\<close>: the virtual memory manager of one page directory.
  \<open>getTable\<close> reads a table through the recursive mapping at the end of the address space; the model
  keeps the table of directory slot \<open>d\<close> as \<open>vm_tables d\<close>.  The manager allocates frames from the
  physical manager, whose bitmap is part of the state.  The named constructor does not initialise
  \<open>m_rangeEnd\<close>, which is therefore an argument.
\<close>

section \<open>The class\<close>

definition READ_ONLY :: u32 where "READ_ONLY = 1"
definition USERMODE :: u32 where "USERMODE = 2"
definition WRITE_THROUGH :: u32 where "WRITE_THROUGH = 4"
definition CACHE_DISABLE :: u32 where "CACHE_DISABLE = 8"

record vmanager =
  vm_directory :: "nat \<Rightarrow> directory_entry"
  vm_tables :: "nat \<Rightarrow> nat \<Rightarrow> table_entry"
  m_rangeStart :: u32
  m_rangeSize :: u32
  m_rangeEnd :: u32
  m_searchStart :: u32
  vm_phys :: bitset

definition Manager :: "(nat \<Rightarrow> directory_entry) \<Rightarrow> (nat \<Rightarrow> nat \<Rightarrow> table_entry) \<Rightarrow> bitset \<Rightarrow> u32 \<Rightarrow> u32 \<Rightarrow> vmanager" where
  "Manager dir tabs ph rangeStart rangeSize =
     \<lparr>vm_directory = dir, vm_tables = tabs, m_rangeStart = rangeStart, m_rangeSize = rangeSize,
      m_rangeEnd = rangeStart + rangeSize, m_searchStart = rangeStart, vm_phys = ph\<rparr>"

definition Manager_named ::
    "u32 \<Rightarrow> (nat \<Rightarrow> directory_entry) \<Rightarrow> (nat \<Rightarrow> nat \<Rightarrow> table_entry) \<Rightarrow> bitset \<Rightarrow> u32 \<Rightarrow> u32 \<Rightarrow> vmanager" where
  "Manager_named uninitialised dir tabs ph rangeStart rangeSize =
     \<lparr>vm_directory = dir, vm_tables = tabs, m_rangeStart = rangeStart, m_rangeSize = rangeSize,
      m_rangeEnd = uninitialised, m_searchStart = rangeStart, vm_phys = ph\<rparr>"

definition getTable_address :: "u32 \<Rightarrow> u32" where
  "getTable_address directoryIndex = 0xFFC00000 + directoryIndex * ARCH_PAGE_SIZE"

definition dir_of :: "u32 \<Rightarrow> nat" where
  "dir_of a = unat (va_dirIndex (virtualAddress a))"

definition tab_of :: "u32 \<Rightarrow> nat" where
  "tab_of a = unat (va_tableIndex (virtualAddress a))"

definition new_table_entry :: "u32 \<Rightarrow> u32 \<Rightarrow> table_entry" where
  "new_table_entry paddr flags =
     (let e = \<lparr>te_present = True, te_readWrite = True, te_usermode = False, te_writeThrough = False,
                te_cacheDisable = False, te_accessed = False, te_dirty = False, te_pageAttrTable = False,
                te_global = False, te_unused = 0, te_pageAddr = p_pageAddr (page_of paddr)\<rparr>;
          e1 = (if flags AND READ_ONLY \<noteq> 0 then e\<lparr>te_readWrite := False\<rparr> else e);
          e2 = (if flags AND USERMODE \<noteq> 0 then e1\<lparr>te_usermode := True\<rparr> else e1);
          e3 = (if flags AND WRITE_THROUGH \<noteq> 0 then e2\<lparr>te_writeThrough := True\<rparr> else e2)
      in if flags AND CACHE_DISABLE \<noteq> 0 then e3\<lparr>te_cacheDisable := True\<rparr> else e3)"

definition cleared_entry :: table_entry where
  "cleared_entry = \<lparr>te_present = False, te_readWrite = False, te_usermode = False, te_writeThrough = False,
     te_cacheDisable = False, te_accessed = False, te_dirty = False, te_pageAttrTable = False,
     te_global = False, te_unused = 0, te_pageAddr = 0\<rparr>"

definition mapPhysicalToVirtual :: "u32 \<Rightarrow> u32 \<Rightarrow> u32 \<Rightarrow> vmanager \<Rightarrow> vmanager outcome" where
  "mapPhysicalToVirtual paddr vaddr flags m =
     bindE (if \<not> de_present (vm_directory m (dir_of vaddr))
            then bindE (getPage (vm_phys m)) (\<lambda>(tp, ph).
                   Inr (m\<lparr>vm_phys := ph,
                          vm_directory := (vm_directory m)(dir_of vaddr :=
                            \<lparr>de_present = True, de_readWrite = True, de_usermode = False, de_writeThrough = False,
                             de_cacheDisable = False, de_accessed = False, de_ignoredA = False,
        de_size = False, de_ignoredB = 0,
                             de_tableAddr = p_pageAddr (page_of tp)\<rparr>),
                          vm_tables := (vm_tables m)(dir_of vaddr := (\<lambda>_. cleared_entry))\<rparr>))
            else Inr m)
       (\<lambda>m1. if te_present (vm_tables m1 (dir_of vaddr) (tab_of vaddr))
             then Inl (Panic ''Attempted to map address that is already in use!'')
             else Inr (m1\<lparr>vm_tables := (vm_tables m1)(dir_of vaddr :=
                    (vm_tables m1 (dir_of vaddr))(tab_of vaddr := new_table_entry paddr flags))\<rparr>))"

definition virtualToPhysical :: "u32 \<Rightarrow> vmanager \<Rightarrow> u32 option" where
  "virtualToPhysical vaddr m =
     (let tableEntry = vm_tables m (dir_of vaddr) (tab_of vaddr) in
      if \<not> de_present (vm_directory m (dir_of vaddr)) \<or> \<not> te_present tableEntry then None
      else Some (push_bit 12 (ucast (te_pageAddr tableEntry))))"

definition initDirectory :: "u32 \<Rightarrow> vmanager \<Rightarrow> vmanager outcome" where
  "initDirectory directory_addr m =
     (case virtualToPhysical directory_addr m of
        None \<Rightarrow> Inl (Panic ''Failed to get directory physical address!'')
      | Some paddrDir \<Rightarrow>
          Inr (m\<lparr>vm_directory := (vm_directory m)(1023 :=
            \<lparr>de_present = False, de_readWrite = False, de_usermode = False, de_writeThrough = False,
             de_cacheDisable = False, de_accessed = False, de_ignoredA = False,
        de_size = False, de_ignoredB = 0,
             de_tableAddr = p_pageAddr (page_of paddrDir)\<rparr>)\<rparr>))"

text \<open>The search keeps the length \<open>freeRange\<close> of the current run and the address where it began.  A
  loop either returns from the function (\<open>Inl\<close>) or goes on with the two variables (\<open>Inr\<close>).\<close>

fun search_table :: "u32 \<Rightarrow> u32 \<Rightarrow> (nat \<Rightarrow> table_entry) \<Rightarrow> nat list \<Rightarrow> u32 \<times> u32 \<Rightarrow> u32 + u32 \<times> u32" where
  "search_table rng dirIdx table [] st = Inr st"
| "search_table rng dirIdx table (tableIdx # is) (freeRange, freeRangeAddress) =
     (if \<not> te_present (table tableIdx) then
        (let a = (if freeRange = 0
                  then Address_of_virtual \<lparr>va_offset = 0, va_tableIndex = of_nat tableIdx, va_dirIndex = ucast dirIdx\<rparr>
                  else freeRangeAddress)
         in if freeRange + 1 \<ge> rng then Inl a
            else search_table rng dirIdx table is (freeRange + 1, a))
      else search_table rng dirIdx table is (0, freeRangeAddress))"

fun search_dir :: "u32 \<Rightarrow> vmanager \<Rightarrow> nat list \<Rightarrow> u32 \<times> u32 \<Rightarrow> u32 + u32 \<times> u32" where
  "search_dir rng m [] st = Inr st"
| "search_dir rng m (dirIdx # ds) (freeRange, freeRangeAddress) =
     (if \<not> de_present (vm_directory m dirIdx) then
        (let a = (if freeRange = 0
                  then Address_of_virtual \<lparr>va_offset = 0, va_tableIndex = 0, va_dirIndex = of_nat dirIdx\<rparr>
                  else freeRangeAddress)
         in if freeRange + 1024 \<ge> rng then Inl a else search_dir rng m ds (freeRange + 1024, a))
      else
        (let tableIdxStart = (if dirIdx = dir_of (m_searchStart m) then tab_of (m_searchStart m) else 0)
         in case search_table rng (of_nat dirIdx) (vm_tables m dirIdx) [tableIdxStart..<1024] (freeRange, freeRangeAddress) of
              Inl a \<Rightarrow> Inl a
            | Inr st \<Rightarrow> search_dir rng m ds st))"

definition findFirstFreePageRange :: "u32 \<Rightarrow> vmanager \<Rightarrow> u32" where
  "findFirstFreePageRange rng m =
     (case search_dir rng m [dir_of (m_searchStart m)..<dir_of (m_rangeEnd m)] (0, npos) of
        Inl a \<Rightarrow> a
      | Inr _ \<Rightarrow> npos)"

definition isPageFree :: "u32 \<Rightarrow> vmanager \<Rightarrow> bool" where
  "isPageFree vaddr m =
     (let v = pageAlign vaddr in
      if \<not> de_present (vm_directory m (dir_of v)) then False
      else if \<not> te_present (vm_tables m (dir_of v) (tab_of v)) then False
      else True)"

partial_function (option) range_free_loop :: "u32 \<Rightarrow> u32 \<Rightarrow> vmanager \<Rightarrow> bool option" where
  "range_free_loop page e m =
     (if page < e then (if \<not> isPageFree page m then Some False else range_free_loop (page + ARCH_PAGE_SIZE) e m)
      else Some True)"

definition isPageRangeFree :: "u32 \<Rightarrow> u32 \<Rightarrow> vmanager \<Rightarrow> bool outcome" where
  "isPageRangeFree vaddr sz m =
     (case range_free_loop (pageAlign vaddr) (pageAlign vaddr + pageAlignUp sz) m of
        None \<Rightarrow> Inl Hang | Some r \<Rightarrow> Inr r)"

fun map_loop :: "nat \<Rightarrow> u32 \<Rightarrow> u32 \<Rightarrow> vmanager \<Rightarrow> (u32 \<times> vmanager) outcome" where
  "map_loop 0 vaddr flags m = Inr (vaddr, m)"
| "map_loop (Suc k) vaddr flags m =
     bindE (getPage (vm_phys m)) (\<lambda>(paddr, ph).
     bindE (mapPhysicalToVirtual paddr vaddr flags (m\<lparr>vm_phys := ph\<rparr>)) (\<lambda>m1.
     map_loop k (vaddr + ARCH_PAGE_SIZE) flags m1))"

definition Manager_map :: "u32 \<Rightarrow> u32 \<Rightarrow> u32 \<Rightarrow> vmanager \<Rightarrow> (u32 \<times> vmanager) outcome" where
  "Manager_map vaddr sz flags m =
     (let n = B_TO_PAGES sz in
      if vaddr = npos then map_loop (unat n) (findFirstFreePageRange n m) flags m
      else if vaddr < m_rangeStart m \<or> vaddr + n > m_rangeEnd m then Inr (0, m)
      else bindE (isPageRangeFree vaddr n m) (\<lambda>free.
        if \<not> free then Inr (0, m) else map_loop (unat n) vaddr flags m))"

definition Manager_unmap :: "u32 \<Rightarrow> u32 \<Rightarrow> vmanager \<Rightarrow> vmanager" where
  "Manager_unmap addr sz m = m"

section \<open>Translation\<close>

lemma de_present_upd [simp]:
  "virtualToPhysical v (m\<lparr>vm_phys := ph\<rparr>) = virtualToPhysical v m"
  by (simp add: virtualToPhysical_def)

lemma new_table_entry_simps [simp]:
  "te_present (new_table_entry p fl)" "te_pageAddr (new_table_entry p fl) = p_pageAddr (page_of p)"
  "te_readWrite (new_table_entry p fl) \<longleftrightarrow> fl AND READ_ONLY = 0"
  "te_usermode (new_table_entry p fl) \<longleftrightarrow> fl AND USERMODE \<noteq> 0"
  by (simp_all add: new_table_entry_def Let_def)

lemma page_frame_roundtrip: "push_bit 12 (ucast (p_pageAddr (page_of p))) = pageAlign p"
proof -
  have "push_bit 12 (ucast (ucast (drop_bit 12 p) :: 20 word)) = push_bit 12 (drop_bit 12 p)"
    by (rule bit_word_eqI) (auto simp: bit_simps)
  then show ?thesis
    by (simp add: page_of_def pageAlign_def ARCH_PAGE_ALIGN_def AND_page_mask push_bit_eq_mult drop_bit_eq_div)
qed


section \<open>Mapping at a requested address\<close>

lemma isPageFree_iff: "isPageFree v m \<longleftrightarrow> virtualToPhysical (pageAlign v) m \<noteq> None"
  by (simp add: isPageFree_def virtualToPhysical_def Let_def)

lemma dir_tab_align: "dir_of (pageAlign a) = dir_of a" "tab_of (pageAlign a) = tab_of a"
proof -
  have "va_dirIndex (virtualAddress (pageAlign a)) = va_dirIndex (virtualAddress a)"
    "va_tableIndex (virtualAddress (pageAlign a)) = va_tableIndex (virtualAddress a)"
    unfolding virtualAddress_def pageAlign_def ARCH_PAGE_ALIGN_def
  proof -
    have eq: "(0xFFFFF000 :: u32) = NOT (mask 12)" by (simp add: mask_eq_exp_minus_1 not_eq_complement)
    show "va_dirIndex \<lparr>va_offset = ucast (a AND 0xFFFFF000), va_tableIndex = ucast (drop_bit 12 (a AND 0xFFFFF000)),
        va_dirIndex = ucast (drop_bit 22 (a AND 0xFFFFF000))\<rparr> =
      va_dirIndex \<lparr>va_offset = ucast a, va_tableIndex = ucast (drop_bit 12 a), va_dirIndex = ucast (drop_bit 22 a)\<rparr>"
      unfolding eq by (auto intro!: bit_word_eqI simp: bit_simps)
    show "va_tableIndex \<lparr>va_offset = ucast (a AND 0xFFFFF000), va_tableIndex = ucast (drop_bit 12 (a AND 0xFFFFF000)),
        va_dirIndex = ucast (drop_bit 22 (a AND 0xFFFFF000))\<rparr> =
      va_tableIndex \<lparr>va_offset = ucast a, va_tableIndex = ucast (drop_bit 12 a), va_dirIndex = ucast (drop_bit 22 a)\<rparr>"
      unfolding eq by (auto intro!: bit_word_eqI simp: bit_simps)
  qed
  then show "dir_of (pageAlign a) = dir_of a" "tab_of (pageAlign a) = tab_of a" by (simp_all add: dir_of_def tab_of_def)
qed

lemma virtualToPhysical_align [simp]: "virtualToPhysical (pageAlign a) m = virtualToPhysical a m"
  by (simp add: virtualToPhysical_def dir_tab_align)

lemma pageAlign_idem: "pageAlign (pageAlign a) = pageAlign a"
  by (simp add: pageAlign_def and.assoc)

text \<open>\<open>map\<close> cannot map at a requested address.  \<open>isPageFree\<close> answers whether a page is mapped, so a
  request for unmapped pages is refused with a null pointer, and one for mapped pages is accepted and
  panics on the first page; no call with an address, a positive size and an end below the top of the
  address space returns a mapping.\<close>

theorem map_at_address_never_maps:
  assumes "vaddr \<noteq> npos" and "B_TO_PAGES sz \<noteq> 0"
    and "pageAlign vaddr < pageAlign vaddr + pageAlignUp (B_TO_PAGES sz)"
  shows "case Manager_map vaddr sz flags m of Inl e \<Rightarrow> True | Inr (a, m') \<Rightarrow> a = 0 \<and> m' = m"
proof (cases "vaddr < m_rangeStart m \<or> vaddr + B_TO_PAGES sz > m_rangeEnd m")
  case True
  then show ?thesis using assms(1) by (simp add: Manager_map_def Let_def)
next
  case False
  obtain k where k: "unat (B_TO_PAGES sz) = Suc k" using assms(2) by (metis not0_implies_Suc unat_eq_0)
  have lp: "range_free_loop (pageAlign vaddr) (pageAlign vaddr + pageAlignUp (B_TO_PAGES sz)) m =
      (if virtualToPhysical vaddr m = None then Some False
       else range_free_loop (pageAlign vaddr + ARCH_PAGE_SIZE) (pageAlign vaddr + pageAlignUp (B_TO_PAGES sz)) m)"
    using assms(3) by (subst range_free_loop.simps) (simp add: isPageFree_iff pageAlign_idem)
  show ?thesis
  proof (cases "virtualToPhysical vaddr m")
    case None
    then show ?thesis using assms(1) False lp by (simp add: Manager_map_def isPageRangeFree_def Let_def)
  next
    case (Some pa)
    then have pr: "de_present (vm_directory m (dir_of vaddr))" "te_present (vm_tables m (dir_of vaddr) (tab_of vaddr))"
      by (auto simp: virtualToPhysical_def Let_def split: if_splits)
    have "\<exists>e. map_loop (Suc k) vaddr flags m = Inl e"
      using pr by (cases "getPage (vm_phys m)") (auto simp: mapPhysicalToVirtual_def)
    then show ?thesis
      using assms(1) False k
      by (auto simp: Manager_map_def isPageRangeFree_def Let_def simp del: map_loop.simps split: option.split)
  qed
qed

text \<open>with automatic placement \<open>map\<close> returns the address after the last page it mapped, not the
  address of the first one.\<close>

theorem map_auto_returns_end:
  assumes "Manager_map npos sz flags m = Inr (a, m')"
  shows "a = findFirstFreePageRange (B_TO_PAGES sz) m + B_TO_PAGES sz * ARCH_PAGE_SIZE"
proof -
  have "map_loop k v flags m = Inr (a, m') \<Longrightarrow> a = v + of_nat k * ARCH_PAGE_SIZE" for k v m
  proof (induction k arbitrary: v m)
    case (Suc k)
    then obtain m1 where "map_loop k (v + ARCH_PAGE_SIZE) flags m1 = Inr (a, m')"
      by (auto simp: bindE_Inr_iff)
    from Suc.IH [OF this] show ?case by (simp add: algebra_simps)
  qed simp
  from this [of "unat (B_TO_PAGES sz)"] assms show ?thesis by (simp add: Manager_map_def Let_def)
qed

section \<open>The search for free pages\<close>

definition vpage_free :: "vmanager \<Rightarrow> nat \<Rightarrow> bool" where
  "vpage_free m q \<longleftrightarrow> \<not> de_present (vm_directory m (q div 1024)) \<or> \<not> te_present (vm_tables m (q div 1024) (q mod 1024))"

lemma Address_of_indices:
  assumes "d < 1024" and "t < 1024"
  shows "Address_of_virtual \<lparr>va_offset = 0, va_tableIndex = of_nat t, va_dirIndex = of_nat d\<rparr> = of_nat (4096 * (1024 * d + t))"
proof -
  let ?a = "of_nat (4096 * (1024 * d + t)) :: u32"
  have u: "unat ?a = 4096 * (1024 * d + t)" using assms by (intro unat_of_nat_u32) simp
  have "virtualAddress ?a = \<lparr>va_offset = 0, va_tableIndex = of_nat t, va_dirIndex = of_nat d\<rparr>"
    using unat_fields [of ?a] u assms
    by (intro virtual_address.equality)
      (simp_all add: word_unat_eq_iff unsigned_of_nat take_bit_nat_eq_self)
  then show ?thesis using Address_virtual_roundtrip [of ?a] by simp
qed

text \<open>The run in progress before page \<open>p\<close> is examined, and what a hit means.\<close>

definition run_ok :: "vmanager \<Rightarrow> nat \<Rightarrow> nat \<Rightarrow> u32 \<times> u32 \<Rightarrow> bool" where
  "run_ok m lo p = (\<lambda>(fr, a). lo + unat fr \<le> p \<and> p \<le> 1048576 \<and> (fr \<noteq> 0 \<longrightarrow> a = of_nat (4096 * (p - unat fr)))
     \<and> (\<forall>q. p - unat fr \<le> q \<and> q < p \<longrightarrow> vpage_free m q))"

definition hit :: "vmanager \<Rightarrow> nat \<Rightarrow> nat \<Rightarrow> u32 \<Rightarrow> u32 \<Rightarrow> bool" where
  "hit m lo hi rng a \<longleftrightarrow> (\<exists>p. a = of_nat (4096 * p) \<and> lo \<le> p \<and> p + unat rng \<le> hi \<and> (\<forall>q. p \<le> q \<and> q < p + unat rng \<longrightarrow> vpage_free m q))"

lemma run_extend:
  assumes r: "run_ok m lo p (fr, a)" and n: "p + n \<le> 1048576" and fr: "\<forall>q. p \<le> q \<and> q < p + n \<longrightarrow> vpage_free m q"
    and a': "a' = (if fr = 0 then of_nat (4096 * p) else a)"
  shows "run_ok m lo (p + n) (fr + of_nat n, a')" and "rng \<le> fr + of_nat n \<Longrightarrow> hit m lo (p + n) rng a'"
proof -
  have u: "unat (fr + of_nat n) = unat fr + n"
    using r n by (simp add: run_ok_def unat_word_ariths unat_of_nat_u32)
  have st: "a' = of_nat (4096 * (p - unat fr))" using r a' by (auto simp: run_ok_def)
  have all: "\<forall>q. p - unat fr \<le> q \<and> q < p + n \<longrightarrow> vpage_free m q" using r fr by (auto simp: run_ok_def) (metis not_le)
  show "run_ok m lo (p + n) (fr + of_nat n, a')" using r n u st all by (simp add: run_ok_def)
  assume "rng \<le> fr + of_nat n"
  then have "unat rng \<le> unat fr + n" using u by (simp add: word_le_nat_alt)
  then show "hit m lo (p + n) rng a'" unfolding hit_def using r st all
    by (intro exI [of _ "p - unat fr"]) (auto simp: run_ok_def)
qed

lemma run_break: "run_ok m lo p (fr, a) \<Longrightarrow> p + 1 \<le> 1048576 \<Longrightarrow> run_ok m lo (p + 1) (0, a)"
  by (auto simp: run_ok_def)

lemma hit_mono: "hit m lo hi rng a \<Longrightarrow> hi \<le> hi' \<Longrightarrow> hit m lo hi' rng a"
  by (auto simp: hit_def)

lemma search_table_spec:
  assumes "d < 1024" and "de_present (vm_directory m d)" and "t \<le> 1024" and "run_ok m lo (1024 * d + t) (fr, a)"
  shows "case search_table rng (of_nat d) (vm_tables m d) [t..<1024] (fr, a) of
      Inl r \<Rightarrow> hit m lo (1024 * (d + 1)) rng r | Inr st \<Rightarrow> run_ok m lo (1024 * (d + 1)) st"
  using assms(3,4)
proof (induction "1024 - t" arbitrary: t fr a)
  case 0
  then show ?case by (simp add: add.commute)
next
  case (Suc k)
  then have t: "t < 1024" and ts: "[t..<1024] = t # [Suc t..<1024]" by (auto simp: upt_conv_Cons)
  have free: "vpage_free m (1024 * d + t) \<longleftrightarrow> \<not> te_present (vm_tables m d t)" using assms(2) t by (simp add: vpage_free_def)
  have uc: "(ucast (of_nat d :: u32) :: 10 word) = of_nat d" using assms(1) by (simp add: unsigned_of_nat take_bit_nat_eq_self)
  note IH = Suc.hyps(1) [of "Suc t"]
  show ?case
  proof (cases "te_present (vm_tables m d t)")
    case True
    have "run_ok m lo (1024 * d + Suc t) (0, a)" using run_break [OF Suc.prems(2)] assms(1) t by simp
    with IH [of 0 a] Suc.hyps(2) t True ts show ?thesis by simp
  next
    case False
    let ?a = "if fr = 0 then of_nat (4096 * (1024 * d + t)) else a"
    have ad: "(if fr = 0 then Address_of_virtual \<lparr>va_offset = 0, va_tableIndex = of_nat t, va_dirIndex = ucast (of_nat d :: u32)\<rparr>
        else a) = ?a"
      using Address_of_indices [OF assms(1) t] uc by simp
    have f1: "\<forall>q. 1024 * d + t \<le> q \<and> q < 1024 * d + t + 1 \<longrightarrow> vpage_free m q"
      using free False by (metis Suc_eq_plus1 le_antisym less_Suc_eq_le)
    have b1: "1024 * d + t + 1 \<le> 1048576" using assms(1) t by simp
    have ex: "run_ok m lo (1024 * d + t + 1) (fr + 1, ?a)" "rng \<le> fr + 1 \<Longrightarrow> hit m lo (1024 * d + t + 1) rng ?a"
      using run_extend(1) [OF Suc.prems(2) b1 f1 refl] run_extend(2) [OF Suc.prems(2) b1 f1 refl, of rng]
      by (simp_all only: of_nat_1)
    show ?thesis
    proof (cases "fr + 1 \<ge> rng")
      case True
      then show ?thesis using ex(2) False ts ad hit_mono [of m lo "1024 * d + t + 1" rng ?a "1024 * (d + 1)"] t
        by (simp add: Let_def)
    next
      case le: False
      have "run_ok m lo (1024 * d + Suc t) (fr + 1, ?a)" using ex(1) by simp
      from IH [OF _ _ this] Suc.hyps(2) t le False ts ad show ?thesis by (simp add: Let_def)
    qed
  qed
qed

lemma search_dir_spec:
  assumes "d \<le> e" and "e \<le> 1024" and "lo = 1024 * dir_of (m_searchStart m)" and "dir_of (m_searchStart m) \<le> d"
    and "run_ok m lo (1024 * d) st" and "d = dir_of (m_searchStart m) \<Longrightarrow> fst st = 0"
  shows "case search_dir rng m [d..<e] st of Inl r \<Rightarrow> hit m lo (1024 * e) rng r | Inr st' \<Rightarrow> True"
  using assms
proof (induction "e - d" arbitrary: d st)
  case 0
  then show ?case by simp
next
  case (Suc k)
  obtain fr a where st: "st = (fr, a)" by (cases st)
  have d: "d < e" "d < 1024" and ds: "[d..<e] = d # [Suc d..<e]" using Suc.hyps(2) Suc.prems(2) by (auto simp: upt_conv_Cons)
  have r: "run_ok m lo (1024 * d) (fr, a)" using Suc.prems(5) st by simp
  note IH = Suc.hyps(1) [of "Suc d"]
  have nx: "1024 * (d + 1) = 1024 * Suc d" "Suc d \<noteq> dir_of (m_searchStart m)" using Suc.prems(4) by auto
  show ?case
  proof (cases "de_present (vm_directory m d)")
    case False
    let ?a = "if fr = 0 then of_nat (4096 * (1024 * d)) else a"
    have ad: "(if fr = 0 then Address_of_virtual \<lparr>va_offset = 0, va_tableIndex = 0, va_dirIndex = of_nat d\<rparr> else a) = ?a"
      using Address_of_indices [OF d(2), of 0] by simp
    have "vpage_free m q" if "1024 * d \<le> q" "q < 1024 * d + 1024" for q
    proof -
      have "q div 1024 = d" using that by (simp add: div_nat_eqI)
      then show ?thesis using False by (simp add: vpage_free_def)
    qed
    then have ex: "run_ok m lo (1024 * d + 1024) (fr + 1024, ?a)" "rng \<le> fr + 1024 \<Longrightarrow> hit m lo (1024 * d + 1024) rng ?a"
      using run_extend(1) [OF r, of 1024 ?a] run_extend(2) [OF r, of 1024 ?a rng] d(2) by auto
    show ?thesis
    proof (cases "fr + 1024 \<ge> rng")
      case True
      then show ?thesis using ex(2) False ds ad st hit_mono [of m lo "1024 * d + 1024" rng ?a "1024 * e"] d(1)
        by (simp add: Let_def)
    next
      case le: False
      have "1024 * Suc d = 1024 * d + 1024" by simp
      then have "run_ok m lo (1024 * Suc d) (fr + 1024, ?a)" using ex(1) by (simp only:)
      from IH [OF _ _ Suc.prems(2,3) _ this] Suc.hyps(2) Suc.prems(4) d(1) le False ds ad st nx(2) show ?thesis by (simp add: Let_def)
    qed
  next
    case True
    let ?t = "if d = dir_of (m_searchStart m) then tab_of (m_searchStart m) else 0"
    have tb: "tab_of (m_searchStart m) < 1024" by (simp add: tab_of_def unat_fields)
    have rt: "run_ok m lo (1024 * d + ?t) (fr, a)"
      using r Suc.prems(3,6) st tb d(2) by (auto simp: run_ok_def)
    show ?thesis
    proof (cases "search_table rng (of_nat d) (vm_tables m d) [?t..<1024] (fr, a)")
      case (Inl x)
      then have "hit m lo (1024 * (d + 1)) rng x" using search_table_spec [OF d(2) True _ rt, of rng] tb by auto
      then show ?thesis using Inl True ds st hit_mono [of m lo "1024 * (d + 1)" rng x "1024 * e"] d(1) by (simp add: Let_def)
    next
      case (Inr st')
      then have "run_ok m lo (1024 * Suc d) st'" using search_table_spec [OF d(2) True _ rt, of rng] tb by auto
      from IH [OF _ _ Suc.prems(2,3) _ this] Suc.hyps(2) Suc.prems(4) d(1) Inr True ds st nx(2) show ?thesis by (simp add: Let_def)
    qed
  qed
qed

text \<open>C16: when the search for free pages succeeds, the address it returns is the start of a run of at least
  as many pages as requested, none of them mapped, inside the directory slots of the managed range.\<close>

theorem findFirstFreePageRange_sound:
  assumes "findFirstFreePageRange rng m \<noteq> npos" and "dir_of (m_searchStart m) \<le> dir_of (m_rangeEnd m)"
  shows "\<exists>p. findFirstFreePageRange rng m = of_nat (4096 * p) \<and> 1024 * dir_of (m_searchStart m) \<le> p
    \<and> p + unat rng \<le> 1024 * dir_of (m_rangeEnd m) \<and> (\<forall>q. p \<le> q \<and> q < p + unat rng \<longrightarrow> vpage_free m q)"
proof -
  let ?s = "dir_of (m_searchStart m)" and ?e = "dir_of (m_rangeEnd m)"
  have e: "?e \<le> 1024"
    using unat_lt_u32 [of "m_rangeEnd m"] by (simp add: dir_of_def unat_fields div_mult2_eq [symmetric])
  have "run_ok m (1024 * ?s) (1024 * ?s) (0, npos)" using assms(2) e by (auto simp: run_ok_def)
  from search_dir_spec [OF assms(2) e refl order_refl this, of rng]
  have "case search_dir rng m [?s..<?e] (0, npos) of Inl r \<Rightarrow> hit m (1024 * ?s) (1024 * ?e) rng r | Inr st' \<Rightarrow> True" by simp
  with assms(1) have "hit m (1024 * ?s) (1024 * ?e) rng (findFirstFreePageRange rng m)"
    by (auto simp: findFirstFreePageRange_def split: sum.splits)
  then show ?thesis by (auto simp: hit_def)
qed

section \<open>Witnesses\<close>

text \<open>Every directory slot has an empty table, every frame is free, the range is the second slot.\<close>

definition demo_vm :: vmanager where
  "demo_vm = Manager (\<lambda>_. \<lparr>de_present = True, de_readWrite = True, de_usermode = False, de_writeThrough = False,
      de_cacheDisable = False, de_accessed = False, de_ignoredA = False,
        de_size = False, de_ignoredB = 0, de_tableAddr = 0\<rparr>)
    (\<lambda>_ _. cleared_entry) (Bitset_make MEM_BITMAP_SIZE False) 0x400000 0x400000"

lemma demo_dirs: "dir_of 0x400000 = 1" "dir_of 0x800000 = 2" "tab_of 0x400000 = 0"
  by (simp_all add: dir_of_def tab_of_def unat_fields)

lemma demo_search: "findFirstFreePageRange 1 demo_vm = 0x400000"
proof -
  have a: "Address_of_virtual \<lparr>va_offset = 0, va_tableIndex = 0, va_dirIndex = 1\<rparr> = 0x400000"
    using Address_of_indices [of 1 0] by simp
  have u: "[0..<1024] = 0 # [Suc 0..<1024]" by (rule upt_conv_Cons) simp
  have "[Suc 0..<2] = [Suc 0]" by (simp add: numeral_2_eq_2)
  then show ?thesis
    by (simp add: findFirstFreePageRange_def demo_vm_def Manager_def demo_dirs cleared_entry_def a u
        del: upt_rec_numeral)
qed

theorem findFirstFreePageRange_sound_witness:
  "\<exists>p. findFirstFreePageRange 1 demo_vm = of_nat (4096 * p) \<and> 1024 * dir_of (m_searchStart demo_vm) \<le> p
    \<and> p + unat (1 :: u32) \<le> 1024 * dir_of (m_rangeEnd demo_vm) \<and> (\<forall>q. p \<le> q \<and> q < p + unat (1 :: u32) \<longrightarrow> vpage_free demo_vm q)"
proof (rule findFirstFreePageRange_sound)
  have "(0x400000 :: u32) \<noteq> - 1"
  proof
    assume "(0x400000 :: u32) = - 1"
    then have "unat (0x400000 :: u32) = unat (- 1 :: u32)" by (rule arg_cong)
    then show False by (simp add: unsigned_minus_1_eq_mask mask_eq_exp_minus_1)
  qed
  then show "findFirstFreePageRange 1 demo_vm \<noteq> npos" by (simp add: demo_search npos_def)
  show "dir_of (m_searchStart demo_vm) \<le> dir_of (m_rangeEnd demo_vm)" by (simp add: demo_vm_def Manager_def demo_dirs)
qed


theorem map_at_address_never_maps_witness:
  "case Manager_map 0x400000 1 0 demo_vm of Inl e \<Rightarrow> True | Inr (a, m') \<Rightarrow> a = 0 \<and> m' = demo_vm"
proof (rule map_at_address_never_maps)
  have "(0x400000 :: u32) \<noteq> - 1"
  proof
    assume "(0x400000 :: u32) = - 1"
    then have "unat (0x400000 :: u32) = unat (- 1 :: u32)" by (rule arg_cong)
    then show False by (simp add: unsigned_minus_1_eq_mask mask_eq_exp_minus_1)
  qed
  then show "(0x400000 :: u32) \<noteq> npos" by (simp add: npos_def)
qed (simp_all add: B_TO_PAGES_def ARCH_PAGE_SIZE_def pageAlign_def pageAlignUp_def ARCH_PAGE_ALIGN_def)

theorem map_auto_returns_end_witness:
  "\<exists>m'. Manager_map npos 1 0 demo_vm = Inr (0x401000, m')"
proof -
  have wf: "wf_phys (vm_phys demo_vm)"
    unfolding demo_vm_def Manager_def by (simp, rule wf_Bitset_make) (simp_all add: MEM_BITMAP_SIZE_def)
  have "find (\<lambda>i. \<not> bits (vm_phys demo_vm) i) [0..<MEM_BITMAP_SIZE] = Some 0"
    using bits_Bitset_make [of MEM_BITMAP_SIZE 0 False]
    by (simp add: find_upt_Some demo_vm_def Manager_def MEM_BITMAP_SIZE_def)
  with getPage_spec [OF wf] obtain ph where g: "getPage (vm_phys demo_vm) = Inr (0, ph)" by auto
  have "\<exists>a m'. Manager_map npos 1 0 demo_vm = Inr (a, m')"
    using g by (simp add: Manager_map_def B_TO_PAGES_def ARCH_PAGE_SIZE_def demo_search mapPhysicalToVirtual_def)
      (simp add: demo_vm_def Manager_def cleared_entry_def)
  then obtain a m' where m': "Manager_map npos 1 0 demo_vm = Inr (a, m')" by blast
  from map_auto_returns_end [OF this] have "a = 0x401000"
    by (simp add: B_TO_PAGES_def ARCH_PAGE_SIZE_def demo_search)
  with m' show ?thesis by blast
qed

end
