(* ===== verification/C_String.thy ===== *)
theory C_String
  imports Xyris_Prelude "HOL-Library.Signed_Division" "HOL-Library.Sublist"
begin

text \<open>
  \<open>Kernel/Library/string.cpp\<close> over a byte memory.  Addresses are natural numbers, so the model has no
  address wrap-around; \<open>char\<close> is a signed byte, as on this target.  The loops that look for a
  terminating zero are partial functions: \<open>None\<close> means that there is none.
\<close>

type_synonym mem = "nat \<Rightarrow> u8"

section \<open>The functions\<close>

partial_function (option) strlen_from :: "mem \<Rightarrow> nat \<Rightarrow> nat \<Rightarrow> nat option" where
  "strlen_from m s i = (if m (s + i) \<noteq> 0 then strlen_from m s (i + 1) else Some i)"

definition strlen :: "mem \<Rightarrow> nat \<Rightarrow> nat option" where
  "strlen m s = strlen_from m s 0"

definition memcpy :: "nat \<Rightarrow> nat \<Rightarrow> nat \<Rightarrow> mem \<Rightarrow> mem" where
  "memcpy dst src sz m = fold (\<lambda>i m. m(dst + i := m (src + i))) [0..<sz] m"

definition memmove :: "nat \<Rightarrow> nat \<Rightarrow> nat \<Rightarrow> mem \<Rightarrow> mem" where
  "memmove dst src sz m =
     (if dst < src then fold (\<lambda>i m. m(dst + i := m (src + i))) [0..<sz] m
      else fold (\<lambda>i m. m(dst + (i - 1) := m (src + (i - 1)))) (rev [1..<sz + 1]) m)"

definition memset :: "nat \<Rightarrow> int \<Rightarrow> nat \<Rightarrow> mem \<Rightarrow> mem" where
  "memset buf v sz m = fold (\<lambda>i m. m(buf + i := word_of_int v)) [0..<sz] m"

text \<open>\<open>memcmp\<close> returns the index of the first difference, negated if the first argument is smaller.\<close>

fun memcmp_loop :: "mem \<Rightarrow> nat \<Rightarrow> nat \<Rightarrow> nat list \<Rightarrow> int" where
  "memcmp_loop m a b [] = 0"
| "memcmp_loop m a b (i # is) =
     (if m (a + i) < m (b + i) then - int i
      else if m (a + i) > m (b + i) then int i
      else memcmp_loop m a b is)"

definition memcmp :: "mem \<Rightarrow> nat \<Rightarrow> nat \<Rightarrow> nat \<Rightarrow> int" where
  "memcmp m ptr1 ptr2 num = memcmp_loop m ptr1 ptr2 [0..<num]"

definition strcat :: "nat \<Rightarrow> nat \<Rightarrow> mem \<Rightarrow> mem option" where
  "strcat dest src m =
     (case strlen m dest of None \<Rightarrow> None | Some len_dest \<Rightarrow>
      (case strlen m src of None \<Rightarrow> None | Some len_src \<Rightarrow>
        Some (memcpy (dest + len_dest) src (len_src + 1) m)))"

partial_function (option) strcpy :: "nat \<Rightarrow> nat \<Rightarrow> mem \<Rightarrow> mem option" where
  "strcpy dest src m =
     (if m src \<noteq> 0 then strcpy (dest + 1) (src + 1) (m(dest := m src)) else Some (m(dest := 0)))"

fun strncpy :: "nat \<Rightarrow> nat \<Rightarrow> nat \<Rightarrow> mem \<Rightarrow> mem" where
  "strncpy dest src 0 m = m(dest := 0)"
| "strncpy dest src (Suc len) m =
     (if m src \<noteq> 0 then strncpy (dest + 1) (src + 1) len (m(dest := m src)) else m(dest := 0))"

partial_function (option) strcmp :: "mem \<Rightarrow> nat \<Rightarrow> nat \<Rightarrow> int option" where
  "strcmp m s1 s2 =
     (if m s1 \<noteq> 0 \<and> m s1 = m s2 then strcmp m (s1 + 1) (s2 + 1)
      else Some (sint (m s1) - sint (m s2)))"

partial_function (option) strstr :: "mem \<Rightarrow> nat \<Rightarrow> nat \<Rightarrow> nat option option" where
  "strstr m haystack needle =
     (if m haystack \<noteq> 0 then
        (if m haystack = m needle then
           (case strcmp m haystack needle of
              None \<Rightarrow> None
            | Some c \<Rightarrow> if c = 0 then Some (Some haystack) else strstr m (haystack + 1) needle)
         else strstr m (haystack + 1) needle)
      else Some None)"

function reverse_loop :: "nat \<Rightarrow> int \<Rightarrow> int \<Rightarrow> mem \<Rightarrow> mem" where
  "reverse_loop s i j m =
     (if i < j
      then reverse_loop s (i + 1) (j - 1) (m(s + nat i := m (s + nat j), s + nat j := m (s + nat i)))
      else m)"
  by pat_completeness auto
termination by (relation "measure (\<lambda>(s, i, j, m). nat (j - i))") auto

declare reverse_loop.simps [simp del]

definition reverse :: "nat \<Rightarrow> mem \<Rightarrow> mem option" where
  "reverse s m = (case strlen m s of None \<Rightarrow> None | Some l \<Rightarrow> Some (reverse_loop s 0 (int l - 1) m))"

text \<open>Negation of a 32-bit \<open>int\<close>; the most negative value is its own negation.\<close>

definition neg32 :: "int \<Rightarrow> int" where
  "neg32 n = (if n = - (2 ^ 31) then n else - n)"

function itoa_loop :: "int \<Rightarrow> nat \<Rightarrow> nat \<Rightarrow> mem \<Rightarrow> nat \<times> mem" where
  "itoa_loop n str i m =
     (let m1 = m(str + i := word_of_int (n smod 10 + 48)); n1 = n sdiv 10
      in if n1 > 0 then itoa_loop n1 str (i + 1) m1 else (i + 1, m1))"
  by pat_completeness auto
termination
proof (relation "measure (\<lambda>(n, str, i, m). nat n)")
  fix n :: int and str i :: nat and m m1 :: mem and n1 :: int
  assume "m1 = m(str + i := word_of_int (n smod 10 + 48))" and n1: "n1 = n sdiv 10" and p: "0 < n1"
  have "n1 < n"
  proof (cases "0 \<le> n")
    case True
    then have "n1 = n div 10" using n1 by (auto simp: signed_divide_int_def sgn_if)
    then show ?thesis using p by linarith
  next
    case False
    then have "n1 \<le> 0" using n1 by (simp add: signed_divide_int_def sgn_if)
    then show ?thesis using p by simp
  qed
  then show "((n1, str, i + 1, m1), n, str, i, m) \<in> measure (\<lambda>(n, str, i, m). nat n)" using p by simp
qed simp

declare itoa_loop.simps [simp del]

definition itoa :: "int \<Rightarrow> nat \<Rightarrow> mem \<Rightarrow> mem option" where
  "itoa n str m =
     (let (i, m1) = itoa_loop (if n < 0 then neg32 n else n) str 0 m;
          (i2, m2) = (if n < 0 then (i + 1, m1(str + i := 45)) else (i, m1))
      in reverse str (m2(str + i2 := 0)))"

section \<open>Strings in memory\<close>

definition cstr :: "mem \<Rightarrow> nat \<Rightarrow> u8 list \<Rightarrow> bool" where
  "cstr m s xs \<longleftrightarrow> (\<forall>i < length xs. m (s + i) = xs ! i) \<and> m (s + length xs) = 0 \<and> 0 \<notin> set xs"

lemma cstr_Nil [simp]: "cstr m s [] \<longleftrightarrow> m s = 0"
  by (simp add: cstr_def)

lemma cstr_Cons [simp]: "cstr m s (x # xs) \<longleftrightarrow> m s = x \<and> x \<noteq> 0 \<and> cstr m (s + 1) xs"
  by (auto simp: cstr_def All_less_Suc2)

lemma cstr_same: "(\<And>i. i \<le> length xs \<Longrightarrow> m' (s + i) = m (s + i)) \<Longrightarrow> cstr m' s xs = cstr m s xs"
  by (auto simp: cstr_def)

lemma strlen_from_cstr: "cstr m (s + i) xs \<Longrightarrow> strlen_from m s i = Some (i + length xs)"
  by (induction xs arbitrary: i) (subst strlen_from.simps, simp add: add.assoc)+

lemma strlen_cstr: "cstr m s xs \<Longrightarrow> strlen m s = Some (length xs)"
  using strlen_from_cstr [of m s 0] by (simp add: strlen_def)

lemma memcpy_apply:
  assumes "dst + sz \<le> src \<or> src + sz \<le> dst \<or> dst < src"
  shows "memcpy dst src sz m a = (if dst \<le> a \<and> a < dst + sz then m (src + (a - dst)) else m a)"
  using assms unfolding memcpy_def by (induction sz arbitrary: a) auto

lemma memset_apply: "memset buf v sz m a = (if buf \<le> a \<and> a < buf + sz then word_of_int v else m a)"
  unfolding memset_def by (induction sz arbitrary: a) auto

lemma copy_down_apply:
  assumes "src \<le> dst"
  shows "fold (\<lambda>i m. m(dst + (i - 1) := m (src + (i - 1)))) (rev [1..<n + 1]) m a
           = (if dst \<le> a \<and> a < dst + n then m (src + (a - dst)) else m a)"
proof (induction n arbitrary: m a)
  case 0
  then show ?case by auto
next
  case (Suc n)
  have "rev [1..<Suc n + 1] = Suc n # rev [1..<n + 1]" by simp
  then show ?case using Suc assms by auto
qed

text \<open>\<open>memmove\<close> copies the bytes the source held before the call, also when the two areas overlap in
  either direction, and changes nothing outside the destination.\<close>
theorem memmove_correct:
  "memmove dst src sz m = (\<lambda>a. if dst \<le> a \<and> a < dst + sz then m (src + (a - dst)) else m a)"
proof (cases "dst < src")
  case True
  then show ?thesis using memcpy_apply [of dst sz src m] by (simp add: fun_eq_iff memmove_def memcpy_def)
next
  case False
  then show ?thesis using copy_down_apply [of src dst sz m] by (simp add: fun_eq_iff memmove_def)
qed

lemma strcat_correct:
  assumes d: "cstr m dest xs" and s: "cstr m src ys"
    and apart: "src + length ys < dest \<or> dest + length xs + length ys < src"
  shows "\<exists>m'. strcat dest src m = Some m' \<and> cstr m' dest (xs @ ys)"
proof -
  define m' where "m' = memcpy (dest + length xs) src (length ys + 1) m"
  have "m' a = (if dest + length xs \<le> a \<and> a < dest + length xs + (length ys + 1)
                then m (src + (a - (dest + length xs))) else m a)" for a
    unfolding m'_def using apart by (intro memcpy_apply) auto
  moreover have "m (src + i - length xs) = ys ! (i - length xs)"
    if "\<not> i < length xs" "i < length xs + length ys" for i
  proof -
    have "i - length xs < length ys" "src + i - length xs = src + (i - length xs)" using that by auto
    then show ?thesis using s unfolding cstr_def by metis
  qed
  ultimately have "cstr m' dest (xs @ ys)"
    using d s by (auto simp: cstr_def nth_append)
  then show ?thesis using d s by (simp add: strcat_def strlen_cstr m'_def)
qed

lemma sint_eq_iff [simp]: "sint (a :: u8) = sint b \<longleftrightarrow> a = b"
  by (metis word_eq_iff_signed)

lemma sint_eq_0 [simp]: "sint (a :: u8) = 0 \<longleftrightarrow> a = 0"
  using sint_eq_iff [of a 0] by simp

lemma strcmp_equal:
  assumes "cstr m s1 xs" "cstr m s2 ys"
  shows "\<exists>c. strcmp m s1 s2 = Some c \<and> (c = 0 \<longleftrightarrow> xs = ys)"
  using assms
proof (induction xs arbitrary: s1 s2 ys)
  case Nil
  then show ?case by (cases ys) (subst strcmp.simps, simp)+
next
  case (Cons x xs)
  show ?case
  proof (cases ys)
    case Nil
    then show ?thesis using Cons.prems by (subst strcmp.simps) simp
  next
    case (Cons y ys')
    then show ?thesis
      using Cons.prems Cons.IH [of "s1 + 1" "s2 + 1" ys'] by (subst strcmp.simps) auto
  qed
qed

text \<open>\<open>strstr\<close> compares the rest of the haystack with the needle for equality, so it finds the needle
  only where it is a suffix of the haystack (\<open>strstr(''ab'', ''a'')\<close> is null), and never the empty one.\<close>
theorem strstr_only_suffix:
  assumes "cstr m haystack xs" and "cstr m needle ys"
  shows "strstr m haystack needle =
           Some (if ys \<noteq> [] \<and> suffix ys xs then Some (haystack + (length xs - length ys)) else None)"
  using assms(1)
proof (induction xs arbitrary: haystack)
  case Nil
  then show ?case by (subst strstr.simps) (auto)
next
  case (Cons x xs)
  obtain c where c: "strcmp m haystack needle = Some c" "c = 0 \<longleftrightarrow> x # xs = ys"
    using strcmp_equal Cons.prems assms(2) by blast
  have first: "m needle = (case ys of [] \<Rightarrow> 0 | y # _ \<Rightarrow> y)"
    using assms(2) by (cases ys) auto
  have "suffix ys xs \<Longrightarrow> length ys \<le> length xs" by (rule suffix_length_le)
  then show ?case
    using Cons.prems Cons.IH [of "haystack + 1"] c first
    by (subst strstr.simps) (auto simp: suffix_Cons Suc_diff_le split: list.splits)
qed

definition demo_text :: mem where
  "demo_text = (\<lambda>_. 0)(10 := 97, 11 := 98, 20 := 97)"

theorem strstr_only_suffix_witness:
  "cstr demo_text 10 [97, 98] \<and> cstr demo_text 20 [97] \<and> strstr demo_text 10 20 = Some None"
  using strstr_only_suffix [of demo_text 10 "[97, 98]" 20 "[97]"]
  by (simp add: demo_text_def suffix_Cons)

section \<open>Decimal conversion\<close>

fun dec :: "nat \<Rightarrow> u8 list" where
  "dec n = (if n < 10 then [of_nat (n + 48)] else dec (n div 10) @ [of_nat (n mod 10 + 48)])"

declare dec.simps [simp del]

definition dec_value :: "u8 list \<Rightarrow> nat" where
  "dec_value ds = foldl (\<lambda>a d. a * 10 + (unat d - 48)) 0 ds"

lemma unat_digit: "d < 10 \<Longrightarrow> unat (of_nat (d + 48) :: u8) = d + 48"
  by (simp add: unat_of_nat take_bit_nat_eq_self del: of_nat_add)

lemma digit_nonzero: "d < 10 \<Longrightarrow> (of_nat (d + 48) :: u8) \<noteq> 0"
  by (metis unat_digit unat_0 add_is_0 zero_neq_numeral)

lemma dec_no_zero: "0 \<notin> set (dec n)"
proof (induction n rule: dec.induct)
  case (1 n)
  show ?case
    by (subst dec.simps) (use 1 digit_nonzero [of n] digit_nonzero [of "n mod 10"] in auto)
qed

lemma dec_value_dec: "dec_value (dec n) = n"
proof (induction n rule: dec.induct)
  case (1 n)
  then show ?case
    by (subst dec.simps) (auto simp: dec_value_def unat_digit simp del: of_nat_add)
qed

lemma reverse_loop_apply:
  "i \<le> e \<Longrightarrow> reverse_loop s (int i) (int e - 1) m a =
     (if s + i \<le> a \<and> a < s + e then m (s + i + (s + e - 1 - a)) else m a)"
proof (induction "e - i" arbitrary: i e m rule: less_induct)
  case less
  show ?case
  proof (cases "i + 1 < e")
    case True
    let ?m = "m(s + i := m (s + (e - 1)), s + (e - 1) := m (s + i))"
    have "reverse_loop s (int i) (int e - 1) m = reverse_loop s (int (i + 1)) (int (e - 1) - 1) ?m"
      using True by (subst reverse_loop.simps) (simp add: nat_diff_distrib of_nat_diff algebra_simps)
    moreover have "reverse_loop s (int (i + 1)) (int (e - 1) - 1) ?m a = (if s + (i + 1) \<le> a \<and> a < s + (e - 1)
                       then ?m (s + (i + 1) + (s + (e - 1) - 1 - a)) else ?m a)"
      using True by (intro less) auto
    moreover have "(if s + (i + 1) \<le> a \<and> a < s + (e - 1)
                       then ?m (s + (i + 1) + (s + (e - 1) - 1 - a)) else ?m a) = (if s + i \<le> a \<and> a < s + e then m (s + i + (s + e - 1 - a)) else m a)"
    proof -
      consider "a < s + i" | "a = s + i" | "s + i < a \<and> a < s + (e - 1)" | "a = s + (e - 1)" | "s + e \<le> a"
        using True by linarith
      then show ?thesis using True by cases (auto intro: arg_cong [where f = m])
    qed
    ultimately show ?thesis by simp
  next
    case False
    then have "e = i \<or> e = i + 1" using less by auto
    then show ?thesis using False by (cases "a = s + i"; subst reverse_loop.simps) auto
  qed
qed

lemma reverse_cstr:
  assumes "cstr m s xs"
  shows "\<exists>m'. reverse s m = Some m' \<and> cstr m' s (rev xs)"
proof -
  define m' where "m' = reverse_loop s 0 (int (length xs) - 1) m"
  have m': "m' a = (if s \<le> a \<and> a < s + length xs then m (s + (s + length xs - 1 - a)) else m a)" for a
    unfolding m'_def using reverse_loop_apply [of 0 "length xs" s m a] by simp
  have "m' (s + i) = rev xs ! i" if "i < length xs" for i
  proof -
    have "s + (s + length xs - 1 - (s + i)) = s + (length xs - Suc i)" using that by linarith
    then have "m' (s + i) = m (s + (length xs - Suc i))" using that m' by auto
    moreover have "length xs - Suc i < length xs" using that by simp
    ultimately show ?thesis using assms that unfolding cstr_def by (metis rev_nth)
  qed
  moreover have "m' (s + length xs) = m (s + length xs)" by (simp add: m')
  ultimately show ?thesis using assms by (auto simp: reverse_def strlen_cstr m'_def cstr_def)
qed

lemma itoa_loop_writes:
  assumes "0 \<le> n"
  shows "\<exists>m'. itoa_loop n str i m = (i + length (dec (nat n)), m') \<and>
              (\<forall>k < length (dec (nat n)). m' (str + i + k) = rev (dec (nat n)) ! k) \<and>
              (\<forall>a. a < str + i \<longrightarrow> m' a = m a)"
  using assms
proof (induction n str i m rule: itoa_loop.induct)
  case (1 n str i m)
  let ?d = "word_of_int (n smod 10 + 48) :: u8" and ?n1 = "n sdiv 10"
  have q: "?n1 = n div 10" and r: "n smod 10 = n mod 10"
    using 1(2) by (auto simp: signed_divide_int_def signed_modulo_int_def sgn_if minus_div_mult_eq_mod)
  have "n smod 10 + 48 = int (nat n mod 10 + 48)"
    using r 1(2) by (simp add: zmod_int)
  then have d: "?d = of_nat (nat n mod 10 + 48)" by simp
  show ?case
  proof (cases "?n1 > 0")
    case True
    then have "10 \<le> n" using q by simp
    then have dec: "dec (nat n) = dec (nat ?n1) @ [?d]"
      using q d by (subst dec.simps) (simp add: nat_div_distrib)
    have "0 \<le> ?n1" using True by simp
    from 1(1)[OF refl refl True this]
    obtain m' where m': "itoa_loop ?n1 str (i + 1) (m(str + i := ?d)) = (i + 1 + length (dec (nat ?n1)), m')"
      "\<forall>k < length (dec (nat ?n1)). m' (str + (i + 1) + k) = rev (dec (nat ?n1)) ! k"
      "\<forall>a. a < str + (i + 1) \<longrightarrow> m' a = (m(str + i := ?d)) a"
      by blast
    have "m' (str + i) = ?d" "\<And>a. a < str + i \<Longrightarrow> m' a = m a" using m'(3) by auto
    moreover have "m' (str + i + k) = rev (dec (nat n)) ! k" if "k < length (dec (nat n))" for k
      using that m'(2) \<open>m' (str + i) = ?d\<close> by (cases k) (auto simp: dec)
    ultimately show ?thesis
      using True m'(1) by (subst itoa_loop.simps) (simp add: Let_def dec)
  next
    case False
    then have "n < 10" using q 1(2) by simp
    then have "dec (nat n) = [?d]" using d 1(2) by (subst dec.simps) auto
    then show ?thesis using False by (subst itoa_loop.simps) (simp add: Let_def)
  qed
qed

text \<open>\<open>itoa\<close> ends and leaves the decimal representation of its argument, with a minus sign for a
  negative one, as a terminated string in the buffer, for every \<open>int\<close> but the most negative.\<close>
theorem itoa_decimal:
  assumes "- (2 ^ 31) < n" and "n < 2 ^ 31"
  shows "\<exists>m'. itoa n str m = Some m' \<and>
              cstr m' str (if n < 0 then 45 # dec (nat (- n)) else dec (nat n))"
proof -
  let ?a = "if n < 0 then neg32 n else n"
  let ?ds = "dec (nat ?a)" and ?sign = "if n < 0 then [45 :: u8] else []"
  have abs: "?a = \<bar>n\<bar>" using assms by (auto simp: neg32_def)
  obtain m1 where m1: "itoa_loop ?a str 0 m = (length ?ds, m1)" "\<forall>k < length ?ds. m1 (str + k) = rev ?ds ! k"
    using itoa_loop_writes [of ?a str 0 m] abs by auto
  define m2 where "m2 = (if n < 0 then m1(str + length ?ds := 45) else m1)"
  have "cstr (m2(str + length (rev ?ds @ ?sign) := 0)) str (rev ?ds @ ?sign)"
    using m1(2) dec_no_zero by (auto simp: cstr_def m2_def nth_append less_Suc_eq)
  then obtain m' where "reverse str (m2(str + length (rev ?ds @ ?sign) := 0)) = Some m'"
    "cstr m' str (rev (rev ?ds @ ?sign))"
    using reverse_cstr by blast
  then show ?thesis
    using m1(1) abs by (auto simp: itoa_def m2_def)
qed

theorem itoa_decimal_witness:
  "\<exists>m'. itoa (- 120) 4 (\<lambda>_. 0) = Some m' \<and> cstr m' 4 [45, 49, 50, 48]"
  using itoa_decimal [of "- 120" 4 "\<lambda>_. 0"] by (simp add: dec.simps)

end
