(* ===== verification/Graphics.thy ===== *)
theory Graphics
  imports Paging C_String
begin

text \<open>
  \<open>Kernel/Devices/Graphics\<close>: the frame buffer description, the double buffered drawing functions and the
  font.  The back buffer and the video memory are byte lists; an access outside one is the fault
  \<open>OutOfBounds\<close>.  The allocator of the back buffer is the parameter \<open>malloc\<close>; it gives the initial bytes
  of the block or none.
\<close>

section \<open>Frame buffer description\<close>

datatype FramebufferMemoryModel = Undefined_FBMM | RGB_FBMM

record framebuffer =
  fb_addr :: u32
  fb_width :: u32
  fb_height :: u32
  fb_depth :: u16
  fb_pitch :: u32
  fb_redMaskSize :: u8
  fb_redMaskShift :: u8
  fb_greenMaskSize :: u8
  fb_greenMaskShift :: u8
  fb_blueMaskSize :: u8
  fb_blueMaskShift :: u8
  fb_memoryModel :: FramebufferMemoryModel

text \<open>The constructors return the object and the new value of the pointer to the active frame buffer: the
  first object constructed stays active.\<close>

definition Framebuffer_empty :: "framebuffer option \<Rightarrow> framebuffer \<times> framebuffer option" where
  "Framebuffer_empty active =
     (let f = \<lparr>fb_addr = 0, fb_width = 0, fb_height = 0, fb_depth = 0, fb_pitch = 0,
               fb_redMaskSize = 0, fb_redMaskShift = 0, fb_greenMaskSize = 0, fb_greenMaskShift = 0,
               fb_blueMaskSize = 0, fb_blueMaskShift = 0, fb_memoryModel = Undefined_FBMM\<rparr>
      in (f, if active = None then Some f else active))"

definition Framebuffer_common ::
    "u32 \<Rightarrow> u32 \<Rightarrow> u16 \<Rightarrow> u32 \<Rightarrow> u32 \<Rightarrow> framebuffer option \<Rightarrow> framebuffer \<times> framebuffer option" where
  "Framebuffer_common w h d p a active =
     (let f = \<lparr>fb_addr = a, fb_width = w, fb_height = h, fb_depth = d, fb_pitch = p,
               fb_redMaskSize = 0, fb_redMaskShift = 0, fb_greenMaskSize = 0, fb_greenMaskShift = 0,
               fb_blueMaskSize = 0, fb_blueMaskShift = 0, fb_memoryModel = Undefined_FBMM\<rparr>
      in (f, if active = None then Some f else active))"

definition Framebuffer_full ::
    "u32 \<Rightarrow> u32 \<Rightarrow> u16 \<Rightarrow> u32 \<Rightarrow> u32 \<Rightarrow> FramebufferMemoryModel \<Rightarrow> u8 \<Rightarrow> u8 \<Rightarrow> u8 \<Rightarrow> u8 \<Rightarrow> u8 \<Rightarrow> u8
       \<Rightarrow> framebuffer option \<Rightarrow> framebuffer \<times> framebuffer option" where
  "Framebuffer_full w h d p a model rsz rsh gsz gsh bsz bsh active =
     (let f = \<lparr>fb_addr = a, fb_width = w, fb_height = h, fb_depth = d, fb_pitch = p,
               fb_redMaskSize = rsz, fb_redMaskShift = rsh, fb_greenMaskSize = gsz, fb_greenMaskShift = gsh,
               fb_blueMaskSize = bsz, fb_blueMaskShift = bsh, fb_memoryModel = model\<rparr>
      in (f, if active = None then Some f else active))"

definition getPixelWidth :: "framebuffer \<Rightarrow> u8" where
  "getPixelWidth f = ucast (fb_depth f div 8)"

text \<open>The setters of the sizes take 16-bit values.\<close>

definition setWidth :: "u16 \<Rightarrow> framebuffer \<Rightarrow> framebuffer" where
  "setWidth v f = f\<lparr>fb_width := ucast v\<rparr>"

definition setHeight :: "u16 \<Rightarrow> framebuffer \<Rightarrow> framebuffer" where
  "setHeight v f = f\<lparr>fb_height := ucast v\<rparr>"

definition setPitch :: "u16 \<Rightarrow> framebuffer \<Rightarrow> framebuffer" where
  "setPitch v f = f\<lparr>fb_pitch := ucast v\<rparr>"

definition setDepth :: "u16 \<Rightarrow> framebuffer \<Rightarrow> framebuffer" where
  "setDepth v f = f\<lparr>fb_depth := v\<rparr>"

definition setRedMaskSize :: "u8 \<Rightarrow> framebuffer \<Rightarrow> framebuffer" where
  "setRedMaskSize v f = f\<lparr>fb_redMaskSize := v\<rparr>"

definition setRedMaskShift :: "u8 \<Rightarrow> framebuffer \<Rightarrow> framebuffer" where
  "setRedMaskShift v f = f\<lparr>fb_redMaskShift := v\<rparr>"

definition setGreenMaskSize :: "u8 \<Rightarrow> framebuffer \<Rightarrow> framebuffer" where
  "setGreenMaskSize v f = f\<lparr>fb_greenMaskSize := v\<rparr>"

definition setGreenMaskShift :: "u8 \<Rightarrow> framebuffer \<Rightarrow> framebuffer" where
  "setGreenMaskShift v f = f\<lparr>fb_greenMaskShift := v\<rparr>"

definition setBlueMaskSize :: "u8 \<Rightarrow> framebuffer \<Rightarrow> framebuffer" where
  "setBlueMaskSize v f = f\<lparr>fb_blueMaskSize := v\<rparr>"

definition setBlueMaskShift :: "u8 \<Rightarrow> framebuffer \<Rightarrow> framebuffer" where
  "setBlueMaskShift v f = f\<lparr>fb_blueMaskShift := v\<rparr>"

definition setModel :: "FramebufferMemoryModel \<Rightarrow> framebuffer \<Rightarrow> framebuffer" where
  "setModel v f = f\<lparr>fb_memoryModel := v\<rparr>"

text \<open>An object built by the short constructor and filled by the setters is that of the long constructor, as long as the sizes
  fit in 16 bits.\<close>

lemma setters_construct:
  "(setModel model \<circ> setBlueMaskShift bsh \<circ> setBlueMaskSize bsz \<circ> setGreenMaskShift gsh \<circ> setGreenMaskSize gsz
      \<circ> setRedMaskShift rsh \<circ> setRedMaskSize rsz \<circ> setDepth d \<circ> setPitch p \<circ> setHeight h \<circ> setWidth w)
     (fst (Framebuffer_common w0 h0 d0 p0 a active)) =
   fst (Framebuffer_full (ucast w) (ucast h) d (ucast p) a model rsz rsh gsz gsh bsz bsh active)"
  by (simp add: setModel_def setBlueMaskShift_def setBlueMaskSize_def setGreenMaskShift_def setGreenMaskSize_def
      setRedMaskShift_def setRedMaskSize_def setDepth_def setPitch_def setHeight_def setWidth_def
      Framebuffer_common_def Framebuffer_full_def Let_def)

section \<open>Drawing\<close>

record gfx =
  gfx_info :: "framebuffer option"
  backbuffer :: "u8 list"
  gfx_initialized :: bool
  vram :: "u8 list"

definition fb_bytes :: "framebuffer \<Rightarrow> u32" where
  "fb_bytes f = fb_pitch f * fb_height f"

text \<open>\<open>memcpy\<close> and \<open>memset\<close> between different blocks, with the bounds of the blocks.\<close>

definition copy_block :: "u8 list \<Rightarrow> u8 list \<Rightarrow> nat \<Rightarrow> u8 list outcome" where
  "copy_block dst src n =
     (if n \<le> length dst \<and> n \<le> length src then Inr (take n src @ drop n dst) else Inl OutOfBounds)"

definition Graphics_init ::
    "(u32 \<Rightarrow> u8 list option) \<Rightarrow> framebuffer option \<Rightarrow> paging \<Rightarrow> gfx \<Rightarrow> (paging \<times> gfx) outcome" where
  "Graphics_init malloc fb pg g =
     (let g1 = g\<lparr>gfx_info := fb\<rparr> in
      case fb of
        None \<Rightarrow> Inr (pg, g1)
      | Some f \<Rightarrow>
          if fb_addr f = 0 then Inr (pg, g1)
          else bindE (mapKernelRangeVirtual (Section (fb_addr f) (fb_bytes f)) pg) (\<lambda>pg1.
            case malloc (fb_bytes f) of
              None \<Rightarrow> Inl NullDeref
            | Some blk \<Rightarrow> bindE (copy_block blk (vram g) (unat (fb_bytes f))) (\<lambda>b.
                Inr (pg1, g1\<lparr>backbuffer := b, gfx_initialized := True\<rparr>))))"

definition store_byte :: "u32 \<Rightarrow> u8 \<Rightarrow> u8 list \<Rightarrow> u8 list outcome" where
  "store_byte i v b = (if unat i < length b then Inr (b[unat i := v]) else Inl OutOfBounds)"

definition colour_byte :: "u32 \<Rightarrow> u8 \<Rightarrow> u8 outcome" where
  "colour_byte color sh = (if sh < 32 then Inr (ucast (drop_bit (unat sh) color)) else Inl BadShift)"

definition pixel :: "u32 \<Rightarrow> u32 \<Rightarrow> u32 \<Rightarrow> gfx \<Rightarrow> gfx outcome" where
  "pixel x y color g =
     (if \<not> gfx_initialized g then Inr g
      else case gfx_info g of None \<Rightarrow> Inl NullDeref | Some f \<Rightarrow>
        if x \<le> fb_width f \<and> y \<le> fb_height f then
          (let p = y * fb_pitch f + x * ucast (getPixelWidth f) in
           bindE (colour_byte color (fb_blueMaskShift f)) (\<lambda>vb.
           bindE (store_byte p vb (backbuffer g)) (\<lambda>b0.
           bindE (colour_byte color (fb_greenMaskShift f)) (\<lambda>vg.
           bindE (store_byte (p + 1) vg b0) (\<lambda>b1.
           bindE (colour_byte color (fb_redMaskShift f)) (\<lambda>vr.
           bindE (store_byte (p + 2) vr b1) (\<lambda>b2.
           bindE (if getPixelWidth f = 4 then store_byte (p + 3) 0 b2 else Inr b2) (\<lambda>b3.
           Inr (g\<lparr>backbuffer := b3\<rparr>)))))))))
        else Inr g)"

text \<open>The loops of \<open>putrect\<close> have inclusive 32-bit bounds; one that reaches the largest value does not
  end.\<close>

partial_function (option) rect_rows :: "u32 \<Rightarrow> u32 \<Rightarrow> u32 \<Rightarrow> u32 \<Rightarrow> gfx \<Rightarrow> gfx outcome option" where
  "rect_rows color x y e g =
     (if y \<le> e then (case pixel x y color g of
        Inl f \<Rightarrow> Some (Inl f)
      | Inr g1 \<Rightarrow> rect_rows color x (y + 1) e g1)
      else Some (Inr g))"

partial_function (option) rect_cols :: "u32 \<Rightarrow> u32 \<Rightarrow> u32 \<Rightarrow> u32 \<Rightarrow> u32 \<Rightarrow> gfx \<Rightarrow> gfx outcome option" where
  "rect_cols color y h x e g =
     (if x \<le> e then (case rect_rows color x y (y + h) g of
        None \<Rightarrow> None
      | Some (Inl f) \<Rightarrow> Some (Inl f)
      | Some (Inr g1) \<Rightarrow> rect_cols color y h (x + 1) e g1)
      else Some (Inr g))"

definition resetDoubleBuffer :: "gfx \<Rightarrow> gfx outcome" where
  "resetDoubleBuffer g =
     (if \<not> gfx_initialized g then Inr g
      else case gfx_info g of None \<Rightarrow> Inl NullDeref | Some f \<Rightarrow>
        bindE (copy_block (backbuffer g) (replicate (unat (fb_bytes f)) 0) (unat (fb_bytes f))) (\<lambda>b.
        Inr (g\<lparr>backbuffer := b\<rparr>)))"

definition swap :: "gfx \<Rightarrow> gfx outcome" where
  "swap g =
     (if \<not> gfx_initialized g then Inr g
      else case gfx_info g of None \<Rightarrow> Inl NullDeref | Some f \<Rightarrow>
        bindE (copy_block (vram g) (backbuffer g) (unat (fb_bytes f))) (\<lambda>v.
        Inr (g\<lparr>vram := v\<rparr>)))"

definition putrect :: "u32 \<Rightarrow> u32 \<Rightarrow> u32 \<Rightarrow> u32 \<Rightarrow> u32 \<Rightarrow> gfx \<Rightarrow> gfx outcome" where
  "putrect x y w h color g =
     (if \<not> gfx_initialized g then Inr g
      else bindE (case rect_cols color y h x (x + w) g of None \<Rightarrow> Inl Hang | Some r \<Rightarrow> r) swap)"

section \<open>Font\<close>

definition fontData :: "u8 list list" where
  "fontData = [
    [0x00, 0x00, 0x00, 0x00, 0x00, 0x00, 0x00, 0x00],
    [0x00, 0x00, 0x00, 0x00, 0x00, 0x00, 0x00, 0x00],
    [0x00, 0x00, 0x00, 0x00, 0x00, 0x00, 0x00, 0x00],
    [0x00, 0x00, 0x00, 0x00, 0x00, 0x00, 0x00, 0x00],
    [0x00, 0x00, 0x00, 0x00, 0x00, 0x00, 0x00, 0x00],
    [0x00, 0x00, 0x00, 0x00, 0x00, 0x00, 0x00, 0x00],
    [0x00, 0x00, 0x00, 0x00, 0x00, 0x00, 0x00, 0x00],
    [0x00, 0x00, 0x00, 0x00, 0x00, 0x00, 0x00, 0x00],
    [0x00, 0x00, 0x00, 0x00, 0x00, 0x00, 0x00, 0x00],
    [0x00, 0x00, 0x00, 0x00, 0x00, 0x00, 0x00, 0x00],
    [0x00, 0x00, 0x00, 0x00, 0x00, 0x00, 0x00, 0x00],
    [0x00, 0x00, 0x00, 0x00, 0x00, 0x00, 0x00, 0x00],
    [0x00, 0x00, 0x00, 0x00, 0x00, 0x00, 0x00, 0x00],
    [0x00, 0x00, 0x00, 0x00, 0x00, 0x00, 0x00, 0x00],
    [0x00, 0x00, 0x00, 0x00, 0x00, 0x00, 0x00, 0x00],
    [0x00, 0x00, 0x00, 0x00, 0x00, 0x00, 0x00, 0x00],
    [0x00, 0x00, 0x00, 0x00, 0x00, 0x00, 0x00, 0x00],
    [0x00, 0x00, 0x00, 0x00, 0x00, 0x00, 0x00, 0x00],
    [0x00, 0x00, 0x00, 0x00, 0x00, 0x00, 0x00, 0x00],
    [0x00, 0x00, 0x00, 0x00, 0x00, 0x00, 0x00, 0x00],
    [0x00, 0x00, 0x00, 0x00, 0x00, 0x00, 0x00, 0x00],
    [0x00, 0x00, 0x00, 0x00, 0x00, 0x00, 0x00, 0x00],
    [0x00, 0x00, 0x00, 0x00, 0x00, 0x00, 0x00, 0x00],
    [0x00, 0x00, 0x00, 0x00, 0x00, 0x00, 0x00, 0x00],
    [0x00, 0x00, 0x00, 0x00, 0x00, 0x00, 0x00, 0x00],
    [0x00, 0x00, 0x00, 0x00, 0x00, 0x00, 0x00, 0x00],
    [0x00, 0x00, 0x00, 0x00, 0x00, 0x00, 0x00, 0x00],
    [0x00, 0x00, 0x00, 0x00, 0x00, 0x00, 0x00, 0x00],
    [0x00, 0x00, 0x00, 0x00, 0x00, 0x00, 0x00, 0x00],
    [0x00, 0x00, 0x00, 0x00, 0x00, 0x00, 0x00, 0x00],
    [0x00, 0x00, 0x00, 0x00, 0x00, 0x00, 0x00, 0x00],
    [0x00, 0x00, 0x00, 0x00, 0x00, 0x00, 0x00, 0x00],
    [0x00, 0x00, 0x00, 0x00, 0x00, 0x00, 0x00, 0x00],
    [0x18, 0x3C, 0x3C, 0x18, 0x18, 0x00, 0x18, 0x00],
    [0x36, 0x36, 0x00, 0x00, 0x00, 0x00, 0x00, 0x00],
    [0x36, 0x36, 0x7F, 0x36, 0x7F, 0x36, 0x36, 0x00],
    [0x0C, 0x3E, 0x03, 0x1E, 0x30, 0x1F, 0x0C, 0x00],
    [0x00, 0x63, 0x33, 0x18, 0x0C, 0x66, 0x63, 0x00],
    [0x1C, 0x36, 0x1C, 0x6E, 0x3B, 0x33, 0x6E, 0x00],
    [0x06, 0x06, 0x03, 0x00, 0x00, 0x00, 0x00, 0x00],
    [0x18, 0x0C, 0x06, 0x06, 0x06, 0x0C, 0x18, 0x00],
    [0x06, 0x0C, 0x18, 0x18, 0x18, 0x0C, 0x06, 0x00],
    [0x00, 0x66, 0x3C, 0xFF, 0x3C, 0x66, 0x00, 0x00],
    [0x00, 0x0C, 0x0C, 0x3F, 0x0C, 0x0C, 0x00, 0x00],
    [0x00, 0x00, 0x00, 0x00, 0x00, 0x0C, 0x0C, 0x06],
    [0x00, 0x00, 0x00, 0x3F, 0x00, 0x00, 0x00, 0x00],
    [0x00, 0x00, 0x00, 0x00, 0x00, 0x0C, 0x0C, 0x00],
    [0x60, 0x30, 0x18, 0x0C, 0x06, 0x03, 0x01, 0x00],
    [0x3E, 0x63, 0x73, 0x7B, 0x6F, 0x67, 0x3E, 0x00],
    [0x0C, 0x0E, 0x0C, 0x0C, 0x0C, 0x0C, 0x3F, 0x00],
    [0x1E, 0x33, 0x30, 0x1C, 0x06, 0x33, 0x3F, 0x00],
    [0x1E, 0x33, 0x30, 0x1C, 0x30, 0x33, 0x1E, 0x00],
    [0x38, 0x3C, 0x36, 0x33, 0x7F, 0x30, 0x78, 0x00],
    [0x3F, 0x03, 0x1F, 0x30, 0x30, 0x33, 0x1E, 0x00],
    [0x1C, 0x06, 0x03, 0x1F, 0x33, 0x33, 0x1E, 0x00],
    [0x3F, 0x33, 0x30, 0x18, 0x0C, 0x0C, 0x0C, 0x00],
    [0x1E, 0x33, 0x33, 0x1E, 0x33, 0x33, 0x1E, 0x00],
    [0x1E, 0x33, 0x33, 0x3E, 0x30, 0x18, 0x0E, 0x00],
    [0x00, 0x0C, 0x0C, 0x00, 0x00, 0x0C, 0x0C, 0x00],
    [0x00, 0x0C, 0x0C, 0x00, 0x00, 0x0C, 0x0C, 0x06],
    [0x18, 0x0C, 0x06, 0x03, 0x06, 0x0C, 0x18, 0x00],
    [0x00, 0x00, 0x3F, 0x00, 0x00, 0x3F, 0x00, 0x00],
    [0x06, 0x0C, 0x18, 0x30, 0x18, 0x0C, 0x06, 0x00],
    [0x1E, 0x33, 0x30, 0x18, 0x0C, 0x00, 0x0C, 0x00],
    [0x3E, 0x63, 0x7B, 0x7B, 0x7B, 0x03, 0x1E, 0x00],
    [0x0C, 0x1E, 0x33, 0x33, 0x3F, 0x33, 0x33, 0x00],
    [0x3F, 0x66, 0x66, 0x3E, 0x66, 0x66, 0x3F, 0x00],
    [0x3C, 0x66, 0x03, 0x03, 0x03, 0x66, 0x3C, 0x00],
    [0x1F, 0x36, 0x66, 0x66, 0x66, 0x36, 0x1F, 0x00],
    [0x7F, 0x46, 0x16, 0x1E, 0x16, 0x46, 0x7F, 0x00],
    [0x7F, 0x46, 0x16, 0x1E, 0x16, 0x06, 0x0F, 0x00],
    [0x3C, 0x66, 0x03, 0x03, 0x73, 0x66, 0x7C, 0x00],
    [0x33, 0x33, 0x33, 0x3F, 0x33, 0x33, 0x33, 0x00],
    [0x1E, 0x0C, 0x0C, 0x0C, 0x0C, 0x0C, 0x1E, 0x00],
    [0x78, 0x30, 0x30, 0x30, 0x33, 0x33, 0x1E, 0x00],
    [0x67, 0x66, 0x36, 0x1E, 0x36, 0x66, 0x67, 0x00],
    [0x0F, 0x06, 0x06, 0x06, 0x46, 0x66, 0x7F, 0x00],
    [0x63, 0x77, 0x7F, 0x7F, 0x6B, 0x63, 0x63, 0x00],
    [0x63, 0x67, 0x6F, 0x7B, 0x73, 0x63, 0x63, 0x00],
    [0x1C, 0x36, 0x63, 0x63, 0x63, 0x36, 0x1C, 0x00],
    [0x3F, 0x66, 0x66, 0x3E, 0x06, 0x06, 0x0F, 0x00],
    [0x1E, 0x33, 0x33, 0x33, 0x3B, 0x1E, 0x38, 0x00],
    [0x3F, 0x66, 0x66, 0x3E, 0x36, 0x66, 0x67, 0x00],
    [0x1E, 0x33, 0x07, 0x0E, 0x38, 0x33, 0x1E, 0x00],
    [0x3F, 0x2D, 0x0C, 0x0C, 0x0C, 0x0C, 0x1E, 0x00],
    [0x33, 0x33, 0x33, 0x33, 0x33, 0x33, 0x3F, 0x00],
    [0x33, 0x33, 0x33, 0x33, 0x33, 0x1E, 0x0C, 0x00],
    [0x63, 0x63, 0x63, 0x6B, 0x7F, 0x77, 0x63, 0x00],
    [0x63, 0x63, 0x36, 0x1C, 0x1C, 0x36, 0x63, 0x00],
    [0x33, 0x33, 0x33, 0x1E, 0x0C, 0x0C, 0x1E, 0x00],
    [0x7F, 0x63, 0x31, 0x18, 0x4C, 0x66, 0x7F, 0x00],
    [0x1E, 0x06, 0x06, 0x06, 0x06, 0x06, 0x1E, 0x00],
    [0x03, 0x06, 0x0C, 0x18, 0x30, 0x60, 0x40, 0x00],
    [0x1E, 0x18, 0x18, 0x18, 0x18, 0x18, 0x1E, 0x00],
    [0x08, 0x1C, 0x36, 0x63, 0x00, 0x00, 0x00, 0x00],
    [0x00, 0x00, 0x00, 0x00, 0x00, 0x00, 0x00, 0xFF],
    [0x0C, 0x0C, 0x18, 0x00, 0x00, 0x00, 0x00, 0x00],
    [0x00, 0x00, 0x1E, 0x30, 0x3E, 0x33, 0x6E, 0x00],
    [0x07, 0x06, 0x06, 0x3E, 0x66, 0x66, 0x3B, 0x00],
    [0x00, 0x00, 0x1E, 0x33, 0x03, 0x33, 0x1E, 0x00],
    [0x38, 0x30, 0x30, 0x3e, 0x33, 0x33, 0x6E, 0x00],
    [0x00, 0x00, 0x1E, 0x33, 0x3f, 0x03, 0x1E, 0x00],
    [0x1C, 0x36, 0x06, 0x0f, 0x06, 0x06, 0x0F, 0x00],
    [0x00, 0x00, 0x6E, 0x33, 0x33, 0x3E, 0x30, 0x1F],
    [0x07, 0x06, 0x36, 0x6E, 0x66, 0x66, 0x67, 0x00],
    [0x0C, 0x00, 0x0E, 0x0C, 0x0C, 0x0C, 0x1E, 0x00],
    [0x30, 0x00, 0x30, 0x30, 0x30, 0x33, 0x33, 0x1E],
    [0x07, 0x06, 0x66, 0x36, 0x1E, 0x36, 0x67, 0x00],
    [0x0E, 0x0C, 0x0C, 0x0C, 0x0C, 0x0C, 0x1E, 0x00],
    [0x00, 0x00, 0x33, 0x7F, 0x7F, 0x6B, 0x63, 0x00],
    [0x00, 0x00, 0x1F, 0x33, 0x33, 0x33, 0x33, 0x00],
    [0x00, 0x00, 0x1E, 0x33, 0x33, 0x33, 0x1E, 0x00],
    [0x00, 0x00, 0x3B, 0x66, 0x66, 0x3E, 0x06, 0x0F],
    [0x00, 0x00, 0x6E, 0x33, 0x33, 0x3E, 0x30, 0x78],
    [0x00, 0x00, 0x3B, 0x6E, 0x66, 0x06, 0x0F, 0x00],
    [0x00, 0x00, 0x3E, 0x03, 0x1E, 0x30, 0x1F, 0x00],
    [0x08, 0x0C, 0x3E, 0x0C, 0x0C, 0x2C, 0x18, 0x00],
    [0x00, 0x00, 0x33, 0x33, 0x33, 0x33, 0x6E, 0x00],
    [0x00, 0x00, 0x33, 0x33, 0x33, 0x1E, 0x0C, 0x00],
    [0x00, 0x00, 0x63, 0x6B, 0x7F, 0x7F, 0x36, 0x00],
    [0x00, 0x00, 0x63, 0x36, 0x1C, 0x36, 0x63, 0x00],
    [0x00, 0x00, 0x33, 0x33, 0x33, 0x3E, 0x30, 0x1F],
    [0x00, 0x00, 0x3F, 0x19, 0x0C, 0x26, 0x3F, 0x00],
    [0x38, 0x0C, 0x0C, 0x07, 0x0C, 0x0C, 0x38, 0x00],
    [0x18, 0x18, 0x18, 0x00, 0x18, 0x18, 0x18, 0x00],
    [0x07, 0x0C, 0x0C, 0x38, 0x0C, 0x0C, 0x07, 0x00],
    [0x6E, 0x3B, 0x00, 0x00, 0x00, 0x00, 0x00, 0x00],
    [0x00, 0x00, 0x00, 0x00, 0x00, 0x00, 0x00, 0x00]
  ]"

definition glyph_bit :: "u8 \<Rightarrow> nat \<Rightarrow> nat \<Rightarrow> bool outcome" where
  "glyph_bit fp fx fy =
     (if fx \<noteq> 8 \<and> fy \<noteq> 8
      then (if unat fp < length fontData then Inr (bit (fontData ! unat fp ! fy) fx) else Inl OutOfBounds)
      else Inr False)"

definition glyph_cells :: "(nat \<times> nat) list" where
  "glyph_cells = [(fy, fx). fy \<leftarrow> [0..<9], fx \<leftarrow> [0..<9]]"

definition Draw_fore :: "u8 \<Rightarrow> u32 \<Rightarrow> u32 \<Rightarrow> u32 \<Rightarrow> gfx \<Rightarrow> gfx outcome" where
  "Draw_fore c x y fore =
     foldE (\<lambda>(fy, fx) g. bindE (glyph_bit c fx fy) (\<lambda>on.
       if on then pixel (x * 8 + of_nat fx) (y * 8 + of_nat fy) fore g else Inr g)) glyph_cells"

definition Draw :: "u8 \<Rightarrow> u32 \<Rightarrow> u32 \<Rightarrow> u32 \<Rightarrow> u32 \<Rightarrow> gfx \<Rightarrow> gfx outcome" where
  "Draw c x y fore back =
     foldE (\<lambda>(fy, fx) g. bindE (glyph_bit c fx fy) (\<lambda>on.
       pixel (x * 8 + of_nat fx) (y * 8 + of_nat fy) (if on then fore else back) g)) glyph_cells"

section \<open>Pixels\<close>

definition gfx_ok :: "framebuffer \<Rightarrow> gfx \<Rightarrow> bool" where
  "gfx_ok f g \<longleftrightarrow> gfx_initialized g \<and> gfx_info g = Some f \<and>
     getPixelWidth f \<in> {3, 4} \<and> unat (fb_width f) * unat (getPixelWidth f) \<le> unat (fb_pitch f) \<and>
     length (backbuffer g) = unat (fb_pitch f) * unat (fb_height f) \<and> length (backbuffer g) < 2 ^ 32 \<and>
     fb_redMaskShift f < 32 \<and> fb_greenMaskShift f < 32 \<and> fb_blueMaskShift f < 32"

definition offset :: "framebuffer \<Rightarrow> nat \<Rightarrow> nat \<Rightarrow> nat" where
  "offset f X Y = Y * unat (fb_pitch f) + X * unat (getPixelWidth f)"

text \<open>The blue, green and red bytes of a pixel of the back buffer, and those of a colour.\<close>

definition px_get :: "framebuffer \<Rightarrow> gfx \<Rightarrow> nat \<Rightarrow> nat \<Rightarrow> u8 \<times> u8 \<times> u8" where
  "px_get f g X Y =
     (backbuffer g ! offset f X Y, backbuffer g ! (offset f X Y + 1), backbuffer g ! (offset f X Y + 2))"

definition colour :: "framebuffer \<Rightarrow> u32 \<Rightarrow> u8 \<times> u8 \<times> u8" where
  "colour f c = (ucast (drop_bit (unat (fb_blueMaskShift f)) c), ucast (drop_bit (unat (fb_greenMaskShift f)) c),
                 ucast (drop_bit (unat (fb_redMaskShift f)) c))"

lemma offset_row: "gfx_ok f g \<Longrightarrow> X < unat (fb_width f) \<Longrightarrow> offset f X Y + unat (getPixelWidth f) \<le> Suc Y * unat (fb_pitch f)"
  using mult_le_mono1 [of "Suc X" "unat (fb_width f)" "unat (getPixelWidth f)"]
  by (auto simp: gfx_ok_def offset_def)

lemma offset_inside:
  assumes "gfx_ok f g" "X < unat (fb_width f)" "Y < unat (fb_height f)"
  shows "offset f X Y + unat (getPixelWidth f) \<le> length (backbuffer g)"
  using offset_row [OF assms(1,2), of Y] mult_le_mono1 [of "Suc Y" "unat (fb_height f)" "unat (fb_pitch f)"] assms
  by (simp add: gfx_ok_def mult.commute)

lemma offset_apart_less:
  assumes "gfx_ok f g" "X < unat (fb_width f)" "Y < Y' \<or> Y = Y' \<and> X < X'"
  shows "offset f X Y + unat (getPixelWidth f) \<le> offset f X' Y'"
proof (cases "Y < Y'")
  case True
  then have "Suc Y * unat (fb_pitch f) \<le> Y' * unat (fb_pitch f)" by (intro mult_le_mono1) simp
  then show ?thesis using offset_row [OF assms(1,2), of Y] by (simp add: offset_def)
next
  case False
  then have "Y = Y'" "Suc X * unat (getPixelWidth f) \<le> X' * unat (getPixelWidth f)"
    using assms(3) by (auto intro!: mult_le_mono1 simp del: mult_Suc)
  then show ?thesis by (simp add: offset_def)
qed

lemma offset_apart:
  assumes "gfx_ok f g" "X < unat (fb_width f)" "X' < unat (fb_width f)" "(X, Y) \<noteq> (X', Y')"
  shows "offset f X Y + unat (getPixelWidth f) \<le> offset f X' Y' \<or> offset f X' Y' + unat (getPixelWidth f) \<le> offset f X Y"
  using offset_apart_less [OF assms(1,2), of Y Y' X'] offset_apart_less [OF assms(1,3), of Y' Y X] assms(4)
  by (metis linorder_neqE_nat prod.inject)

lemma pixel_at:
  assumes ok: "gfx_ok f g" and X: "X < unat (fb_width f)" and Y: "Y < unat (fb_height f)"
  shows "\<exists>g'. pixel (of_nat X) (of_nat Y) c g = Inr g' \<and> gfx_ok f g' \<and> vram g' = vram g \<and>
    (\<forall>X' Y'. X' < unat (fb_width f) \<longrightarrow>
      px_get f g' X' Y' = (if X' = X \<and> Y' = Y then colour f c else px_get f g X' Y'))"
proof -
  let ?o = "offset f X Y" and ?b = "backbuffer g"
  have pw: "unat (getPixelWidth f) \<in> {3, 4}" using ok by (auto simp: gfx_ok_def)
  have inside: "?o + unat (getPixelWidth f) \<le> length ?b" and small: "length ?b < 2 ^ 32"
    using offset_inside [OF assms] ok by (auto simp: gfx_ok_def)
  have "of_nat Y * fb_pitch f + of_nat X * ucast (getPixelWidth f) = (of_nat ?o :: u32)"
    by (simp add: offset_def unsigned_of_nat)
  moreover have "unat (of_nat (?o + k) :: u32) = ?o + k" if "k < unat (getPixelWidth f)" for k
    using inside small that by (intro unat_of_nat_u32) simp
  ultimately have addr: "unat (of_nat Y * fb_pitch f + of_nat X * ucast (getPixelWidth f) + of_nat k :: u32) = ?o + k"
    if "k < unat (getPixelWidth f)" for k using that by simp
  have le: "(of_nat X :: u32) \<le> fb_width f" "(of_nat Y :: u32) \<le> fb_height f"
    using X Y unat_of_nat_u32 [of X] unat_of_nat_u32 [of Y] unat_lt_u32 [of "fb_width f"] unat_lt_u32 [of "fb_height f"]
    by (simp_all add: word_le_nat_alt)
  define b where "b = ?b[?o := fst (colour f c), ?o + 1 := fst (snd (colour f c)), ?o + 2 := snd (snd (colour f c))]"
  define b' where "b' = (if getPixelWidth f = 4 then b[?o + 3 := 0] else b)"
  have "pixel (of_nat X) (of_nat Y) c g = Inr (g\<lparr>backbuffer := b'\<rparr>)"
    using ok le pw inside addr [of 0] addr [of 1] addr [of 2] addr [of 3]
    by (auto simp: pixel_def gfx_ok_def colour_byte_def store_byte_def b_def b'_def colour_def word_less_nat_alt)
  moreover have "gfx_ok f (g\<lparr>backbuffer := b'\<rparr>)" using ok by (simp add: gfx_ok_def b_def b'_def)
  moreover have "px_get f (g\<lparr>backbuffer := b'\<rparr>) X' Y' = (if X' = X \<and> Y' = Y then colour f c else px_get f g X' Y')"
    if "X' < unat (fb_width f)" for X' Y'
    using offset_apart [OF ok X that, of Y Y'] pw inside
    by (auto simp: px_get_def b_def b'_def nth_list_update_case)
  ultimately show ?thesis by auto
qed

lemma glyph_cells_set: "(fy, fx) \<in> set glyph_cells \<longleftrightarrow> fy < 9 \<and> fx < 9"
  by (force simp: glyph_cells_def)

lemma fontData_length: "length fontData = 128"
  by (simp add: fontData_def)

definition glyph_on :: "u8 \<Rightarrow> nat \<Rightarrow> nat \<Rightarrow> bool" where
  "glyph_on c fx fy \<longleftrightarrow> fx < 8 \<and> fy < 8 \<and> bit (fontData ! unat c ! fy) fx"

lemma glyph_bit_ascii: "c < 128 \<Longrightarrow> fx < 9 \<Longrightarrow> fy < 9 \<Longrightarrow> glyph_bit c fx fy = Inr (glyph_on c fx fy)"
  by (auto simp: glyph_bit_def glyph_on_def fontData_length word_less_nat_alt)

text \<open>C40: drawing a character.  For an ASCII character at a cell that lies on the screen together with
  the next column and row of pixels, \<open>Draw\<close> paints the nine by nine pixels from the cell's corner, the
  set bits of the glyph in the foreground and all others in the background colour, and changes no other
  pixel and nothing on the screen itself.\<close>
theorem Draw_paints_glyph:
  assumes ok: "gfx_ok f g" and c: "c < 128"
    and x: "unat x * 8 + 8 < unat (fb_width f)" and y: "unat y * 8 + 8 < unat (fb_height f)"
  shows "\<exists>g'. Draw c x y fore back g = Inr g' \<and> vram g' = vram g \<and>
    (\<forall>X Y. X < unat (fb_width f) \<longrightarrow> px_get f g' X Y =
      (if unat x * 8 \<le> X \<and> X < unat x * 8 + 9 \<and> unat y * 8 \<le> Y \<and> Y < unat y * 8 + 9
       then colour f (if glyph_on c (X - unat x * 8) (Y - unat y * 8) then fore else back)
       else px_get f g X Y))"
proof -
  let ?cx = "unat x * 8" and ?cy = "unat y * 8"
  let ?step = "\<lambda>(fy, fx) g. bindE (glyph_bit c fx fy) (\<lambda>on.
       pixel (x * 8 + of_nat fx) (y * 8 + of_nat fy) (if on then fore else back) g)"
  define hit where "hit ys X Y \<longleftrightarrow> (\<exists>(fy, fx) \<in> set ys. X = ?cx + fx \<and> Y = ?cy + fy)" for ys X Y
  define col where "col X Y = colour f (if glyph_on c (X - ?cx) (Y - ?cy) then fore else back)" for X Y
  let ?painted = "\<lambda>ys t. gfx_ok f t \<and> vram t = vram g \<and> (\<forall>X Y. X < unat (fb_width f) \<longrightarrow>
      px_get f t X Y = (if hit ys X Y then col X Y else px_get f g X Y))"
  have "\<exists>t. foldE ?step glyph_cells g = Inr t \<and> ?painted glyph_cells t"
  proof (rule foldE_invariant)
    show "?painted [] g" using ok by (simp add: hit_def)
  next
    fix ys a zs t
    assume cells: "glyph_cells = ys @ a # zs" and t: "?painted ys t"
    obtain fy fx where a: "a = (fy, fx)" by fastforce
    then have cell: "fy < 9" "fx < 9" using glyph_cells_set [of fy fx] by (simp_all add: cells)
    let ?paint = "if glyph_on c fx fy then fore else back"
    obtain t' where t': "pixel (of_nat (?cx + fx)) (of_nat (?cy + fy)) ?paint t = Inr t'" "gfx_ok f t'" "vram t' = vram t"
      "\<forall>X Y. X < unat (fb_width f) \<longrightarrow>
        px_get f t' X Y = (if X = ?cx + fx \<and> Y = ?cy + fy then colour f ?paint else px_get f t X Y)"
      using pixel_at [of f t "?cx + fx" "?cy + fy" ?paint] t x y cell by auto
    have "?step a t = Inr t'"
      using t'(1) glyph_bit_ascii [OF c cell(2,1)] a by simp
    have hits: "hit (ys @ [a]) X Y \<longleftrightarrow> hit ys X Y \<or> X = ?cx + fx \<and> Y = ?cy + fy" for X Y
      by (auto simp: hit_def a)
    have new: "col (?cx + fx) (?cy + fy) = colour f ?paint" by (simp add: col_def)
    have "px_get f t' X Y = (if hit (ys @ [a]) X Y then col X Y else px_get f g X Y)"
      if "X < unat (fb_width f)" for X Y
    proof (cases "X = ?cx + fx \<and> Y = ?cy + fy")
      case True
      then show ?thesis using t'(4) that hits new by simp
    next
      case False
      then have "px_get f t' X Y = px_get f t X Y" using t'(4) that by meson
      moreover have "px_get f t X Y = (if hit ys X Y then col X Y else px_get f g X Y)" using t that by blast
      ultimately show ?thesis using hits False by presburger
    qed
    then show "\<exists>t'. ?step a t = Inr t' \<and> ?painted (ys @ [a]) t'"
      using \<open>?step a t = Inr t'\<close> t t'(2,3) by (intro exI [of _ t']) simp
  qed
  then obtain t where "foldE ?step glyph_cells g = Inr t" "?painted glyph_cells t" by blast
  moreover have "hit glyph_cells X Y \<longleftrightarrow> ?cx \<le> X \<and> X < ?cx + 9 \<and> ?cy \<le> Y \<and> Y < ?cy + 9" for X Y
    by (auto simp: hit_def glyph_cells_set intro!: bexI [of _ "(Y - ?cy, X - ?cx)"])
  ultimately show ?thesis unfolding Draw_def col_def by auto
qed

definition demo_fb :: framebuffer where
  "demo_fb = \<lparr>fb_addr = 0xE0000000, fb_width = 10, fb_height = 9, fb_depth = 24, fb_pitch = 30,
     fb_redMaskSize = 8, fb_redMaskShift = 16, fb_greenMaskSize = 8, fb_greenMaskShift = 8,
     fb_blueMaskSize = 8, fb_blueMaskShift = 0, fb_memoryModel = RGB_FBMM\<rparr>"

definition demo_gfx :: gfx where
  "demo_gfx = \<lparr>gfx_info = Some demo_fb, backbuffer = replicate 270 0, gfx_initialized = True,
               vram = replicate 270 0\<rparr>"

lemma demo_gfx_ok: "gfx_ok demo_fb demo_gfx"
  by (simp add: gfx_ok_def demo_fb_def demo_gfx_def getPixelWidth_def)

theorem Draw_paints_glyph_witness:
  "\<exists>g'. Draw 0x7C 0 0 0xFFFFFF 0x0000AA demo_gfx = Inr g' \<and>
        px_get demo_fb g' 3 0 = (0xFF, 0xFF, 0xFF) \<and> px_get demo_fb g' 0 0 = (0xAA, 0, 0)"
  using Draw_paints_glyph [OF demo_gfx_ok, of "0x7C" 0 0 "0xFFFFFF" "0x0000AA"]
  by (fastforce simp: demo_fb_def colour_def glyph_on_def fontData_def)

text \<open>the bounds test of \<open>pixel\<close> admits the coordinates one past the last row: for every column the
  write lands behind the end of the back buffer.\<close>
lemma pixel_behind:
  assumes ok: "gfx_ok f g" and x: "x \<le> fb_width f" and small: "offset f (unat x) (unat (fb_height f)) < 2 ^ 32"
  shows "pixel x (fb_height f) c g = Inl OutOfBounds"
proof -
  let ?o = "offset f (unat x) (unat (fb_height f))"
  have "fb_height f * fb_pitch f + x * ucast (getPixelWidth f) = (of_nat ?o :: u32)"
    by (simp add: offset_def unsigned_of_nat)
  then have "unat (fb_height f * fb_pitch f + x * ucast (getPixelWidth f) :: u32) = ?o"
    using small unat_of_nat_u32 by simp
  moreover have "length (backbuffer g) \<le> ?o" using ok by (simp add: gfx_ok_def offset_def mult.commute)
  ultimately show ?thesis
    using ok x by (simp add: pixel_def gfx_ok_def colour_byte_def store_byte_def)
qed

lemma pixel_behind_demo: "pixel 10 9 0xFFFFFF demo_gfx = Inl OutOfBounds"
  using pixel_behind [OF demo_gfx_ok, of 10] by (simp add: demo_fb_def offset_def getPixelWidth_def)

text \<open>A character outside ASCII indexes the font table outside its bounds.\<close>

lemma Draw_non_ascii:
  assumes "128 \<le> c"
  shows "Draw c x y fore back g = Inl OutOfBounds"
proof -
  have "glyph_cells = (0, 0) # tl glyph_cells" by (simp add: glyph_cells_def upt_rec)
  moreover have "glyph_bit c 0 0 = Inl OutOfBounds"
    using assms by (simp add: glyph_bit_def fontData_length word_le_nat_alt)
  ultimately show ?thesis unfolding Draw_def by (metis (no_types, lifting) foldE.simps(2) bindE_simps(2) prod.case)
qed

text \<open>A swap shows exactly the back buffer.\<close>

lemma swap_shows_backbuffer:
  "gfx_ok f g \<Longrightarrow> length (vram g) = length (backbuffer g) \<Longrightarrow> swap g = Inr (g\<lparr>vram := backbuffer g\<rparr>)"
  using unat_mult_lem [of "fb_pitch f" "fb_height f"]
  by (simp add: swap_def gfx_ok_def copy_block_def fb_bytes_def)

end
