(* ===== verification/Printf.thy ===== *)
theory Printf
  imports C_String
begin

text \<open>
  \<open>Kernel/Library/printf.cpp\<close>.  The format string is the list of its bytes before the terminating
  zero; the pointer \<open>fmt\<close> is the rest of this list and the empty list is the pointer to the zero.
  Moving the pointer behind the zero is the fault \<open>OutOfBounds\<close>.  The variable arguments are a list of
  values with their widths, a string argument being its bytes; taking an argument that is not there or
  has another width is the fault \<open>NullDeref\<close>.  The output goes through the callback \<open>fn\<close>, which gets
  the character widened to \<open>unsigned\<close> and the state behind \<open>ptr\<close>.
\<close>

section \<open>Flags and state\<close>

definition PR_LJ :: u32 where "PR_LJ = 1"
definition PR_CA :: u32 where "PR_CA = 2"
definition PR_SG :: u32 where "PR_SG = 4"
definition PR_64 :: u32 where "PR_64 = 8"
definition PR_32 :: u32 where "PR_32 = 16"
definition PR_16 :: u32 where "PR_16 = 32"
definition PR_WS :: u32 where "PR_WS = 64"
definition PR_LZ :: u32 where "PR_LZ = 128"
definition PR_FP :: u32 where "PR_FP = 256"

lemmas PR_defs = PR_LJ_def PR_CA_def PR_SG_def PR_64_def PR_32_def PR_16_def PR_WS_def PR_LZ_def PR_FP_def

datatype va = Int32 u32 | Int64 u64 | Str "u8 list"

record 'p printer =
  pr_state :: nat
  pr_flags :: u32
  pr_count :: u32
  pr_given_wd :: u32
  pr_args :: "va list"
  pr_ptr :: 'p

abbreviation flag_set :: "u32 \<Rightarrow> 'p printer \<Rightarrow> bool" where
  "flag_set b st \<equiv> pr_flags st AND b \<noteq> 0"

abbreviation add_flag :: "u32 \<Rightarrow> 'p printer \<Rightarrow> 'p printer" where
  "add_flag b st \<equiv> st\<lparr>pr_flags := pr_flags st OR b\<rparr>"

abbreviation next_state :: "'p printer \<Rightarrow> 'p printer" where
  "next_state st \<equiv> st\<lparr>pr_state := pr_state st + 1\<rparr>"

definition reset_spec :: "'p printer \<Rightarrow> 'p printer" where
  "reset_spec st = st\<lparr>pr_state := 0, pr_flags := 0, pr_given_wd := 0\<rparr>"

section \<open>Output\<close>

definition emit :: "(u32 \<Rightarrow> 'p \<Rightarrow> 'p) \<Rightarrow> u32 \<Rightarrow> 'p printer \<Rightarrow> 'p printer" where
  "emit fn c st = st\<lparr>pr_ptr := fn c (pr_ptr st), pr_count := pr_count st + 1\<rparr>"

function pad_left :: "(u32 \<Rightarrow> 'p \<Rightarrow> 'p) \<Rightarrow> u32 \<Rightarrow> 'p printer \<Rightarrow> 'p printer" where
  "pad_left fn actual_wd st =
     (if pr_given_wd st > actual_wd
      then pad_left fn actual_wd
        ((emit fn (if flag_set PR_LZ st then 48 else 32) st)\<lparr>pr_given_wd := pr_given_wd st - 1\<rparr>)
      else st)"
  by pat_completeness auto
termination
proof (relation "measure (\<lambda>(fn, actual_wd, st). unat (pr_given_wd st))")
  fix fn :: "u32 \<Rightarrow> 'p \<Rightarrow> 'p" and actual_wd and st :: "'p printer"
  assume "actual_wd < pr_given_wd st"
  then have "pr_given_wd st \<noteq> 0" by auto
  then show "((fn, actual_wd, (emit fn (if flag_set PR_LZ st then 48 else 32) st)\<lparr>pr_given_wd := pr_given_wd st - 1\<rparr>),
      fn, actual_wd, st) \<in> measure (\<lambda>(fn, actual_wd, st). unat (pr_given_wd st))"
    by (simp add: unat_pred_less)
qed simp

function pad_right :: "(u32 \<Rightarrow> 'p \<Rightarrow> 'p) \<Rightarrow> 'p printer \<Rightarrow> 'p printer" where
  "pad_right fn st =
     (if pr_given_wd st \<noteq> 0
      then pad_right fn ((emit fn 32 st)\<lparr>pr_given_wd := pr_given_wd st - 1\<rparr>)
      else st)"
  by pat_completeness auto
termination
  by (relation "measure (\<lambda>(fn, st). unat (pr_given_wd st))")
     (auto simp: unat_pred_less)

declare pad_left.simps [simp del] pad_right.simps [simp del]

text \<open>\<open>EMIT2\<close>: padding, sign and the characters at \<open>where\<close>.\<close>

definition EMIT2 :: "(u32 \<Rightarrow> 'p \<Rightarrow> 'p) \<Rightarrow> u8 list \<Rightarrow> u32 \<Rightarrow> 'p printer \<Rightarrow> 'p printer" where
  "EMIT2 fn where_p actual_wd st =
     (let st1 = (if pr_flags st AND PR_LJ = 0 then pad_left fn actual_wd st else st);
          st2 = (if pr_flags st1 AND (PR_WS OR PR_LZ) = PR_WS then emit fn 45 st1 else st1);
          st3 = fold (\<lambda>c. emit fn (ucast c)) (takeWhile (\<lambda>c. c \<noteq> 0) where_p) st2;
          st4 = (if pr_given_wd st3 < actual_wd then st3\<lparr>pr_given_wd := 0\<rparr>
                 else st3\<lparr>pr_given_wd := pr_given_wd st3 - actual_wd\<rparr>)
      in pad_right fn st4)"

definition EMIT :: "(u32 \<Rightarrow> 'p \<Rightarrow> 'p) \<Rightarrow> u8 list \<Rightarrow> 'p printer \<Rightarrow> 'p printer" where
  "EMIT fn where_p st =
     (let len = of_nat (length (takeWhile (\<lambda>c. c \<noteq> 0) where_p));
          actual_wd = (if flag_set PR_WS st then len + 1 else len);
          st1 = (if pr_flags st AND (PR_WS OR PR_LZ) = (PR_WS OR PR_LZ) then emit fn 45 st else st)
      in EMIT2 fn where_p actual_wd st1)"

section \<open>Numbers\<close>

definition digit_char :: "u32 \<Rightarrow> u32 \<Rightarrow> u8" where
  "digit_char flags temp =
     (if temp < 10 then ucast (temp + 48)
      else if flags AND PR_CA \<noteq> 0 then ucast (temp - 10 + 65)
      else ucast (temp - 10 + 97))"

text \<open>The conversion loop fills \<open>buf\<close> from its end; the list holds the bytes from \<open>where\<close> up to the
  terminating zero.  All radixes of the code are above one.\<close>

function digit_loop :: "u32 \<Rightarrow> u32 \<Rightarrow> u32 \<Rightarrow> u8 list \<Rightarrow> u8 list" where
  "digit_loop flags radix num ws =
     (let ws1 = digit_char flags (num mod radix) # ws; num1 = num div radix
      in if num1 \<noteq> 0 \<and> radix > 1 then digit_loop flags radix num1 ws1 else ws1)"
  by pat_completeness auto
termination
proof (relation "measure (\<lambda>(flags, radix, num, ws). unat num)")
  fix flags radix num :: u32 and ws ws1 :: "u8 list" and num1
  assume "num1 = num div radix" and n: "num1 \<noteq> 0 \<and> 1 < radix"
  then have "unat num1 = unat num div unat radix" "1 < unat radix"
    by (simp_all add: unat_div word_less_nat_alt)
  moreover have "unat num1 \<noteq> 0" using n unat_eq_zero by blast
  ultimately have "unat num1 < unat num" by (metis div_less_dividend div_0 neq0_conv)
  then show "((flags, radix, num1, ws1), flags, radix, num, ws) \<in> measure (\<lambda>(flags, radix, num, ws). unat num)"
    by simp
qed simp

declare digit_loop.simps [simp del]

text \<open>\<open>va_arg\<close> at the width that the modifiers ask for; \<open>num\<close> is a 32-bit \<open>long\<close>, so a 64-bit
  argument is cut.\<close>

definition load_num :: "'p printer \<Rightarrow> (u32 \<times> 'p printer) outcome" where
  "load_num st =
     (if flag_set PR_64 st then
        (case pr_args st of Int64 v # as \<Rightarrow> Inr (ucast v, st\<lparr>pr_args := as\<rparr>) | _ \<Rightarrow> Inl NullDeref)
      else
        (case pr_args st of Int32 v # as \<Rightarrow> Inr (v, st\<lparr>pr_args := as\<rparr>) | _ \<Rightarrow> Inl NullDeref))"

definition take_sign :: "u32 \<Rightarrow> 'p printer \<Rightarrow> u32 \<times> 'p printer" where
  "take_sign num st =
     (if flag_set PR_SG st \<and> sint num < 0 then (- num, add_flag PR_WS st) else (num, st))"

definition DO_NUM :: "(u32 \<Rightarrow> 'p \<Rightarrow> 'p) \<Rightarrow> u32 \<Rightarrow> 'p printer \<Rightarrow> 'p printer outcome" where
  "DO_NUM fn radix st =
     bindE (load_num st) (\<lambda>(num, st1).
       let (num1, st2) = take_sign num st1
       in Inr (EMIT fn (digit_loop (pr_flags st2) radix num1 []) st2))"

section \<open>The format string\<close>

abbreviation ch :: "u8 list \<Rightarrow> u8" where
  "ch f \<equiv> (case f of [] \<Rightarrow> 0 | c # _ \<Rightarrow> c)"

text \<open>The conversion character: \<open>X\<close>, \<open>x\<close>, \<open>p\<close>, \<open>n\<close>, \<open>d\<close>, \<open>i\<close>, \<open>u\<close>, \<open>o\<close>, \<open>c\<close>, \<open>s\<close>.\<close>

definition conversion :: "(u32 \<Rightarrow> 'p \<Rightarrow> 'p) \<Rightarrow> u8 \<Rightarrow> 'p printer \<Rightarrow> 'p printer outcome" where
  "conversion fn c st =
     (if c = 88 \<or> c = 120 \<or> c = 112 then
        (let st1 = (if c = 88 then add_flag PR_CA st else st)
         in DO_NUM fn 16 (add_flag PR_32 ((add_flag PR_LZ st1)\<lparr>pr_given_wd := 8\<rparr>)))
      else if c = 110 then DO_NUM fn 16 st
      else if c = 100 \<or> c = 105 then DO_NUM fn 10 (add_flag PR_SG st)
      else if c = 117 then DO_NUM fn 10 st
      else if c = 111 then DO_NUM fn 8 st
      else if c = 99 then
        (let st1 = st\<lparr>pr_flags := pr_flags st AND NOT PR_LZ\<rparr> in
         case pr_args st1 of Int32 v # as \<Rightarrow> Inr (EMIT2 fn [ucast v] 1 (st1\<lparr>pr_args := as\<rparr>)) | _ \<Rightarrow> Inl NullDeref)
      else if c = 115 then
        (let st1 = st\<lparr>pr_flags := pr_flags st AND NOT PR_LZ\<rparr> in
         case pr_args st1 of Str s # as \<Rightarrow> Inr (EMIT fn s (st1\<lparr>pr_args := as\<rparr>)) | _ \<Rightarrow> Inl NullDeref)
      else Inr st)"

definition state4 :: "(u32 \<Rightarrow> 'p \<Rightarrow> 'p) \<Rightarrow> u8 list \<Rightarrow> 'p printer \<Rightarrow> (u8 list \<times> 'p printer) outcome" where
  "state4 fn f st = bindE (conversion fn (ch f) st) (\<lambda>st1. Inr (f, reset_spec st1))"

definition state3 :: "(u32 \<Rightarrow> 'p \<Rightarrow> 'p) \<Rightarrow> u8 list \<Rightarrow> 'p printer \<Rightarrow> (u8 list \<times> 'p printer) outcome" where
  "state3 fn f st =
     (if ch f = 70 then Inr (f, add_flag PR_FP st)
      else if ch f = 78 then Inr (f, st)
      else if ch f = 122 then Inr (f, add_flag PR_32 st)
      else if ch f = 108 then Inr (f, add_flag PR_32 st)
      else if ch f = 76 then Inr (f, add_flag PR_64 st)
      else if ch f = 104 then Inr (f, add_flag PR_16 st)
      else state4 fn f (next_state st))"

definition state2 :: "(u32 \<Rightarrow> 'p \<Rightarrow> 'p) \<Rightarrow> u8 list \<Rightarrow> 'p printer \<Rightarrow> (u8 list \<times> 'p printer) outcome" where
  "state2 fn f st =
     (if 48 \<le> ch f \<and> ch f \<le> 57
      then Inr (f, st\<lparr>pr_given_wd := 10 * pr_given_wd st + (ucast (ch f) - 48)\<rparr>)
      else state3 fn f (next_state st))"

definition state1 :: "(u32 \<Rightarrow> 'p \<Rightarrow> 'p) \<Rightarrow> u8 list \<Rightarrow> 'p printer \<Rightarrow> (u8 list \<times> 'p printer) outcome" where
  "state1 fn f st =
     (if ch f = 37 then Inr (f, reset_spec (emit fn (scast (ch f)) st))
      else if ch f = 45 then Inr (f, if flag_set PR_LJ st then reset_spec st else add_flag PR_LJ st)
      else if ch f = 48 then state2 fn (tl f) (add_flag PR_LZ (next_state st))
      else state2 fn f (next_state st))"

definition state0 :: "(u32 \<Rightarrow> 'p \<Rightarrow> 'p) \<Rightarrow> u8 list \<Rightarrow> 'p printer \<Rightarrow> (u8 list \<times> 'p printer) outcome" where
  "state0 fn f st =
     (if ch f \<noteq> 37 then Inr (f, emit fn (scast (ch f)) st)
      else state1 fn (tl f) (next_state st))"

definition printf_step :: "(u32 \<Rightarrow> 'p \<Rightarrow> 'p) \<Rightarrow> u8 list \<Rightarrow> 'p printer \<Rightarrow> (u8 list \<times> 'p printer) outcome" where
  "printf_step fn f st =
     (if pr_state st = 0 then state0 fn f st
      else if pr_state st = 1 then state1 fn f st
      else if pr_state st = 2 then state2 fn f st
      else if pr_state st = 3 then state3 fn f st
      else if pr_state st = 4 then state4 fn f st
      else Inr (f, reset_spec st))"

lemma printf_step_shorter: "printf_step fn f st = Inr (f', st') \<Longrightarrow> length f' \<le> length f"
  unfolding printf_step_def state0_def state1_def state2_def state3_def state4_def
  by (auto split: if_splits simp: bindE_Inr_iff)

function printf_loop :: "(u32 \<Rightarrow> 'p \<Rightarrow> 'p) \<Rightarrow> u8 list \<Rightarrow> 'p printer \<Rightarrow> 'p printer outcome" where
  "printf_loop fn [] st = Inr st"
| "printf_loop fn (c # f) st =
     bindE (printf_step fn (c # f) st) (\<lambda>(f', st').
       case f' of [] \<Rightarrow> Inl OutOfBounds | _ # f'' \<Rightarrow> printf_loop fn f'' st')"
  by pat_completeness auto
termination
  by (relation "measure (\<lambda>(fn, f, st). length f)") (auto dest: printf_step_shorter)

definition printf_helper :: "u8 list \<Rightarrow> va list \<Rightarrow> (u32 \<Rightarrow> 'p \<Rightarrow> 'p) \<Rightarrow> 'p \<Rightarrow> (u32 \<times> 'p) outcome" where
  "printf_helper fmt args fn p =
     bindE (printf_loop fn fmt \<lparr>pr_state = 0, pr_flags = 0, pr_count = 0, pr_given_wd = 0, pr_args = args, pr_ptr = p\<rparr>)
       (\<lambda>st. Inr (pr_count st, pr_ptr st))"

definition vsprintf_help :: "u32 \<Rightarrow> nat \<times> mem \<Rightarrow> nat \<times> mem" where
  "vsprintf_help c = (\<lambda>(dst, m). (dst + 1, m(dst := ucast c)))"

definition kvsprintf :: "nat \<Rightarrow> u8 list \<Rightarrow> va list \<Rightarrow> mem \<Rightarrow> (u32 \<times> mem) outcome" where
  "kvsprintf buf fmt args m =
     bindE (printf_helper fmt args vsprintf_help (buf, m)) (\<lambda>(ret_val, _, m1).
       Inr (ret_val, m1(buf + unat ret_val := 0)))"

definition ksprintf :: "nat \<Rightarrow> u8 list \<Rightarrow> va list \<Rightarrow> mem \<Rightarrow> (u32 \<times> mem) outcome" where
  "ksprintf buf fmt args m = kvsprintf buf fmt args m"

section \<open>Output is a list of characters\<close>

abbreviation emit_all :: "(u32 \<Rightarrow> 'p \<Rightarrow> 'p) \<Rightarrow> u32 list \<Rightarrow> 'p printer \<Rightarrow> 'p printer" where
  "emit_all fn cs st \<equiv> st\<lparr>pr_ptr := fold fn cs (pr_ptr st), pr_count := pr_count st + of_nat (length cs)\<rparr>"

lemma emit_fold: "fold (\<lambda>c. emit fn (g c)) cs st = emit_all fn (map g cs) st"
  by (induction cs arbitrary: st) (simp_all add: emit_def add.assoc)

lemma pad_left_emits:
  "pad_left fn w st =
     (emit_all fn (replicate (unat (pr_given_wd st) - unat w) (if flag_set PR_LZ st then 48 else 32)) st)
       \<lparr>pr_given_wd := if pr_given_wd st > w then w else pr_given_wd st\<rparr>"
proof (induction fn w st rule: pad_left.induct)
  case (1 fn w st)
  show ?case
  proof (cases "pr_given_wd st > w")
    case True
    then have lt: "unat w < unat (pr_given_wd st)" and "pr_given_wd st \<noteq> 0" by (auto simp: word_less_nat_alt)
    then have pred: "unat (pr_given_wd st - 1) = unat (pr_given_wd st) - 1" by (simp add: unat_minus_one)
    have "unat (pr_given_wd st) = Suc (unat (pr_given_wd st - 1))" and "w \<le> pr_given_wd st - 1"
      using lt pred by (auto simp: word_le_nat_alt)
    then show ?thesis
      using True 1 [OF True]
      by (subst pad_left.simps) (auto simp: emit_def Suc_diff_le word_le_nat_alt word_less_nat_alt word_eq_iff_unsigned [where 'a = nat])
  next
    case False
    then show ?thesis by (subst pad_left.simps) (simp add: word_less_nat_alt)
  qed
qed

lemma pad_right_emits:
  "pad_right fn st = (emit_all fn (replicate (unat (pr_given_wd st)) 32) st)\<lparr>pr_given_wd := 0\<rparr>"
proof (induction fn st rule: pad_right.induct)
  case (1 fn st)
  show ?case
  proof (cases "pr_given_wd st = 0")
    case False
    then have "unat (pr_given_wd st) = Suc (unat (pr_given_wd st - 1))"
      by (simp add: unat_minus_one unat_gt_0)
    then show ?thesis using False 1 [OF False] by (subst pad_right.simps) (simp add: emit_def)
  qed (subst pad_right.simps, simp)
qed

lemma takeWhile_no_zero: "0 \<notin> set (xs :: u8 list) \<Longrightarrow> takeWhile (\<lambda>c. c \<noteq> 0) xs = xs"
  by (induction xs) auto

section \<open>Numbers in a radix\<close>

fun digits :: "u32 \<Rightarrow> nat \<Rightarrow> nat \<Rightarrow> u8 list" where
  "digits flags b n =
     (if n < b \<or> b \<le> 1 then [digit_char flags (of_nat (n mod b))]
      else digits flags b (n div b) @ [digit_char flags (of_nat (n mod b))])"

declare digits.simps [simp del]

lemma digit_loop_digits: "radix > 1 \<Longrightarrow> digit_loop flags radix num ws = digits flags (unat radix) (unat num) @ ws"
proof (induction flags radix num ws rule: digit_loop.induct)
  case (1 flags radix num ws)
  have d: "num mod radix = of_nat (unat num mod unat radix)" "unat (num div radix) = unat num div unat radix"
    by (simp_all add: word_mod_def of_nat_mod unat_div flip: unat_mod)
  have z: "num div radix = 0 \<longleftrightarrow> unat num < unat radix"
    using 1(2) by (metis d(2) unat_eq_zero div_eq_0_iff unat_0 less_irrefl word_less_nat_alt not_less_zero)
  show ?case
    using 1 d z by (subst digit_loop.simps, subst digits.simps) (auto simp: Let_def word_less_nat_alt)
qed

lemma digits_length: "2 \<le> b \<Longrightarrow> n < b ^ Suc k \<Longrightarrow> length (digits flags b n) \<le> Suc k"
proof (induction k arbitrary: n)
  case 0
  then show ?case by (subst digits.simps) simp
next
  case (Suc k)
  have "n div b < b ^ Suc k" using Suc.prems by (simp add: less_mult_imp_div_less mult.commute)
  then have "length (digits flags b (n div b)) \<le> Suc k" using Suc by blast
  then show ?case by (subst digits.simps) simp
qed

lemma digits_decimal: "digits flags 10 n = dec n"
proof (induction n rule: dec.induct)
  case (1 n)
  have digit: "digit_char flags (of_nat k) = of_nat (k + 48)" if "k < 10" for k
  proof -
    have "(of_nat k :: u32) < 10" using that by (simp add: word_less_nat_alt unat_of_nat_u32)
    moreover have "ucast (of_nat (k + 48) :: u32) = (of_nat (k + 48) :: u8)"
      by (simp add: unsigned_of_nat word_eq_iff_unsigned [where 'a = nat] take_bit_take_bit unsigned_ucast_eq del: of_nat_add)
    ultimately show ?thesis by (simp add: digit_char_def)
  qed
  show ?case using 1 digit by (subst digits.simps, subst dec.simps) auto
qed

text \<open>Every number that \<open>printf\<close> converts fits into the conversion buffer of 32 bytes.\<close>

lemma conversion_buffer_suffices:
  assumes "radix \<ge> 8"
  shows "length (digit_loop flags radix num []) \<le> 11"
proof -
  have r: "8 \<le> unat radix" using assms by (simp add: word_le_nat_alt)
  have "unat num < 8 ^ Suc 10" using unat_lt_u32 [of num] by simp
  also have "(8 :: nat) ^ Suc 10 \<le> unat radix ^ Suc 10" using r by (rule power_mono) simp
  finally have "length (digits flags (unat radix) (unat num)) \<le> Suc 10"
    using r by (intro digits_length) auto
  moreover have "radix > 1" using r by (simp add: word_less_nat_alt)
  ultimately show ?thesis by (simp add: digit_loop_digits)
qed

section \<open>Formats\<close>

lemma EMIT2_right_justified:
  assumes "pr_flags st AND PR_LJ = 0" "0 \<notin> set ds"
    and sign: "sg = (if pr_flags st AND (PR_WS OR PR_LZ) = PR_WS then [45] else [])"
  shows "EMIT2 fn ds w st =
    (emit_all fn (replicate (unat (pr_given_wd st) - unat w) (if flag_set PR_LZ st then 48 else 32) @ sg @ map ucast ds) st)
      \<lparr>pr_given_wd := 0\<rparr>"
proof -
  have "unat (if w < g then w else g) - unat w = 0" for g :: u32 by (auto simp: word_less_nat_alt)
  then show ?thesis
    using assms by (cases "pr_given_wd st > w")
      (auto simp: EMIT2_def Let_def pad_left_emits pad_right_emits emit_fold takeWhile_no_zero emit_def algebra_simps)
qed

definition signed_dec :: "u32 \<Rightarrow> u8 list" where
  "signed_dec n = (if sint n < 0 then 45 # dec (nat (- sint n)) else dec (nat (sint n)))"

lemma sint_u32_bounds: "- (2 ^ 31) \<le> sint (n :: u32)" "sint (n :: u32) < 2 ^ 31"
  using sint_ge [of n] sint_lt [of n] by simp_all

lemma unat_of_int_u32: "0 \<le> k \<Longrightarrow> k < 2 ^ 32 \<Longrightarrow> unat (word_of_int k :: u32) = nat k"
  by (simp add: unsigned_of_int take_bit_int_eq_self)

lemma unat_sint: "0 \<le> sint (n :: u32) \<Longrightarrow> unat n = nat (sint n)"
  using unat_of_int_u32 [of "sint n"] sint_u32_bounds [of n] by simp

lemma unat_uminus_sint: "sint (n :: u32) < 0 \<Longrightarrow> unat (- n) = nat (- sint n)"
  using unat_of_int_u32 [of "- sint n"] sint_u32_bounds [of n] by simp

lemma signed_dec_no_zero: "0 \<notin> set (signed_dec n)"
  using dec_no_zero by (simp add: signed_dec_def)

lemma dec_length: "n < 2 ^ 32 \<Longrightarrow> length (dec n) \<le> 10"
  using digits_length [of 10 n 9 0] by (simp add: digits_decimal)

lemma DO_NUM_signed_decimal:
  assumes "pr_flags st = PR_SG" "pr_args st = Int32 n # as"
  shows "\<exists>fl. DO_NUM fn 10 st = Inr ((emit_all fn
           (replicate (unat (pr_given_wd st) - length (signed_dec n)) 32 @ map ucast (signed_dec n)) st)
             \<lparr>pr_given_wd := 0, pr_args := as, pr_flags := fl\<rparr>)"
proof (cases "sint n < 0")
  case True
  let ?ds = "dec (nat (- sint n))" and ?st = "st\<lparr>pr_args := as, pr_flags := PR_SG OR PR_WS\<rparr>"
  have "length ?ds \<le> 10" using sint_u32_bounds [of n] by (intro dec_length) auto
  then have "unat (of_nat (length ?ds) + 1 :: u32) = Suc (length ?ds)"
    using unat_of_nat_u32 [of "Suc (length ?ds)"] by (simp add: add.commute)
  then have "EMIT fn ?ds ?st = (emit_all fn
      (replicate (unat (pr_given_wd st) - length (signed_dec n)) 32 @ map ucast (signed_dec n)) ?st)\<lparr>pr_given_wd := 0\<rparr>"
    using EMIT2_right_justified [of ?st ?ds "[45]" fn "of_nat (length ?ds) + 1"] True dec_no_zero
    by (simp add: EMIT_def PR_defs takeWhile_no_zero signed_dec_def)
  then show ?thesis
    using assms True
    by (auto simp: DO_NUM_def load_num_def take_sign_def PR_defs digit_loop_digits digits_decimal unat_uminus_sint
      intro!: exI [of _ "PR_SG OR PR_WS"])
next
  case False
  let ?ds = "dec (nat (sint n))" and ?st = "st\<lparr>pr_args := as\<rparr>"
  have "length ?ds \<le> 10" using sint_u32_bounds [of n] by (intro dec_length) auto
  then have "unat (of_nat (length ?ds) :: u32) = length ?ds" by (simp add: unat_of_nat_u32)
  then have "EMIT fn ?ds ?st = (emit_all fn
      (replicate (unat (pr_given_wd st) - length (signed_dec n)) 32 @ map ucast (signed_dec n)) ?st)\<lparr>pr_given_wd := 0\<rparr>"
    using EMIT2_right_justified [of ?st ?ds "[]" fn "of_nat (length ?ds)"] False dec_no_zero assms(1)
    by (simp add: EMIT_def PR_defs takeWhile_no_zero signed_dec_def)
  then show ?thesis
    using assms False
    by (auto simp: DO_NUM_def load_num_def take_sign_def PR_defs digit_loop_digits digits_decimal unat_sint
      intro!: exI [of _ PR_SG])
qed

lemma printf_echo:
  "37 \<notin> set a \<Longrightarrow> pr_state st = 0 \<Longrightarrow>
   printf_loop fn (a @ f) st = printf_loop fn f (emit_all fn (map scast a) st)"
  by (induction a arbitrary: st) (auto simp: printf_step_def state0_def emit_def add.assoc)

definition width_of :: "u8 list \<Rightarrow> u32 \<Rightarrow> u32" where
  "width_of ws g = foldl (\<lambda>g c. 10 * g + (ucast c - 48)) g ws"

lemma printf_width:
  "set ws \<subseteq> {48..57} \<Longrightarrow> pr_state st = 2 \<Longrightarrow>
   printf_loop fn (ws @ f) st = printf_loop fn f (st\<lparr>pr_given_wd := width_of ws (pr_given_wd st)\<rparr>)"
  by (induction ws arbitrary: st) (auto simp: width_of_def printf_step_def state2_def)

lemma state2_d:
  "pr_flags st = 0 \<Longrightarrow> pr_args st = Int32 n # as \<Longrightarrow>
   state2 fn (100 # f) st = Inr (100 # f, (emit_all fn
     (replicate (unat (pr_given_wd st) - length (signed_dec n)) 32 @ map ucast (signed_dec n)) st)
       \<lparr>pr_state := 0, pr_flags := 0, pr_given_wd := 0, pr_args := as\<rparr>)"
  using DO_NUM_signed_decimal [of "add_flag PR_SG (next_state (next_state st))" n as fn]
  by (auto simp: state2_def state3_def state4_def conversion_def reset_spec_def)

text \<open>decimal fields.  A format of plain text, \<open>%\<close>, a width without a leading zero, \<open>d\<close> and plain text
  prints the first text, the signed decimal representation of the argument padded on the left with
  blanks to the width, and the second text, for every 32-bit argument, and returns the number of
  characters.\<close>
theorem printf_decimal_field:
  assumes "37 \<notin> set a" "37 \<notin> set b"
    and "set ws \<subseteq> {48..57}" "ws = [] \<or> hd ws \<noteq> 48"
    and out: "out = map scast a @ replicate (unat (width_of ws 0) - length (signed_dec n)) 32
                      @ map ucast (signed_dec n) @ map scast b"
  shows "printf_helper (a @ [37] @ ws @ [100] @ b) [Int32 n] fn p = Inr (of_nat (length out), fold fn out p)"
proof -
  let ?st = "\<lparr>pr_state = 0, pr_flags = 0, pr_count = 0, pr_given_wd = 0, pr_args = [Int32 n], pr_ptr = p\<rparr>"
  define st where "st = emit_all fn (map scast a) ?st"
  let ?st' = "(emit_all fn (replicate (unat (width_of ws 0) - length (signed_dec n)) 32 @ map ucast (signed_dec n)) st)
       \<lparr>pr_state := 0, pr_flags := 0, pr_given_wd := 0, pr_args := []\<rparr>"
  have st: "pr_state st = 0" "pr_flags st = 0" "pr_given_wd st = 0" "pr_args st = [Int32 n]"
    by (simp_all add: st_def)
  have "printf_loop fn (37 # ws @ 100 # b) st = printf_loop fn b ?st'"
  proof (cases ws)
    case Nil
    then show ?thesis
      using st state2_d [of "next_state (next_state st)" n "[]" fn b]
      by (simp add: printf_step_def state0_def state1_def width_of_def)
  next
    case (Cons w ws')
    let ?w = "st\<lparr>pr_state := 2, pr_given_wd := ucast w - 48\<rparr>"
    have w: "48 \<le> w" "w \<le> 57" "w \<noteq> 48" "w \<noteq> 37" "w \<noteq> 45" "set ws' \<subseteq> {48..57}"
      using assms(3,4) Cons by auto
    have "printf_loop fn (37 # ws @ 100 # b) st = printf_loop fn (ws' @ 100 # b) ?w"
      using st w Cons by (simp add: printf_step_def state0_def state1_def state2_def numeral_2_eq_2)
    also have "\<dots> = printf_loop fn (100 # b) (?w\<lparr>pr_given_wd := width_of ws 0\<rparr>)"
      using printf_width [of ws' ?w fn "100 # b"] w(6) Cons by (simp add: width_of_def)
    also have "\<dots> = printf_loop fn b ?st'"
      using st state2_d [of "?w\<lparr>pr_given_wd := width_of ws 0\<rparr>" n "[]" fn b]
      by (simp add: printf_step_def)
    finally show ?thesis .
  qed
  also have "\<dots> = Inr (emit_all fn (map scast b) ?st')"
    using printf_echo [of b ?st' fn "[]"] assms(2) st by simp
  finally show ?thesis
    using printf_echo [of a ?st fn "37 # ws @ 100 # b"] assms(1) out
    by (simp add: printf_helper_def st_def add.assoc)
qed

theorem printf_decimal_field_witness:
  "printf_helper [61, 37, 52, 100, 59] [Int32 (- 12)] (\<lambda>c cs. cs @ [c]) [] = Inr (6, [61, 32, 45, 49, 50, 59])"
  using printf_decimal_field [of "[61]" "[59]" "[52]" "[61, 32, 45, 49, 50, 59]" "- 12" "\<lambda>c cs. cs @ [c]" "[]"]
  by (simp add: signed_dec_def dec.simps width_of_def)

text \<open>a format that ends in a lone \<open>%\<close> makes the scan run past the terminating zero of the format
  string.\<close>
theorem printf_trailing_percent:
  assumes "37 \<notin> set a"
  shows "printf_helper (a @ [37]) args fn p = Inl OutOfBounds"
  using printf_echo [OF assms, of _ fn "[37]"]
  by (simp add: printf_helper_def printf_step_def state0_def state1_def state2_def state3_def state4_def
    conversion_def)

theorem printf_trailing_percent_witness:
  "printf_helper [53, 48, 37] [] vsprintf_help (0, \<lambda>_. 0) = Inl OutOfBounds"
  using printf_trailing_percent [of "[53, 48]" "[]" vsprintf_help] by simp

text \<open>\<open>kvsprintf\<close> of a plain format leaves the characters as a terminated string in the buffer and
  returns their number.\<close>
theorem kvsprintf_plain:
  assumes "37 \<notin> set fmt" "0 \<notin> set fmt" "length fmt < 2 ^ 32"
  shows "\<exists>m'. kvsprintf buf fmt args m = Inr (of_nat (length fmt), m') \<and> cstr m' buf fmt"
proof -
  have "ucast (scast c :: u32) = c" for c :: u8
    by (rule bit_word_eqI) (auto simp: bit_simps)
  then have fold: "fold vsprintf_help (map scast cs) (d, m) =
      (d + length cs, \<lambda>x. if d \<le> x \<and> x < d + length cs then cs ! (x - d) else m x)" for cs d m
    by (induction cs arbitrary: d m) (auto simp: vsprintf_help_def nth_Cons' fun_eq_iff)
  show ?thesis
    using printf_echo [of fmt _ vsprintf_help "[]"] assms
    by (auto simp: kvsprintf_def printf_helper_def fold cstr_def unat_of_nat_u32)
qed

theorem kvsprintf_plain_witness:
  "\<exists>m'. kvsprintf 5 [72, 105] [] (\<lambda>_. 1) = Inr (2, m') \<and> cstr m' 5 [72, 105]"
  using kvsprintf_plain [of "[72, 105]" 5 "[]" "\<lambda>_. 1"] by simp

end
