(* ===== verification/Console.thy ===== *)
theory Console
  imports Graphics Printf
begin

text \<open>
  \<open>Kernel/Devices/Graphics/console.cpp\<close>: the text console with its escape sequence machine.  The static
  variables are the fields of \<open>console\<close> and the graphics state is one of them.  The lock \<open>ttyLock\<close> and
  the log messages are left out.
\<close>

section \<open>State\<close>

definition VGA_Black :: u32 where "VGA_Black = 0x000000"
definition VGA_Blue :: u32 where "VGA_Blue = 0x0000AA"
definition VGA_Green :: u32 where "VGA_Green = 0x00AA00"
definition VGA_Cyan :: u32 where "VGA_Cyan = 0x00AAAA"
definition VGA_Red :: u32 where "VGA_Red = 0xAA0000"
definition VGA_Magenta :: u32 where "VGA_Magenta = 0xAA00AA"
definition VGA_Brown :: u32 where "VGA_Brown = 0xAA5500"
definition VGA_LightGrey :: u32 where "VGA_LightGrey = 0xAAAAAA"
definition VGA_DarkGrey :: u32 where "VGA_DarkGrey = 0x555555"
definition VGA_LightBlue :: u32 where "VGA_LightBlue = 0x5555FF"
definition VGA_LightGreen :: u32 where "VGA_LightGreen = 0x55FF55"
definition VGA_LightCyan :: u32 where "VGA_LightCyan = 0x55FFFF"
definition VGA_LightRed :: u32 where "VGA_LightRed = 0xFF5555"
definition VGA_LightMagenta :: u32 where "VGA_LightMagenta = 0xFF55FF"
definition VGA_Yellow :: u32 where "VGA_Yellow = 0xFFFF55"
definition VGA_White :: u32 where "VGA_White = 0xFFFFFF"

lemmas vgaColor_defs = VGA_Black_def VGA_Blue_def VGA_Green_def VGA_Cyan_def VGA_Red_def VGA_Magenta_def
  VGA_Brown_def VGA_LightGrey_def VGA_DarkGrey_def VGA_LightBlue_def VGA_LightGreen_def
  VGA_LightCyan_def VGA_LightRed_def VGA_LightMagenta_def VGA_Yellow_def VGA_White_def

definition ansiVGATable :: "u32 list" where
  "ansiVGATable =
     [VGA_Black, VGA_Red, VGA_Green, VGA_Brown, VGA_Blue,
      VGA_Magenta, VGA_Cyan, VGA_LightGrey, VGA_DarkGrey, VGA_LightRed,
      VGA_LightGreen, VGA_Yellow, VGA_LightBlue, VGA_LightMagenta,
      VGA_LightCyan, VGA_White]"

definition Background :: u16 where "Background = 10"
definition Black :: u16 where "Black = 30"
definition Red :: u16 where "Red = 31"
definition Green :: u16 where "Green = 32"
definition Yellow :: u16 where "Yellow = 33"
definition Blue :: u16 where "Blue = 34"
definition Magenta :: u16 where "Magenta = 35"
definition Cyan :: u16 where "Cyan = 36"
definition White :: u16 where "White = 37"
definition BrightBlack :: u16 where "BrightBlack = 90"
definition BrightRed :: u16 where "BrightRed = 91"
definition BrightGreen :: u16 where "BrightGreen = 92"
definition BrightYellow :: u16 where "BrightYellow = 93"
definition BrightBlue :: u16 where "BrightBlue = 94"
definition BrightMagenta :: u16 where "BrightMagenta = 95"
definition BrightCyan :: u16 where "BrightCyan = 96"
definition BrightWhite :: u16 where "BrightWhite = 97"

lemmas ansiColor_defs = Background_def Black_def Red_def Green_def Yellow_def Blue_def Magenta_def Cyan_def
  White_def BrightBlack_def BrightRed_def BrightGreen_def BrightYellow_def BrightBlue_def
  BrightMagenta_def BrightCyan_def BrightWhite_def

datatype ansiStateType = Normal | Esc | Bracket | Value

record console =
  cursorX :: u8
  cursorY :: u8
  colorBack :: u32
  colorFore :: u32
  resetBack :: u32
  resetFore :: u32
  ansiVal :: u16
  ansiValuesIdx :: u32
  ansiValues :: "u16 list"
  ansiState :: ansiStateType
  ansiCursorX :: u32
  ansiCursorY :: u32
  con_gfx :: gfx

definition console_start :: "gfx \<Rightarrow> console" where
  "console_start g = \<lparr>cursorX = 0, cursorY = 0, colorBack = VGA_Black, colorFore = VGA_White,
     resetBack = VGA_Black, resetFore = VGA_White, ansiVal = 0, ansiValuesIdx = 0,
     ansiValues = replicate 8 0, ansiState = Normal, ansiCursorX = 0, ansiCursorY = 0, con_gfx = g\<rparr>"

section \<open>Escape sequences\<close>

definition PUSH_VAL :: "u16 \<Rightarrow> console \<Rightarrow> console outcome" where
  "PUSH_VAL v s =
     (if unat (ansiValuesIdx s) < length (ansiValues s)
      then Inr (s\<lparr>ansiValues := (ansiValues s)[unat (ansiValuesIdx s) := v], ansiValuesIdx := ansiValuesIdx s + 1\<rparr>)
      else Inl OutOfBounds)"

definition POP_VAL :: "console \<Rightarrow> (u16 \<times> console) outcome" where
  "POP_VAL s =
     (let i = ansiValuesIdx s - 1 in
      if unat i < length (ansiValues s) then Inr (ansiValues s ! unat i, s\<lparr>ansiValuesIdx := i\<rparr>)
      else Inl OutOfBounds)"

definition CLEAR_VALS :: "console \<Rightarrow> console" where
  "CLEAR_VALS s = s\<lparr>ansiValuesIdx := 0\<rparr>"

definition isdigit :: "u32 \<Rightarrow> bool" where
  "isdigit c \<longleftrightarrow> 48 \<le> c \<and> c \<le> 57"

text \<open>One colour attribute of an \<open>m\<close> command.\<close>

definition apply_sgr :: "u16 \<Rightarrow> console \<Rightarrow> console" where
  "apply_sgr v s =
     (if v = 0 then s\<lparr>colorFore := resetFore s, colorBack := resetBack s\<rparr>
      else if v \<ge> Black \<and> v \<le> White then s\<lparr>colorFore := ansiVGATable ! unat (v - Black)\<rparr>
      else if v \<ge> Black + Background \<and> v \<le> White + Background
      then s\<lparr>colorBack := ansiVGATable ! unat (v - (Black + Background))\<rparr>
      else if v \<ge> BrightBlack \<and> v \<le> BrightWhite then s\<lparr>colorFore := ansiVGATable ! unat (v - BrightBlack + 8)\<rparr>
      else if v \<ge> BrightBlack + Background \<and> v \<le> BrightWhite + Background
      then s\<lparr>colorBack := ansiVGATable ! unat (v - (BrightBlack + Background) + 8)\<rparr>
      else s)"

lemma apply_sgr_idx [simp]:
  "ansiValuesIdx (apply_sgr v s) = ansiValuesIdx s" "ansiValues (apply_sgr v s) = ansiValues s"
  "ansiState (apply_sgr v s) = ansiState s" "con_gfx (apply_sgr v s) = con_gfx s"
  "cursorX (apply_sgr v s) = cursorX s" "cursorY (apply_sgr v s) = cursorY s"
  by (simp_all add: apply_sgr_def)

text \<open>Every colour code selects the colour of its name, as the text colour and, ten codes higher, as the background.\<close>

lemma apply_sgr_colours:
  "apply_sgr Black s = s\<lparr>colorFore := VGA_Black\<rparr>" "apply_sgr (Black + Background) s = s\<lparr>colorBack := VGA_Black\<rparr>"
  "apply_sgr Red s = s\<lparr>colorFore := VGA_Red\<rparr>" "apply_sgr (Red + Background) s = s\<lparr>colorBack := VGA_Red\<rparr>"
  "apply_sgr Green s = s\<lparr>colorFore := VGA_Green\<rparr>" "apply_sgr (Green + Background) s = s\<lparr>colorBack := VGA_Green\<rparr>"
  "apply_sgr Yellow s = s\<lparr>colorFore := VGA_Brown\<rparr>" "apply_sgr (Yellow + Background) s = s\<lparr>colorBack := VGA_Brown\<rparr>"
  "apply_sgr Blue s = s\<lparr>colorFore := VGA_Blue\<rparr>" "apply_sgr (Blue + Background) s = s\<lparr>colorBack := VGA_Blue\<rparr>"
  "apply_sgr Magenta s = s\<lparr>colorFore := VGA_Magenta\<rparr>" "apply_sgr (Magenta + Background) s = s\<lparr>colorBack := VGA_Magenta\<rparr>"
  "apply_sgr Cyan s = s\<lparr>colorFore := VGA_Cyan\<rparr>" "apply_sgr (Cyan + Background) s = s\<lparr>colorBack := VGA_Cyan\<rparr>"
  "apply_sgr White s = s\<lparr>colorFore := VGA_LightGrey\<rparr>" "apply_sgr (White + Background) s = s\<lparr>colorBack := VGA_LightGrey\<rparr>"
  "apply_sgr BrightBlack s = s\<lparr>colorFore := VGA_DarkGrey\<rparr>" "apply_sgr (BrightBlack + Background) s = s\<lparr>colorBack := VGA_DarkGrey\<rparr>"
  "apply_sgr BrightRed s = s\<lparr>colorFore := VGA_LightRed\<rparr>" "apply_sgr (BrightRed + Background) s = s\<lparr>colorBack := VGA_LightRed\<rparr>"
  "apply_sgr BrightGreen s = s\<lparr>colorFore := VGA_LightGreen\<rparr>" "apply_sgr (BrightGreen + Background) s = s\<lparr>colorBack := VGA_LightGreen\<rparr>"
  "apply_sgr BrightYellow s = s\<lparr>colorFore := VGA_Yellow\<rparr>" "apply_sgr (BrightYellow + Background) s = s\<lparr>colorBack := VGA_Yellow\<rparr>"
  "apply_sgr BrightBlue s = s\<lparr>colorFore := VGA_LightBlue\<rparr>" "apply_sgr (BrightBlue + Background) s = s\<lparr>colorBack := VGA_LightBlue\<rparr>"
  "apply_sgr BrightMagenta s = s\<lparr>colorFore := VGA_LightMagenta\<rparr>" "apply_sgr (BrightMagenta + Background) s = s\<lparr>colorBack := VGA_LightMagenta\<rparr>"
  "apply_sgr BrightCyan s = s\<lparr>colorFore := VGA_LightCyan\<rparr>" "apply_sgr (BrightCyan + Background) s = s\<lparr>colorBack := VGA_LightCyan\<rparr>"
  "apply_sgr BrightWhite s = s\<lparr>colorFore := VGA_White\<rparr>" "apply_sgr (BrightWhite + Background) s = s\<lparr>colorBack := VGA_White\<rparr>"
  by (simp_all add: apply_sgr_def ansiColor_defs ansiVGATable_def)

function sgr_loop :: "console \<Rightarrow> console outcome" where
  "sgr_loop s =
     (if ansiValuesIdx s > 0
      then bindE (POP_VAL s) (\<lambda>(v, s1). sgr_loop (apply_sgr v (s1\<lparr>ansiVal := v\<rparr>)))
      else Inr s)"
  by pat_completeness auto
termination
  by (relation "measure (\<lambda>s. unat (ansiValuesIdx s))")
     (auto simp: POP_VAL_def Let_def unat_pred_less split: if_splits)

declare sgr_loop.simps [simp del]

section \<open>Text\<close>

function tab_loop :: "u8 \<Rightarrow> u8" where
  "tab_loop x = (if (x + 1) mod 4 \<noteq> 0 then tab_loop (x + 1) else x + 1)"
  by pat_completeness auto
termination
proof (relation "measure (\<lambda>x. 4 - unat x mod 4)")
  fix x :: u8
  assume "(x + 1) mod 4 \<noteq> 0"
  then have "unat (x + 1) mod 4 \<noteq> 0" by (simp add: word_eq_iff_unsigned [where 'a = nat] unat_mod)
  moreover have "unat (x + 1) mod 4 = (unat x + 1) mod 4"
    by (simp add: unat_word_ariths mod_mod_cancel)
  ultimately have "unat (x + 1) mod 4 = unat x mod 4 + 1" by (metis mod_Suc Suc_eq_plus1)
  then show "(x + 1, x) \<in> measure (\<lambda>x. 4 - unat x mod 4)" by simp
qed simp

declare tab_loop.simps [simp del]

text \<open>What follows the switch on the state: control characters, drawing, and the line and page ends.\<close>

definition put_text :: "u32 \<Rightarrow> console \<Rightarrow> console outcome" where
  "put_text c s =
     (if c = 8 then Inr (if cursorX s > 0 then s\<lparr>cursorX := cursorX s - 1\<rparr> else s)
      else if c = 10 then Inr (s\<lparr>cursorX := 0, cursorY := cursorY s + 1\<rparr>)
      else if c = 9 then Inr (s\<lparr>cursorX := tab_loop (cursorX s)\<rparr>)
      else if c = 13 then Inr (s\<lparr>cursorX := 0\<rparr>)
      else bindE (Draw (ucast c) (ucast (cursorX s)) (ucast (cursorY s)) (colorFore s) (colorBack s) (con_gfx s)) (\<lambda>g.
        Inr (s\<lparr>con_gfx := g, cursorX := cursorX s + 1\<rparr>)))"

definition wrap_cursor :: "console \<Rightarrow> console" where
  "wrap_cursor s =
     (let s1 = (if cursorX s \<ge> 80 then s\<lparr>cursorX := 0, cursorY := cursorY s + 1\<rparr> else s)
      in if cursorY s1 \<ge> 25 then s1\<lparr>cursorX := 0, cursorY := 24\<rparr> else s1)"

section \<open>The labels of putchar\<close>

definition fell_through :: "u32 \<Rightarrow> console \<Rightarrow> (int \<times> console) outcome" where
  "fell_through c s = bindE (put_text c (s\<lparr>ansiState := Normal\<rparr>)) (\<lambda>s1. Inr (0, wrap_cursor s1))"

definition goto_error :: "console \<Rightarrow> (int \<times> console) outcome" where
  "goto_error s = Inr (- 1, (CLEAR_VALS s)\<lparr>ansiState := Normal, ansiVal := 0\<rparr>)"

definition goto_normal :: "console \<Rightarrow> (int \<times> console) outcome" where
  "goto_normal s = Inr (0, s\<lparr>ansiState := Normal, ansiVal := 0\<rparr>)"

definition in_bracket :: "u32 \<Rightarrow> console \<Rightarrow> (int \<times> console) outcome" where
  "in_bracket c s =
     (if isdigit c then Inr (0, s\<lparr>ansiVal := ucast (c - 48), ansiState := Value\<rparr>)
      else if c = 115 then goto_normal (s\<lparr>ansiCursorX := ucast (cursorX s), ansiCursorY := ucast (cursorY s)\<rparr>)
      else if c = 117 then goto_normal (s\<lparr>cursorX := ucast (ansiCursorX s), cursorY := ucast (ansiCursorY s)\<rparr>)
      else fell_through c s)"

definition set_position :: "console \<Rightarrow> (int \<times> console) outcome" where
  "set_position s =
     bindE (PUSH_VAL (ansiVal s) s) (\<lambda>s1.
       if ansiValuesIdx s1 > 2 then goto_error s1
       else bindE (POP_VAL s1) (\<lambda>(vx, s2).
            bindE (POP_VAL (s2\<lparr>cursorX := ucast vx\<rparr>)) (\<lambda>(vy, s3).
            goto_normal (s3\<lparr>cursorY := ucast vy\<rparr>))))"

definition clear_screen :: "console \<Rightarrow> (int \<times> console) outcome" where
  "clear_screen s =
     (if ansiVal s \<noteq> 2 then goto_error s
      else bindE (resetDoubleBuffer (con_gfx s)) (\<lambda>g1.
           bindE (swap g1) (\<lambda>g2. Inr (0, s\<lparr>con_gfx := g2\<rparr>))))"

definition in_value :: "u32 \<Rightarrow> console \<Rightarrow> (int \<times> console) outcome" where
  "in_value c s =
     (if c = 59 then bindE (PUSH_VAL (ansiVal s) s) (\<lambda>s1. Inr (0, s1\<lparr>ansiState := Bracket, ansiVal := 0\<rparr>))
      else if c = 109 then bindE (PUSH_VAL (ansiVal s) s) (\<lambda>s1. bindE (sgr_loop s1) goto_normal)
      else if c = 72 \<or> c = 102 then set_position s
      else if c = 74 then clear_screen s
      else if isdigit c then Inr (0, s\<lparr>ansiVal := ansiVal s * 10 + ucast (c - 48)\<rparr>)
      else fell_through c s)"

definition putchar :: "u32 \<Rightarrow> console \<Rightarrow> (int \<times> console) outcome" where
  "putchar c s =
     (case ansiState s of
        Normal \<Rightarrow> if c \<noteq> 27 then fell_through c s else Inr (0, s\<lparr>ansiState := Esc\<rparr>)
      | Esc \<Rightarrow> if c \<noteq> 91 then fell_through c s else Inr (0, s\<lparr>ansiState := Bracket\<rparr>)
      | Bracket \<Rightarrow> in_bracket c s
      | Value \<Rightarrow> in_value c s)"

section \<open>The interface\<close>

definition put_callback :: "u32 \<Rightarrow> console outcome \<Rightarrow> console outcome" where
  "put_callback c p = bindE p (\<lambda>s. bindE (putchar c s) (\<lambda>(_, s1). Inr s1))"

definition Console_vprintf :: "u8 list \<Rightarrow> va list \<Rightarrow> console \<Rightarrow> (u32 \<times> console) outcome" where
  "Console_vprintf fmt args s =
     bindE (printf_helper fmt args put_callback (Inr s)) (\<lambda>(n, p). bindE p (\<lambda>s1. Inr (n, s1)))"

definition write_char :: "u8 \<Rightarrow> console \<Rightarrow> console outcome" where
  "write_char c s = bindE (putchar (scast c) s) (\<lambda>(_, s1). Inr s1)"

definition write_str :: "u8 list \<Rightarrow> console \<Rightarrow> console outcome" where
  "write_str str = foldE write_char str"

definition Console_printf :: "u8 list \<Rightarrow> va list \<Rightarrow> console \<Rightarrow> (u32 \<times> console) outcome" where
  "Console_printf fmt args s =
     bindE (Console_vprintf fmt args s) (\<lambda>(n, s1).
     bindE (swap (con_gfx s1)) (\<lambda>g. Inr (n, s1\<lparr>con_gfx := g\<rparr>)))"

definition Console_reset_to :: "u32 \<Rightarrow> u32 \<Rightarrow> console \<Rightarrow> console" where
  "Console_reset_to fore back s =
     s\<lparr>cursorX := 0, cursorY := 0, resetBack := back, colorBack := back, resetFore := fore, colorFore := fore\<rparr>"

definition Console_reset :: "console \<Rightarrow> console" where
  "Console_reset s = s\<lparr>cursorX := 0, cursorY := 0, colorBack := resetBack s, colorFore := resetFore s\<rparr>"

section \<open>Escape sequences\<close>

lemma write_str_simps [simp]:
  "write_str [] s = Inr s"
  "write_str (c # cs) s = bindE (write_char c s) (write_str cs)"
  by (simp_all add: write_str_def)

lemma write_str_append: "write_str (xs @ ys) s = bindE (write_str xs s) (write_str ys)"
  by (simp add: write_str_def foldE_append)

definition console_ok :: "console \<Rightarrow> bool" where
  "console_ok s \<longleftrightarrow> length (ansiValues s) = 8 \<and> ansiValuesIdx s \<le> 8"

definition dec16 :: "u8 list \<Rightarrow> u16 \<Rightarrow> u16" where
  "dec16 ds v = foldl (\<lambda>v d. v * 10 + (ucast d - 48)) v ds"

lemma digit_cases:
  assumes "(d :: u8) \<in> {48..57}"
  shows "d \<in> {48, 49, 50, 51, 52, 53, 54, 55, 56, 57}"
proof -
  have "unat d \<in> {48..57}" using assms by (simp add: word_le_nat_alt)
  then have "unat d \<in> {48, 49, 50, 51, 52, 53, 54, 55, 56, 57}"
    by (simp only: atLeastAtMost_iff insert_iff empty_iff) presburger
  then have "(of_nat (unat d) :: u8) \<in> {48, 49, 50, 51, 52, 53, 54, 55, 56, 57}" by fastforce
  then show ?thesis by simp
qed

lemma digit_char_facts:
  assumes "(d :: u8) \<in> {48..57}"
  shows "isdigit (scast d)" "ucast ((scast d :: u32) - 48) = (ucast d - 48 :: u16)"
    "(scast d :: u32) \<notin> {59, 109, 72, 102, 74}"
  using digit_cases [OF assms] by (auto simp: isdigit_def)

lemma write_first_digit:
  "ansiState s = Bracket \<Longrightarrow> d \<in> {48..57} \<Longrightarrow>
   write_char d s = Inr (s\<lparr>ansiVal := ucast d - 48, ansiState := Value\<rparr>)"
  using digit_char_facts [of d] by (simp add: write_char_def putchar_def in_bracket_def)

lemma write_more_digits:
  "ansiState s = Value \<Longrightarrow> set ds \<subseteq> {48..57} \<Longrightarrow>
   write_str ds s = Inr (s\<lparr>ansiVal := dec16 ds (ansiVal s)\<rparr>)"
proof (induction ds arbitrary: s)
  case (Cons d ds)
  have "write_char d s = Inr (s\<lparr>ansiVal := ansiVal s * 10 + (ucast d - 48)\<rparr>)"
    using Cons.prems digit_char_facts [of d] by (auto simp: write_char_def putchar_def in_value_def)
  then show ?case using Cons.prems Cons.IH [of "s\<lparr>ansiVal := ansiVal s * 10 + (ucast d - 48)\<rparr>"]
    by (simp add: dec16_def)
qed (simp add: dec16_def)

lemma write_number:
  assumes "ansiState s = Bracket" "ds \<noteq> []" "set ds \<subseteq> {48..57}"
  shows "write_str ds s = Inr (s\<lparr>ansiVal := dec16 ds 0, ansiState := Value\<rparr>)"
proof (cases ds)
  case (Cons d ds')
  then show ?thesis
    using assms write_first_digit [of s d] write_more_digits [of "s\<lparr>ansiVal := ucast d - 48, ansiState := Value\<rparr>" ds']
    by (simp add: dec16_def)
qed (use assms in simp)

lemma write_csi:
  "ansiState s = Normal \<Longrightarrow> write_str [27, 91] s = Inr (s\<lparr>ansiState := Bracket\<rparr>)"
  by (simp add: write_char_def putchar_def)

lemma write_separator:
  "ansiState s = Value \<Longrightarrow> write_char 59 s = bindE (PUSH_VAL (ansiVal s) s) (\<lambda>s1. Inr (s1\<lparr>ansiState := Bracket, ansiVal := 0\<rparr>))"
  by (simp add: write_char_def putchar_def in_value_def bindE_assoc)

text \<open>\<open>ESC [ line ; column H\<close> moves the cursor: from the normal state with no value left on the stack,
  any two decimal numbers set the line and the column (modulo 256), the machine is back in the normal
  state, the stack is empty and nothing but the stored values has changed.\<close>
theorem ansi_set_position:
  assumes "ansiState s = Normal" "ansiValuesIdx s = 0" "console_ok s"
    and "ys \<noteq> []" "set ys \<subseteq> {48..57}" "xs \<noteq> []" "set xs \<subseteq> {48..57}"
  shows "write_str ([27, 91] @ ys @ [59] @ xs @ [72]) s =
    Inr (s\<lparr>cursorX := ucast (dec16 xs 0), cursorY := ucast (dec16 ys 0), ansiVal := 0,
           ansiValues := (ansiValues s)[0 := dec16 ys 0, 1 := dec16 xs 0]\<rparr>)"
proof -
  let ?s1 = "s\<lparr>ansiState := Bracket\<rparr>"
  let ?s3 = "s\<lparr>ansiVal := 0, ansiValuesIdx := 1, ansiValues := (ansiValues s)[0 := dec16 ys 0], ansiState := Bracket\<rparr>"
  let ?s4 = "?s3\<lparr>ansiVal := dec16 xs 0, ansiState := Value\<rparr>"
  have len: "length (ansiValues s) = 8" using assms(3) by (simp add: console_ok_def)
  have "write_str ([59] @ xs @ [72]) (?s1\<lparr>ansiVal := dec16 ys 0, ansiState := Value\<rparr>) = write_str (xs @ [72]) ?s3"
    using assms(2) len by (cases s) (simp add: write_separator PUSH_VAL_def)
  moreover have "write_str (xs @ [72]) ?s3 = write_str [72] ?s4"
    using write_number [of ?s3 xs] assms(6,7) by (simp add: write_str_append)
  moreover have "write_str [72] ?s4 =
    Inr (s\<lparr>cursorX := ucast (dec16 xs 0), cursorY := ucast (dec16 ys 0), ansiVal := 0,
           ansiValues := (ansiValues s)[0 := dec16 ys 0, 1 := dec16 xs 0]\<rparr>)"
    using assms(1,2) len
    by (simp add: write_char_def putchar_def in_value_def set_position_def PUSH_VAL_def POP_VAL_def goto_normal_def
      Let_def)
  moreover have "write_str (ys @ [59] @ xs @ [72]) ?s1 =
    write_str ([59] @ xs @ [72]) (?s1\<lparr>ansiVal := dec16 ys 0, ansiState := Value\<rparr>)"
    using write_number [of ?s1 ys] assms(4,5) by (simp add: write_str_append [of ys])
  ultimately show ?thesis
    using write_csi [OF assms(1)] write_str_append [of "[27, 91]" "ys @ [59] @ xs @ [72]" s] by simp
qed

theorem ansi_set_position_witness:
  "\<exists>s'. write_str [27, 91, 49, 50, 59, 55, 72] (console_start demo_gfx) = Inr s' \<and> cursorX s' = 7 \<and> cursorY s' = 12"
  using ansi_set_position [of "console_start demo_gfx" "[49, 50]" "[55]"]
  by (simp add: console_start_def console_ok_def dec16_def)

text \<open>A position with a single value takes a second one from the empty stack.\<close>

lemma ansi_single_value_position:
  assumes "ansiState s = Value" "ansiValuesIdx s = 0" "console_ok s"
  shows "write_char 72 s = Inl OutOfBounds"
  using assms by (simp add: console_ok_def write_char_def putchar_def in_value_def set_position_def PUSH_VAL_def
    POP_VAL_def Let_def unsigned_minus_1_eq_mask mask_eq_exp_minus_1)

lemma abandoned_sequence:
  assumes "ansiState s = Normal" "console_ok s" "ansiValuesIdx s < 8"
  shows "\<exists>s'. write_str [27, 91, 49, 59, 13] s = Inr s' \<and> ansiState s' = Normal \<and> console_ok s' \<and>
              ansiValuesIdx s' = ansiValuesIdx s + 1"
proof -
  have "unat (ansiValuesIdx s) < length (ansiValues s)"
    using assms by (simp add: console_ok_def word_less_nat_alt)
  moreover have "ansiValuesIdx s + 1 \<le> 8" using assms(3) by (simp add: inc_le)
  ultimately show ?thesis
    using assms
    by (auto simp: write_char_def putchar_def in_bracket_def in_value_def isdigit_def PUSH_VAL_def fell_through_def
      put_text_def wrap_cursor_def console_ok_def Let_def)
qed

lemma abandoned_sequences:
  assumes "ansiState s = Normal" "console_ok s" "ansiValuesIdx s = 0"
  shows "n \<le> 8 \<Longrightarrow> \<exists>s'. write_str (concat (replicate n [27, 91, 49, 59, 13])) s = Inr s' \<and>
           ansiState s' = Normal \<and> console_ok s' \<and> ansiValuesIdx s' = of_nat n"
proof (induction n)
  case (Suc n)
  then obtain s' where s': "write_str (concat (replicate n [27, 91, 49, 59, 13])) s = Inr s'"
    "ansiState s' = Normal" "console_ok s'" "ansiValuesIdx s' = of_nat n"
    by auto
  have "(of_nat n :: u32) < 8" using Suc.prems by (simp add: word_less_nat_alt unat_of_nat_u32)
  then obtain s'' where "write_str [27, 91, 49, 59, 13] s' = Inr s''" "ansiState s'' = Normal" "console_ok s''"
    "ansiValuesIdx s'' = of_nat (Suc n)"
    using abandoned_sequence [OF s'(2,3)] s'(4) by (auto simp: add.commute)
  moreover have "concat (replicate (Suc n) [27, 91, 49, 59, 13]) =
    concat (replicate n [27, 91, 49, 59, 13]) @ [27, 91, 49, 59, 13 :: u8]"
    by (simp add: replicate_append_same [symmetric])
  ultimately show ?case using s'(1) by (simp only: write_str_append) simp
qed (use assms in simp)

text \<open>escape sequences that are abandoned after a value leave the value on the stack.  After eight of
  them the next value is written behind the array of eight.\<close>
theorem abandoned_sequences_overflow:
  assumes "ansiState s = Normal" "console_ok s" "ansiValuesIdx s = 0"
  shows "write_str (concat (replicate 8 [27, 91, 49, 59, 13]) @ [27, 91, 49, 59]) s = Inl OutOfBounds"
proof -
  obtain s' where "write_str (concat (replicate 8 [27, 91, 49, 59, 13])) s = Inr s'"
    "ansiState s' = Normal" "console_ok s'" "ansiValuesIdx s' = 8"
    using abandoned_sequences [OF assms, of 8] by auto
  then show ?thesis
    by (simp only: write_str_append)
       (simp add: write_char_def putchar_def in_bracket_def in_value_def isdigit_def PUSH_VAL_def console_ok_def)
qed

theorem abandoned_sequences_overflow_witness:
  "write_str (concat (replicate 8 [27, 91, 49, 59, 13]) @ [27, 91, 49, 59]) (console_start demo_gfx) = Inl OutOfBounds"
  by (rule abandoned_sequences_overflow) (simp_all add: console_start_def console_ok_def)

end
