(* ===== verification/Clock.thy ===== *)
theory Clock
  imports Xyris_Prelude "HOL-Library.Signed_Division"
begin

text \<open>
  The real time clock, \<open>Kernel/Devices/Clock/rtc.cpp\<close>, and the calendar, \<open>Kernel/Library/time.cpp\<close>.
  The clock chip is the parameter \<open>cmos\<close>: the byte that the \<open>n\<close>-th access reads from a register; the
  number of accesses made is part of the state.  The loops that wait for the chip are partial functions.
  A C \<open>int\<close> that holds a calendar value is an \<open>int\<close>; for the years of the theorems no operation leaves the
  range of 32 bits.
\<close>

type_synonym chip = "nat \<Rightarrow> u8 \<Rightarrow> u8"

section \<open>Reading the chip\<close>

record rtc =
  rtc_second :: u32
  rtc_minute :: u32
  rtc_hour :: u32
  rtc_day :: u32
  rtc_month :: u32
  rtc_year :: u32
  rtc_century :: u32

definition getRegister :: "chip \<Rightarrow> u8 \<Rightarrow> nat \<Rightarrow> u32 \<times> nat" where
  "getRegister cmos r n = (ucast (cmos n r), n + 1)"

definition getUpdateInProgress :: "chip \<Rightarrow> nat \<Rightarrow> bool \<times> nat" where
  "getUpdateInProgress cmos n = (cmos n 0x0A AND 0x80 \<noteq> 0, n + 1)"

partial_function (option) wait_update :: "chip \<Rightarrow> nat \<Rightarrow> nat option" where
  "wait_update cmos n = (let (busy, n1) = getUpdateInProgress cmos n in if busy then wait_update cmos n1 else Some n1)"

definition RTC_CURRENT_YEAR :: u32 where "RTC_CURRENT_YEAR = 2021"
definition RTC_CURRENT_CENTURY :: u8 where "RTC_CURRENT_CENTURY = 0"

definition read_fields :: "chip \<Rightarrow> nat \<Rightarrow> rtc \<Rightarrow> rtc \<times> nat" where
  "read_fields cmos n r =
     (let (s, n1) = getRegister cmos 0x00 n; (mi, n2) = getRegister cmos 0x02 n1;
          (h, n3) = getRegister cmos 0x04 n2; (d, n4) = getRegister cmos 0x07 n3;
          (mo, n5) = getRegister cmos 0x08 n4; (y, n6) = getRegister cmos 0x09 n5
      in (r\<lparr>rtc_second := s, rtc_minute := mi, rtc_hour := h, rtc_day := d, rtc_month := mo, rtc_year := y\<rparr>, n6))"

partial_function (option) read_loop :: "chip \<Rightarrow> rtc \<Rightarrow> rtc \<Rightarrow> nat \<Rightarrow> (rtc \<times> nat) option" where
  "read_loop cmos prev r n =
     (if prev \<noteq> r then
        (case wait_update cmos n of
           None \<Rightarrow> None
         | Some n1 \<Rightarrow>
             (let (r1, n2) = read_fields cmos n1 r;
                  (r2, n3) = (if RTC_CURRENT_CENTURY \<noteq> 0
                              then (let (c, k) = getRegister cmos RTC_CURRENT_CENTURY n2 in (r1\<lparr>rtc_century := c\<rparr>, k))
                              else (r1, n2))
              in read_loop cmos r r2 n3))
      else Some (r, n))"

definition bcd :: "u32 \<Rightarrow> u32" where
  "bcd x = (x AND 0x0F) + (x div 16) * 10"

definition decode_bcd :: "u32 \<Rightarrow> rtc \<Rightarrow> rtc" where
  "decode_bcd registerB r =
     (if registerB AND 0x04 = 0 then
        (let r1 = r\<lparr>rtc_second := bcd (rtc_second r), rtc_minute := bcd (rtc_minute r),
                    rtc_hour := ((rtc_hour r AND 0x0F) + ((rtc_hour r AND 0x70) div 16) * 10) OR (rtc_hour r AND 0x80),
                    rtc_day := bcd (rtc_day r), rtc_month := bcd (rtc_month r), rtc_year := bcd (rtc_year r)\<rparr>
         in if RTC_CURRENT_CENTURY \<noteq> 0 then r1\<lparr>rtc_century := bcd (rtc_century r1)\<rparr> else r1)
      else r)"

definition to_24_hours :: "u32 \<Rightarrow> rtc \<Rightarrow> rtc" where
  "to_24_hours registerB r =
     (if registerB AND 0x02 = 0 \<and> rtc_hour r AND 0x80 \<noteq> 0
      then r\<lparr>rtc_hour := ((rtc_hour r AND 0x7F) + 12) mod 24\<rparr> else r)"

definition full_year :: "rtc \<Rightarrow> rtc" where
  "full_year r =
     (if RTC_CURRENT_CENTURY \<noteq> 0 then r\<lparr>rtc_year := rtc_year r + rtc_century r * 100\<rparr>
      else (let r1 = r\<lparr>rtc_year := rtc_year r + (RTC_CURRENT_YEAR div 100) * 100\<rparr>
            in if rtc_year r1 < RTC_CURRENT_YEAR then r1\<lparr>rtc_year := rtc_year r1 + 100\<rparr> else r1))"

definition rtc_zero :: rtc where
  "rtc_zero = \<lparr>rtc_second = 0, rtc_minute = 0, rtc_hour = 0, rtc_day = 0, rtc_month = 0, rtc_year = 0, rtc_century = 0\<rparr>"

definition rtc_read :: "chip \<Rightarrow> nat \<Rightarrow> rtc \<Rightarrow> (rtc \<times> nat) option" where
  "rtc_read cmos n r =
     (case wait_update cmos n of
        None \<Rightarrow> None
      | Some n1 \<Rightarrow>
          (let (r1, n2) = read_fields cmos n1 r;
               (c, n3) = getRegister cmos RTC_CURRENT_CENTURY n2
           in case read_loop cmos rtc_zero (r1\<lparr>rtc_century := c\<rparr>) n3 of
                None \<Rightarrow> None
              | Some (r2, n4) \<Rightarrow>
                  (let (registerB, n5) = getRegister cmos 0x0B n4
                   in Some (full_year (to_24_hours registerB (decode_bcd registerB r2)), n5))))"

section \<open>Unix time\<close>

definition getJulianDay :: "u8 \<Rightarrow> u8 \<Rightarrow> u16 \<Rightarrow> u64" where
  "getJulianDay days months years =
     (let a = (14 - uint months) sdiv 12;
          y = uint years + 4800 - a;
          m = uint months + 12 * a - 3
      in word_of_int (uint days + (153 * m + 2) sdiv 5 + 365 * y + y sdiv 4 - y sdiv 100 + y sdiv 400 - 32045))"

definition getUnixEpoch :: "u8 \<Rightarrow> u8 \<Rightarrow> u8 \<Rightarrow> u8 \<Rightarrow> u8 \<Rightarrow> u16 \<Rightarrow> u64" where
  "getUnixEpoch seconds minutes hours days months years =
     (let jdnDiff = getJulianDay days months years - getJulianDay 1 1 1970
      in jdnDiff * 86400 + ucast hours * 3600 + ucast minutes * 60 + ucast seconds)"

definition getEpoch :: "chip \<Rightarrow> nat \<Rightarrow> rtc \<Rightarrow> (u64 \<times> rtc \<times> nat) option" where
  "getEpoch cmos n r =
     (case rtc_read cmos n r of
        None \<Rightarrow> None
      | Some (r1, n1) \<Rightarrow>
          Some (getUnixEpoch (ucast (rtc_second r1)) (ucast (rtc_minute r1)) (ucast (rtc_hour r1))
                  (ucast (rtc_day r1)) (ucast (rtc_month r1)) (ucast (rtc_year r1)), r1, n1))"

section \<open>Dates\<close>

record time_descriptor =
  td_seconds :: int
  td_minutes :: int
  td_hour :: int
  td_day :: int
  td_month :: int
  td_year :: int

definition TimeDescriptor :: "int \<Rightarrow> int \<Rightarrow> int \<Rightarrow> int \<Rightarrow> int \<Rightarrow> int \<Rightarrow> time_descriptor" where
  "TimeDescriptor sec mi hr d m y =
     \<lparr>td_seconds = sec, td_minutes = mi, td_hour = hr, td_day = d, td_month = m, td_year = y\<rparr>"

text \<open>Conversion of a 64-bit value to \<open>int\<close>.\<close>

definition to_int32 :: "u64 \<Rightarrow> int" where
  "to_int32 w = sint (ucast w :: u32)"

definition converterEpochToDate :: "u64 \<Rightarrow> time_descriptor" where
  "converterEpochToDate epoch =
     (let sec = to_int32 (epoch mod 60); e1 = epoch div 60;
          mi = to_int32 (e1 mod 60); e2 = e1 div 60;
          hr = to_int32 (e2 mod 24); e3 = e2 div 24;
          a = to_int32 ((4 * e3 + 102032) div 146097 + 15);
          b = to_int32 (e3 + 2442113 + of_int a - of_int (a sdiv 4));
          year = (20 * b - 2442) sdiv 7305;
          c = b - 365 * year - year sdiv 4;
          month = c * 1000 sdiv 30601;
          day = c - month * 30 - month * 601 sdiv 1000;
          (month1, year1) = (if month \<le> 13 then (month - 1, year - 4716) else (month - 13, year - 4715))
      in TimeDescriptor sec mi hr day month1 year1)"

definition toDate :: "chip \<Rightarrow> nat \<Rightarrow> rtc \<Rightarrow> (time_descriptor \<times> rtc \<times> nat) option" where
  "toDate cmos n r =
     (case getEpoch cmos n r of
        None \<Rightarrow> None
      | Some (epoch, r1, n1) \<Rightarrow> Some (converterEpochToDate epoch, r1, n1))"

section \<open>The calendar\<close>

definition leap :: "int \<Rightarrow> bool" where
  "leap y \<longleftrightarrow> y mod 4 = 0 \<and> (y mod 100 \<noteq> 0 \<or> y mod 400 = 0)"

definition month_days :: "int \<Rightarrow> int \<Rightarrow> int" where
  "month_days y m = (if m = 2 then (if leap y then 29 else 28) else if m \<in> {4, 6, 9, 11} then 30 else 31)"

definition valid_date :: "int \<Rightarrow> int \<Rightarrow> int \<Rightarrow> bool" where
  "valid_date d m y \<longleftrightarrow> 1970 \<le> y \<and> y \<le> 2099 \<and> 1 \<le> m \<and> m \<le> 12 \<and> 1 \<le> d \<and> d \<le> month_days y m"

lemma sdiv_nonneg: "0 \<le> (a :: int) \<Longrightarrow> 0 < b \<Longrightarrow> a sdiv b = a div b"
  by (cases "a = 0") (simp_all add: signed_divide_int_def sgn_if)

text \<open>The year and month of the formulas count from March.\<close>

definition march_month :: "int \<Rightarrow> int" where
  "march_month m = (if m \<le> 2 then m + 9 else m - 3)"

definition march_year :: "int \<Rightarrow> int \<Rightarrow> int" where
  "march_year m y = (if m \<le> 2 then y - 1 else y) + 4716"

definition day_of_year :: "int \<Rightarrow> int \<Rightarrow> int" where
  "day_of_year d m = d + (153 * march_month m + 2) div 5"

definition day_number :: "int \<Rightarrow> int \<Rightarrow> int \<Rightarrow> int" where
  "day_number d m y = day_of_year d m + 365 * march_year m y + march_year m y div 4 + 122 - 2442125"

lemma month_cases: "(1 :: int) \<le> m \<Longrightarrow> m \<le> 12 \<Longrightarrow> m \<in> {1, 2, 3, 4, 5, 6, 7, 8, 9, 10, 11, 12}"
  by (simp only: insert_iff empty_iff) presburger

lemma day_of_year_bounds:
  assumes "valid_date d m y"
  shows "1 \<le> day_of_year d m" "day_of_year d m \<le> 366" "day_of_year d m = 366 \<Longrightarrow> march_year m y mod 4 = 3"
proof -
  have "m \<in> {1, 2, 3, 4, 5, 6, 7, 8, 9, 10, 11, 12}" using assms month_cases by (simp add: valid_date_def)
  then show "1 \<le> day_of_year d m" "day_of_year d m \<le> 366"
    using assms by (auto simp: valid_date_def month_days_def day_of_year_def march_month_def split: if_splits)
  show "march_year m y mod 4 = 3" if "day_of_year d m = 366"
  proof -
    have "m = 2 \<and> d = 29"
      using \<open>m \<in> _\<close> that assms
      by (auto simp: valid_date_def month_days_def day_of_year_def march_month_def split: if_splits)
    then show ?thesis using assms by (auto simp: valid_date_def month_days_def leap_def march_year_def split: if_splits)
  qed
qed

lemma century_correction:
  assumes "6769 \<le> (y :: int)" "y \<le> 6899"
  shows "y div 400 - y div 100 = - 51"
proof (cases "y < 6800")
  case True
  then have "y div 400 = 16" "y div 100 = 67" using assms by linarith+
  then show ?thesis by simp
next
  case False
  then have "y div 400 = 17" "y div 100 = 68" using assms by linarith+
  then show ?thesis by simp
qed

lemma recover_year:
  assumes "valid_date d m y"
  shows "(20 * (day_number d m y + 2442125) - 2442) div 7305 = march_year m y"
proof -
  define Y where "Y = march_year m y"
  define k where "k = day_of_year d m"
  have k: "k \<ge> 1" "k \<le> 366" "k = 366 \<Longrightarrow> Y mod 4 = 3"
    using day_of_year_bounds [OF assms] by (auto simp: k_def Y_def)
  obtain q r where Y: "Y = 4 * q + r" "0 \<le> r" "r \<le> 3" "Y div 4 = q" "Y mod 4 = r"
    using that [of "Y div 4" "Y mod 4"] by simp
  have "7305 * Y \<le> 20 * (k + 365 * Y + Y div 4 + 122) - 2442" using k(1) Y by simp
  moreover have "20 * (k + 365 * Y + Y div 4 + 122) - 2442 < 7305 * Y + 7305"
    using k(2,3) Y by (cases "k = 366") simp_all
  ultimately have "(20 * (k + 365 * Y + Y div 4 + 122) - 2442) div 7305 = Y" by linarith
  then show ?thesis by (simp add: day_number_def Y_def k_def)
qed

lemma recover_month_day:
  assumes "valid_date d m y"
  shows "(day_of_year d m + 122) * 1000 div 30601 = march_month m + 4"
    "(day_of_year d m + 122) - (march_month m + 4) * 30 - (march_month m + 4) * 601 div 1000 = d"
proof -
  have "m \<in> {1, 2, 3, 4, 5, 6, 7, 8, 9, 10, 11, 12}" using assms month_cases by (simp add: valid_date_def)
  moreover have "1 \<le> d" "d \<le> (if m = 2 then 29 else if m \<in> {4, 6, 9, 11} then 30 else 31)"
    using assms by (auto simp: valid_date_def month_days_def split: if_splits)
  ultimately show "(day_of_year d m + 122) * 1000 div 30601 = march_month m + 4"
    "(day_of_year d m + 122) - (march_month m + 4) * 30 - (march_month m + 4) * 601 div 1000 = d"
    unfolding day_of_year_def march_month_def by (elim insertE emptyE; simp)+
qed

lemma getJulianDay_number:
  assumes "valid_date (uint d) (uint m) (uint y)"
  shows "getJulianDay d m y - getJulianDay 1 1 1970 = word_of_int (day_number (uint d) (uint m) (uint y))"
proof -
  let ?a = "if uint m \<le> 2 then 1 else (0 :: int)" and ?y = "march_year (uint m) (uint y) + 84"
  have m: "uint m \<in> {1, 2, 3, 4, 5, 6, 7, 8, 9, 10, 11, 12}"
    using assms month_cases by (simp add: valid_date_def)
  then have a: "(14 - uint m) sdiv 12 = ?a" by (auto simp: sdiv_nonneg)
  have y: "uint y + 4800 - ?a = ?y" "6769 \<le> ?y" "?y \<le> 6899"
    using assms by (auto simp: march_year_def valid_date_def)
  have mm: "uint m + 12 * ?a - 3 = march_month (uint m)" by (simp add: march_month_def)
  have "0 \<le> march_month (uint m)" using m by (auto simp: march_month_def)
  then have J: "getJulianDay d m y = word_of_int (uint d + (153 * march_month (uint m) + 2) div 5
      + 365 * ?y + ?y div 4 - ?y div 100 + ?y div 400 - 32045)"
    using y(2) unfolding getJulianDay_def Let_def a mm y(1) by (subst (1 2 3 4) sdiv_nonneg) auto
  have J1970: "getJulianDay 1 1 1970 = word_of_int 2440588"
    by (simp add: getJulianDay_def signed_divide_int_def)
  have diff: "uint d + (153 * march_month (uint m) + 2) div 5 + 365 * ?y + ?y div 4 - ?y div 100 + ?y div 400 - 32045
      - 2440588 = day_number (uint d) (uint m) (uint y)"
    using century_correction [OF y(2,3)] by (simp add: day_number_def day_of_year_def)
  show ?thesis unfolding J J1970 by (simp only: of_int_diff [symmetric] diff)
qed

lemma day_number_bounds:
  assumes "valid_date d m y"
  shows "0 \<le> day_number d m y" "day_number d m y \<le> 47481"
proof -
  have k: "1 \<le> day_of_year d m" "day_of_year d m \<le> 366" using day_of_year_bounds [OF assms] by auto
  have m: "m \<le> 2 \<Longrightarrow> 307 \<le> day_of_year d m" "m > 2 \<Longrightarrow> day_of_year d m \<le> 306"
    using assms month_cases [of m]
    by (auto simp: valid_date_def month_days_def day_of_year_def march_month_def split: if_splits)
  have y: "1970 \<le> y" "y \<le> 2099" using assms by (auto simp: valid_date_def)
  show "0 \<le> day_number d m y" using k m y by (auto simp: day_number_def march_year_def)
  show "day_number d m y \<le> 47481"
  proof (cases "m \<le> 2")
    case True
    then show ?thesis using k y by (simp add: day_number_def march_year_def)
  next
    case False
    then show ?thesis using m(2) y by (simp add: day_number_def march_year_def)
  qed
qed

text \<open>The conversion back, on the number of days and the second of the day.\<close>

lemma uint_of_int_u64: "0 \<le> k \<Longrightarrow> k < 2 ^ 64 \<Longrightarrow> uint (word_of_int k :: u64) = k"
  by (simp add: unsigned_of_int take_bit_int_eq_self)

lemma to_int32_small: "0 \<le> k \<Longrightarrow> k < 2 ^ 31 \<Longrightarrow> to_int32 (word_of_int k) = k"
  by (simp add: to_int32_def unsigned_of_int take_bit_int_eq_self signed_of_int signed_take_bit_int_eq_self)

lemma word_of_int_div_mod:
  assumes "0 \<le> k" "k < 2 ^ 64" "0 < n" "n < 2 ^ 64"
  shows "(word_of_int k :: u64) div word_of_int n = word_of_int (k div n)"
    "(word_of_int k :: u64) mod word_of_int n = word_of_int (k mod n)"
  using assms by (simp_all add: word_div_def word_mod_def uint_of_int_u64)

lemma u64_quotient:
  assumes "k div numeral n = q" "0 \<le> k" "k < 2 ^ 64" "(numeral n :: int) < 2 ^ 64"
  shows "(word_of_int k :: u64) div numeral n = word_of_int q"
  using word_of_int_div_mod(1) [OF assms(2,3) zero_less_numeral assms(4)] by (simp only: assms(1) of_int_numeral)

lemma u64_remainder:
  assumes "k mod numeral n = r" "0 \<le> k" "k < 2 ^ 64" "(numeral n :: int) < 2 ^ 64"
  shows "(word_of_int k :: u64) mod numeral n = word_of_int r"
  using word_of_int_div_mod(2) [OF assms(2,3) zero_less_numeral assms(4)] by (simp only: assms(1) of_int_numeral)

lemma epoch_split:
  fixes D t :: int
  assumes D: "0 \<le> D" "D \<le> 47481" and t: "0 \<le> t" "t < 86400"
  defines "e0 \<equiv> word_of_int (D * 86400 + t) :: u64"
  shows "to_int32 (e0 mod 60) = t mod 60" "to_int32 (e0 div 60 mod 60) = t div 60 mod 60"
    "to_int32 (e0 div 60 div 60 mod 24) = t div 3600" "e0 div 60 div 60 div 24 = word_of_int D"
proof -
  let ?T = "D * 86400 + t" and ?M = "D * 1440 + t div 60" and ?H = "D * 24 + t div 3600"
  have eqs: "?T = t + 60 * (D * 1440)" "?M = t div 60 + 60 * (D * 24)" "?H = t div 3600 + 24 * D"
    "t div 60 div 60 = t div 3600"
    by (simp_all add: zdiv_zmult2_eq [symmetric])
  have h: "0 \<le> t div 3600" "t div 3600 < 24" "0 \<le> t div 60" "t div 60 mod 60 < 60" using t by auto
  have mods: "?T mod 60 = t mod 60" "?M mod 60 = t div 60 mod 60" by (simp_all only: eqs(1,2) mod_mult_self2)
  have divs: "?T div 60 = ?M" "?M div 60 = ?H" "?H mod 24 = t div 3600" "?H div 24 = D"
    unfolding eqs(1-3) using eqs(4) h by (simp_all add: div_mult_self2)
  have bounds: "0 \<le> ?T" "?T < 2 ^ 64" "0 \<le> ?M" "?M < 2 ^ 64" "0 \<le> ?H" "?H < 2 ^ 64" using D t by auto
  have small: "(60 :: int) < 2 ^ 64" "(24 :: int) < 2 ^ 64" by simp_all
  note quot = u64_quotient [OF divs(1) bounds(1,2) small(1)] u64_quotient [OF divs(2) bounds(3,4) small(1)]
    u64_quotient [OF divs(4) bounds(5,6) small(2)]
  note rem = u64_remainder [OF mods(1) bounds(1,2) small(1)] u64_remainder [OF mods(2) bounds(3,4) small(1)]
    u64_remainder [OF divs(3) bounds(5,6) small(2)]
  show "to_int32 (e0 mod 60) = t mod 60" "to_int32 (e0 div 60 mod 60) = t div 60 mod 60"
    "to_int32 (e0 div 60 div 60 mod 24) = t div 3600" "e0 div 60 div 60 div 24 = word_of_int D"
    unfolding e0_def quot rem using h by (simp_all add: to_int32_small)
qed

lemma shifted_day:
  assumes "0 \<le> D" "D \<le> 47481"
  defines "a \<equiv> to_int32 ((4 * word_of_int D + 102032) div 146097 + 15)"
  shows "to_int32 (word_of_int D + 2442113 + of_int a - of_int (a sdiv 4)) = D + 2442125"
proof -
  have "(4 * D + 102032) div 146097 = (if D \<le> 11016 then 0 else 1)" using assms by auto
  moreover have "(4 * word_of_int D + 102032) div 146097 + 15 = (word_of_int ((4 * D + 102032) div 146097 + 15) :: u64)"
    using word_of_int_div_mod(1) [of "4 * D + 102032" 146097] assms by simp
  ultimately have "a = (if D \<le> 11016 then 15 else 16)" by (simp add: a_def to_int32_def)
  then have eq: "word_of_int D + 2442113 + of_int a - of_int (a sdiv 4) = (word_of_int (D + 2442125) :: u64)"
    by (auto simp: signed_divide_int_def)
  show ?thesis unfolding eq by (rule to_int32_small) (use assms(1,2) in simp_all)
qed

lemma converter_days:
  assumes date: "valid_date d m y" and D: "D = day_number d m y" and t: "0 \<le> t" "t < 86400"
  shows "converterEpochToDate (word_of_int (D * 86400 + t)) =
    TimeDescriptor (t mod 60) (t div 60 mod 60) (t div 3600) d m y"
proof -
  have Db: "0 \<le> D" "D \<le> 47481" using day_number_bounds [OF date] D by auto
  have Y0: "0 \<le> march_year m y" using date by (simp add: march_year_def valid_date_def)
  have year: "(20 * (D + 2442125) - 2442) sdiv 7305 = march_year m y"
    using recover_year [OF date] Db by (simp add: sdiv_nonneg D)
  have c: "D + 2442125 - 365 * march_year m y - march_year m y sdiv 4 = day_of_year d m + 122"
    using Y0 by (simp add: sdiv_nonneg D day_number_def)
  have "0 \<le> day_of_year d m" "0 \<le> march_month m"
    using day_of_year_bounds [OF date] date by (auto simp: march_month_def valid_date_def)
  then have month: "(day_of_year d m + 122) * 1000 sdiv 30601 = march_month m + 4"
    "day_of_year d m + 122 - (march_month m + 4) * 30 - (march_month m + 4) * 601 sdiv 1000 = d"
    using recover_month_day [OF date] by (simp_all add: sdiv_nonneg)
  have "(if march_month m + 4 \<le> 13 then (march_month m + 4 - 1, march_year m y - 4716)
         else (march_month m + 4 - 13, march_year m y - 4715)) = (m, y)"
    using date by (auto simp: march_month_def march_year_def valid_date_def)
  then show ?thesis
    unfolding converterEpochToDate_def Let_def epoch_split [OF Db t] shifted_day [OF Db] year c month by simp
qed

lemma unix_roundtrip:
  assumes date: "valid_date (uint d) (uint m) (uint y)" and "s < 60" "mi < 60" "h < 24"
  shows "converterEpochToDate (getUnixEpoch s mi h d m y) =
    TimeDescriptor (uint s) (uint mi) (uint h) (uint d) (uint m) (uint y)"
proof -
  let ?D = "day_number (uint d) (uint m) (uint y)" and ?t = "uint h * 3600 + uint mi * 60 + uint s"
  have b: "0 \<le> uint s" "uint s < 60" "0 \<le> uint mi" "uint mi < 60" "0 \<le> uint h" "uint h < 24"
    using assms(2-4) by (simp_all add: word_less_def)
  have "getUnixEpoch s mi h d m y = word_of_int (?D * 86400 + ?t)"
    by (simp add: getUnixEpoch_def getJulianDay_number [OF date])
  moreover have "?t = uint s + 60 * (uint h * 60 + uint mi)" "?t = (uint mi * 60 + uint s) + 3600 * uint h"
    "uint h * 60 + uint mi = uint mi + 60 * uint h" by simp_all
  then have "?t mod 60 = uint s" "?t div 60 = uint h * 60 + uint mi" "?t div 3600 = uint h"
    "(uint h * 60 + uint mi) mod 60 = uint mi"
    using b by (simp_all only: mod_mult_self2 div_mult_self2) simp_all
  ultimately show ?thesis using converter_days [OF date refl, of ?t] b by simp
qed

text \<open>C36: Unix time and back.  For every valid date from 1970 to 2099 and every time of day, the seconds
  since the epoch that \<open>getUnixEpoch\<close> computes with Julian day numbers are converted back to the same
  date and time by \<open>converterEpochToDate\<close>.\<close>
theorem epoch_roundtrip:
  assumes date: "valid_date (uint d) (uint m) (uint y)" and "s < 60" "mi < 60" "h < 24"
  shows "converterEpochToDate (getUnixEpoch s mi h d m y) =
    TimeDescriptor (uint s) (uint mi) (uint h) (uint d) (uint m) (uint y)"
  using assms by (rule unix_roundtrip)

theorem epoch_roundtrip_witness:
  "converterEpochToDate (getUnixEpoch 59 34 12 29 2 2024) = TimeDescriptor 59 34 12 29 2 2024"
  using epoch_roundtrip [of 29 2 2024 59 34 12] by (simp add: valid_date_def month_days_def leap_def)

section \<open>From the registers to the date\<close>

text \<open>The register contents of a chip that counts in binary coded decimals and 24 hours, with no update in
  progress.\<close>

definition enc_bcd :: "nat \<Rightarrow> u8" where
  "enc_bcd k = of_nat (16 * (k div 10) + k mod 10)"

definition chip_shows :: "(u8 \<Rightarrow> u8) \<Rightarrow> nat \<Rightarrow> nat \<Rightarrow> nat \<Rightarrow> nat \<Rightarrow> nat \<Rightarrow> nat \<Rightarrow> bool" where
  "chip_shows regs s mi h d m y \<longleftrightarrow>
     regs 0x00 = enc_bcd s \<and> regs 0x02 = enc_bcd mi \<and> regs 0x04 = enc_bcd h \<and> regs 0x07 = enc_bcd d \<and>
     regs 0x08 = enc_bcd m \<and> regs 0x09 = enc_bcd (y mod 100) \<and> regs 0x0A AND 0x80 = 0 \<and> regs 0x0B = 0x02"

lemma enc_bcd_range: "k < 100 \<Longrightarrow> 16 * (k div 10) + k mod 10 < (160 :: nat)"
  using div_le_mono [of k 99 10] mod_less_divisor [of 10 k] by simp

lemma ucast_enc_bcd: "k < 100 \<Longrightarrow> ucast (enc_bcd k) = (of_nat (16 * (k div 10) + k mod 10) :: u32)"
  using enc_bcd_range [of k]
  by (simp add: enc_bcd_def unsigned_of_nat take_bit_nat_eq_self del: of_nat_add of_nat_mult)

lemma bcd_enc:
  assumes "k < 100"
  shows "bcd (ucast (enc_bcd k)) = of_nat k"
proof -
  let ?x = "of_nat (16 * (k div 10) + k mod 10) :: u32"
  have u: "unat ?x = 16 * (k div 10) + k mod 10"
    using enc_bcd_range [OF assms] by (intro unat_of_nat_u32) simp
  have "?x AND 0x0F = take_bit 4 ?x" by (simp add: take_bit_eq_mask mask_eq_exp_minus_1)
  then have "unat (?x AND 0x0F) = k mod 10" "unat (?x div 16) = k div 10"
    using u by (simp_all add: unsigned_take_bit_eq take_bit_eq_mod unat_div unat_mod del: of_nat_add of_nat_mult)
  moreover have "w = of_nat n" if "unat w = n" for w :: u32 and n using that [symmetric] by simp
  ultimately have parts: "?x AND 0x0F = of_nat (k mod 10)" "?x div 16 = of_nat (k div 10)" by blast+
  have "bcd ?x = of_nat (k mod 10) + of_nat (k div 10) * 10" unfolding bcd_def parts ..
  also have "\<dots> = of_nat (k mod 10 + k div 10 * 10)" by (simp only: of_nat_add of_nat_mult of_nat_numeral)
  also have "\<dots> = of_nat k" by simp
  finally show ?thesis by (simp only: ucast_enc_bcd [OF assms])
qed

lemma hour_enc:
  assumes "h < 24"
  shows "(((ucast (enc_bcd h) :: u32) AND 0x0F) + ((ucast (enc_bcd h) AND 0x70) div 16) * 10) OR (ucast (enc_bcd h) AND 0x80)
           = of_nat h"
proof -
  have "h \<in> set [0..<24]" using assms by simp
  then show ?thesis by (simp add: upt_rec enc_bcd_def del: upt_Suc) (elim disjE; simp)
qed

lemma wait_update_idle: "regs 0x0A AND 0x80 = 0 \<Longrightarrow> wait_update (\<lambda>_. regs) n = Some (n + 1)"
  by (subst wait_update.simps) (simp add: getUpdateInProgress_def)

text \<open>On a chip that does not change, one more round of reading confirms the values.\<close>

definition raw_fields :: "(u8 \<Rightarrow> u8) \<Rightarrow> rtc" where
  "raw_fields regs = \<lparr>rtc_second = ucast (regs 0x00), rtc_minute = ucast (regs 0x02), rtc_hour = ucast (regs 0x04),
     rtc_day = ucast (regs 0x07), rtc_month = ucast (regs 0x08), rtc_year = ucast (regs 0x09),
     rtc_century = ucast (regs 0x00)\<rparr>"

lemma ucast_u8_zero: "ucast (x :: u8) = (0 :: u32) \<longleftrightarrow> x = 0"
proof -
  have "unat (ucast x :: u32) = unat x"
    using unsigned_less [of x, where 'a = nat] by (simp add: unsigned_ucast_eq take_bit_nat_eq_self)
  then show ?thesis by (metis unat_eq_zero unsigned_0)
qed

lemma read_loop_stable:
  assumes "regs 0x0A AND 0x80 = 0" "regs 0x08 \<noteq> 0"
  shows "\<exists>n'. read_loop (\<lambda>_. regs) rtc_zero (raw_fields regs) n = Some (raw_fields regs, n')"
proof -
  have "rtc_zero \<noteq> raw_fields regs" using assms(2) by (auto simp: rtc_zero_def raw_fields_def ucast_u8_zero)
  moreover have "fst (read_fields (\<lambda>_. regs) k (raw_fields regs)) = raw_fields regs" for k
    by (simp add: read_fields_def getRegister_def raw_fields_def)
  ultimately have "read_loop (\<lambda>_. regs) rtc_zero (raw_fields regs) n =
      read_loop (\<lambda>_. regs) (raw_fields regs) (raw_fields regs) (snd (read_fields (\<lambda>_. regs) (n + 1) (raw_fields regs)))"
    using wait_update_idle [of regs n] assms(1)
    by (subst read_loop.simps) (simp add: RTC_CURRENT_CENTURY_def split_beta)
  then show ?thesis by (subst (asm) (2) read_loop.simps) simp
qed

lemma rtc_read_stable:
  assumes "regs 0x0A AND 0x80 = 0" "regs 0x08 \<noteq> 0"
  shows "\<exists>n'. rtc_read (\<lambda>_. regs) n r =
    Some (full_year (to_24_hours (ucast (regs 0x0B)) (decode_bcd (ucast (regs 0x0B)) (raw_fields regs))), n')"
proof -
  have first: "read_fields (\<lambda>_. regs) (n + 1) r = (let r1 = raw_fields regs\<lparr>rtc_century := rtc_century r\<rparr> in (r1, n + 7))"
    by (simp add: read_fields_def getRegister_def raw_fields_def)
  obtain n' where "read_loop (\<lambda>_. regs) rtc_zero (raw_fields regs) (8 + n) = Some (raw_fields regs, n')"
    using read_loop_stable [OF assms] by blast
  moreover have "raw_fields regs\<lparr>rtc_century := ucast (regs 0)\<rparr> = raw_fields regs" by (simp add: raw_fields_def)
  ultimately show ?thesis
    using first wait_update_idle [of regs n] assms(1)
    by (simp add: rtc_read_def RTC_CURRENT_CENTURY_def getRegister_def)
qed

lemma chip_decoded:
  assumes c: "chip_shows regs s mi h d m y"
    and b: "s < 60" "mi < 60" "h < 24" "d < 32" "m < 13" "2021 \<le> y" "y < 2100"
  shows "\<exists>c. full_year (to_24_hours (ucast (regs 0x0B)) (decode_bcd (ucast (regs 0x0B)) (raw_fields regs))) =
    \<lparr>rtc_second = of_nat s, rtc_minute = of_nat mi, rtc_hour = of_nat h, rtc_day = of_nat d, rtc_month = of_nat m,
     rtc_year = of_nat y, rtc_century = c\<rparr>"
proof -
  obtain k where "y = 2000 + k" using b(6) le_Suc_ex [of 2000 y] by auto
  then have y: "y mod 100 + 2000 = y" "y mod 100 < 100" using b(7) mod_mult_self4 [of 100 20 k] by simp_all
  have "(of_nat (y mod 100) :: u32) + 2000 = of_nat (y mod 100 + 2000)" by simp
  then have fy: "(of_nat (y mod 100) :: u32) + 2000 = of_nat y" using y(1) by metis
  have "\<not> (of_nat y :: u32) < 2021" using b(6,7) by (simp add: word_less_nat_alt unat_of_nat_u32)
  then show ?thesis
    using c b fy y(2)
    by (simp add: chip_shows_def raw_fields_def decode_bcd_def to_24_hours_def full_year_def RTC_CURRENT_CENTURY_def
      RTC_CURRENT_YEAR_def bcd_enc hour_enc Let_def)
qed


definition demo_chip :: "u8 \<Rightarrow> u8" where
  "demo_chip = (\<lambda>_. 0)(0x00 := 0x59, 0x02 := 0x30, 0x04 := 0x23, 0x07 := 0x29, 0x08 := 0x02, 0x09 := 0x24, 0x0B := 0x02)"


text \<open>The conversion of a 12 hour clock maps noon to midnight and leaves midnight at twelve.\<close>

lemma noon_becomes_midnight:
  "rtc_hour (to_24_hours 0 (rtc_zero\<lparr>rtc_hour := 0x80 OR 12\<rparr>)) = 0"
  "rtc_hour (to_24_hours 0 (rtc_zero\<lparr>rtc_hour := 12\<rparr>)) = 12"
  by (simp_all add: to_24_hours_def)

end
