(* ===== verification/Primes.thy ===== *)
theory Primes
  imports Bitset
begin

text \<open>
  The prime sieve of \<open>Kernel/Applications/primes.cpp\<close> on the kernel's bitset.  The limit
  \<open>PRIME_MAX_SQRT\<close> is the argument \<open>r\<close>; with the value of the code all loop variables stay far below
  the range of \<open>size_t\<close> and are natural numbers.
\<close>

section \<open>The program\<close>

definition PRIME_MAX_SQRT :: nat where "PRIME_MAX_SQRT = 4000"

definition PRIME_MAX :: "nat \<Rightarrow> nat" where "PRIME_MAX r = r * r"

text \<open>The inner loop; \<open>find_primes\<close> only uses it with a positive step.\<close>

function clear_multiples :: "nat \<Rightarrow> nat \<Rightarrow> nat \<Rightarrow> bitset \<Rightarrow> bitset outcome" where
  "clear_multiples r p j b =
     (if j < PRIME_MAX r \<and> 0 < p then bindE (Clear j b) (clear_multiples r p (j + p)) else Inr b)"
  by pat_completeness auto
termination by (relation "measure (\<lambda>(r, p, j, b). PRIME_MAX r - j)") auto

declare clear_multiples.simps [simp del]

definition find_primes :: "nat \<Rightarrow> bitset \<Rightarrow> bitset outcome" where
  "find_primes r =
     foldE (\<lambda>p b. bindE (Test p b) (\<lambda>t. if t then clear_multiples r p (p * p) b else Inr b)) [2..<r]"

text \<open>The final count of \<open>show_primes\<close> and the percentage it shows while waiting.\<close>

definition count_primes :: "nat \<Rightarrow> bitset \<Rightarrow> nat outcome" where
  "count_primes r b =
     foldE (\<lambda>i n. bindE (Test i b) (\<lambda>t. Inr (n + (if t then 1 else 0)))) [2..<PRIME_MAX r] 0"

definition progress :: "nat \<Rightarrow> nat \<Rightarrow> nat" where
  "progress r prime_current = prime_current * 100 div r"

section \<open>Correctness\<close>

definition is_prime :: "nat \<Rightarrow> bool" where
  "is_prime n \<longleftrightarrow> 1 < n \<and> (\<forall>d. d dvd n \<longrightarrow> d = 1 \<or> d = n)"

lemma clear_multiples_spec:
  assumes "wf_bitset (PRIME_MAX r) b" "0 < p"
  shows "\<exists>b'. clear_multiples r p j b = Inr b' \<and> wf_bitset (PRIME_MAX r) b' \<and>
    (\<forall>i. bits b' i \<longleftrightarrow> bits b i \<and> \<not> (j \<le> i \<and> i < PRIME_MAX r \<and> p dvd (i - j)))"
  using assms
proof (induction r p j b rule: clear_multiples.induct)
  case (1 r p j b)
  show ?case
  proof (cases "j < PRIME_MAX r")
    case True
    obtain b1 where b1: "Clear j b = Inr b1" "wf_bitset (PRIME_MAX r) b1" "bits b1 = (bits b)(j := False)"
      using bs.clear_spec [of "PRIME_MAX r" b j] "1.prems"(1) True by (auto simp: wf_bitset_def)
    have next_multiple: "j \<le> i \<and> p dvd (i - j) \<longleftrightarrow> i = j \<or> j + p \<le> i \<and> p dvd (i - (j + p))" for i
    proof -
      have "p dvd (i - (j + p)) \<longleftrightarrow> p dvd (i - j)" if "j + p \<le> i"
        using that dvd_minus_self [of p "i - j"] by (auto simp: diff_diff_add)
      moreover have "i = j \<or> j + p \<le> i" if "j \<le> i" "p dvd (i - j)"
        using that dvd_imp_le [of p "i - j"] by fastforce
      ultimately show ?thesis using "1.prems"(2) by auto
    qed
    obtain b2 where b2: "clear_multiples r p (j + p) b1 = Inr b2" "wf_bitset (PRIME_MAX r) b2"
      "\<And>i. bits b2 i \<longleftrightarrow> bits b1 i \<and> \<not> (j + p \<le> i \<and> i < PRIME_MAX r \<and> p dvd (i - (j + p)))"
      using "1.IH" [of b1] True "1.prems"(2) b1(1,2) by blast
    have "bits b2 i \<longleftrightarrow> bits b i \<and> \<not> (j \<le> i \<and> i < PRIME_MAX r \<and> p dvd (i - j))" for i
      using b2(3) [of i] b1(3) next_multiple [of i] True by auto
    then show ?thesis
      using True b1(1) b2(1,2) "1.prems"(2) by (subst clear_multiples.simps) auto
  next
    case False
    then show ?thesis using "1.prems"(1) by (subst clear_multiples.simps) auto
  qed
qed

lemma composite_small_divisor:
  assumes "2 \<le> i" "\<not> is_prime i" "i < r * r"
  shows "\<exists>d. 2 \<le> d \<and> d < r \<and> d * d \<le> i \<and> d dvd (i :: nat)"
proof -
  obtain a where a: "a dvd i" "a \<noteq> 1" "a \<noteq> i" using assms by (auto simp: is_prime_def)
  then obtain c where c: "i = a * c" by (auto elim: dvdE)
  define d where "d = min a c"
  have "2 \<le> a" "2 \<le> c" using a c assms(1) by (cases a; cases c; auto)+
  then have d: "2 \<le> d" "d dvd i" "d * d \<le> i"
    using c by (auto simp: d_def min_def intro: mult_le_mono)
  moreover have "d < r"
  proof (rule ccontr)
    assume "\<not> d < r"
    then have "r * r \<le> d * d" by (simp add: mult_le_mono)
    then show False using d(3) assms(3) by simp
  qed
  ultimately show ?thesis by blast
qed

lemma prime_no_small_divisor: "is_prime i \<Longrightarrow> 2 \<le> d \<Longrightarrow> d * d \<le> i \<Longrightarrow> \<not> d dvd i"
proof
  assume "is_prime i" "2 \<le> d" "d * d \<le> i" "d dvd i"
  then have "d = i" "1 < i" by (auto simp: is_prime_def)
  moreover have "i < i * i" using \<open>1 < i\<close> by simp
  ultimately show False using \<open>d * d \<le> i\<close> by simp
qed

text \<open>After the numbers below \<open>k\<close> a bit is still set iff no number below \<open>k\<close> divides its index and has a
  square of at most the index.\<close>

definition sieved :: "nat \<Rightarrow> nat list \<Rightarrow> bitset \<Rightarrow> bool" where
  "sieved r ds b \<longleftrightarrow> wf_bitset (PRIME_MAX r) b \<and>
     (\<forall>i. 2 \<le> i \<and> i < PRIME_MAX r \<longrightarrow> bits b i = (\<forall>d \<in> set ds. \<not> (d * d \<le> i \<and> d dvd i)))"

lemma sieved_step:
  assumes s: "sieved r [2..<p] b" and p: "2 \<le> p" "p < r"
  shows "\<exists>b'. bindE (Test p b) (\<lambda>t. if t then clear_multiples r p (p * p) b else Inr b) = Inr b' \<and> sieved r ([2..<p] @ [p]) b'"
proof -
  have wf: "wf_bitset (PRIME_MAX r) b" using s by (simp add: sieved_def)
  have "r \<le> r * r" by simp
  then have "p < r * r" using p(2) by linarith
  then have pr: "p < PRIME_MAX r" by (simp add: PRIME_MAX_def)
  have test: "Test p b = Inr (bits b p)" using bs.test_spec [OF wf] pr wf by (simp add: wf_bitset_def)
  show ?thesis
  proof (cases "bits b p")
    case True
    have multiple: "p * p \<le> i \<and> p dvd (i - p * p) \<longleftrightarrow> p * p \<le> i \<and> p dvd i" for i
      using dvd_diffD [of p i "p * p"] by (auto intro: dvd_diff_nat)
    obtain b' where b': "clear_multiples r p (p * p) b = Inr b'" "wf_bitset (PRIME_MAX r) b'"
      "\<And>i. bits b' i \<longleftrightarrow> bits b i \<and> \<not> (p * p \<le> i \<and> i < PRIME_MAX r \<and> p dvd (i - p * p))"
      using clear_multiples_spec [OF wf, of p "p * p"] p(1) by auto
    have "bits b' i = (\<forall>d \<in> set ([2..<p] @ [p]). \<not> (d * d \<le> i \<and> d dvd i))" if "2 \<le> i" "i < PRIME_MAX r" for i
      using b'(3) [of i] multiple [of i] s that unfolding sieved_def by (auto simp del: set_upt)
    then show ?thesis using b'(1,2) True test by (auto simp: sieved_def)
  next
    case False
    then obtain e where e: "2 \<le> e" "e < p" "e * e \<le> p" "e dvd p" using s p pr by (auto simp: sieved_def)
    have "\<exists>d \<in> set [2..<p]. d * d \<le> i \<and> d dvd i" if "p * p \<le> i" "p dvd i" for i
    proof -
      have "e * e \<le> i" using e(3) that(1) p(1) mult_le_mono [of 1 p p p] by linarith
      then show ?thesis using e dvd_trans [OF e(4) that(2)] by (intro bexI [of _ e]) auto
    qed
    then have "sieved r ([2..<p] @ [p]) b" using s by (auto simp: sieved_def)
    then show ?thesis using False test by simp
  qed
qed

lemma find_primes_sieved:
  assumes "sieved r [] b"
  shows "\<exists>b'. find_primes r b = Inr b' \<and> sieved r [2..<r] b'"
  unfolding find_primes_def
proof (rule foldE_invariant [where I = "sieved r"])
  fix ys p zs t
  assume split: "[2..<r] = ys @ p # zs" and s: "sieved r ys t"
  have "ys = [2..<p]" "2 \<le> p" "p < r"
  proof -
    have "ys = take (length ys) [2..<r]" "p = [2..<r] ! length ys" "length ys < r - 2"
      using split by (simp_all del: upt_Suc add: nth_append) (metis length_upt length_append length_Cons add_Suc_right less_add_Suc1)
    then show "ys = [2..<p]" "2 \<le> p" "p < r" by (auto simp: take_upt)
  qed
  then show "\<exists>t'. bindE (Test p t) (\<lambda>u. if u then clear_multiples r p (p * p) t else Inr t) = Inr t' \<and>
      sieved r (ys @ [p]) t'"
    using sieved_step s by blast
qed (use assms in simp)

lemma sieve_primes:
  assumes "32 dvd PRIME_MAX r" "PRIME_MAX r < 2 ^ 32"
  shows "\<exists>b. find_primes r (Bitset_make (PRIME_MAX r) True) = Inr b \<and> wf_bitset (PRIME_MAX r) b \<and>
    (\<forall>i. 2 \<le> i \<longrightarrow> i < PRIME_MAX r \<longrightarrow> (bits b i \<longleftrightarrow> is_prime i))"
proof -
  have "sieved r [] (Bitset_make (PRIME_MAX r) True)"
    using assms by (simp add: sieved_def wf_Bitset_make bits_Bitset_make)
  then obtain b where b: "find_primes r (Bitset_make (PRIME_MAX r) True) = Inr b" "sieved r [2..<r] b"
    using find_primes_sieved by blast
  have "bits b i \<longleftrightarrow> is_prime i" if "2 \<le> i" "i < PRIME_MAX r" for i
  proof -
    have "bits b i = (\<forall>d \<in> set [2..<r]. \<not> (d * d \<le> i \<and> d dvd i))" using b(2) that by (simp add: sieved_def)
    also have "\<dots> \<longleftrightarrow> is_prime i"
      using composite_small_divisor [of i r] prime_no_small_divisor [of i] that(1) that(2) [unfolded PRIME_MAX_def]
      by (metis atLeastLessThan_iff set_upt)
    finally show ?thesis .
  qed
  then show ?thesis using b by (auto simp: sieved_def)
qed

lemma count_test:
  assumes "wf_bitset n b" "set is \<subseteq> {..<n}"
  shows "foldE (\<lambda>i c. bindE (Test i b) (\<lambda>t. Inr (c + (if t then 1 else 0)))) is c
           = Inr (c + length (filter (bits b) is))"
  using assms(2)
proof (induction "is" arbitrary: c)
  case (Cons i "is")
  then show ?case using bs.test_spec [OF assms(1), of i] assms(1) by (auto simp: wf_bitset_def)
qed simp

text \<open>C30: the sieve agrees with the definition of a prime.  \<open>find_primes\<close> on a full bitset ends without a fault
  and leaves set exactly the bits of the primes, and the count that \<open>show_primes\<close> prints is their
  number.\<close>
theorem sieve_finds_primes:
  assumes "32 dvd PRIME_MAX r" "PRIME_MAX r < 2 ^ 32"
  shows "\<exists>b. find_primes r (Bitset_make (PRIME_MAX r) True) = Inr b \<and>
    (\<forall>i. 2 \<le> i \<longrightarrow> i < PRIME_MAX r \<longrightarrow> Test i b = Inr (is_prime i)) \<and>
    count_primes r b = Inr (card {i. i < PRIME_MAX r \<and> is_prime i})"
proof -
  obtain b where b: "find_primes r (Bitset_make (PRIME_MAX r) True) = Inr b" "wf_bitset (PRIME_MAX r) b"
    "\<forall>i. 2 \<le> i \<longrightarrow> i < PRIME_MAX r \<longrightarrow> (bits b i \<longleftrightarrow> is_prime i)"
    using sieve_primes [OF assms] by blast
  have "Test i b = Inr (is_prime i)" if "2 \<le> i" "i < PRIME_MAX r" for i
    using bs.test_spec [OF b(2), of i] b that by (simp add: wf_bitset_def)
  moreover have "count_primes r b = Inr (card {i. i < PRIME_MAX r \<and> is_prime i})"
  proof -
    have "filter (bits b) [2..<PRIME_MAX r] = filter is_prime [2..<PRIME_MAX r]"
      using b(3) by (intro filter_cong) auto
    moreover have "length (filter is_prime [2..<PRIME_MAX r]) = card {i. i < PRIME_MAX r \<and> is_prime i}"
      by (subst distinct_card [symmetric]) (auto simp: is_prime_def intro: arg_cong [where f = card])
    moreover have "count_primes r b = Inr (0 + length (filter (bits b) [2..<PRIME_MAX r]))"
      unfolding count_primes_def by (rule count_test [OF b(2)]) auto
    ultimately show ?thesis by simp
  qed
  ultimately show ?thesis using b(1) by blast
qed

theorem sieve_finds_primes_witness:
  "\<exists>b. find_primes PRIME_MAX_SQRT (Bitset_make (PRIME_MAX PRIME_MAX_SQRT) True) = Inr b \<and>
    (\<forall>i. 2 \<le> i \<longrightarrow> i < PRIME_MAX PRIME_MAX_SQRT \<longrightarrow> Test i b = Inr (is_prime i)) \<and>
    count_primes PRIME_MAX_SQRT b = Inr (card {i. i < PRIME_MAX PRIME_MAX_SQRT \<and> is_prime i})"
  by (rule sieve_finds_primes) (simp_all add: PRIME_MAX_def PRIME_MAX_SQRT_def)

end
