(* ===== verification/Interrupts.thy ===== *)
theory Interrupts
  imports Xyris_Prelude
begin

text \<open>
  Descriptor tables, interrupt dispatch, the timer and the devices driven by a few port writes:
  \<open>Kernel/Arch/i686/{gdt,idt,isr,timer}.cpp\<close>, \<open>Kernel/Devices/PCSpeaker/spkr.cpp\<close> and the set-up of the
  clock chip in \<open>rtc.cpp\<close>.  The hardware is seen through the ports: the state keeps the log of all bytes
  written, and a byte that is read is an argument.  A handler is a value of an arbitrary type.
\<close>

section \<open>Ports\<close>

type_synonym port_log = "(u16 \<times> u8) list"

definition writeByte :: "u16 \<Rightarrow> u8 \<Rightarrow> port_log \<Rightarrow> port_log" where
  "writeByte port data l = l @ [(port, data)]"

definition writeBytes :: "(u16 \<times> u8) list \<Rightarrow> port_log \<Rightarrow> port_log" where
  "writeBytes = fold (\<lambda>(p, d). writeByte p d)"

lemma writeBytes_append: "writeBytes ps l = l @ ps"
  by (induction ps arbitrary: l) (auto simp: writeBytes_def writeByte_def)

section \<open>The global descriptor table\<close>

definition Limit_low :: "u32 \<Rightarrow> 16 word" where "Limit_low v = ucast v"
definition Limit_high :: "u32 \<Rightarrow> 4 word" where "Limit_high v = ucast (drop_bit 16 v)"
definition Base_low :: "u32 \<Rightarrow> 24 word" where "Base_low v = ucast v"
definition Base_high :: "u32 \<Rightarrow> 8 word" where "Base_high v = ucast (drop_bit 24 v)"

record gdt_entry =
  g_limit_low :: "16 word"
  g_base_low :: "24 word"
  g_accessed :: "1 word"
  g_rw :: "1 word"
  g_dc :: "1 word"
  g_executable :: "1 word"
  g_system :: "1 word"
  g_privilege :: "2 word"
  g_present :: "1 word"
  g_limit_high :: "4 word"
  g_reserved :: "1 word"
  g_longMode :: "1 word"
  g_size :: "1 word"
  g_granulatity :: "1 word"
  g_base_high :: "8 word"

definition null_segment :: gdt_entry where
  "null_segment = \<lparr>g_limit_low = Limit_low 0, g_base_low = Base_low 0, g_accessed = 0, g_rw = 0, g_dc = 0,
     g_executable = 0, g_system = 0, g_privilege = 0, g_present = 0, g_limit_high = Limit_high 0, g_reserved = 0,
     g_longMode = 0, g_size = 0, g_granulatity = 0, g_base_high = Base_high 0\<rparr>"

definition kernel_code :: gdt_entry where
  "kernel_code = \<lparr>g_limit_low = Limit_low 0x000FFFFF, g_base_low = Base_low 0, g_accessed = 0, g_rw = 1, g_dc = 0,
     g_executable = 1, g_system = 1, g_privilege = 0, g_present = 1, g_limit_high = Limit_high 0x000FFFFF,
     g_reserved = 0, g_longMode = 0, g_size = 1, g_granulatity = 1, g_base_high = Base_high 0\<rparr>"

definition kernel_data :: gdt_entry where
  "kernel_data = \<lparr>g_limit_low = Limit_low 0x000FFFFF, g_base_low = Base_low 0, g_accessed = 0, g_rw = 1, g_dc = 0,
     g_executable = 0, g_system = 1, g_privilege = 0, g_present = 1, g_limit_high = Limit_high 0x000FFFFF,
     g_reserved = 0, g_longMode = 0, g_size = 1, g_granulatity = 1, g_base_high = Base_high 0\<rparr>"

definition user_code :: gdt_entry where
  "user_code = \<lparr>g_limit_low = Limit_low 0x000FFFFF, g_base_low = Base_low 0, g_accessed = 0, g_rw = 1, g_dc = 0,
     g_executable = 1, g_system = 1, g_privilege = 3, g_present = 1, g_limit_high = Limit_high 0x000FFFFF,
     g_reserved = 0, g_longMode = 0, g_size = 1, g_granulatity = 1, g_base_high = Base_high 0\<rparr>"

definition user_data :: gdt_entry where
  "user_data = \<lparr>g_limit_low = Limit_low 0x000FFFFF, g_base_low = Base_low 0, g_accessed = 0, g_rw = 1, g_dc = 0,
     g_executable = 0, g_system = 1, g_privilege = 3, g_present = 1, g_limit_high = Limit_high 0x000FFFFF,
     g_reserved = 0, g_longMode = 0, g_size = 1, g_granulatity = 1, g_base_high = Base_high 0\<rparr>"

record table_register =
  tr_size :: u16
  tr_base :: u32

text \<open>\<open>GDT::init\<close> gives the table and the register loaded from it; an entry has eight bytes.\<close>

definition GDT_init :: "u32 \<Rightarrow> gdt_entry list \<times> table_register" where
  "GDT_init gdt_addr =
     (let gdt = [null_segment, kernel_code, kernel_data, user_code, user_data]
      in (gdt, \<lparr>tr_size = of_nat (8 * length gdt) - 1, tr_base = gdt_addr\<rparr>))"

text \<open>The eight bytes of the packed structure, as one number.\<close>

definition pack_entry :: "gdt_entry \<Rightarrow> u64" where
  "pack_entry e = ucast (g_limit_low e) OR push_bit 16 (ucast (g_base_low e)) OR push_bit 40 (ucast (g_accessed e))
     OR push_bit 41 (ucast (g_rw e)) OR push_bit 42 (ucast (g_dc e)) OR push_bit 43 (ucast (g_executable e))
     OR push_bit 44 (ucast (g_system e)) OR push_bit 45 (ucast (g_privilege e)) OR push_bit 47 (ucast (g_present e))
     OR push_bit 48 (ucast (g_limit_high e)) OR push_bit 52 (ucast (g_reserved e)) OR push_bit 53 (ucast (g_longMode e))
     OR push_bit 54 (ucast (g_size e)) OR push_bit 55 (ucast (g_granulatity e)) OR push_bit 56 (ucast (g_base_high e))"

lemmas gdt_defs = null_segment_def kernel_code_def kernel_data_def user_code_def user_data_def
  Limit_low_def Limit_high_def Base_low_def Base_high_def

lemma GDT_init_descriptors:
  "map pack_entry (fst (GDT_init a)) =
     [0, 0x00CF9A000000FFFF, 0x00CF92000000FFFF, 0x00CFFA000000FFFF, 0x00CFF2000000FFFF]"
  "tr_size (snd (GDT_init a)) = 39"
  by (simp_all add: GDT_init_def pack_entry_def gdt_defs Let_def)

section \<open>The interrupt descriptor table\<close>

definition INTERRUPT_GATE_32_BIT :: "4 word" where "INTERRUPT_GATE_32_BIT = 0xE"

record segment_selector =
  s_privilege :: "2 word"
  s_table :: "1 word"
  s_index :: "13 word"

record gate =
  offset_low :: u16
  selector :: segment_selector
  gate_reserved :: u8
  gate_type :: "4 word"
  gate_offset :: "1 word"
  gate_privilege :: "2 word"
  gate_present :: "1 word"
  offset_high :: u16

definition setGate :: "nat \<Rightarrow> u32 \<Rightarrow> gate list \<Rightarrow> gate list outcome" where
  "setGate n handler_addr idt =
     (if n < length idt
      then Inr (idt[n := \<lparr>offset_low = ucast handler_addr,
                          selector = \<lparr>s_privilege = 0, s_table = 0, s_index = 1\<rparr>,
                          gate_reserved = 0, gate_type = INTERRUPT_GATE_32_BIT, gate_offset = 0,
                          gate_privilege = 0, gate_present = 1,
                          offset_high = ucast (drop_bit 16 handler_addr)\<rparr>])
      else Inl OutOfBounds)"

text \<open>\<open>IDT::init\<close>: the register that is loaded.\<close>

definition IDT_init :: "u32 \<Rightarrow> gate list \<Rightarrow> table_register" where
  "IDT_init idt_addr idt = \<lparr>tr_size = of_nat (8 * length idt) - 1, tr_base = idt_addr\<rparr>"

section \<open>Interrupt service routines\<close>

definition ARCH_EXCEPTION_NUM :: nat where "ARCH_EXCEPTION_NUM = 32"
definition ARCH_INTERRUPT_NUM :: nat where "ARCH_INTERRUPT_NUM = 16"

text \<open>\<open>enum Interrupt\<close>, in the order of the interrupt lines.\<close>

definition INTERRUPT :: "u8 list" where
  "INTERRUPT = [0x20, 0x21, 0x22, 0x23, 0x24, 0x35, 0x26, 0x27, 0x28, 0x29, 0x2A, 0x2B, 0x2C, 0x2D, 0x2E, 0x2F]"

definition EXCEPTION_PAGE_FAULT :: u8 where "EXCEPTION_PAGE_FAULT = 0x0E"

definition pic_remap :: "(u16 \<times> u8) list" where
  "pic_remap = [(0x20, 0x11), (0xA0, 0x11), (0x21, 0x20), (0xA1, 0x28), (0x21, 0x04), (0xA1, 0x02),
                (0x21, 0x01), (0xA1, 0x01), (0x21, 0x0), (0xA1, 0x0)]"

text \<open>\<open>Interrupts::init\<close>, with the addresses of the assembly stubs as arguments.\<close>

definition Interrupts_init ::
    "(nat \<Rightarrow> u32) \<Rightarrow> (nat \<Rightarrow> u32) \<Rightarrow> u32 \<Rightarrow> gate list \<times> port_log \<Rightarrow> (gate list \<times> port_log \<times> table_register) outcome" where
  "Interrupts_init exceptionStub interruptStub idt_addr = (\<lambda>(idt, l).
     bindE (foldE (\<lambda>e. setGate e (exceptionStub e)) [0..<32] idt) (\<lambda>idt1.
     let l1 = writeBytes pic_remap l in
     bindE (foldE (\<lambda>i. setGate (32 + i) (interruptStub i)) [0..<ARCH_INTERRUPT_NUM] idt1) (\<lambda>idt2.
     Inr (idt2, l1, IDT_init idt_addr idt2))))"

type_synonym 'h handlers = "u8 \<Rightarrow> 'h option"

definition registerHandler :: "u8 \<Rightarrow> 'h \<Rightarrow> 'h handlers \<Rightarrow> 'h handlers" where
  "registerHandler interrupt handler hs = hs(interrupt := Some handler)"

text \<open>\<open>interruptHandler\<close>: acknowledges the interrupt and gives the handler to be called, if any.\<close>

definition interruptHandler :: "u32 \<Rightarrow> 'h handlers \<Rightarrow> port_log \<Rightarrow> ('h option \<times> port_log) outcome" where
  "interruptHandler int_num hs l =
     (let l1 = (if int_num \<ge> 0x28 then writeByte 0xA0 0x20 l else l);
          l2 = writeByte 0x20 0x20 l1
      in if int_num < 256 then Inr (hs (ucast int_num), l2) else Inl OutOfBounds)"

definition exceptionHandler :: "'a outcome" where
  "exceptionHandler = Inl (Panic ''Kernel exception - Dumping register state...'')"

section \<open>The timer\<close>

definition MAX_CALLBACKS :: nat where "MAX_CALLBACKS = 8"

record 'f timer =
  timer_tick :: u32
  callback_count :: nat
  callbacks :: "'f option list"

definition timer_start :: "'f timer" where
  "timer_start = \<lparr>timer_tick = 0, callback_count = 0, callbacks = replicate MAX_CALLBACKS None\<rparr>"

definition timer_init :: "u32 \<Rightarrow> 'h \<Rightarrow> 'h handlers \<Rightarrow> port_log \<Rightarrow> ('h handlers \<times> port_log) outcome" where
  "timer_init freq callback hs l =
     (let hs1 = registerHandler 0x20 callback hs in
      if freq = 0 then Inl DivideByZero
      else (let divisor = 1193180 div freq
            in Inr (hs1, writeBytes [(0x43, 0x36), (0x40, ucast (divisor AND 0xFF)),
                                     (0x40, ucast (drop_bit 8 divisor AND 0xFF))] l)))"

text \<open>A callback sees the tick that was already counted.\<close>

definition timer_callback :: "('f \<Rightarrow> u32 \<Rightarrow> 's \<Rightarrow> 's) \<Rightarrow> 'f timer \<Rightarrow> 's \<Rightarrow> ('f timer \<times> 's) outcome" where
  "timer_callback call t s =
     (let t1 = t\<lparr>timer_tick := timer_tick t + 1\<rparr> in
      bindE (foldE (\<lambda>i s. if i < length (callbacks t1)
                         then (case callbacks t1 ! i of
                                 None \<Rightarrow> Inl NullDeref
                               | Some f \<Rightarrow> Inr (call f (timer_tick t1) s))
                         else Inl OutOfBounds) [0..<callback_count t1] s)
        (\<lambda>s1. Inr (t1, s1)))"

definition timer_register_callback :: "'f \<Rightarrow> 'f timer \<Rightarrow> 'f timer" where
  "timer_register_callback func t =
     (if callback_count t < MAX_CALLBACKS - 1
      then t\<lparr>callbacks := (callbacks t)[callback_count t := Some func], callback_count := callback_count t + 1\<rparr>
      else t)"

text \<open>\<open>sleep\<close> polls the tick; \<open>ticks k\<close> is its value at the \<open>k\<close>-th poll and the result the number of
  polls.\<close>

partial_function (option) sleep_loop :: "(nat \<Rightarrow> u32) \<Rightarrow> u32 \<Rightarrow> nat \<Rightarrow> nat option" where
  "sleep_loop ticks final k = (if ticks k < final then sleep_loop ticks final (k + 1) else Some k)"

definition timer_sleep :: "(nat \<Rightarrow> u32) \<Rightarrow> u32 \<Rightarrow> nat option" where
  "timer_sleep ticks ms = (let start = ticks 0; final = start + ms in sleep_loop ticks final 1)"

section \<open>Speaker and clock chip set-up\<close>

definition spkr_tone :: "u32 \<Rightarrow> u8 \<Rightarrow> port_log \<Rightarrow> port_log outcome" where
  "spkr_tone freq tmp l =
     (if freq = 0 then Inl DivideByZero
      else (let d = 1193180 div freq;
                l1 = writeBytes [(0x43, 0xB6), (0x42, ucast d), (0x42, ucast (drop_bit 8 d))] l
            in Inr (if tmp \<noteq> tmp OR 3 then writeByte 0x61 (tmp OR 3) l1 else l1)))"

definition spkr_stop :: "u8 \<Rightarrow> port_log \<Rightarrow> port_log" where
  "spkr_stop in61 l = writeByte 0x61 (in61 AND 0xFC) l"

definition spkr_beep :: "(nat \<Rightarrow> u32) \<Rightarrow> u32 \<Rightarrow> u32 \<Rightarrow> u8 \<Rightarrow> u8 \<Rightarrow> port_log \<Rightarrow> port_log outcome" where
  "spkr_beep ticks freq ms in1 in2 l =
     bindE (spkr_tone freq in1 l) (\<lambda>l1.
       case timer_sleep ticks ms of None \<Rightarrow> Inl Hang | Some _ \<Rightarrow> Inr (spkr_stop in2 l1))"

definition rtc_init :: "'h \<Rightarrow> u8 \<Rightarrow> 'h handlers \<Rightarrow> port_log \<Rightarrow> 'h handlers \<times> port_log" where
  "rtc_init callback prev hs l =
     (registerHandler 0x28 callback hs,
      writeBytes [(0x70, 0x8A), (0x71, 0x20), (0x70, 0x8B), (0x70, 0x8B), (0x71, prev OR 0x40)] l)"

section \<open>Gates, dispatch and waiting\<close>

text \<open>The address the processor puts together from the two halves of a gate.\<close>

definition gate_address :: "gate \<Rightarrow> u32" where
  "gate_address g = ucast (offset_low g) OR push_bit 16 (ucast (offset_high g))"

definition kernel_gate :: "u32 \<Rightarrow> gate" where
  "kernel_gate a =
     \<lparr>offset_low = ucast a, selector = \<lparr>s_privilege = 0, s_table = 0, s_index = 1\<rparr>,
      gate_reserved = 0, gate_type = INTERRUPT_GATE_32_BIT, gate_offset = 0, gate_privilege = 0,
      gate_present = 1, offset_high = ucast (drop_bit 16 a)\<rparr>"

lemma gate_address_kernel_gate [simp]: "gate_address (kernel_gate a) = a"
  by (rule bit_word_eqI)
    (auto simp: gate_address_def kernel_gate_def bit_or_iff bit_push_bit_iff bit_unsigned_iff
      bit_drop_bit_eq not_le dest: bit_imp_le_length)

lemma setGate_kernel_gate: "n < length idt \<Longrightarrow> setGate n a idt = Inr (idt[n := kernel_gate a])"
  by (simp add: setGate_def kernel_gate_def)

lemma setGate_loop:
  "off + m \<le> length idt \<Longrightarrow>
     \<exists>idt'. foldE (\<lambda>i. setGate (off + i) (stub i)) [0..<m] idt = Inr idt' \<and> length idt' = length idt \<and>
       (\<forall>n. idt' ! n = (if off \<le> n \<and> n < off + m then kernel_gate (stub (n - off)) else idt ! n))"
proof (induction m)
  case (Suc m)
  then obtain idt' where "foldE (\<lambda>i. setGate (off + i) (stub i)) [0..<m] idt = Inr idt'" "length idt' = length idt"
      "\<forall>n. idt' ! n = (if off \<le> n \<and> n < off + m then kernel_gate (stub (n - off)) else idt ! n)"
    by auto
  with Suc.prems show ?case by (auto simp: foldE_append setGate_kernel_gate nth_list_update)
qed auto

lemma Interrupts_init_stubs:
  assumes "length idt = 256"
  shows "\<exists>idt'. Interrupts_init exceptionStub interruptStub a (idt, l) =
             Inr (idt', l @ pic_remap, \<lparr>tr_size = 0x7FF, tr_base = a\<rparr>) \<and> length idt' = 256 \<and>
           (\<forall>n. idt' ! n = (if n < 32 then kernel_gate (exceptionStub n)
              else if n < 48 then kernel_gate (interruptStub (n - 32)) else idt ! n))"
proof -
  obtain idt1 where 1: "foldE (\<lambda>e. setGate e (exceptionStub e)) [0..<32] idt = Inr idt1" "length idt1 = 256"
      "\<And>n. idt1 ! n = (if n < 32 then kernel_gate (exceptionStub n) else idt ! n)"
    using setGate_loop [of 0 32 idt exceptionStub] assms by auto
  obtain idt2 where 2: "foldE (\<lambda>i. setGate (32 + i) (interruptStub i)) [0..<16] idt1 = Inr idt2"
      "length idt2 = 256"
      "\<And>n. idt2 ! n = (if 32 \<le> n \<and> n < 48 then kernel_gate (interruptStub (n - 32)) else idt1 ! n)"
    using setGate_loop [of 32 16 idt1 interruptStub] 1(2) by auto
  have "Interrupts_init exceptionStub interruptStub a (idt, l) =
      Inr (idt2, l @ pic_remap, \<lparr>tr_size = 0x7FF, tr_base = a\<rparr>)"
    by (simp only: Interrupts_init_def prod.case ARCH_INTERRUPT_NUM_def 1(1) 2(1) bindE_simps Let_def)
      (simp add: writeBytes_append IDT_init_def 2(2))
  then show ?thesis by (auto simp: 2 1(3))
qed

text \<open>After \<open>Interrupts::init\<close> on the table of 256 gates, the exception vectors 0 to 31 and the
  interrupt vectors 32 to 47 lead to exactly their stubs, through present 32-bit interrupt gates of
  ring 0 in the kernel's code segment; every other gate is as it was, the controllers were given the ten
  bytes of the remapping and the register describes the whole table.\<close>

theorem Interrupts_init_gates:
  assumes "length idt = 256"
  shows "\<exists>idt'. Interrupts_init exceptionStub interruptStub a (idt, l) =
             Inr (idt', l @ pic_remap, \<lparr>tr_size = 0x7FF, tr_base = a\<rparr>) \<and> length idt' = 256 \<and>
           (\<forall>n<48. gate_address (idt' ! n) = (if n < 32 then exceptionStub n else interruptStub (n - 32)) \<and>
              gate_type (idt' ! n) = INTERRUPT_GATE_32_BIT \<and> gate_present (idt' ! n) = 1 \<and>
              gate_privilege (idt' ! n) = 0 \<and> s_index (selector (idt' ! n)) = 1) \<and>
           (\<forall>n. 48 \<le> n \<longrightarrow> idt' ! n = idt ! n)"
proof -
  have "gate_type (kernel_gate x) = INTERRUPT_GATE_32_BIT" "gate_present (kernel_gate x) = 1"
      "gate_privilege (kernel_gate x) = 0" "s_index (selector (kernel_gate x)) = 1" for x
    by (simp_all add: kernel_gate_def)
  then show ?thesis using Interrupts_init_stubs [OF assms, of exceptionStub interruptStub a l] by auto
qed

text \<open>The whole table, starting from zeroed gates.\<close>

theorem Interrupts_init_gates_witness:
  "\<exists>idt'. Interrupts_init (\<lambda>n. 0x1000 + of_nat n) (\<lambda>n. 0xC0002000 + of_nat n) 0x9000
             (replicate 256 (kernel_gate 0), []) = Inr (idt', pic_remap, \<lparr>tr_size = 0x7FF, tr_base = 0x9000\<rparr>)
      \<and> gate_address (idt' ! 14) = 0x100E \<and> gate_address (idt' ! 33) = 0xC0002001"
proof -
  have g: "\<forall>n<48. P n \<Longrightarrow> P 14 \<and> P (33 :: nat)" for P by simp
  show ?thesis
    using Interrupts_init_gates [of "replicate 256 (kernel_gate 0)", where exceptionStub = "\<lambda>n. 0x1000 + of_nat n"
        and interruptStub = "\<lambda>n. 0xC0002000 + of_nat n" and a = "0x9000" and l = "[]"]
    by (auto dest!: g)
qed

text \<open>The dispatcher on the vector of a line.\<close>

lemma dispatch_line:
  assumes "i < 16"
  shows "interruptHandler (of_nat (32 + i)) hs l =
           Inr (hs (of_nat (32 + i)), l @ (if 8 \<le> i then [(0xA0, 0x20)] else []) @ [(0x20, 0x20)])"
proof -
  have "i \<in> {0, 1, 2, 3, 4, 5, 6, 7, 8, 9, 10, 11, 12, 13, 14, 15}"
    using assms by (simp only: insert_iff empty_iff) presburger
  then show ?thesis by (elim insertE emptyE) (simp_all add: interruptHandler_def writeByte_def)
qed

text \<open>A handler registered for interrupt line \<open>i\<close> under its name \<open>INTERRUPT_i\<close> is what the dispatcher
  runs for the vector that line raises, for every line but 5, whose name has the value \<open>0x35\<close>; the second
  controller is acknowledged exactly for lines 8 to 15, before the first one, which always is.\<close>

theorem interrupt_line_dispatch:
  assumes "i < 16"
  shows "interruptHandler (32 + of_nat i) (registerHandler (INTERRUPT ! i) h (\<lambda>_. None)) l =
           Inr (if i = 5 then None else Some h, l @ (if 8 \<le> i then [(0xA0, 0x20)] else []) @ [(0x20, 0x20)])"
proof -
  have "i \<in> {0, 1, 2, 3, 4, 5, 6, 7, 8, 9, 10, 11, 12, 13, 14, 15}"
    using assms by (simp only: insert_iff empty_iff) presburger
  then show ?thesis
    by (elim insertE emptyE) (simp_all add: interruptHandler_def registerHandler_def INTERRUPT_def writeByte_def)
qed

theorem interrupt_line_dispatch_witness:
  "interruptHandler 0x28 (registerHandler 0x28 True (\<lambda>_. None)) [] =
     Inr (Some True, [(0xA0, 0x20), (0x20, 0x20)])"
  using interrupt_line_dispatch [of 8 True "[]"] by (simp add: INTERRUPT_def)

text \<open>\<open>timer_register_callback\<close> keeps the registered prefix filled, so the callback never meets a null or
  a slot outside the array; the eighth slot is never used.\<close>

definition timer_ok :: "'f timer \<Rightarrow> bool" where
  "timer_ok t \<longleftrightarrow> length (callbacks t) = MAX_CALLBACKS \<and> callback_count t < MAX_CALLBACKS \<and>
     (\<forall>i<callback_count t. callbacks t ! i \<noteq> None)"

lemma timer_ok_start: "timer_ok timer_start"
  by (simp add: timer_ok_def timer_start_def MAX_CALLBACKS_def)

lemma timer_ok_register: "timer_ok t \<Longrightarrow> timer_ok (timer_register_callback f t)"
  by (auto simp: timer_ok_def timer_register_callback_def MAX_CALLBACKS_def nth_list_update less_Suc_eq)

lemma timer_callback_loop:
  assumes "m \<le> length cs" "\<forall>i<m. cs ! i \<noteq> None"
  shows "foldE (\<lambda>i s. if i < length cs
                      then (case cs ! i of None \<Rightarrow> Inl NullDeref | Some f \<Rightarrow> Inr (call f tick s))
                      else Inl OutOfBounds) [0..<m] s =
         Inr (fold (\<lambda>c. call (the c) tick) (take m cs) s)"
  using assms
proof (induction m)
  case (Suc m)
  then have "m < length cs" "cs ! m \<noteq> None" by auto
  with Suc show ?case by (auto simp: foldE_append take_Suc_conv_app_nth)
qed simp

lemma timer_callback_runs_all:
  "timer_ok t \<Longrightarrow> timer_callback call t s =
     Inr (t\<lparr>timer_tick := timer_tick t + 1\<rparr>,
          fold (\<lambda>c. call (the c) (timer_tick t + 1)) (take (callback_count t) (callbacks t)) s)"
  using timer_callback_loop [of "callback_count t" "callbacks (t\<lparr>timer_tick := timer_tick t + 1\<rparr>)" call
      "timer_tick (t\<lparr>timer_tick := timer_tick t + 1\<rparr>)" s]
  by (simp add: timer_callback_def Let_def timer_ok_def)

text \<open>\<open>sleep\<close> ends at the first poll that sees the final tick or a later one.  A final tick that wraps
  around is already reached: \<open>sleep\<close> then returns at its first poll.\<close>

lemma sleep_loop_first:
  assumes "k \<le> n" "\<And>j. k \<le> j \<Longrightarrow> j < n \<Longrightarrow> ticks j < final" "\<not> ticks n < final"
  shows "sleep_loop ticks final k = Some n"
  using assms
proof (induction "n - k" arbitrary: k)
  case 0
  then show ?case by (subst sleep_loop.simps) simp
next
  case (Suc d)
  then have "sleep_loop ticks final (Suc k) = Some n" by simp
  with Suc show ?case by (subst sleep_loop.simps) simp
qed

lemma timer_sleep_first:
  "0 < n \<Longrightarrow> (\<And>j. 0 < j \<Longrightarrow> j < n \<Longrightarrow> ticks j < ticks 0 + ms) \<Longrightarrow> \<not> ticks n < ticks 0 + ms \<Longrightarrow>
     timer_sleep ticks ms = Some n"
  by (simp add: timer_sleep_def Let_def sleep_loop_first)

lemma timer_sleep_ends:
  assumes "0 < j" "\<not> ticks j < ticks 0 + ms"
  shows "\<exists>n. timer_sleep ticks ms = Some n"
proof -
  let ?P = "\<lambda>n. 0 < n \<and> \<not> ticks n < ticks 0 + ms"
  have "?P (LEAST n. ?P n)" by (rule LeastI [of ?P j]) (use assms in simp)
  moreover have "ticks i < ticks 0 + ms" if "0 < i" "i < (LEAST n. ?P n)" for i
    using not_less_Least [OF that(2)] that(1) by blast
  ultimately show ?thesis using timer_sleep_first [of "LEAST n. ?P n" ticks ms] by blast
qed

lemma timer_sleep_wraps:
  assumes "2 ^ 32 \<le> unat (ticks 0) + unat ms" "ticks 0 \<le> ticks 1"
  shows "timer_sleep ticks ms = Some 1"
proof (rule timer_sleep_first)
  have "ticks 0 + ms \<le> ticks 0"
    using assms(1) unat_lt_u32 [of ms] unat_lt_u32 [of "ticks 0"]
    by (auto simp: word_le_nat_alt unat_word_ariths le_mod_geq)
  then show "\<not> ticks 1 < ticks 0 + ms" using assms(2) by simp
qed simp_all

end
