(* ===== verification/Stage1.thy ===== *)
theory Stage1
  imports Arch_Memory
begin

text \<open>
  The first boot stage, \<open>Kernel/Arch/i686/Bootloader/stivale2.c\<close>: it builds the page tables the kernel
  starts with.  The four static tables lie in memory at addresses given by the linker; an entry is found
  by its address, because the code indexes across two adjacent tables and follows the table address of a
  directory entry.  The boot loader's tag list is a parameter: a tag is looked up by its address, and its
  identifier is its constructor.
\<close>

section \<open>Boot loader information\<close>

datatype mmap_type = MMAP_USABLE | MMAP_RESERVED | MMAP_ACPI_RECLAIMABLE | MMAP_ACPI_NVS | MMAP_BAD_MEMORY
  | MMAP_BOOTLOADER_RECLAIMABLE | MMAP_KERNEL_AND_MODULES | MMAP_OTHER

record mmap_entry =
  e_base :: u64
  e_length :: u64
  e_type :: mmap_type

record framebuffer_tag =
  t_framebuffer_addr :: u64
  t_framebuffer_width :: u16
  t_framebuffer_height :: u16
  t_framebuffer_pitch :: u16
  t_framebuffer_bpp :: u16
  t_memory_model :: u8
  t_red_mask_size :: u8
  t_red_mask_shift :: u8
  t_green_mask_size :: u8
  t_green_mask_shift :: u8
  t_blue_mask_size :: u8
  t_blue_mask_shift :: u8

datatype tag_body = TAG_MEMMAP "mmap_entry list" | TAG_CMDLINE u64 | TAG_FRAMEBUFFER framebuffer_tag | TAG_OTHER

record stivale2_tag =
  t_body :: tag_body
  t_next :: u64

type_synonym tags = "u32 \<Rightarrow> stivale2_tag"

section \<open>State\<close>

record stage1_layout =
  l_pageDirectory :: u32
  l_lowMemoryPageTable :: u32
  l_kernelPageTable :: u32
  l_bootPageTable :: u32
  l_EARLY_KERNEL_END :: u32
  l_KERNEL_BASE :: u32
  l_KERNEL_START :: u32
  l_KERNEL_END :: u32

record stage1 =
  directory :: "nat \<Rightarrow> directory_entry"
  table_memory :: "u32 \<Rightarrow> table_entry"
  cr3 :: u32
  pagingEnable :: bool

definition stage1_start :: stage1 where
  "stage1_start =
     \<lparr>directory = (\<lambda>_. \<lparr>de_present = False, de_readWrite = False, de_usermode = False,
        de_writeThrough = False, de_cacheDisable = False, de_accessed = False, de_ignoredA = False,
        de_size = False, de_ignoredB = 0, de_tableAddr = 0\<rparr>),
      table_memory = (\<lambda>_. \<lparr>te_present = False, te_readWrite = False, te_usermode = False,
        te_writeThrough = False, te_cacheDisable = False, te_accessed = False, te_dirty = False,
        te_pageAttrTable = False, te_global = False, te_unused = 0, te_pageAddr = 0\<rparr>),
      cr3 = 0, pagingEnable = False\<rparr>"

definition set_directory_entry :: "nat \<Rightarrow> u32 \<Rightarrow> stage1 \<Rightarrow> stage1" where
  "set_directory_entry idx table st =
     st\<lparr>directory := (directory st)(idx := (directory st idx)
       \<lparr>de_present := True, de_readWrite := True, de_tableAddr := ucast (drop_bit 12 table)\<rparr>)\<rparr>"

definition entry_address :: "u32 \<Rightarrow> nat \<Rightarrow> u32" where
  "entry_address table i = table + of_nat (4 * i)"

definition set_table_entry :: "u32 \<Rightarrow> nat \<Rightarrow> u32 \<Rightarrow> stage1 \<Rightarrow> stage1" where
  "set_table_entry table i pg st =
     (let x = entry_address table i
      in st\<lparr>table_memory := (table_memory st)(x := (table_memory st x)
           \<lparr>te_present := True, te_readWrite := True, te_pageAddr := ucast pg\<rparr>)\<rparr>)"

section \<open>The functions\<close>

partial_function (option) page_loop :: "(u32 \<Rightarrow> stage1 \<Rightarrow> stage1) \<Rightarrow> u32 \<Rightarrow> u32 \<Rightarrow> stage1 \<Rightarrow> stage1 option" where
  "page_loop f a e st = (if a < e then page_loop f (a + ARCH_PAGE_SIZE) e (f a st) else Some st)"

definition run_page_loop :: "(u32 \<Rightarrow> stage1 \<Rightarrow> stage1) \<Rightarrow> u32 \<Rightarrow> u32 \<Rightarrow> stage1 \<Rightarrow> stage1 outcome" where
  "run_page_loop f a e st = (case page_loop f a e st of None \<Rightarrow> Inl Hang | Some s \<Rightarrow> Inr s)"

definition stage1MapLowMemory :: "stage1_layout \<Rightarrow> stage1 \<Rightarrow> stage1 outcome" where
  "stage1MapLowMemory k st =
     run_page_loop (\<lambda>a. let pageIdx = drop_bit 12 a
                      in set_table_entry (l_lowMemoryPageTable k) (unat (pageIdx AND 0x3FF)) pageIdx)
       ARCH_PAGE_SIZE (l_EARLY_KERNEL_END k) (set_directory_entry 0 (l_lowMemoryPageTable k) st)"

definition stage1MapHighMemory :: "stage1_layout \<Rightarrow> stage1 \<Rightarrow> stage1 outcome" where
  "stage1MapHighMemory k st =
     (let idx = unat (drop_bit 22 (l_KERNEL_START k));
          st1 = set_directory_entry idx (l_kernelPageTable k) st
      in if idx + 1 < ARCH_PAGE_DIR_ENTRIES
         then (let st2 = set_directory_entry (idx + 1) (l_kernelPageTable k + 4096) st1
               in run_page_loop (\<lambda>a. let kernelMemoryIdx = drop_bit 12 a
                      in set_table_entry (l_kernelPageTable k) (unat (kernelMemoryIdx AND (0x400 OR 0x3FF)))
                           (kernelMemoryIdx - drop_bit 12 (l_KERNEL_BASE k)))
                    (l_KERNEL_START k) (l_KERNEL_END k) st2)
         else Inl OutOfBounds)"

partial_function (option) stage1GetBootInfoAddr :: "tags \<Rightarrow> u32 \<Rightarrow> u32 outcome option" where
  "stage1GetBootInfoAddr ts tag =
     (if tag \<noteq> 0 then
        (case (case t_body (ts tag) of
                 TAG_MEMMAP es \<Rightarrow> find (\<lambda>e. e_type e = MMAP_BOOTLOADER_RECLAIMABLE \<and> ucast (e_base e) = tag) es
               | _ \<Rightarrow> None) of
           Some e \<Rightarrow> Some (Inr (ucast (e_length e)))
         | None \<Rightarrow> stage1GetBootInfoAddr ts (ucast (t_next (ts tag))))
      else Some (Inl (Panic ''Error: Cannot detect bootloader info length!'')))"

definition stage1MapBootloader :: "stage1_layout \<Rightarrow> tags \<Rightarrow> u64 \<Rightarrow> stage1 \<Rightarrow> stage1 outcome" where
  "stage1MapBootloader k ts info_tags st =
     (let stivale2InfoAddr = ucast info_tags;
          idx = unat (drop_bit 22 stivale2InfoAddr);
          d = directory st idx;
          (bootTable, st1) =
            (if de_present d then (push_bit 12 (ucast (de_tableAddr d)), st)
             else (l_bootPageTable k, set_directory_entry idx (l_bootPageTable k) st))
      in bindE (case stage1GetBootInfoAddr ts stivale2InfoAddr of None \<Rightarrow> Inl Hang | Some r \<Rightarrow> r) (\<lambda>len.
           run_page_loop (\<lambda>a. let bootMemoryIdx = drop_bit 12 a
                            in set_table_entry bootTable (unat (bootMemoryIdx AND 0x3FF)) bootMemoryIdx)
             stivale2InfoAddr (stivale2InfoAddr + len) st1))"

definition stage1EnablePaging :: "stage1_layout \<Rightarrow> stage1 \<Rightarrow> stage1" where
  "stage1EnablePaging k st = st\<lparr>cr3 := l_pageDirectory k, pagingEnable := True\<rparr>"

text \<open>\<open>stage1Entry\<close> up to the jump; \<open>info\<close> is the pointer to the information and what its \<open>tags\<close> field
  holds.\<close>

definition stage1Entry :: "stage1_layout \<Rightarrow> tags \<Rightarrow> u64 option \<Rightarrow> stage1 \<Rightarrow> stage1 outcome" where
  "stage1Entry k ts info st =
     (case info of
        None \<Rightarrow> Inl (Panic ''Error: Missing bootloader information!'')
      | Some info_tags \<Rightarrow>
          bindE (stage1MapLowMemory k st) (\<lambda>st1.
          bindE (stage1MapHighMemory k st1) (\<lambda>st2.
          bindE (stage1MapBootloader k ts info_tags st2) (\<lambda>st3.
          Inr (stage1EnablePaging k st3)))))"

text \<open>\<open>stage1JumpToStage2\<close> clears the kernel's BSS before it changes the stack.\<close>

definition zero_bss :: "u32 \<Rightarrow> u32 \<Rightarrow> (u32 \<Rightarrow> u8) \<Rightarrow> (u32 \<Rightarrow> u8)" where
  "zero_bss start sz m = fold (\<lambda>i m. m(start + of_nat i := 0)) [0..<unat sz] m"

section \<open>Address translation\<close>

text \<open>What the processor does with these tables.\<close>

definition translate :: "stage1 \<Rightarrow> u32 \<Rightarrow> u32 option" where
  "translate st a =
     (let v = virtualAddress a; d = directory st (unat (va_dirIndex v))
      in if de_present d
         then (let e = table_memory st (entry_address (push_bit 12 (ucast (de_tableAddr d))) (unat (va_tableIndex v)))
               in if te_present e then Some (push_bit 12 (ucast (te_pageAddr e)) OR ucast (va_offset v)) else None)
         else None)"

section \<open>Page loops as folds over page numbers\<close>

definition map_pages :: "u32 \<Rightarrow> (nat \<Rightarrow> nat) \<Rightarrow> (nat \<Rightarrow> u32) \<Rightarrow> nat list \<Rightarrow> stage1 \<Rightarrow> stage1" where
  "map_pages T ix pg ps st = fold (\<lambda>p. set_table_entry T (ix p) (pg p)) ps st"

lemma page_loop_fold:
  assumes "unat e \<le> 2 ^ 32 - 4096"
  shows "n = (unat e - unat a + 4095) div 4096 \<Longrightarrow>
    page_loop f a e st = Some (fold f (map (\<lambda>i. a + of_nat (4096 * i)) [0..<n]) st)"
proof (induction n arbitrary: a st)
  case 0
  then have "\<not> a < e" by (simp add: word_less_nat_alt)
  then show ?case by (subst page_loop.simps) simp
next
  case (Suc n)
  then have less: "a < e" by (cases "a < e") (auto simp: word_less_nat_alt)
  then have u: "unat (a + 4096) = unat a + 4096"
    using assms by (simp add: word_less_nat_alt unat_word_ariths)
  have "n = (unat e - unat (a + 4096) + 4095) div 4096"
    using Suc.prems less unfolding u by (simp add: word_less_nat_alt)
  then have "page_loop f (a + 4096) e (f a st) =
      Some (fold f (map (\<lambda>i. (a + 4096) + of_nat (4096 * i)) [0..<n]) (f a st))"
    by (rule Suc.IH)
  moreover have "map (\<lambda>i. a + of_nat (4096 * i)) [0..<Suc n] = a # map (\<lambda>i. (a + 4096) + of_nat (4096 * i)) [0..<n]"
    by (simp add: upt_0_Suc o_def algebra_simps del: upt_Suc)
  ultimately show ?case using less by (subst page_loop.simps) (simp add: ARCH_PAGE_SIZE_def del: upt_Suc)
qed

lemma unat_page_step:
  "unat a + 4096 * i < 2 ^ 32 \<Longrightarrow> unat (a + of_nat (4096 * i) :: u32) div 4096 = unat a div 4096 + i"
proof -
  assume a: "unat a + 4096 * i < 2 ^ 32"
  then have "unat (of_nat (4096 * i) :: u32) = 4096 * i" by (intro unat_of_nat_u32) simp
  with a have "unat (a + of_nat (4096 * i)) = unat a + 4096 * i" by (simp add: unat_word_ariths del: of_nat_mult)
  then show ?thesis by simp
qed

lemma ceil_pages:
  fixes a e :: nat
  assumes "a mod 4096 = 0 \<or> e mod 4096 = 0" "a \<le> e"
  shows "a div 4096 + (e - a + 4095) div 4096 = (e + 4095) div 4096"
proof (cases "a mod 4096 = 0")
  case True
  then obtain k where "a = 4096 * k" by auto
  moreover have "(e - a + 4095 + 4096 * k) div 4096 = k + (e - a + 4095) div 4096" by simp
  ultimately show ?thesis using assms(2) by simp
next
  case False
  then obtain k where e: "e = 4096 * k" using assms(1) by auto
  define p r where "p = a div 4096" and "r = a mod 4096"
  have a: "a = 4096 * p + r" "r < 4096" by (simp_all add: p_def r_def)
  then have "p \<le> k" using e assms(2) by linarith
  then obtain d where d: "k = p + d" using le_Suc_ex by blast
  then have "e - a + 4095 = (4095 - r) + 4096 * d" using a e assms(2) by linarith
  then have "(e - a + 4095) div 4096 = d" by simp
  then show ?thesis using a d e by (simp add: p_def [symmetric])
qed

lemma floor_pages:
  fixes a e :: nat
  assumes "a mod 4096 = 0 \<or> e mod 4096 = 0" "e < a"
  shows "(e + 4095) div 4096 \<le> a div 4096"
proof (cases "a mod 4096 = 0")
  case True
  then show ?thesis using assms(2) by (auto simp: dvd_def)
next
  case False
  then show ?thesis using assms by (auto elim!: dvdE)
qed

lemma map_upt_shift: "map g [0..<n] = map (\<lambda>i. g (i - p)) [p..<p + n]"
  by (rule nth_equalityI) simp_all

lemma run_page_loop_pages:
  assumes e: "unat e \<le> 2 ^ 32 - 4096" and al: "unat a mod 4096 = 0 \<or> unat e mod 4096 = 0"
    and f: "\<And>a. f a = set_table_entry T (ix (unat a div 4096)) (pg (unat a div 4096))"
  shows "run_page_loop f a e st = Inr (map_pages T ix pg [unat a div 4096..<(unat e + 4095) div 4096] st)"
proof -
  let ?n = "(unat e - unat a + 4095) div 4096" and ?p = "unat a div 4096"
  have "?p + ?n = (unat e + 4095) div 4096 \<or> ?n = 0 \<and> (unat e + 4095) div 4096 \<le> ?p"
    using ceil_pages [OF al] floor_pages [OF al] by (cases "unat a \<le> unat e") auto
  then have r: "[?p..<?p + ?n] = [?p..<(unat e + 4095) div 4096]" by auto
  have "map (\<lambda>i. a + of_nat (4096 * i)) [0..<?n] = map (\<lambda>i. a + of_nat (4096 * (i - ?p))) [?p..<?p + ?n]"
    by (rule map_upt_shift)
  moreover have "set_table_entry T (ix (unat (a + of_nat (4096 * (p - ?p))) div 4096))
       (pg (unat (a + of_nat (4096 * (p - ?p))) div 4096)) = set_table_entry T (ix p) (pg p)"
    if "p \<in> set [?p..<?p + ?n]" for p
  proof -
    have "unat a + 4096 * (p - ?p) < 2 ^ 32" using that e by auto
    from unat_page_step [OF this] that show ?thesis by simp
  qed
  ultimately have "fold f (map (\<lambda>i. a + of_nat (4096 * i)) [0..<?n]) st =
      map_pages T ix pg [?p..<?p + ?n] st"
    by (simp only: map_pages_def fold_map o_def f) (intro fold_cong, simp_all)
  then show ?thesis by (simp add: run_page_loop_def page_loop_fold [OF e refl] r)
qed

lemma map_pages_frame [simp]:
  "directory (map_pages T ix pg ps st) = directory st"
  by (induction ps arbitrary: st) (simp_all add: map_pages_def set_table_entry_def Let_def)

lemma map_pages_other:
  "x \<notin> (\<lambda>p. entry_address T (ix p)) ` set ps \<Longrightarrow> table_memory (map_pages T ix pg ps st) x = table_memory st x"
  by (induction ps arbitrary: st) (simp_all add: map_pages_def set_table_entry_def Let_def)

lemma map_pages_mapped:
  assumes "p \<in> set ps" "inj_on (\<lambda>p. entry_address T (ix p)) (set ps)"
  shows "te_present (table_memory (map_pages T ix pg ps st) (entry_address T (ix p)))
    \<and> te_pageAddr (table_memory (map_pages T ix pg ps st) (entry_address T (ix p))) = ucast (pg p)"
  using assms
proof (induction ps rule: rev_induct)
  case (snoc q ps)
  show ?case
  proof (cases "entry_address T (ix p) = entry_address T (ix q)")
    case True
    then have "p = q" using snoc.prems inj_onD [of "\<lambda>p. entry_address T (ix p)" "set (ps @ [q])" p q] by auto
    then show ?thesis by (simp add: map_pages_def set_table_entry_def Let_def)
  next
    case False
    then have "p \<in> set ps" using snoc.prems by auto
    with snoc False show ?thesis by (auto simp: map_pages_def set_table_entry_def Let_def inj_on_def)
  qed
qed simp

section \<open>Page numbers and addresses\<close>

abbreviation page_no :: "u32 \<Rightarrow> nat" where
  "page_no a \<equiv> unat a div 4096"

abbreviation page_aligned :: "u32 \<Rightarrow> bool" where
  "page_aligned a \<equiv> unat a mod 4096 = 0"

lemma drop_bit_page_no: "drop_bit 12 a = of_nat (page_no a)" for a :: u32
  by (rule word_unat_eq_iff [THEN iffD2])
    (use unat_lt_u32 [of a] in \<open>simp add: unat_drop_bit_eq drop_bit_eq_div unat_of_nat_u32 unat_div\<close>)

lemma unat_dir_index: "unat (drop_bit 22 a) = page_no a div 1024" for a :: u32
  by (simp add: unat_drop_bit_eq drop_bit_eq_div unat_div div_mult2_eq [symmetric])

lemma page_no_bound: "page_no a < 1048576"
  using unat_lt_u32 [of a] by simp

lemma unat_and_index:
  "unat (drop_bit 12 a AND 0x3FF) = page_no a mod 1024"
  "unat (drop_bit 12 a AND 0x7FF) = page_no a mod 2048" for a :: u32
proof -
  have "(0x3FF :: u32) = mask 10" "(0x7FF :: u32) = mask 11" by (simp_all add: mask_eq_exp_minus_1)
  then show "unat (drop_bit 12 a AND 0x3FF) = page_no a mod 1024"
    "unat (drop_bit 12 a AND 0x7FF) = page_no a mod 2048"
    by (simp_all only: take_bit_eq_mask [symmetric] unsigned_take_bit_eq)
      (simp_all add: unat_drop_bit_eq drop_bit_eq_div unat_div take_bit_eq_mod)
qed

lemmas page_index_simps = drop_bit_page_no unat_and_index [unfolded drop_bit_page_no]

lemma aligned_le: "page_aligned T \<Longrightarrow> unat T + 4096 \<le> 2 ^ 32"
  using unat_lt_u32 [of T] by (auto simp: dvd_def)

lemma unat_entry_address:
  assumes "page_aligned T" "i < 1024"
  shows "unat (entry_address T i) = unat T + 4 * i"
proof -
  have "unat (of_nat (4 * i) :: u32) = 4 * i" using assms(2) by (intro unat_of_nat_u32) simp
  then show ?thesis using aligned_le [OF assms(1)] assms(2)
    by (simp add: entry_address_def unat_word_ariths del: of_nat_mult)
qed

lemma entry_address_eq_iff:
  assumes "page_aligned T" "page_aligned T'" "i < 1024" "j < 1024"
  shows "entry_address T i = entry_address T' j \<longleftrightarrow> T = T' \<and> i = j"
proof
  assume "entry_address T i = entry_address T' j"
  then have eq: "unat T + 4 * i = unat T' + 4 * j" by (metis unat_entry_address assms)
  obtain q q' where q: "unat T = 4096 * q" "unat T' = 4096 * q'" using assms(1,2) by (auto simp: dvd_def)
  then have "q = q'" using eq assms(3,4) by linarith
  then show "T = T' \<and> i = j" using eq q by (simp add: word_unat_eq_iff)
qed simp

lemma entry_address_second: "1024 \<le> i \<Longrightarrow> entry_address T i = entry_address (T + 4096) (i - 1024)"
  by (simp add: entry_address_def of_nat_diff)

lemma frame_address: "q < 1048576 \<Longrightarrow> push_bit 12 (ucast (of_nat q :: 20 word)) = (of_nat (4096 * q) :: u32)"
proof -
  assume "q < 1048576"
  then have "(ucast (of_nat q :: 20 word) :: u32) = of_nat q"
    by (simp add: word_unat_eq_iff unsigned_ucast_eq unat_of_nat take_bit_eq_mod)
  then show ?thesis by (simp add: push_bit_eq_mult)
qed

lemma frame_number: "q < 1048576 \<Longrightarrow> (ucast (of_nat q :: u32) :: 20 word) = of_nat q"
  by (simp add: word_unat_eq_iff unsigned_ucast_eq unat_of_nat take_bit_eq_mod)

lemma table_address: "page_aligned T \<Longrightarrow> push_bit 12 (ucast (ucast (drop_bit 12 T) :: 20 word)) = T" for T :: u32
proof -
  assume "page_aligned T"
  then have "4096 * page_no T = unat T" by auto
  then show ?thesis
    using page_no_bound [of T] by (simp add: drop_bit_page_no frame_number frame_address del: of_nat_mult)
qed

lemma page_join:
  assumes "q < 1048576"
  shows "push_bit 12 (ucast (of_nat q :: 20 word)) OR ucast (va_offset (virtualAddress a)) =
    (of_nat (4096 * q + unat a mod 4096) :: u32)"
proof -
  have "push_bit 12 (ucast (of_nat q :: 20 word)) OR ucast (va_offset (virtualAddress a)) =
      (push_bit 12 (ucast (of_nat q :: 20 word)) + ucast (va_offset (virtualAddress a)) :: u32)"
    by (rule disjunctive_add [symmetric]) (auto simp: bit_simps bit_beyond_field dest: bit_imp_le_length)
  also have "\<dots> = of_nat (4096 * q) + of_nat (unat a mod 4096)"
  proof -
    have "(ucast (va_offset (virtualAddress a)) :: u32) = of_nat (unat a mod 4096)"
      by (metis unat_fields(3) of_nat_unat)
    then show ?thesis using frame_address [OF assms] by simp
  qed
  finally show ?thesis by simp
qed

text \<open>An address translates through a present directory entry and a present table entry.\<close>

definition maps_via :: "stage1 \<Rightarrow> u32 \<Rightarrow> nat \<Rightarrow> nat \<Rightarrow> bool" where
  "maps_via st T p q \<longleftrightarrow> page_aligned T \<and> de_present (directory st (p div 1024))
     \<and> de_tableAddr (directory st (p div 1024)) = ucast (drop_bit 12 T)
     \<and> te_present (table_memory st (entry_address T (p mod 1024)))
     \<and> te_pageAddr (table_memory st (entry_address T (p mod 1024))) = of_nat q"

lemma translate_maps_via:
  assumes "maps_via st T (page_no a) q" "q < 1048576"
  shows "translate st a = Some (of_nat (4096 * q + unat a mod 4096))"
  using assms(1) unfolding maps_via_def translate_def
  by (auto simp: Let_def unat_fields table_address page_join [OF assms(2)] simp del: of_nat_add of_nat_mult)

lemma directory_set_directory_entry [simp]:
  "de_present (directory (set_directory_entry i T st) j) = (i = j \<or> de_present (directory st j))"
  "de_tableAddr (directory (set_directory_entry i T st) j) =
     (if i = j then ucast (drop_bit 12 T) else de_tableAddr (directory st j))"
  "table_memory (set_directory_entry i T st) = table_memory st"
  by (auto simp: set_directory_entry_def)

lemma maps_via_set_directory_entry:
  "maps_via st T p q \<Longrightarrow> i \<noteq> p div 1024 \<Longrightarrow> maps_via (set_directory_entry i T' st) T p q"
  by (simp add: maps_via_def)

lemma maps_via_map_pages:
  "maps_via st T p q \<Longrightarrow> entry_address T (p mod 1024) \<notin> (\<lambda>p. entry_address T' (ix p)) ` set ps \<Longrightarrow>
     maps_via (map_pages T' ix pg ps st) T p q"
  by (simp add: maps_via_def map_pages_other)

text \<open>A window of pages mapped through one table.\<close>

lemma maps_via_window:
  assumes "page_aligned T" "p \<in> set ps" "set ps \<subseteq> {1024 * d..<1024 * d + 1024}"
    and "de_present (directory st d)" "de_tableAddr (directory st d) = ucast (drop_bit 12 T)" "p < 1048576"
  shows "maps_via (map_pages T (\<lambda>p. p mod 1024) of_nat ps st) T p p"
proof -
  have win: "p' div 1024 = d \<and> p' mod 1024 = p' - 1024 * d" if "p' \<in> set ps" for p'
  proof -
    have "1024 * d \<le> p'" "p' < 1024 * d + 1024" using assms(3) that by auto
    then obtain j where "p' = 1024 * d + j" "j < 1024" using le_Suc_ex by force
    then show ?thesis by simp
  qed
  have "inj_on (\<lambda>p. entry_address T (p mod 1024)) (set ps)"
  proof (rule inj_onI)
    fix x y assume xy: "x \<in> set ps" "y \<in> set ps" "entry_address T (x mod 1024) = entry_address T (y mod 1024)"
    then have "x mod 1024 = y mod 1024" using entry_address_eq_iff [OF assms(1,1), of "x mod 1024" "y mod 1024"] by simp
    then show "x = y" using win [OF xy(1)] win [OF xy(2)] by (metis div_mult_mod_eq)
  qed
  from map_pages_mapped [OF assms(2) this, of of_nat st] show ?thesis
    using assms win [OF assms(2)] by (simp add: maps_via_def frame_number)
qed

section \<open>Stage 1 maps what the kernel needs\<close>

text \<open>What the linker script provides: four distinct aligned tables, the two kernel tables adjacent; early
  memory within the first four megabytes; the kernel within two directory entries of which the first has
  an even index, ending at a page boundary.\<close>

definition layout_ok :: "stage1_layout \<Rightarrow> bool" where
  "layout_ok k \<longleftrightarrow>
     page_aligned (l_lowMemoryPageTable k) \<and> page_aligned (l_kernelPageTable k) \<and> page_aligned (l_bootPageTable k)
     \<and> unat (l_kernelPageTable k) + 8192 < 2 ^ 32
     \<and> distinct [l_lowMemoryPageTable k, l_kernelPageTable k, l_kernelPageTable k + 4096, l_bootPageTable k]
     \<and> unat (l_EARLY_KERNEL_END k) \<le> 0x400000
     \<and> page_aligned (l_KERNEL_BASE k) \<and> l_KERNEL_BASE k \<le> l_KERNEL_START k
     \<and> even (page_no (l_KERNEL_START k) div 1024) \<and> 0 < page_no (l_KERNEL_START k) div 1024
     \<and> page_aligned (l_KERNEL_END k) \<and> unat (l_KERNEL_END k) \<le> 2 ^ 32 - 4096
     \<and> page_no (l_KERNEL_END k) \<le> 1024 * (page_no (l_KERNEL_START k) div 1024) + 2048"

text \<open>The boot information starts a page, does not leave its four megabytes and lies outside the kernel's
  directory entries.\<close>

definition boot_info_ok :: "stage1_layout \<Rightarrow> u32 \<Rightarrow> u32 \<Rightarrow> bool" where
  "boot_info_ok k info len \<longleftrightarrow>
     page_aligned info \<and> 0 < info \<and> unat info + unat len \<le> 4096 * (1024 * (page_no info div 1024) + 1024)
     \<and> unat info + unat len \<le> 2 ^ 32 - 4096
     \<and> page_no info div 1024 \<noteq> page_no (l_KERNEL_START k) div 1024
     \<and> page_no info div 1024 \<noteq> page_no (l_KERNEL_START k) div 1024 + 1"

lemma stage1MapLowMemory_eq:
  assumes "unat (l_EARLY_KERNEL_END k) \<le> 0x400000"
  shows "stage1MapLowMemory k st =
    Inr (map_pages (l_lowMemoryPageTable k) (\<lambda>p. p mod 1024) of_nat [1..<(unat (l_EARLY_KERNEL_END k) + 4095) div 4096]
      (set_directory_entry 0 (l_lowMemoryPageTable k) st))"
  unfolding stage1MapLowMemory_def Let_def ARCH_PAGE_SIZE_def
  using assms by (subst run_page_loop_pages [where ix = "\<lambda>p. p mod 1024" and pg = of_nat])
    (simp_all add: page_index_simps del: upt_Suc)

lemma stage1MapHighMemory_eq:
  assumes "layout_ok k"
  defines "d \<equiv> page_no (l_KERNEL_START k) div 1024"
  shows "stage1MapHighMemory k st =
    Inr (map_pages (l_kernelPageTable k) (\<lambda>p. p mod 2048) (\<lambda>p. of_nat p - of_nat (page_no (l_KERNEL_BASE k)))
      [page_no (l_KERNEL_START k)..<page_no (l_KERNEL_END k)]
      (set_directory_entry (d + 1) (l_kernelPageTable k + 4096) (set_directory_entry d (l_kernelPageTable k) st)))"
proof -
  have e: "page_aligned (l_KERNEL_END k)" "unat (l_KERNEL_END k) \<le> 2 ^ 32 - 4096" "even d"
    using assms by (auto simp: layout_ok_def)
  then have c: "(unat (l_KERNEL_END k) + 4095) div 4096 = page_no (l_KERNEL_END k)" by (auto elim!: dvdE)
  have "d < 1024" using page_no_bound [of "l_KERNEL_START k"] by (simp add: d_def)
  moreover have "d \<noteq> 1023" using e(3) by auto
  ultimately have "d + 1 < ARCH_PAGE_DIR_ENTRIES" by (simp add: ARCH_PAGE_DIR_ENTRIES_def)
  moreover have "run_page_loop (\<lambda>a. let kernelMemoryIdx = drop_bit 12 a
         in set_table_entry (l_kernelPageTable k) (unat (kernelMemoryIdx AND (0x400 OR 0x3FF)))
              (kernelMemoryIdx - drop_bit 12 (l_KERNEL_BASE k))) (l_KERNEL_START k) (l_KERNEL_END k) s =
     Inr (map_pages (l_kernelPageTable k) (\<lambda>p. p mod 2048) (\<lambda>p. of_nat p - of_nat (page_no (l_KERNEL_BASE k)))
      [page_no (l_KERNEL_START k)..<page_no (l_KERNEL_END k)] s)" for s
    by (subst run_page_loop_pages [where ix = "\<lambda>p. p mod 2048"
            and pg = "\<lambda>p. of_nat p - of_nat (page_no (l_KERNEL_BASE k))"])
      (use e in \<open>simp_all add: Let_def page_index_simps c\<close>)
  ultimately show ?thesis by (simp add: stage1MapHighMemory_def Let_def unat_dir_index d_def)
qed

lemma page_in_pair:
  fixes d p :: nat
  assumes "even d" "1024 * d \<le> p" "p < 1024 * d + 2048"
  shows "p mod 2048 = p - 1024 * d" "p div 1024 = (if p mod 2048 < 1024 then d else d + 1)"
    "p mod 1024 = (if p mod 2048 < 1024 then p mod 2048 else p mod 2048 - 1024)"
proof -
  obtain e where d: "d = 2 * e" using assms(1) by auto
  define j where "j = p - 1024 * d"
  have p: "p = 1024 * d + j" using assms(2) by (simp add: j_def)
  then have j: "j < 2048" using assms(3) by simp
  have pe: "p = 2048 * e + j" using p d by simp
  show m: "p mod 2048 = p - 1024 * d"
    using j mod_mult_self1 [of j e 2048] unfolding pe by (simp add: d mult.commute)
  have "p div 1024 = d \<and> p mod 1024 = j" if "j < 1024" using p that by simp
  moreover have "p div 1024 = d + 1 \<and> p mod 1024 = j - 1024" if "\<not> j < 1024"
  proof -
    define i where "i = j - 1024"
    have "j = 1024 + i" "i < 1024" using that j by (simp_all add: i_def)
    then have "p = i + (d + 1) * 1024" using p by simp
    then have "p div 1024 = d + 1 + i div 1024" "p mod 1024 = i mod 1024"
      using div_mult_self1 [of 1024 i "d + 1"] mod_mult_self1 [of i "d + 1" 1024] by (simp_all only:)
    then show ?thesis using \<open>j = 1024 + i\<close> \<open>i < 1024\<close> by simp
  qed
  ultimately show "p div 1024 = (if p mod 2048 < 1024 then d else d + 1)"
    "p mod 1024 = (if p mod 2048 < 1024 then p mod 2048 else p mod 2048 - 1024)"
    unfolding m using p by auto
qed

lemma kernel_tables:
  assumes "layout_ok k"
  shows "page_aligned (l_kernelPageTable k + 4096)"
    and "i < 2048 \<Longrightarrow> entry_address (l_kernelPageTable k) i =
      entry_address (if i < 1024 then l_kernelPageTable k else l_kernelPageTable k + 4096) (if i < 1024 then i else i - 1024)"
proof -
  have "unat (l_kernelPageTable k + 4096) = unat (l_kernelPageTable k) + 4096"
    using assms by (simp add: layout_ok_def unat_word_ariths)
  then show "page_aligned (l_kernelPageTable k + 4096)" using assms by (simp add: layout_ok_def)
qed (auto simp: entry_address_second)

lemma kernel_range:
  assumes "layout_ok k" "page_no (l_KERNEL_START k) \<le> p" "p < page_no (l_KERNEL_END k)"
  defines "d \<equiv> page_no (l_KERNEL_START k) div 1024"
  shows "even d" "1024 * d \<le> p" "p < 1024 * d + 2048"
proof -
  show "even d" "p < 1024 * d + 2048" using assms by (auto simp: layout_ok_def)
  have "1024 * d \<le> page_no (l_KERNEL_START k)" by (simp add: d_def)
  then show "1024 * d \<le> p" using assms(2) by simp
qed

lemma kernel_maps_via:
  assumes ok: "layout_ok k" and p: "page_no (l_KERNEL_START k) \<le> p" "p < page_no (l_KERNEL_END k)"
    and st: "stage1MapHighMemory k st0 = Inr st"
  shows "maps_via st (if p mod 2048 < 1024 then l_kernelPageTable k else l_kernelPageTable k + 4096) p
           (p - page_no (l_KERNEL_BASE k))"
proof -
  let ?K = "l_kernelPageTable k" and ?ps = "[page_no (l_KERNEL_START k)..<page_no (l_KERNEL_END k)]"
  let ?T = "\<lambda>i. if i < 1024 then ?K else ?K + 4096" and ?j = "\<lambda>i. if i < 1024 then i else i - 1024 :: nat"
  let ?d = "page_no (l_KERNEL_START k) div 1024"
  have al: "page_aligned (?T i)" for i using ok kernel_tables(1) [OF ok] by (auto simp: layout_ok_def)
  have ne: "?K \<noteq> ?K + 4096" by simp
  have win: "p mod 2048 = p - 1024 * ?d" "p div 1024 = (if p mod 2048 < 1024 then ?d else ?d + 1)"
      "p mod 1024 = (if p mod 2048 < 1024 then p mod 2048 else p mod 2048 - 1024)"
    if "page_no (l_KERNEL_START k) \<le> p" "p < page_no (l_KERNEL_END k)" for p
    using page_in_pair [OF kernel_range [OF ok that]] by simp_all
  have "inj_on (\<lambda>p. entry_address ?K (p mod 2048)) (set ?ps)"
  proof (rule inj_onI)
    fix x y assume xy: "x \<in> set ?ps" "y \<in> set ?ps" "entry_address ?K (x mod 2048) = entry_address ?K (y mod 2048)"
    have "entry_address (?T (x mod 2048)) (?j (x mod 2048)) = entry_address (?T (y mod 2048)) (?j (y mod 2048))"
      using xy(3) kernel_tables(2) [OF ok, of "x mod 2048"] kernel_tables(2) [OF ok, of "y mod 2048"] by simp
    then have "?T (x mod 2048) = ?T (y mod 2048) \<and> ?j (x mod 2048) = ?j (y mod 2048)"
      by (subst (asm) entry_address_eq_iff [OF al al]) auto
    then have "x mod 2048 = y mod 2048" by (auto split: if_splits)
    then have "x - 1024 * ?d = y - 1024 * ?d" using win(1) [of x] win(1) [of y] xy(1,2) by simp
    then show "x = y" using kernel_range(2) [OF ok, of x] kernel_range(2) [OF ok, of y] xy(1,2)
      by (simp add: eq_diff_iff)
  qed
  note m = map_pages_mapped [OF _ this, of p "\<lambda>p. of_nat p - of_nat (page_no (l_KERNEL_BASE k))"
      "set_directory_entry (?d + 1) (?K + 4096) (set_directory_entry ?d ?K st0)"]
  have "l_KERNEL_BASE k \<le> l_KERNEL_START k" using ok by (simp add: layout_ok_def)
  then have "page_no (l_KERNEL_BASE k) \<le> p"
    using p(1) div_le_mono [of "unat (l_KERNEL_BASE k)" "unat (l_KERNEL_START k)" 4096] by (simp add: word_le_nat_alt)
  moreover have "p < 1048576" using p page_no_bound [of "l_KERNEL_END k"] by simp
  ultimately have "(ucast (of_nat p - of_nat (page_no (l_KERNEL_BASE k)) :: u32) :: 20 word) =
      of_nat (p - page_no (l_KERNEL_BASE k))"
    using frame_number [of "p - page_no (l_KERNEL_BASE k)"] by (simp add: of_nat_diff)
  moreover have "st = map_pages ?K (\<lambda>p. p mod 2048) (\<lambda>p. of_nat p - of_nat (page_no (l_KERNEL_BASE k))) ?ps
      (set_directory_entry (?d + 1) (?K + 4096) (set_directory_entry ?d ?K st0))"
    using st stage1MapHighMemory_eq [OF ok, of st0] by simp
  moreover have "p \<in> set ?ps" using p by simp
  moreover have "entry_address ?K (p mod 2048) = entry_address (?T (p mod 2048)) (p mod 1024)"
    using win(3) [OF p] entry_address_second [of "p mod 2048" ?K] by (cases "p mod 2048 < 1024") simp_all
  moreover have "?d + 1 \<noteq> ?d" by simp
  ultimately show ?thesis
    unfolding maps_via_def win(2) [OF p] using m al [of "p mod 2048"] by (cases "p mod 2048 < 1024") (simp_all only: map_pages_frame directory_set_directory_entry if_True if_False simp_thms)
qed

lemma stage1MapBootloader_eq:
  fixes st :: stage1
  assumes bi: "boot_info_ok k (ucast info) len" and g: "stage1GetBootInfoAddr ts (ucast info) = Some (Inr len)"
  defines "b \<equiv> page_no (ucast info) div 1024"
  defines "T \<equiv> if de_present (directory st b) then push_bit 12 (ucast (de_tableAddr (directory st b))) else l_bootPageTable k"
  shows "stage1MapBootloader k ts info st =
    Inr (map_pages T (\<lambda>p. p mod 1024) of_nat
      [page_no (ucast info)..<(unat (ucast info :: u32) + unat len + 4095) div 4096]
      (if de_present (directory st b) then st else set_directory_entry b T st))"
proof -
  have e: "unat (ucast info + len :: u32) = unat (ucast info :: u32) + unat len"
    using bi by (simp add: boot_info_ok_def unat_word_ariths)
  have "run_page_loop (\<lambda>a. let bootMemoryIdx = drop_bit 12 a
         in set_table_entry T (unat (bootMemoryIdx AND 0x3FF)) bootMemoryIdx) (ucast info) (ucast info + len) s =
     Inr (map_pages T (\<lambda>p. p mod 1024) of_nat
      [page_no (ucast info)..<(unat (ucast info :: u32) + unat len + 4095) div 4096] s)" for s T
    by (subst run_page_loop_pages [where ix = "\<lambda>p. p mod 1024" and pg = of_nat])
      (use bi in \<open>simp_all add: boot_info_ok_def Let_def page_index_simps e\<close>)
  then show ?thesis unfolding T_def b_def
    by (cases "de_present (directory st (page_no (ucast info) div 1024))")
      (simp_all add: stage1MapBootloader_def Let_def g unat_dir_index)
qed

lemma stage1_start_simps [simp]:
  "\<not> de_present (directory stage1_start i)" "\<not> te_present (table_memory stage1_start x)"
  by (simp_all add: stage1_start_def)

lemma ea_in_image_iff:
  assumes "page_aligned T" "page_aligned T'" "j < 1024"
  shows "entry_address T j \<in> (\<lambda>p. entry_address T' (p mod 1024)) ` set ps \<longleftrightarrow> T = T' \<and> j \<in> (\<lambda>p. p mod 1024) ` set ps"
  using assms by (auto simp: image_iff entry_address_eq_iff)

lemma ea_not_in_kernel_tables:
  assumes "layout_ok k" "page_aligned T" "T \<noteq> l_kernelPageTable k" "T \<noteq> l_kernelPageTable k + 4096" "j < 1024"
  shows "entry_address T j \<notin> (\<lambda>p. entry_address (l_kernelPageTable k) (p mod 2048)) ` S"
proof
  let ?K = "l_kernelPageTable k"
  assume "entry_address T j \<in> (\<lambda>p. entry_address ?K (p mod 2048)) ` S"
  then obtain i where i: "entry_address T j = entry_address ?K i" "i < 2048" by auto
  have "page_aligned ?K" using assms(1) by (simp add: layout_ok_def)
  then show False
    using i entry_address_eq_iff [OF assms(2), of ?K j i] assms(3-5) kernel_tables(1) [OF assms(1)]
      entry_address_eq_iff [OF assms(2), of "?K + 4096" j "i - 1024"] entry_address_second [of i ?K]
    by (cases "i < 1024") auto
qed

text \<open>The state after the low and the high memory are mapped.\<close>

definition mapped_low_high :: "stage1_layout \<Rightarrow> stage1 \<Rightarrow> bool" where
  "mapped_low_high k st \<longleftrightarrow>
     (\<forall>i. de_present (directory st i) \<longleftrightarrow>
        i \<in> {0, page_no (l_KERNEL_START k) div 1024, page_no (l_KERNEL_START k) div 1024 + 1})
     \<and> de_tableAddr (directory st 0) = ucast (drop_bit 12 (l_lowMemoryPageTable k))
     \<and> \<not> te_present (table_memory st (entry_address (l_lowMemoryPageTable k) 0))
     \<and> (\<forall>p. 1 \<le> p \<longrightarrow> p < (unat (l_EARLY_KERNEL_END k) + 4095) div 4096 \<longrightarrow>
          maps_via st (l_lowMemoryPageTable k) p p)
     \<and> (\<forall>p. page_no (l_KERNEL_START k) \<le> p \<longrightarrow> p < page_no (l_KERNEL_END k) \<longrightarrow>
          maps_via st (if p mod 2048 < 1024 then l_kernelPageTable k else l_kernelPageTable k + 4096) p
            (p - page_no (l_KERNEL_BASE k)))"

lemma low_high_mapped:
  assumes ok: "layout_ok k"
  obtains st1 st2 where "stage1MapLowMemory k stage1_start = Inr st1" "stage1MapHighMemory k st1 = Inr st2"
    "mapped_low_high k st2"
proof -
  let ?L = "l_lowMemoryPageTable k" and ?K = "l_kernelPageTable k" and ?d = "page_no (l_KERNEL_START k) div 1024"
  let ?ps = "[1..<(unat (l_EARLY_KERNEL_END k) + 4095) div 4096]"
  let ?st1 = "map_pages ?L (\<lambda>p. p mod 1024) of_nat ?ps (set_directory_entry 0 ?L stage1_start)"
  have al: "page_aligned ?L" and dist: "?L \<noteq> ?K" "?L \<noteq> ?K + 4096"
    and d: "0 < ?d" and early: "unat (l_EARLY_KERNEL_END k) \<le> 0x400000"
    using ok by (auto simp: layout_ok_def)
  have win: "set ?ps \<subseteq> {1024 * 0..<1024 * 0 + 1024}" using early by auto
  have one: "stage1MapLowMemory k stage1_start = Inr ?st1" by (rule stage1MapLowMemory_eq [OF early])
  obtain st2 where two: "stage1MapHighMemory k ?st1 = Inr st2" and
      st2: "st2 = map_pages ?K (\<lambda>p. p mod 2048) (\<lambda>p. of_nat p - of_nat (page_no (l_KERNEL_BASE k)))
        [page_no (l_KERNEL_START k)..<page_no (l_KERNEL_END k)]
        (set_directory_entry (?d + 1) (?K + 4096) (set_directory_entry ?d ?K ?st1))"
    using stage1MapHighMemory_eq [OF ok] by blast
  note nk = ea_not_in_kernel_tables [OF ok al dist]
  have "maps_via st2 ?L p p" if p: "1 \<le> p" "p < (unat (l_EARLY_KERNEL_END k) + 4095) div 4096" for p
  proof -
    have "p < 1024" using win p by auto
    have one: "maps_via ?st1 ?L p p"
      by (rule maps_via_window [OF al _ win]) (use p \<open>p < 1024\<close> in auto)
    show ?thesis unfolding st2
      by (rule maps_via_map_pages [OF maps_via_set_directory_entry [OF maps_via_set_directory_entry [OF one]] nk])
        (use d \<open>p < 1024\<close> in auto)
  qed
  moreover have "\<not> te_present (table_memory st2 (entry_address ?L 0))"
  proof -
    have "0 \<notin> (\<lambda>p. p mod 1024) ` set ?ps" using win by (auto simp: image_iff)
    then have "\<not> te_present (table_memory ?st1 (entry_address ?L 0))"
      using ea_in_image_iff [OF al al, of 0 ?ps] by (simp add: map_pages_other)
    then show ?thesis using nk [of 0] unfolding st2 by (subst map_pages_other) auto
  qed
  moreover have "maps_via st2 (if p mod 2048 < 1024 then ?K else ?K + 4096) p (p - page_no (l_KERNEL_BASE k))"
    if "page_no (l_KERNEL_START k) \<le> p" "p < page_no (l_KERNEL_END k)" for p
    by (rule kernel_maps_via [OF ok that two])
  moreover have "de_present (directory st2 i) \<longleftrightarrow> i \<in> {0, ?d, ?d + 1}" for i unfolding st2 by auto
  moreover have "de_tableAddr (directory st2 0) = ucast (drop_bit 12 ?L)" unfolding st2 using d by simp
  ultimately have "mapped_low_high k st2" unfolding mapped_low_high_def by blast
  with that one two show thesis by blast
qed

lemma ceil_le: "n \<le> 4096 * m \<Longrightarrow> (n + 4095) div 4096 \<le> m" for n m :: nat
  by (simp add: less_Suc_eq_le [symmetric] div_less_iff_less_mult)

lemma boot_pages:
  assumes "boot_info_ok k info len"
  shows "set [page_no info..<(unat info + unat len + 4095) div 4096]
      \<subseteq> {1024 * (page_no info div 1024)..<1024 * (page_no info div 1024) + 1024}" "0 < page_no info"
proof -
  have i: "4096 * page_no info = unat info" using assms by (auto simp: boot_info_ok_def)
  moreover have "0 < unat info" using assms by (simp add: boot_info_ok_def word_gt_0 unat_gt_0)
  ultimately show "0 < page_no info" by (cases "page_no info") auto
  have "(unat info + unat len + 4095) div 4096 \<le> 1024 * (page_no info div 1024) + 1024"
  proof -
    have "unat info + unat len \<le> 4096 * (1024 * (page_no info div 1024) + 1024)"
      using assms unfolding boot_info_ok_def by blast
    then show ?thesis by (rule ceil_le)
  qed
  then show "set [page_no info..<(unat info + unat len + 4095) div 4096]
      \<subseteq> {1024 * (page_no info div 1024)..<1024 * (page_no info div 1024) + 1024}"
    using times_div_less_eq_dividend [of 1024 "page_no info"] by (auto simp del: times_div_less_eq_dividend)
qed

text \<open>The table for the information of the boot loader, the directory that refers to it, and the tables after its pages are
  mapped.\<close>

definition boot_table :: "stage1_layout \<Rightarrow> u64 \<Rightarrow> u32" where
  "boot_table k info = (if page_no (ucast info) div 1024 = 0 then l_lowMemoryPageTable k else l_bootPageTable k)"

definition boot_entered :: "stage1_layout \<Rightarrow> u64 \<Rightarrow> stage1 \<Rightarrow> stage1" where
  "boot_entered k info st =
     (if page_no (ucast info) div 1024 = 0 then st else set_directory_entry (page_no (ucast info) div 1024) (boot_table k info) st)"

abbreviation info_pages :: "u64 \<Rightarrow> u32 \<Rightarrow> nat list" where
  "info_pages info len \<equiv> [page_no (ucast info)..<(unat (ucast info :: u32) + unat len + 4095) div 4096]"

definition boot_tables :: "stage1_layout \<Rightarrow> u64 \<Rightarrow> u32 \<Rightarrow> stage1 \<Rightarrow> stage1" where
  "boot_tables k info len st = map_pages (boot_table k info) (\<lambda>p. p mod 1024) of_nat (info_pages info len) (boot_entered k info st)"

lemma boot_table_ok:
  assumes "layout_ok k"
  shows "page_aligned (l_lowMemoryPageTable k)" "page_aligned (l_kernelPageTable k)" "page_aligned (l_kernelPageTable k + 4096)"
    "page_aligned (boot_table k info)" "l_lowMemoryPageTable k \<noteq> l_bootPageTable k"
    "boot_table k info \<noteq> l_kernelPageTable k" "boot_table k info \<noteq> l_kernelPageTable k + 4096"
  using assms kernel_tables(1) [OF assms] by (auto simp: layout_ok_def boot_table_def)

lemma boot_info_mapped:
  assumes ok: "layout_ok k" and bi: "boot_info_ok k (ucast info) len" and lh: "mapped_low_high k st" and p: "p \<in> set (info_pages info len)"
  shows "maps_via (boot_tables k info len st) (boot_table k info) p p"
proof -
  let ?b = "page_no (ucast info) div 1024"
  note ps = boot_pages [OF bi]
  have s1: "de_present (directory (boot_entered k info st) ?b)"
    "de_tableAddr (directory (boot_entered k info st) ?b) = ucast (drop_bit 12 (boot_table k info))"
    using lh by (auto simp: boot_entered_def boot_table_def mapped_low_high_def)
  have "?b < 1024" using page_no_bound [of "ucast info"] by simp
  then have "p < 1048576" using ps(1) p by auto
  then show ?thesis unfolding boot_tables_def by (intro maps_via_window [OF boot_table_ok(4) [OF ok] p ps(1) s1])
qed

lemma boot_low_mapped:
  assumes ok: "layout_ok k" and bi: "boot_info_ok k (ucast info) len" and lh: "mapped_low_high k st"
    and p: "1 \<le> p" "p < (unat (l_EARLY_KERNEL_END k) + 4095) div 4096"
  shows "maps_via (boot_tables k info len st) (l_lowMemoryPageTable k) p p"
proof (cases "page_no (ucast info) div 1024 = 0 \<and> p \<in> set (info_pages info len)")
  case True
  then show ?thesis using boot_info_mapped [OF ok bi lh, of p] by (simp add: boot_table_def)
next
  case False
  let ?L = "l_lowMemoryPageTable k"
  note al = boot_table_ok(1-3) [OF ok] boot_table_ok(4) [OF ok, of info] boot_table_ok(5) [OF ok]
  have "unat (l_EARLY_KERNEL_END k) \<le> 0x400000" using ok by (simp add: layout_ok_def)
  then have p': "p < 1024" "maps_via st ?L p p" using p lh by (auto simp: mapped_low_high_def)
  have "p' mod 1024 = p'" if "page_no (ucast info) div 1024 = 0" "p' \<in> set (info_pages info len)" for p'
    using boot_pages(1) [OF bi] that by auto
  then have "entry_address ?L (p mod 1024) \<notin> (\<lambda>p. entry_address (boot_table k info) (p mod 1024)) ` set (info_pages info len)"
    using False p' al(5) by (subst ea_in_image_iff [OF al(1,4)]) (auto simp: boot_table_def split: if_splits)
  moreover have "maps_via (boot_entered k info st) ?L p p"
    using p' by (auto simp: boot_entered_def intro: maps_via_set_directory_entry)
  ultimately show ?thesis unfolding boot_tables_def by (intro maps_via_map_pages)
qed

lemma boot_kernel_mapped:
  assumes ok: "layout_ok k" and bi: "boot_info_ok k (ucast info) len" and lh: "mapped_low_high k st"
    and p: "page_no (l_KERNEL_START k) \<le> p" "p < page_no (l_KERNEL_END k)"
  shows "maps_via (boot_tables k info len st) (if p mod 2048 < 1024 then l_kernelPageTable k else l_kernelPageTable k + 4096) p
    (p - page_no (l_KERNEL_BASE k))"
proof -
  let ?T = "if p mod 2048 < 1024 then l_kernelPageTable k else l_kernelPageTable k + 4096"
  have "maps_via st ?T p (p - page_no (l_KERNEL_BASE k))" using lh p by (auto simp: mapped_low_high_def)
  moreover have "page_no (ucast info) div 1024 \<noteq> p div 1024"
    using bi page_in_pair(2) [OF kernel_range [OF ok p]] by (auto simp: boot_info_ok_def)
  ultimately have "maps_via (boot_entered k info st) ?T p (p - page_no (l_KERNEL_BASE k))"
    by (auto simp: boot_entered_def intro: maps_via_set_directory_entry)
  moreover have "entry_address ?T (p mod 1024) \<notin> (\<lambda>p. entry_address (boot_table k info) (p mod 1024)) ` set (info_pages info len)"
    by (subst ea_in_image_iff) (use boot_table_ok(2,3) [OF ok] boot_table_ok(4,6,7) [OF ok, of info] in auto)
  ultimately show ?thesis unfolding boot_tables_def by (intro maps_via_map_pages)
qed

lemma boot_page_zero:
  assumes ok: "layout_ok k" and bi: "boot_info_ok k (ucast info) len" and lh: "mapped_low_high k st"
  shows "\<not> te_present (table_memory (boot_tables k info len st) (entry_address (l_lowMemoryPageTable k) 0))"
proof -
  note al = boot_table_ok(1-3) [OF ok] boot_table_ok(4) [OF ok, of info] boot_table_ok(5) [OF ok]
  have "0 \<notin> (\<lambda>p. p mod 1024) ` set (info_pages info len)" if "page_no (ucast info) div 1024 = 0"
    using boot_pages [OF bi] that by (auto simp: image_iff)
  then have "entry_address (l_lowMemoryPageTable k) 0 \<notin> (\<lambda>p. entry_address (boot_table k info) (p mod 1024)) ` set (info_pages info len)"
    using al(5) by (subst ea_in_image_iff [OF al(1,4)]) (auto simp: boot_table_def split: if_splits)
  then show ?thesis using lh by (simp add: boot_tables_def map_pages_other boot_entered_def mapped_low_high_def)
qed

lemma boot_mapped:
  assumes ok: "layout_ok k" and bi: "boot_info_ok k (ucast info) len"
    and g: "stage1GetBootInfoAddr ts (ucast info) = Some (Inr len)" and lh: "mapped_low_high k st"
  obtains st' where "stage1MapBootloader k ts info st = Inr st'"
    "\<And>p. 1 \<le> p \<Longrightarrow> p < (unat (l_EARLY_KERNEL_END k) + 4095) div 4096 \<Longrightarrow> maps_via st' (l_lowMemoryPageTable k) p p"
    "\<And>p. page_no (l_KERNEL_START k) \<le> p \<Longrightarrow> p < page_no (l_KERNEL_END k) \<Longrightarrow>
       maps_via st' (if p mod 2048 < 1024 then l_kernelPageTable k else l_kernelPageTable k + 4096) p
         (p - page_no (l_KERNEL_BASE k))"
    "\<And>p. page_no (ucast info) \<le> p \<Longrightarrow> p < (unat (ucast info :: u32) + unat len + 4095) div 4096 \<Longrightarrow>
       maps_via st' (if page_no (ucast info) div 1024 = 0 then l_lowMemoryPageTable k else l_bootPageTable k) p p"
    "\<not> te_present (table_memory st' (entry_address (l_lowMemoryPageTable k) 0))"
    "de_present (directory st' 0)" "de_tableAddr (directory st' 0) = ucast (drop_bit 12 (l_lowMemoryPageTable k))"
proof
  let ?b = "page_no (ucast info) div 1024"
  have "de_present (directory st ?b) \<longleftrightarrow> ?b = 0" using lh bi by (auto simp: mapped_low_high_def boot_info_ok_def)
  then show "stage1MapBootloader k ts info st = Inr (boot_tables k info len st)"
    using stage1MapBootloader_eq [OF bi g, of st] lh
    by (auto simp: boot_tables_def boot_entered_def boot_table_def mapped_low_high_def table_address [OF boot_table_ok(1) [OF ok]])
  show "maps_via (boot_tables k info len st) (if ?b = 0 then l_lowMemoryPageTable k else l_bootPageTable k) p p"
    if "page_no (ucast info) \<le> p" "p < (unat (ucast info :: u32) + unat len + 4095) div 4096" for p
    using boot_info_mapped [OF ok bi lh, of p] that by (simp add: boot_table_def)
  show "de_present (directory (boot_tables k info len st) 0)"
    "de_tableAddr (directory (boot_tables k info len st) 0) = ucast (drop_bit 12 (l_lowMemoryPageTable k))"
    using lh by (auto simp: boot_tables_def boot_entered_def mapped_low_high_def)
qed (rule boot_low_mapped [OF ok bi lh] boot_kernel_mapped [OF ok bi lh] boot_page_zero [OF ok bi lh]; assumption)+

lemma address_of_page: "of_nat (4096 * page_no a + unat a mod 4096) = a"
  by (simp only: mult_div_mod_eq) simp

lemma address_minus_base:
  assumes "page_aligned base" "base \<le> a"
  shows "of_nat (4096 * (page_no a - page_no base) + unat a mod 4096) = a - base"
proof -
  have "4096 * page_no base = unat base" "page_no base \<le> page_no a"
    using assms by (auto simp: word_le_nat_alt div_le_mono)
  then have "4096 * (page_no a - page_no base) + unat a mod 4096 = unat a - unat base"
    using mult_div_mod_eq [of 4096 "unat a"] by (simp add: diff_mult_distrib2)
  then show ?thesis using assms(2) by (simp add: of_nat_diff word_le_nat_alt del: of_nat_add of_nat_mult)
qed

lemma page_no_less_ceil: "a < e \<Longrightarrow> page_no a < (unat e + 4095) div 4096" for a e :: u32
  by (simp add: word_less_nat_alt)

text \<open>C24: stage 1 ends with paging enabled on tables that map early memory and the boot information to
  themselves and every address of the kernel to its load address, and that leave the first page
  unmapped.\<close>

theorem stage1_translation:
  assumes ok: "layout_ok k" and bi: "boot_info_ok k (ucast info) len"
    and g: "stage1GetBootInfoAddr ts (ucast info) = Some (Inr len)"
  shows "\<exists>st. stage1Entry k ts (Some info) stage1_start = Inr st \<and> pagingEnable st \<and> cr3 st = l_pageDirectory k
    \<and> (\<forall>a. a < 4096 \<longrightarrow> translate st a = None)
    \<and> (\<forall>a. 4096 \<le> a \<and> a < l_EARLY_KERNEL_END k \<longrightarrow> translate st a = Some a)
    \<and> (\<forall>a. l_KERNEL_START k \<le> a \<and> a < l_KERNEL_END k \<longrightarrow> translate st a = Some (a - l_KERNEL_BASE k))
    \<and> (\<forall>a. ucast info \<le> a \<and> a < ucast info + len \<longrightarrow> translate st a = Some a)"
proof -
  obtain st1 st2 where 1: "stage1MapLowMemory k stage1_start = Inr st1" "stage1MapHighMemory k st1 = Inr st2"
      "mapped_low_high k st2"
    using low_high_mapped [OF ok] by blast
  obtain st' where 2: "stage1MapBootloader k ts info st2 = Inr st'"
    "\<And>p. 1 \<le> p \<Longrightarrow> p < (unat (l_EARLY_KERNEL_END k) + 4095) div 4096 \<Longrightarrow> maps_via st' (l_lowMemoryPageTable k) p p"
    "\<And>p. page_no (l_KERNEL_START k) \<le> p \<Longrightarrow> p < page_no (l_KERNEL_END k) \<Longrightarrow>
       maps_via st' (if p mod 2048 < 1024 then l_kernelPageTable k else l_kernelPageTable k + 4096) p
         (p - page_no (l_KERNEL_BASE k))"
    "\<And>p. page_no (ucast info) \<le> p \<Longrightarrow> p < (unat (ucast info :: u32) + unat len + 4095) div 4096 \<Longrightarrow>
       maps_via st' (if page_no (ucast info) div 1024 = 0 then l_lowMemoryPageTable k else l_bootPageTable k) p p"
    "\<not> te_present (table_memory st' (entry_address (l_lowMemoryPageTable k) 0))"
    "de_present (directory st' 0)" "de_tableAddr (directory st' 0) = ucast (drop_bit 12 (l_lowMemoryPageTable k))"
    using boot_mapped [OF ok bi g 1(3)] by blast
  let ?st = "stage1EnablePaging k st'"
  have tr: "translate ?st a = translate st' a" for a by (simp add: translate_def stage1EnablePaging_def Let_def)
  have same: "translate st' a = Some a" if "maps_via st' T (page_no a) (page_no a)" for T a
    using translate_maps_via [OF that page_no_bound] by (simp only: address_of_page)
  have "translate st' a = None" if "a < 4096" for a
  proof -
    have "unat a < 4096" using that by (simp add: word_less_nat_alt)
    then show ?thesis using 2(5-7) ok
      by (simp add: translate_def Let_def unat_fields layout_ok_def table_address)
  qed
  moreover have "translate st' a = Some a" if "4096 \<le> a" "a < l_EARLY_KERNEL_END k" for a
    by (rule same [OF 2(2)]) (use that page_no_less_ceil [OF that(2)] in \<open>auto simp: word_le_nat_alt\<close>)
  moreover have "translate st' a = Some (a - l_KERNEL_BASE k)" if a: "l_KERNEL_START k \<le> a" "a < l_KERNEL_END k" for a
  proof -
    have al: "page_aligned (l_KERNEL_END k)" "page_aligned (l_KERNEL_BASE k)" "l_KERNEL_BASE k \<le> a"
      using ok a by (auto simp: layout_ok_def)
    have "(unat (l_KERNEL_END k) + 4095) div 4096 = page_no (l_KERNEL_END k)" using al(1) by (auto elim!: dvdE)
    then have "page_no (l_KERNEL_START k) \<le> page_no a" "page_no a < page_no (l_KERNEL_END k)"
      using a page_no_less_ceil [OF a(2)] by (simp_all add: word_le_nat_alt div_le_mono)
    from translate_maps_via [OF 2(3) [OF this]] show ?thesis
      using page_no_bound [of a] address_minus_base [OF al(2,3)] by simp
  qed
  moreover have "translate st' a = Some a" if "ucast info \<le> a" "a < ucast info + len" for a
  proof (rule same [OF 2(4)])
    have "unat (ucast info + len :: u32) = unat (ucast info :: u32) + unat len"
      using bi by (simp add: boot_info_ok_def unat_word_ariths)
    then show "page_no a < (unat (ucast info :: u32) + unat len + 4095) div 4096"
      using page_no_less_ceil [OF that(2)] by simp
  qed (use that in \<open>simp add: word_le_nat_alt div_le_mono\<close>)
  moreover have "stage1Entry k ts (Some info) stage1_start = Inr ?st" by (simp add: stage1Entry_def 1 2(1))
  ultimately show ?thesis by (intro exI [of _ ?st]) (simp add: tr, simp add: stage1EnablePaging_def)
qed

definition demo_layout :: stage1_layout where
  "demo_layout = \<lparr>l_pageDirectory = 0x102000, l_lowMemoryPageTable = 0x103000, l_kernelPageTable = 0x104000,
     l_bootPageTable = 0x106000, l_EARLY_KERNEL_END = 0x10D000, l_KERNEL_BASE = 0xC0000000,
     l_KERNEL_START = 0xC010D000, l_KERNEL_END = 0xC0640000\<rparr>"

definition demo_tags :: tags where
  "demo_tags = (\<lambda>_. \<lparr>t_body = TAG_OTHER, t_next = 0\<rparr>)(0x7FF0000 :=
     \<lparr>t_body = TAG_MEMMAP [\<lparr>e_base = 0x7FF0000, e_length = 0x3000, e_type = MMAP_BOOTLOADER_RECLAIMABLE\<rparr>], t_next = 0\<rparr>)"

theorem stage1_translation_witness:
  "\<exists>st. stage1Entry demo_layout demo_tags (Some 0x7FF0000) stage1_start = Inr st
    \<and> translate st 0 = None \<and> translate st 0x100010 = Some 0x100010
    \<and> translate st 0xC0400123 = Some 0x400123 \<and> translate st 0x7FF2FFF = Some 0x7FF2FFF"
proof -
  have "stage1GetBootInfoAddr demo_tags (ucast (0x7FF0000 :: u64)) = Some (Inr 0x3000)"
    by (subst stage1GetBootInfoAddr.simps) (simp add: demo_tags_def)
  then show ?thesis
    using stage1_translation [of demo_layout "0x7FF0000" "0x3000" demo_tags]
    by (fastforce simp: layout_ok_def boot_info_ok_def demo_layout_def)
qed

text \<open>The search compares the start of a reclaimable region with the memory map tag itself, not with the head
  of the list: a list in the region's first bytes whose memory map is its second tag is not found.\<close>

lemma boot_info_not_found_behind_head:
  assumes "ts 0x7FF0000 = \<lparr>t_body = TAG_OTHER, t_next = 0x7FF0040\<rparr>"
    and "ts 0x7FF0040 = \<lparr>t_body = TAG_MEMMAP [\<lparr>e_base = 0x7FF0000, e_length = 0x3000,
           e_type = MMAP_BOOTLOADER_RECLAIMABLE\<rparr>], t_next = 0\<rparr>"
  shows "stage1GetBootInfoAddr ts 0x7FF0000 = Some (Inl (Panic ''Error: Cannot detect bootloader info length!''))"
  by (subst stage1GetBootInfoAddr.simps, simp add: assms, subst stage1GetBootInfoAddr.simps, simp add: assms,
      subst stage1GetBootInfoAddr.simps, simp)

end
