(* ===== verification/Handoff.thy ===== *)
theory Handoff
  imports Stage1 Physical_Memory C_String Graphics
begin

text \<open>
  \<open>Kernel/Bootloader/Handoff.cpp\<close> and \<open>Arguments.cpp\<close>: the kernel reads the boot loader's tags into its
  own structures.  The memory map is converted to the sections of \<open>Physical_Memory\<close>, whose base and size
  are 32 bits wide; the frame buffer becomes the one of \<open>Graphics\<close>; the command line is searched for the
  registered arguments with \<open>strstr\<close> over the byte memory of \<open>C_String\<close>.  Debug messages are left out.
\<close>

section \<open>Command line\<close>

text \<open>The arguments, by the address of their text, in the order of the linker section; the result lists
  the ones whose callback is run.\<close>

definition parseCommandLine :: "mem \<Rightarrow> nat \<Rightarrow> nat list \<Rightarrow> nat list outcome" where
  "parseCommandLine m cmdline args =
     foldE (\<lambda>arg called. case strstr m cmdline arg of
              None \<Rightarrow> Inl Hang
            | Some None \<Rightarrow> Inr called
            | Some (Some _) \<Rightarrow> Inr (called @ [arg])) args []"

section \<open>The handoff object\<close>

datatype HandoffBootloaderType = Stivale2

record handoff =
  m_handle :: "u32 option"
  m_cmdline :: "nat option"
  m_magic :: u32
  m_framebuffer :: framebuffer
  m_bootType :: "HandoffBootloaderType option"
  m_memoryMap :: memory_map

definition STIVALE2_MAGIC :: u32 where "STIVALE2_MAGIC = 0x73747632"

fun section_type :: "mmap_type \<Rightarrow> mem_type" where
  "section_type MMAP_USABLE = Available"
| "section_type MMAP_RESERVED = Reserved"
| "section_type MMAP_ACPI_RECLAIMABLE = ACPI"
| "section_type MMAP_ACPI_NVS = NVS"
| "section_type MMAP_BAD_MEMORY = Bad"
| "section_type MMAP_BOOTLOADER_RECLAIMABLE = Bootloader"
| "section_type MMAP_KERNEL_AND_MODULES = Kernel"
| "section_type MMAP_OTHER = Unknown"

definition convert_entry :: "mmap_entry \<Rightarrow> section_t" where
  "convert_entry e = setType (section_type (e_type e)) (Section (ucast (e_base e)) (ucast (e_length e)))"

definition read_memmap :: "mmap_entry list \<Rightarrow> memory_map \<Rightarrow> memory_map outcome" where
  "read_memmap es m =
     (if length es > MemoryMap_Count then Inl (Panic ''Not enough space to add all memory map entries!'')
      else foldE (\<lambda>i m. if i < length m then Inr (m[i := convert_entry (es ! i)]) else Inl OutOfBounds)
             [0..<length es] m)"

definition memory_model :: "u8 \<Rightarrow> FramebufferMemoryModel" where
  "memory_model b = (if b = 1 then RGB_FBMM else Undefined_FBMM)"

definition read_framebuffer :: "framebuffer_tag \<Rightarrow> framebuffer" where
  "read_framebuffer t = fst (Framebuffer_full (ucast (t_framebuffer_width t)) (ucast (t_framebuffer_height t))
     (t_framebuffer_bpp t) (ucast (t_framebuffer_pitch t)) (ucast (t_framebuffer_addr t))
     (memory_model (t_memory_model t)) (t_red_mask_size t) (t_red_mask_shift t) (t_green_mask_size t)
     (t_green_mask_shift t) (t_blue_mask_size t) (t_blue_mask_shift t) None)"

text \<open>The environment of the parser: the byte memory, the registered arguments and the callbacks run so
  far.\<close>

record boot_env =
  be_mem :: mem
  be_args :: "nat list"
  be_called :: "nat list"

definition parse_tag :: "tag_body \<Rightarrow> handoff \<times> boot_env \<Rightarrow> (handoff \<times> boot_env) outcome" where
  "parse_tag tag = (\<lambda>(h, env). case tag of
     TAG_MEMMAP es \<Rightarrow> bindE (read_memmap es (m_memoryMap h)) (\<lambda>m. Inr (h\<lparr>m_memoryMap := m\<rparr>, env))
   | TAG_CMDLINE a \<Rightarrow>
       (let c = unat (ucast a :: u32)
        in bindE (parseCommandLine (be_mem env) c (be_args env)) (\<lambda>cs.
             Inr (h\<lparr>m_cmdline := Some c\<rparr>, env\<lparr>be_called := be_called env @ cs\<rparr>)))
   | TAG_FRAMEBUFFER t \<Rightarrow> Inr (h\<lparr>m_framebuffer := read_framebuffer t\<rparr>, env)
   | TAG_OTHER \<Rightarrow> Inr (h, env))"

partial_function (option) walk_tags :: "tags \<Rightarrow> u32 \<Rightarrow> handoff \<times> boot_env \<Rightarrow> (handoff \<times> boot_env) outcome option" where
  "walk_tags ts tag s =
     (if tag \<noteq> 0 then
        (case parse_tag (t_body (ts tag)) s of
           Inl e \<Rightarrow> Some (Inl e)
         | Inr s1 \<Rightarrow> walk_tags ts (ucast (t_next (ts tag))) s1)
      else Some (Inr s))"

definition parseStivale2 :: "tags \<Rightarrow> u64 \<Rightarrow> handoff \<times> boot_env \<Rightarrow> (handoff \<times> boot_env) outcome" where
  "parseStivale2 ts info_tags s = (case walk_tags ts (ucast info_tags) s of None \<Rightarrow> Inl Hang | Some r \<Rightarrow> r)"

text \<open>The constructor; the members without an initialiser are default-constructed.  The default frame
  buffer is the first one constructed, so the pointer to the active one points to this member.\<close>

definition Handoff :: "tags \<Rightarrow> u32 \<Rightarrow> u64 \<Rightarrow> u32 \<Rightarrow> boot_env \<Rightarrow> (handoff \<times> boot_env) outcome" where
  "Handoff ts handle info_tags magic env =
     (let h = \<lparr>m_handle = Some handle, m_cmdline = None, m_magic = magic,
               m_framebuffer = fst (Framebuffer_empty None), m_bootType = None, m_memoryMap = MemoryMap\<rparr>
      in if magic = STIVALE2_MAGIC
         then parseStivale2 ts info_tags (h\<lparr>m_bootType := Some Stivale2\<rparr>, env)
         else Inl (Panic ''Invalid bootloader magic!''))"

section \<open>The command line\<close>

lemma parseCommandLine_filter:
  assumes "cstr m cmdline xs" "\<And>a. a \<in> set args \<Longrightarrow> cstr m a (arg_text a)"
  shows "parseCommandLine m cmdline args = Inr (filter (\<lambda>a. arg_text a \<noteq> [] \<and> suffix (arg_text a) xs) args)"
proof -
  have "foldE (\<lambda>arg called. case strstr m cmdline arg of None \<Rightarrow> Inl Hang | Some None \<Rightarrow> Inr called
            | Some (Some _) \<Rightarrow> Inr (called @ [arg])) args cs =
      Inr (cs @ filter (\<lambda>a. arg_text a \<noteq> [] \<and> suffix (arg_text a) xs) args)" for cs
    using assms(2)
  proof (induction args arbitrary: cs)
    case (Cons a args)
    then show ?case using strstr_only_suffix [OF assms(1), of a "arg_text a"] by simp
  qed simp
  then show ?thesis by (simp add: parseCommandLine_def)
qed

text \<open>the callback of a registered kernel argument is run exactly when the argument is a non-empty suffix
  of the command line, each at most once and in the order of registration; an argument followed by
  anything else is not seen.\<close>

theorem parseCommandLine_only_last:
  assumes "cstr m cmdline xs" "\<And>a. a \<in> set args \<Longrightarrow> cstr m a (arg_text a)"
  shows "parseCommandLine m cmdline args = Inr (filter (\<lambda>a. arg_text a \<noteq> [] \<and> suffix (arg_text a) xs) args)"
  using assms by (rule parseCommandLine_filter)

definition demo_cmdline :: mem where
  "demo_cmdline = (\<lambda>_. 0)(10 := 97, 11 := 32, 12 := 98, 20 := 97, 30 := 98)"

theorem parseCommandLine_only_last_witness: "parseCommandLine demo_cmdline 10 [20, 30] = Inr [30]"
proof -
  have "parseCommandLine demo_cmdline 10 [20, 30] =
      Inr (filter (\<lambda>a. (if a = 20 then [97 :: u8] else [98]) \<noteq> [] \<and> suffix (if a = 20 then [97 :: u8] else [98]) [97, 32, 98]) [20, 30])"
    by (rule parseCommandLine_only_last) (auto simp: demo_cmdline_def)
  then show ?thesis by (simp add: suffix_Cons)
qed

section \<open>Walking the tags\<close>

fun tag_chain :: "tags \<Rightarrow> u32 \<Rightarrow> tag_body list \<Rightarrow> bool" where
  "tag_chain ts t [] \<longleftrightarrow> t = 0"
| "tag_chain ts t (b # bs) \<longleftrightarrow> t \<noteq> 0 \<and> t_body (ts t) = b \<and> tag_chain ts (ucast (t_next (ts t))) bs"

lemma walk_tags_chain: "tag_chain ts t bs \<Longrightarrow> walk_tags ts t s = Some (foldE parse_tag bs s)"
proof (induction bs arbitrary: t s)
  case Nil
  then show ?case by (subst walk_tags.simps) simp
next
  case (Cons b bs)
  then show ?case by (subst walk_tags.simps) (auto split: sum.split)
qed

text \<open>A tag that is not a memory map does not change the map; a command line must be terminated, as must
  the registered arguments.\<close>

definition plain_tag :: "boot_env \<Rightarrow> tag_body \<Rightarrow> bool" where
  "plain_tag env b \<longleftrightarrow> (case b of
     TAG_MEMMAP _ \<Rightarrow> False
   | TAG_CMDLINE a \<Rightarrow> (\<exists>xs. cstr (be_mem env) (unat (ucast a :: u32)) xs)
   | _ \<Rightarrow> True) \<and> (\<forall>a \<in> set (be_args env). \<exists>xs. cstr (be_mem env) a xs)"

lemma plain_tag_called [simp]: "plain_tag (env\<lparr>be_called := cs\<rparr>) b = plain_tag env b"
  by (cases b) (simp_all add: plain_tag_def)

text \<open>The frame buffer is the one of the last tag that describes one.\<close>

definition last_framebuffer :: "tag_body list \<Rightarrow> framebuffer \<Rightarrow> framebuffer" where
  "last_framebuffer = fold (\<lambda>b f. case b of TAG_FRAMEBUFFER t \<Rightarrow> read_framebuffer t | _ \<Rightarrow> f)"

lemma plain_tags_keep_map:
  assumes "\<forall>b \<in> set bs. plain_tag env b"
  shows "\<exists>h' cs. foldE parse_tag bs (h, env) = Inr (h', env\<lparr>be_called := cs\<rparr>) \<and> m_memoryMap h' = m_memoryMap h
    \<and> m_framebuffer h' = last_framebuffer bs (m_framebuffer h)"
  using assms
proof (induction bs arbitrary: h env)
  case Nil
  then show ?case by (intro exI [of _ h] exI [of _ "be_called env"]) (simp add: last_framebuffer_def)
next
  case (Cons b bs)
  have one: "\<exists>h' cs. parse_tag b (h, env) = Inr (h', env\<lparr>be_called := cs\<rparr>) \<and> m_memoryMap h' = m_memoryMap h
      \<and> m_framebuffer h' = last_framebuffer [b] (m_framebuffer h)"
  proof (cases b)
    case (TAG_CMDLINE a)
    then obtain xs where xs: "cstr (be_mem env) (unat (ucast a :: u32)) xs" using Cons.prems by (auto simp: plain_tag_def)
    obtain arg_text where "\<And>a. a \<in> set (be_args env) \<Longrightarrow> cstr (be_mem env) a (arg_text a)"
      using Cons.prems by (auto simp: plain_tag_def) metis
    from parseCommandLine_filter [OF xs this] TAG_CMDLINE show ?thesis by (auto simp: parse_tag_def Let_def last_framebuffer_def)
  qed (use Cons.prems in \<open>auto simp: parse_tag_def plain_tag_def last_framebuffer_def intro: exI [of _ "be_called env"]\<close>)
  then obtain h' cs where h': "parse_tag b (h, env) = Inr (h', env\<lparr>be_called := cs\<rparr>)" "m_memoryMap h' = m_memoryMap h"
      "m_framebuffer h' = last_framebuffer [b] (m_framebuffer h)"
    by blast
  have "\<forall>b \<in> set bs. plain_tag (env\<lparr>be_called := cs\<rparr>) b" using Cons.prems by simp
  from Cons.IH [OF this, of h'] h' show ?case by (auto simp: last_framebuffer_def)
qed

section \<open>The memory map and the free frames\<close>

lemma read_memmap_eq:
  assumes "length es \<le> 32" "length m = 32"
  shows "read_memmap es m = Inr (map convert_entry es @ drop (length es) m)"
proof -
  have "foldE (\<lambda>i m. if i < length m then Inr (m[i := convert_entry (es ! i)]) else Inl OutOfBounds) [0..<n] m =
      Inr (map convert_entry (take n es) @ drop n m)" if "n \<le> length es" for n
    using that
  proof (induction n)
    case (Suc n)
    have "drop n m = m ! n # drop (Suc n) m" using Suc.prems assms by (simp add: Cons_nth_drop_Suc)
    then show ?case using Suc assms by (simp add: foldE_append list_update_append take_Suc_conv_app_nth)
  qed simp
  then show ?thesis using assms by (simp add: read_memmap_def MemoryMap_Count_def)
qed

text \<open>An entry that ends within 4 GiB keeps its range.\<close>

definition fits :: "mmap_entry \<Rightarrow> bool" where
  "fits e \<longleftrightarrow> unat (e_base e) mod 4096 = 0 \<and> unat (e_base e) + unat (e_length e) \<le> 2 ^ 32"

definition frame_in :: "nat \<Rightarrow> mmap_entry \<Rightarrow> bool" where
  "frame_in p e \<longleftrightarrow> unat (e_base e) \<le> 4096 * p \<and> 4096 * p + 4096 \<le> unat (e_base e) + unat (e_length e)"

lemma section_type_Available: "section_type t = Available \<longleftrightarrow> t = MMAP_USABLE"
  by (cases t) simp_all

lemma unat_ucast_u32: "unat (ucast (x :: u64) :: u32) = unat x mod 2 ^ 32"
  by (simp add: unsigned_ucast_eq take_bit_eq_mod)

lemma convert_entry_frames:
  assumes "fits e" "p < MEM_BITMAP_SIZE"
  shows "initialized (convert_entry e) \<and> m_type (convert_entry e) = Available \<and> p \<in> section_frames (convert_entry e)
    \<longleftrightarrow> e_type e = MMAP_USABLE \<and> e_base e \<noteq> 0 \<and> frame_in p e"
proof (cases "e_base e = 0 \<or> e_length e = 0")
  case True
  then show ?thesis using assms(1)
    by (auto simp: convert_entry_def initialized_def setType_def Section_def fits_def frame_in_def)
next
  case False
  let ?b = "unat (e_base e)" and ?l = "unat (e_length e)"
  have bl: "0 < ?b" "0 < ?l" using False by (simp_all add: unat_gt_0)
  obtain q where q: "?b = 4096 * q" using assms(1) by (auto simp: fits_def)
  have u: "unat (ucast (e_base e) :: u32) = ?b" "unat (ucast (e_length e) :: u32) = ?l"
    using assms(1) bl by (simp_all add: fits_def unat_ucast_u32)
  have init: "initialized (convert_entry e)"
    using u bl by (auto simp: convert_entry_def initialized_def setType_def Section_def)
  have fr: "unat (ucast (e_base e) + of_nat i * ARCH_PAGE_SIZE :: u32) div 4096 = q + i" if "i < ?l div 4096" for i
  proof -
    have le: "?b + 4096 * i < 2 ^ 32" using that assms(1) by (simp add: fits_def) linarith
    then have "unat (of_nat (4096 * i) :: u32) = 4096 * i" by (intro unat_of_nat_u32) simp
    then have "unat (ucast (e_base e) + of_nat (4096 * i) :: u32) = ?b + 4096 * i"
      using le u(1) by (simp add: unat_word_ariths del: of_nat_mult)
    then show ?thesis using q by (simp add: ARCH_PAGE_SIZE_def mult.commute)
  qed
  have "unat (pages (convert_entry e)) = ?l div 4096"
    using u by (simp add: pages_def convert_entry_def setType_def Section_def ARCH_PAGE_SIZE_def unat_div)
  then have "section_frames (convert_entry e) = (\<lambda>i. q + i) ` {0..<?l div 4096}"
    unfolding section_frames_def using fr
    by (intro image_cong) (simp_all add: convert_entry_def setType_def Section_def)
  then have "p \<in> section_frames (convert_entry e) \<longleftrightarrow> q \<le> p \<and> p < q + ?l div 4096"
    by (auto simp: image_iff intro: bexI [of _ "p - q"])
  also have "\<dots> \<longleftrightarrow> frame_in p e"
  proof -
    have "p < q + ?l div 4096 \<longleftrightarrow> 4096 * p + 4096 \<le> 4096 * q + ?l" if "q \<le> p"
    proof -
      obtain r where "p = q + r" using \<open>q \<le> p\<close> le_Suc_ex by blast
      then show ?thesis by (simp add: less_eq_div_iff_mult_less_eq Suc_le_eq [symmetric] algebra_simps)
    qed
    then show ?thesis by (auto simp: frame_in_def q)
  qed
  finally show ?thesis using init False
    by (auto simp: convert_entry_def setType_def Section_def section_type_Available)
qed

lemma Section_empty_not_initialized [simp]: "\<not> initialized Section_empty"
  by (simp add: Section_empty_def initialized_def)

lemma Handoff_map:
  assumes "tag_chain ts (ucast info) (xs @ TAG_MEMMAP es # ys)" "\<forall>b \<in> set (xs @ ys). plain_tag env b" "length es \<le> 32"
  obtains h cs where "Handoff ts handle info STIVALE2_MAGIC env = Inr (h, env\<lparr>be_called := cs\<rparr>)"
    "m_memoryMap h = map convert_entry es @ replicate (32 - length es) Section_empty"
    "m_framebuffer h = last_framebuffer (xs @ ys) (fst (Framebuffer_empty None))"
proof -
  let ?h = "\<lparr>m_handle = Some handle, m_cmdline = None, m_magic = STIVALE2_MAGIC,
      m_framebuffer = fst (Framebuffer_empty None), m_bootType = Some Stivale2, m_memoryMap = MemoryMap\<rparr>"
  obtain h1 c1 where 1: "foldE parse_tag xs (?h, env) = Inr (h1, env\<lparr>be_called := c1\<rparr>)" "m_memoryMap h1 = MemoryMap"
      "m_framebuffer h1 = last_framebuffer xs (fst (Framebuffer_empty None))"
    using plain_tags_keep_map [of xs env ?h] assms(2) by auto
  define h2 where "h2 = h1\<lparr>m_memoryMap := map convert_entry es @ replicate (32 - length es) Section_empty\<rparr>"
  have 2: "parse_tag (TAG_MEMMAP es) (h1, env\<lparr>be_called := c1\<rparr>) = Inr (h2, env\<lparr>be_called := c1\<rparr>)"
    using assms(3) 1(2) by (simp add: parse_tag_def read_memmap_eq h2_def MemoryMap_def)
  obtain h3 c3 where 3: "foldE parse_tag ys (h2, env\<lparr>be_called := c1\<rparr>) = Inr (h3, env\<lparr>be_called := c3\<rparr>)"
      "m_memoryMap h3 = m_memoryMap h2" "m_framebuffer h3 = last_framebuffer ys (m_framebuffer h2)"
    using plain_tags_keep_map [of ys "env\<lparr>be_called := c1\<rparr>" h2] assms(2) by auto
  have "Handoff ts handle info STIVALE2_MAGIC env = Inr (h3, env\<lparr>be_called := c3\<rparr>)"
    using walk_tags_chain [OF assms(1), of "(?h, env)"] 1 2 3
    by (simp add: Handoff_def parseStivale2_def Let_def foldE_append)
  with that 1(3) 3(2,3) show thesis by (simp add: h2_def last_framebuffer_def)
qed

text \<open>from the boot loader's memory map to the free frames.  When the tag list ends, has one memory map of at
  most 32 entries and its entries are page aligned and end within 4 GiB, the constructor succeeds, and
  after the physical memory manager is initialised from its map a frame is free exactly when it lies
  completely in a usable entry that does not start at address 0.\<close>

theorem boot_memory_map_frees_usable:
  assumes "tag_chain ts (ucast info) (xs @ TAG_MEMMAP es # ys)" "\<forall>b \<in> set (xs @ ys). plain_tag env b"
    and "length es \<le> 32" "\<forall>e \<in> set es. fits e"
  shows "\<exists>h env' fr re b. Handoff ts handle info STIVALE2_MAGIC env = Inr (h, env')
    \<and> m_framebuffer h = last_framebuffer (xs @ ys) (fst (Framebuffer_empty None))
    \<and> Physical_initialize (m_memoryMap h) Physical_Manager = Inr (fr, re, b) \<and> wf_phys b
    \<and> (\<forall>p < MEM_BITMAP_SIZE. isFree (of_nat (4096 * p)) b =
          Inr (\<exists>e \<in> set es. e_type e = MMAP_USABLE \<and> e_base e \<noteq> 0 \<and> frame_in p e))"
proof -
  obtain h cs where h: "Handoff ts handle info STIVALE2_MAGIC env = Inr (h, env\<lparr>be_called := cs\<rparr>)"
      "m_memoryMap h = map convert_entry es @ replicate (32 - length es) Section_empty"
      "m_framebuffer h = last_framebuffer (xs @ ys) (fst (Framebuffer_empty None))"
    using Handoff_map [OF assms(1-3)] by blast
  have "length (m_memoryMap h) = MemoryMap_Count" using assms(3) by (simp add: h(2) MemoryMap_Count_def)
  then obtain fr re b where b: "Physical_initialize (m_memoryMap h) Physical_Manager = Inr (fr, re, b)" "wf_phys b"
      "\<forall>p < MEM_BITMAP_SIZE. \<not> bits b p \<longleftrightarrow>
        (\<exists>s \<in> set (m_memoryMap h). initialized s \<and> m_type s = Available \<and> p \<in> section_frames s)"
    using Physical_initialize_frees_available by blast
  have "isFree (of_nat (4096 * p)) b = Inr (\<exists>e \<in> set es. e_type e = MMAP_USABLE \<and> e_base e \<noteq> 0 \<and> frame_in p e)"
    if p: "p < MEM_BITMAP_SIZE" for p
  proof -
    have "unat (of_nat (4096 * p) :: u32) = 4096 * p" using p by (intro unat_of_nat_u32) (simp add: MEM_BITMAP_SIZE_def)
    then have "isFree (of_nat (4096 * p)) b = Inr (\<not> bits b p)" by (simp add: isFree_bits [OF b(2)] del: of_nat_mult)
    also have "(\<not> bits b p) \<longleftrightarrow> (\<exists>e \<in> set es. initialized (convert_entry e) \<and> m_type (convert_entry e) = Available
        \<and> p \<in> section_frames (convert_entry e))"
      using b(3) p by (auto simp: h(2))
    also have "\<dots> \<longleftrightarrow> (\<exists>e \<in> set es. e_type e = MMAP_USABLE \<and> e_base e \<noteq> 0 \<and> frame_in p e)"
      using convert_entry_frames p assms(4) by meson
    finally show ?thesis .
  qed
  with h(1,3) b(1,2) show ?thesis by blast
qed

definition demo_boot_tags :: tags where
  "demo_boot_tags = (\<lambda>_. \<lparr>t_body = TAG_OTHER, t_next = 0\<rparr>)(0x9000 :=
     \<lparr>t_body = TAG_MEMMAP [\<lparr>e_base = 0x100000, e_length = 0x5800, e_type = MMAP_USABLE\<rparr>], t_next = 0x9100\<rparr>)"

definition demo_env :: boot_env where
  "demo_env = \<lparr>be_mem = \<lambda>_. 0, be_args = [], be_called = []\<rparr>"

theorem boot_memory_map_frees_usable_witness:
  "\<exists>h env' fr re b. Handoff demo_boot_tags 0x8000 0x9000 STIVALE2_MAGIC demo_env = Inr (h, env')
    \<and> Physical_initialize (m_memoryMap h) Physical_Manager = Inr (fr, re, b)
    \<and> isFree 0x104000 b = Inr True \<and> isFree 0x105000 b = Inr False \<and> isFree 0xFF000 b = Inr False"
proof -
  let ?e = "\<lparr>e_base = 0x100000, e_length = 0x5800, e_type = MMAP_USABLE\<rparr>"
  have "tag_chain demo_boot_tags (ucast (0x9000 :: u64)) ([] @ TAG_MEMMAP [?e] # [TAG_OTHER])"
    by (simp add: demo_boot_tags_def)
  moreover have "\<forall>b \<in> set ([] @ [TAG_OTHER]). plain_tag demo_env b" by (simp add: plain_tag_def demo_env_def)
  moreover have "\<forall>e \<in> set [?e]. fits e" by (simp add: fits_def)
  ultimately obtain h env' fr re b where r: "Handoff demo_boot_tags 0x8000 0x9000 STIVALE2_MAGIC demo_env = Inr (h, env')"
      "Physical_initialize (m_memoryMap h) Physical_Manager = Inr (fr, re, b)"
      "\<forall>p < MEM_BITMAP_SIZE. isFree (of_nat (4096 * p)) b =
          Inr (\<exists>e \<in> set [?e]. e_type e = MMAP_USABLE \<and> e_base e \<noteq> 0 \<and> frame_in p e)"
    using boot_memory_map_frees_usable [where ts = demo_boot_tags and info = "0x9000" and xs = "[]"
        and es = "[?e]" and ys = "[TAG_OTHER]" and env = demo_env and handle = "0x8000"] by auto
  have "isFree 0x104000 b = Inr True" "isFree 0x105000 b = Inr False" "isFree 0xFF000 b = Inr False"
    using r(3) [rule_format, of "0x104"] r(3) [rule_format, of "0x105"] r(3) [rule_format, of "0xFF"]
    by (simp_all add: MEM_BITMAP_SIZE_def frame_in_def)
  with r(1,2) show ?thesis by blast
qed

text \<open>An entry above 4 GiB loses its upper bits: a usable page at \<open>0x100100000\<close> is taken for the page at
  \<open>0x100000\<close>.\<close>

lemma high_memory_aliases_low:
  "convert_entry \<lparr>e_base = 0x100100000, e_length = 0x1000, e_type = MMAP_USABLE\<rparr> =
   convert_entry \<lparr>e_base = 0x100000, e_length = 0x1000, e_type = MMAP_USABLE\<rparr>"
proof -
  have "ucast (0x100100000 :: u64) = (ucast (0x100000 :: u64) :: u32)" by simp
  then show ?thesis by (simp only: convert_entry_def mmap_entry.simps)
qed

lemma too_many_entries_panic:
  "32 < length es \<Longrightarrow> parse_tag (TAG_MEMMAP es) (h, env) = Inl (Panic ''Not enough space to add all memory map entries!'')"
  by (simp add: parse_tag_def read_memmap_def MemoryMap_Count_def)

lemma wrong_magic_panics: "magic \<noteq> STIVALE2_MAGIC \<Longrightarrow> Handoff ts handle info magic env = Inl (Panic ''Invalid bootloader magic!'')"
  by (simp add: Handoff_def Let_def)

end
