(* ===== verification/Boot_Memory.thy ===== *)
theory Boot_Memory
  imports Paging Handoff
begin

text \<open>
  \<open>Memory::init\<close> of \<open>Kernel/Memory/paging.cpp\<close> as it runs at boot: the page tables and both bitmaps after
  early memory and the kernel are mapped, starting from the zeroed tables and an empty virtual bitmap.
\<close>

section \<open>The empty directory\<close>

definition boot_paging :: "(nat \<Rightarrow> directory_entry) \<Rightarrow> bitset \<Rightarrow> paging" where
  "boot_paging dir b = \<lparr>pageDirectory = dir, pageTables = (\<lambda>_ _. zero_entry),
     virtualMemoryBitset = Bitset_make MEM_BITMAP_SIZE False, phys = b\<rparr>"

definition tables_empty :: "paging \<Rightarrow> bitset \<Rightarrow> bitset \<Rightarrow> bool" where
  "tables_empty st vb ph \<longleftrightarrow> pageTables st = (\<lambda>_ _. zero_entry) \<and> virtualMemoryBitset st = vb \<and> phys st = ph"

lemma fold_keeps: "(\<And>x s. P s \<Longrightarrow> P (f x s)) \<Longrightarrow> P s \<Longrightarrow> P (fold f xs s)"
  by (induction xs arbitrary: s) simp_all

lemma initDirectory_boot:
  assumes "tables_empty st vb ph"
  shows "tables_empty (Paging_initDirectory k st) vb ph"
  unfolding Paging_initDirectory_def
proof (rule fold_keeps [where P = "\<lambda>s. tables_empty s vb ph", OF _ assms])
  fix i s
  assume "tables_empty s vb ph"
  then have "tables_empty (mapKernelPageTable k i (lk_pageTables k i) s) vb ph"
    by (simp add: tables_empty_def mapKernelPageTable_def)
  then show "tables_empty (let s1 = mapKernelPageTable k i (lk_pageTables k i) s in
      fold (\<lambda>j s2. s2\<lparr>pageTables := (pageTables s2)(i := (pageTables s2 i)(j := zero_entry))\<rparr>)
        [0..<ARCH_PAGE_TABLE_ENTRIES] s1) vb ph"
    unfolding Let_def by (rule fold_keeps [where P = "\<lambda>s. tables_empty s vb ph", rotated]) (auto simp: tables_empty_def fun_eq_iff)
qed

lemma boot_paging_ok:
  assumes "wf_phys b"
  shows "paging_ok (Paging_initDirectory k (boot_paging dir b))" "entry_at (Paging_initDirectory k (boot_paging dir b)) v = zero_entry"
    "phys (Paging_initDirectory k (boot_paging dir b)) = b"
proof -
  let ?s = "Paging_initDirectory k (boot_paging dir b)"
  have s: "pageTables ?s = (\<lambda>_ _. zero_entry)" "virtualMemoryBitset ?s = Bitset_make MEM_BITMAP_SIZE False" "phys ?s = b"
    using initDirectory_boot [of "boot_paging dir b" "Bitset_make MEM_BITMAP_SIZE False" b k]
    by (simp_all add: tables_empty_def boot_paging_def)
  then show "entry_at ?s v = zero_entry" "phys ?s = b" for v by (simp_all add: entry_at_def)
  have "wf_bitset MEM_BITMAP_SIZE (Bitset_make MEM_BITMAP_SIZE False)" by (rule wf_Bitset_make) (simp_all add: MEM_BITMAP_SIZE_def)
  moreover have "\<not> bits (Bitset_make MEM_BITMAP_SIZE False) v" if "v < MEM_BITMAP_SIZE" for v
    using bits_Bitset_make [of MEM_BITMAP_SIZE v False] that by (simp add: MEM_BITMAP_SIZE_def)
  ultimately show "paging_ok ?s" using assms s by (simp add: paging_ok_def entry_at_def zero_entry_def)
qed

section \<open>Mapping a range\<close>

lemma map_range_new:
  assumes "paging_ok st" "v + n < MEM_BITMAP_SIZE" "\<forall>u. v \<le> u \<and> u < v + n \<longrightarrow> \<not> te_present (entry_at st u)"
    and "\<And>u. v \<le> u \<Longrightarrow> u < v + n \<Longrightarrow> F (page_addr u) = page_addr (g u) \<and> g u < MEM_BITMAP_SIZE"
  shows "\<exists>st'. map_range F (page_addr v) (page_addr (v + n)) st = Some (Inr st') \<and> paging_ok st'
    \<and> (\<forall>u. entry_at st' u = (if v \<le> u \<and> u < v + n then kernel_entry (g u) else entry_at st u))
    \<and> (\<forall>p. bits (phys st') p \<longleftrightarrow> bits (phys st) p \<or> p \<in> g ` {v..<v + n})"
  using assms
proof (induction n arbitrary: v st)
  case 0
  then show ?case by (subst map_range.simps) auto
next
  case (Suc n)
  have lt: "page_addr v < page_addr (v + Suc n)"
    using Suc.prems(2) unat_page_addr [of v] unat_page_addr [of "v + Suc n"] by (simp add: word_less_nat_alt)
  have nx: "page_addr v + ARCH_PAGE_SIZE = page_addr (Suc v)" by (simp add: page_addr_def algebra_simps)
  have g: "F (page_addr v) = page_addr (g v)" "g v < MEM_BITMAP_SIZE" using Suc.prems(4) [of v] by simp_all
  obtain st1 where st1: "mapKernelPage (page_addr v) (F (page_addr v)) st = Inr st1" "paging_ok st1"
      "\<forall>u. entry_at st1 u = (if u = v then kernel_entry (g v) else entry_at st u)"
      "bits (phys st1) = (bits (phys st))(g v := True)"
    using mapKernelPage_new [OF Suc.prems(1) _ _ g(2), of v] Suc.prems(2,3) g(1) by auto
  obtain st' where st': "map_range F (page_addr (Suc v)) (page_addr (Suc v + n)) st1 = Some (Inr st')" "paging_ok st'"
      "\<forall>u. entry_at st' u = (if Suc v \<le> u \<and> u < Suc v + n then kernel_entry (g u) else entry_at st1 u)"
      "\<forall>p. bits (phys st') p \<longleftrightarrow> bits (phys st1) p \<or> p \<in> g ` {Suc v..<Suc v + n}"
    using Suc.IH [of st1 "Suc v"] st1(2,3) Suc.prems(2-4) by auto
  have "map_range F (page_addr v) (page_addr (v + Suc n)) st = Some (Inr st')"
    using lt st1(1) st'(1) by (subst map_range.simps) (simp add: nx)
  moreover have "{v..<v + Suc n} = insert v {Suc v..<Suc v + n}" by auto
  ultimately show ?case using st' st1(3,4) by (intro exI [of _ st']) auto
qed

text \<open>A range whose end is not at a page boundary is mapped up to the end of its last page.\<close>

lemma map_range_round:
  assumes "v + n < MEM_BITMAP_SIZE" "unat e \<le> 4096 * (v + n)" "4096 * (v + n) < unat e + 4096"
  shows "map_range F (page_addr v) e st = map_range F (page_addr v) (page_addr (v + n)) st"
  using assms
proof (induction n arbitrary: v st)
  case 0
  then have "\<not> page_addr v < e" using unat_page_addr [of v] by (simp add: word_less_nat_alt)
  then show ?case by (simp add: map_range.simps)
next
  case (Suc n)
  have lt: "page_addr v < page_addr (v + Suc n)" "page_addr v < e"
    using Suc.prems unat_page_addr [of v] unat_page_addr [of "v + Suc n"] by (simp_all add: word_less_nat_alt)
  have nx: "page_addr v + ARCH_PAGE_SIZE = page_addr (Suc v)" by (simp add: page_addr_def algebra_simps)
  have "map_range F (page_addr (Suc v)) e t = map_range F (page_addr (Suc v)) (page_addr (v + Suc n)) t" for t
    using Suc.IH [of "Suc v" t] Suc.prems by simp
  then show ?case using lt
    by (subst (1 2) map_range.simps) (simp add: nx split: sum.split)
qed

section \<open>Memory::init\<close>

text \<open>What the linker script provides: early memory starts and ends at page boundaries and lies below the kernel,
  and the kernel ends before the last page of the address space.\<close>

definition early_pages :: "layout \<Rightarrow> nat set" where
  "early_pages k = {unat (lk_EARLY_MEM_START k) div 4096..<unat (lk_EARLY_KERNEL_START k) div 4096}"

definition kernel_pages :: "layout \<Rightarrow> nat set" where
  "kernel_pages k = {unat (lk_KERNEL_START k) div 4096..<
     unat (lk_KERNEL_START k) div 4096 + (unat (lk_KERNEL_SIZE k) + 4095) div 4096}"

definition memory_layout_ok :: "layout \<Rightarrow> bool" where
  "memory_layout_ok k \<longleftrightarrow>
     unat (lk_EARLY_MEM_START k) mod 4096 = 0 \<and> unat (lk_EARLY_KERNEL_START k) mod 4096 = 0
     \<and> lk_EARLY_MEM_START k \<le> lk_EARLY_KERNEL_START k
     \<and> unat (lk_EARLY_KERNEL_START k) div 4096 \<le> unat (lk_KERNEL_START k) div 4096
     \<and> unat (lk_KERNEL_BASE k) mod 4096 = 0 \<and> lk_KERNEL_BASE k \<le> lk_KERNEL_START k
     \<and> unat (lk_KERNEL_SIZE k) \<le> 0xFFFFF000
     \<and> unat (lk_KERNEL_START k) div 4096 + (unat (lk_KERNEL_SIZE k) + 4095) div 4096 < MEM_BITMAP_SIZE"

lemma aligned_page_addr: "unat a mod 4096 = 0 \<Longrightarrow> a = page_addr (unat a div 4096)"
proof -
  assume "unat a mod 4096 = 0"
  then have "4096 * (unat a div 4096) = unat a" by auto
  moreover have "unat a div 4096 < MEM_BITMAP_SIZE" using unat_lt_u32 [of a] by (simp add: MEM_BITMAP_SIZE_def)
  ultimately show ?thesis by (simp add: word_unat_eq_iff unat_page_addr)
qed

lemma page_addr_add: "page_addr m + page_addr n = page_addr (m + n)"
  by (simp add: page_addr_def algebra_simps)

lemma page_addr_diff: "n \<le> m \<Longrightarrow> page_addr m - page_addr n = page_addr (m - n)"
  by (simp add: page_addr_def of_nat_diff algebra_simps)

lemma mapEarlyMem_new:
  assumes ok: "memory_layout_ok k" and st: "paging_ok st" "\<And>u. \<not> te_present (entry_at st u)"
  shows "\<exists>st'. mapEarlyMem k st = Inr st' \<and> paging_ok st'
    \<and> (\<forall>u. entry_at st' u = (if u \<in> early_pages k then kernel_entry u else entry_at st u))
    \<and> (\<forall>p. bits (phys st') p \<longleftrightarrow> bits (phys st) p \<or> p \<in> early_pages k)"
proof -
  let ?a = "unat (lk_EARLY_MEM_START k) div 4096" and ?b = "unat (lk_EARLY_KERNEL_START k) div 4096"
  have ab: "?a \<le> ?b" "?b < MEM_BITMAP_SIZE"
    using ok by (auto simp: memory_layout_ok_def word_le_nat_alt div_le_mono)
  have pa: "lk_EARLY_MEM_START k = page_addr ?a" "lk_EARLY_KERNEL_START k = page_addr ?b"
    using ok aligned_page_addr by (auto simp: memory_layout_ok_def)
  have "\<exists>st'. map_range (\<lambda>a. a) (page_addr ?a) (page_addr (?a + (?b - ?a))) st = Some (Inr st') \<and> paging_ok st'
    \<and> (\<forall>u. entry_at st' u = (if ?a \<le> u \<and> u < ?a + (?b - ?a) then kernel_entry u else entry_at st u))
    \<and> (\<forall>p. bits (phys st') p \<longleftrightarrow> bits (phys st) p \<or> p \<in> id ` {?a..<?a + (?b - ?a)})"
    using map_range_new [OF st(1), of ?a "?b - ?a" "\<lambda>a. a" id] st(2) ab by auto
  moreover have "section_end (Section (lk_EARLY_MEM_START k) (lk_EARLY_KERNEL_START k - lk_EARLY_MEM_START k)) = page_addr ?b"
    using pa by (simp add: section_end_def Section_def)
  ultimately show ?thesis using ab pa(1)
    by (auto simp: mapEarlyMem_def mapKernelRangeVirtual_def Section_def early_pages_def)
qed

lemma mapKernel_new:
  assumes ok: "memory_layout_ok k" and st: "paging_ok st" "\<And>u. u \<in> kernel_pages k \<Longrightarrow> \<not> te_present (entry_at st u)"
  defines "B \<equiv> unat (lk_KERNEL_BASE k) div 4096"
  shows "\<exists>st'. mapKernel k st = Inr st' \<and> paging_ok st'
    \<and> (\<forall>u. entry_at st' u = (if u \<in> kernel_pages k then kernel_entry (u - B) else entry_at st u))
    \<and> (\<forall>p. bits (phys st') p \<longleftrightarrow> bits (phys st) p \<or> p \<in> (\<lambda>u. u - B) ` kernel_pages k)"
proof -
  let ?v = "unat (lk_KERNEL_START k) div 4096" and ?n = "(unat (lk_KERNEL_SIZE k) + 4095) div 4096"
  have n: "?v + ?n < MEM_BITMAP_SIZE" "B \<le> ?v" "lk_KERNEL_BASE k = page_addr B" "unat (lk_KERNEL_SIZE k) \<le> 0xFFFFF000"
    using ok aligned_page_addr [of "lk_KERNEL_BASE k"] by (auto simp: memory_layout_ok_def B_def word_le_nat_alt div_le_mono)
  have s: "pageAlign (lk_KERNEL_START k) = page_addr ?v" "pageAlignUp (lk_KERNEL_SIZE k) = page_addr ?n"
    using page_align_bounds [of "lk_KERNEL_START k"] page_align_bounds [of "lk_KERNEL_SIZE k"] n(1,4)
    by (simp_all add: word_unat_eq_iff unat_page_addr)
  have "\<exists>st'. map_range (KADDR_TO_PHYS k) (page_addr ?v) (page_addr (?v + ?n)) st = Some (Inr st') \<and> paging_ok st'
    \<and> (\<forall>u. entry_at st' u = (if ?v \<le> u \<and> u < ?v + ?n then kernel_entry (u - B) else entry_at st u))
    \<and> (\<forall>p. bits (phys st') p \<longleftrightarrow> bits (phys st) p \<or> p \<in> (\<lambda>u. u - B) ` {?v..<?v + ?n})"
  proof (rule map_range_new [OF st(1) n(1)])
    show "\<forall>u. ?v \<le> u \<and> u < ?v + ?n \<longrightarrow> \<not> te_present (entry_at st u)" using st(2) by (simp add: kernel_pages_def)
    show "KADDR_TO_PHYS k (page_addr u) = page_addr (u - B) \<and> u - B < MEM_BITMAP_SIZE" if "?v \<le> u" "u < ?v + ?n" for u
      using that n by (simp add: KADDR_TO_PHYS_def page_addr_diff)
  qed
  then show ?thesis using s page_addr_add
    by (auto simp: mapKernel_def mapKernelRangePhysical_def Section_def section_end_def kernel_pages_def)
qed

text \<open>The state that \<open>Memory::init\<close> leaves.\<close>

lemma Paging_init_boot:
  assumes ok: "memory_layout_ok k" and b: "wf_phys b"
  defines "B \<equiv> unat (lk_KERNEL_BASE k) div 4096"
  shows "\<exists>st. Paging_init k (boot_paging dir b) = Inr (pageAlign (KADDR_TO_PHYS k (lk_pageDirectory k)), st) \<and> paging_ok st
    \<and> (\<forall>u. entry_at st u = (if u \<in> kernel_pages k then kernel_entry (u - B)
                              else if u \<in> early_pages k then kernel_entry u else zero_entry))
    \<and> (\<forall>p. bits (phys st) p \<longleftrightarrow> bits b p \<or> p \<in> early_pages k \<or> p \<in> (\<lambda>u. u - B) ` kernel_pages k)"
proof -
  let ?s = "Paging_initDirectory k (boot_paging dir b)"
  have s: "paging_ok ?s" "\<And>u. entry_at ?s u = zero_entry" "phys ?s = b" using boot_paging_ok [OF b] by blast+
  obtain s1 where s1: "mapEarlyMem k ?s = Inr s1" "paging_ok s1"
      "\<forall>u. entry_at s1 u = (if u \<in> early_pages k then kernel_entry u else entry_at ?s u)"
      "\<forall>p. bits (phys s1) p \<longleftrightarrow> bits (phys ?s) p \<or> p \<in> early_pages k"
    using mapEarlyMem_new [OF ok s(1)] s(2) by (auto simp: zero_entry_def)
  have "early_pages k \<inter> kernel_pages k = {}" using ok by (auto simp: memory_layout_ok_def early_pages_def kernel_pages_def)
  then have "\<not> te_present (entry_at s1 u)" if "u \<in> kernel_pages k" for u
    using that s1(3) s(2) by (auto simp: zero_entry_def)
  from mapKernel_new [OF ok s1(2) this] obtain s2 where s2: "mapKernel k s1 = Inr s2" "paging_ok s2"
      "\<forall>u. entry_at s2 u = (if u \<in> kernel_pages k then kernel_entry (u - B) else entry_at s1 u)"
      "\<forall>p. bits (phys s2) p \<longleftrightarrow> bits (phys s1) p \<or> p \<in> (\<lambda>u. u - B) ` kernel_pages k"
    unfolding B_def by blast
  have "Paging_init k (boot_paging dir b) = Inr (pageAlign (KADDR_TO_PHYS k (lk_pageDirectory k)), s2)"
    using s1(1) s2(1) by (simp add: Paging_init_def)
  then show ?thesis using s2(2-4) s1(3,4) s(2,3) by (intro exI [of _ s2]) simp
qed

lemma isFree_page:
  assumes "wf_phys c" "p < MEM_BITMAP_SIZE"
  shows "isFree (of_nat (4096 * p)) c = Inr (\<not> bits c p)"
proof -
  have "unat (of_nat (4096 * p) :: u32) = 4096 * p" using assms(2) by (intro unat_of_nat_u32) (simp add: MEM_BITMAP_SIZE_def)
  then show ?thesis by (simp add: isFree_bits [OF assms(1)] del: of_nat_mult)
qed

text \<open>The addresses that the mapped pages translate to.\<close>

lemma boot_translation:
  assumes ok: "memory_layout_ok k"
    and e: "\<forall>u. entry_at st u = (if u \<in> kernel_pages k then kernel_entry (u - unat (lk_KERNEL_BASE k) div 4096)
                                   else if u \<in> early_pages k then kernel_entry u else zero_entry)"
  shows "\<forall>v. te_present (entry_at st v) \<longleftrightarrow> v \<in> early_pages k \<union> kernel_pages k"
    and "\<forall>v \<in> early_pages k. getPhysicalAddress (entry_at st v) = page_addr v"
    and "\<forall>v \<in> kernel_pages k. getPhysicalAddress (entry_at st v) = page_addr v - lk_KERNEL_BASE k"
proof -
  let ?B = "unat (lk_KERNEL_BASE k) div 4096"
  have B: "lk_KERNEL_BASE k = page_addr ?B" "?B \<le> unat (lk_KERNEL_START k) div 4096"
    using ok aligned_page_addr [of "lk_KERNEL_BASE k"] by (auto simp: memory_layout_ok_def word_le_nat_alt div_le_mono)
  show "\<forall>v. te_present (entry_at st v) \<longleftrightarrow> v \<in> early_pages k \<union> kernel_pages k"
    using e by (simp add: kernel_entry_def zero_entry_def)
  have ek: "early_pages k \<inter> kernel_pages k = {}" "\<And>v. v \<in> early_pages k \<union> kernel_pages k \<Longrightarrow> v < MEM_BITMAP_SIZE"
    using ok by (auto simp: memory_layout_ok_def early_pages_def kernel_pages_def)
  show "\<forall>v \<in> early_pages k. getPhysicalAddress (entry_at st v) = page_addr v"
    using e ek by (auto simp: kernel_entry_frame)
  show "\<forall>v \<in> kernel_pages k. getPhysicalAddress (entry_at st v) = page_addr v - lk_KERNEL_BASE k"
  proof
    fix v assume v: "v \<in> kernel_pages k"
    then have "?B \<le> v" "v - ?B < MEM_BITMAP_SIZE" using B(2) ek(2) [of v] by (auto simp: kernel_pages_def)
    then show "getPhysicalAddress (entry_at st v) = page_addr v - lk_KERNEL_BASE k"
      using e v B(1) by (metis kernel_entry_frame page_addr_diff)
  qed
qed

end
