(* ===== verification/Logging.thy ===== *)
theory Logging
  imports Printf
begin

text \<open>
  \<open>Kernel/Logger.cpp\<close>: the logger keeps up to two writers and a level.  A message is first formatted into the
  buffer of 1024 bytes with its level and tag, and the buffer is then the format that every writer gets
  together with the arguments.  A writer is a value of an arbitrary type and \<open>call\<close> runs it.  The lock
  of the buffer is not held while it is used (the temporary \<open>RAIIMutex(...)\<close> is destroyed at the end of its own
  statement) and is left out.
\<close>

section \<open>State\<close>

datatype LogLevel = lTRACE | lDEBUG | lVERBOSE | lINFO | lWARNING | lERROR | lNone

fun level_no :: "LogLevel \<Rightarrow> nat" where
  "level_no lTRACE = 0"
| "level_no lDEBUG = 1"
| "level_no lVERBOSE = 2"
| "level_no lINFO = 3"
| "level_no lWARNING = 4"
| "level_no lERROR = 5"
| "level_no lNone = 6"

definition m_maxWriterCount :: nat where "m_maxWriterCount = 2"
definition m_maxBufferSize :: nat where "m_maxBufferSize = 1024"

record 'w logger =
  m_writersIdx :: nat
  m_logLevel :: LogLevel
  m_writers :: "'w option list"

definition Logger :: "LogLevel \<Rightarrow> 'w logger" where
  "Logger lvl = \<lparr>m_writersIdx = 0, m_logLevel = lvl, m_writers = replicate m_maxWriterCount None\<rparr>"

definition bytes_of :: "string \<Rightarrow> u8 list" where
  "bytes_of s = map of_char s"

fun levelToString :: "LogLevel \<Rightarrow> u8 list" where
  "levelToString lTRACE = 27 # bytes_of ''[36mTRACE'' @ 27 # bytes_of ''[0m''"
| "levelToString lDEBUG = 27 # bytes_of ''[96mDEBUG'' @ 27 # bytes_of ''[0m''"
| "levelToString lVERBOSE = 27 # bytes_of ''[92mVERBOSE'' @ 27 # bytes_of ''[0m''"
| "levelToString lINFO = 27 # bytes_of ''[94mINFO'' @ 27 # bytes_of ''[0m''"
| "levelToString lWARNING = 27 # bytes_of ''[93mWARNING'' @ 27 # bytes_of ''[0m''"
| "levelToString lERROR = 27 # bytes_of ''[91mERROR'' @ 27 # bytes_of ''[0m''"
| "levelToString lNone = bytes_of ''UNKNOWN''"

section \<open>Writers\<close>

definition addWriter :: "'w \<Rightarrow> 'w logger \<Rightarrow> bool \<times> 'w logger" where
  "addWriter w lg =
     (if m_writersIdx lg < m_maxWriterCount
      then (True, lg\<lparr>m_writers := (m_writers lg)[m_writersIdx lg := Some w], m_writersIdx := m_writersIdx lg + 1\<rparr>)
      else (False, lg))"

definition removeWriter :: "'w \<Rightarrow> 'w logger \<Rightarrow> bool \<times> 'w logger" where
  "removeWriter w lg =
     (case find (\<lambda>idx. m_writers lg ! idx = Some w) [0..<m_writersIdx lg] of
        None \<Rightarrow> (False, lg)
      | Some idx \<Rightarrow> (True, lg\<lparr>m_writers := (m_writers lg)[idx := None]\<rparr>))"

definition setLevel :: "LogLevel \<Rightarrow> 'w logger \<Rightarrow> 'w logger" where
  "setLevel lvl lg = lg\<lparr>m_logLevel := lvl\<rparr>"

definition getLevel :: "'w logger \<Rightarrow> LogLevel" where
  "getLevel lg = m_logLevel lg"

type_synonym ('w, 's) caller = "'w \<Rightarrow> u8 list \<Rightarrow> va list \<Rightarrow> 's \<Rightarrow> 's outcome"

definition LogHelperPrint :: "('w, 's) caller \<Rightarrow> u8 list \<Rightarrow> va list \<Rightarrow> 'w logger \<Rightarrow> 's \<Rightarrow> 's outcome" where
  "LogHelperPrint call fmt ap lg =
     foldE (\<lambda>i s. if i < length (m_writers lg)
                  then (case m_writers lg ! i of None \<Rightarrow> Inr s | Some w \<Rightarrow> call w fmt ap s)
                  else Inl OutOfBounds) [0..<m_writersIdx lg]"

text \<open>\<open>ksprintf\<close> into the log buffer; the terminating zero must fit.\<close>

definition format_line :: "LogLevel \<Rightarrow> u8 list \<Rightarrow> u8 list \<Rightarrow> u8 list outcome" where
  "format_line lvl tag fmt =
     bindE (printf_helper (bytes_of ''[%-16s] %-22s %s'' @ [10]) [Str (levelToString lvl), Str tag, Str fmt]
              (\<lambda>c out. out @ [ucast c]) []) (\<lambda>(n, out).
       if length out < m_maxBufferSize then Inr out else Inl OutOfBounds)"

definition LogHelper ::
    "('w, 's) caller \<Rightarrow> u8 list \<Rightarrow> LogLevel \<Rightarrow> u8 list \<Rightarrow> va list \<Rightarrow> 'w logger \<Rightarrow> 's \<Rightarrow> 's outcome" where
  "LogHelper call tag lvl fmt ap lg s =
     bindE (format_line lvl tag fmt) (\<lambda>line. LogHelperPrint call line ap lg s)"

definition Log :: "LogLevel \<Rightarrow> ('w, 's) caller \<Rightarrow> u8 list \<Rightarrow> u8 list \<Rightarrow> va list \<Rightarrow> 'w logger \<Rightarrow> 's \<Rightarrow> 's outcome" where
  "Log lvl call tag fmt ap lg s =
     (if level_no lvl \<ge> level_no (getLevel lg) then LogHelper call tag lvl fmt ap lg s else Inr s)"

definition Trace :: "('w, 's) caller \<Rightarrow> u8 list \<Rightarrow> u8 list \<Rightarrow> va list \<Rightarrow> 'w logger \<Rightarrow> 's \<Rightarrow> 's outcome" where
  "Trace = Log lTRACE"
definition Verbose :: "('w, 's) caller \<Rightarrow> u8 list \<Rightarrow> u8 list \<Rightarrow> va list \<Rightarrow> 'w logger \<Rightarrow> 's \<Rightarrow> 's outcome" where
  "Verbose = Log lVERBOSE"
definition Debug :: "('w, 's) caller \<Rightarrow> u8 list \<Rightarrow> u8 list \<Rightarrow> va list \<Rightarrow> 'w logger \<Rightarrow> 's \<Rightarrow> 's outcome" where
  "Debug = Log lDEBUG"
definition Info :: "('w, 's) caller \<Rightarrow> u8 list \<Rightarrow> u8 list \<Rightarrow> va list \<Rightarrow> 'w logger \<Rightarrow> 's \<Rightarrow> 's outcome" where
  "Info = Log lINFO"
definition Warning :: "('w, 's) caller \<Rightarrow> u8 list \<Rightarrow> u8 list \<Rightarrow> va list \<Rightarrow> 'w logger \<Rightarrow> 's \<Rightarrow> 's outcome" where
  "Warning = Log lWARNING"
definition Log_Error :: "('w, 's) caller \<Rightarrow> u8 list \<Rightarrow> u8 list \<Rightarrow> va list \<Rightarrow> 'w logger \<Rightarrow> 's \<Rightarrow> 's outcome" where
  "Log_Error = Log lERROR"

definition Print :: "('w, 's) caller \<Rightarrow> u8 list \<Rightarrow> va list \<Rightarrow> 'w logger \<Rightarrow> 's \<Rightarrow> 's outcome" where
  "Print = LogHelperPrint"

section \<open>Strings in formats\<close>

lemma EMIT_unsigned:
  "pr_flags st = PR_LJ \<or> pr_flags st = 0 \<Longrightarrow> 0 \<notin> set s \<Longrightarrow> EMIT fn s st = EMIT2 fn s (of_nat (length s)) st"
  by (auto simp: EMIT_def Let_def PR_defs takeWhile_no_zero)

lemma EMIT2_left_justified:
  assumes "pr_flags st = PR_LJ" "0 \<notin> set s"
  shows "EMIT2 fn s w st =
    (emit_all fn (map ucast s @ replicate (unat (if pr_given_wd st < w then 0 else pr_given_wd st - w)) 32) st)\<lparr>pr_given_wd := 0\<rparr>"
proof -
  have f: "PR_LJ AND PR_LJ \<noteq> 0" "PR_LJ AND (PR_WS OR PR_LZ) \<noteq> PR_WS" by (simp_all add: PR_defs)
  show ?thesis
    using assms f by (cases "pr_given_wd st < w")
      (simp_all add: EMIT2_def Let_def takeWhile_no_zero emit_fold pad_right_emits add.assoc)
qed

lemma EMIT_string:
  assumes "pr_flags st = PR_LJ \<or> pr_flags st = 0 \<and> pr_given_wd st = 0" "0 \<notin> set s" "length s < 2 ^ 32"
  shows "EMIT fn s st = (emit_all fn (map ucast s @ replicate (unat (pr_given_wd st) - length s) 32) st)\<lparr>pr_given_wd := 0\<rparr>"
proof -
  let ?l = "of_nat (length s) :: u32"
  have l: "unat ?l = length s" using assms(3) by (rule unat_of_nat_u32)
  have wd: "unat (if g < ?l then 0 else g - ?l) = unat g - length s" for g :: u32
    using unat_sub [of ?l g] by (auto simp: word_less_nat_alt l word_le_nat_alt not_less)
  show ?thesis
  proof (cases "pr_flags st = PR_LJ")
    case True
    then show ?thesis using EMIT_unsigned [of st s fn] EMIT2_left_justified [OF True assms(2), of fn ?l] assms(2)
      by (simp only: wd simp_thms if_True)
  next
    case False
    then have z: "pr_flags st = 0" "pr_given_wd st = 0" using assms(1) by simp_all
    then show ?thesis using EMIT_unsigned [of st s fn] EMIT2_right_justified [of st s "[]" fn ?l] assms(2)
      by (simp add: PR_defs)
  qed
qed

text \<open>The field \<open>%-nns\<close> with a width of two digits, and \<open>%s\<close>.\<close>

lemma conversion_string:
  assumes "pr_flags st = PR_LJ \<or> pr_flags st = 0 \<and> pr_given_wd st = 0" "pr_args st = Str s # as"
    and "0 \<notin> set s" "length s < 2 ^ 32"
  shows "conversion fn 115 st =
    Inr ((emit_all fn (map ucast s @ replicate (unat (pr_given_wd st) - length s) 32) st)\<lparr>pr_given_wd := 0, pr_args := as\<rparr>)"
proof -
  have "pr_flags st AND NOT PR_LZ = pr_flags st" using assms(1) by (auto simp: PR_defs)
  then show ?thesis using assms EMIT_string [of "st\<lparr>pr_args := as\<rparr>" s fn] by (simp add: conversion_def Let_def)
qed

lemma state2_s:
  assumes "pr_flags st = PR_LJ \<or> pr_flags st = 0 \<and> pr_given_wd st = 0" "pr_args st = Str s # as"
    and "0 \<notin> set s" "length s < 2 ^ 32"
  shows "state2 fn (115 # f) st = Inr (115 # f,
    (emit_all fn (map ucast s @ replicate (unat (pr_given_wd st) - length s) 32) st)
      \<lparr>pr_state := 0, pr_flags := 0, pr_given_wd := 0, pr_args := as\<rparr>)"
  using conversion_string [of "next_state (next_state st)" s as fn] assms
  by (simp add: state2_def state3_def state4_def reset_spec_def)

lemma printf_string:
  assumes "pr_state st = 0" "pr_flags st = 0" "pr_given_wd st = 0" "pr_args st = Str s # as"
    and "0 \<notin> set s" "length s < 2 ^ 32"
  shows "printf_loop fn (37 # 115 # f) st = printf_loop fn f ((emit_all fn (map ucast s) st)\<lparr>pr_args := as\<rparr>)"
  using assms state2_s [of "next_state (next_state st)" s as fn f]
  by (cases st) (simp add: printf_step_def state0_def state1_def)

lemma printf_left_string:
  assumes "pr_state st = 0" "pr_flags st = 0" "pr_given_wd st = 0" "pr_args st = Str s # as"
    and "0 \<notin> set s" "length s < 2 ^ 32" "d \<in> {49..57}" "e \<in> {48..57}"
  shows "printf_loop fn (37 # 45 # d # e # 115 # f) st =
    printf_loop fn f ((emit_all fn (map ucast s @ replicate (unat (width_of [d, e] 0) - length s) 32) st)\<lparr>pr_args := as\<rparr>)"
proof -
  let ?st1 = "st\<lparr>pr_state := 1, pr_flags := PR_LJ\<rparr>" and ?st2 = "st\<lparr>pr_state := 2, pr_flags := PR_LJ, pr_given_wd := ucast d - 48\<rparr>"
  have d: "48 \<le> d" "d \<le> 57" "d \<noteq> 37" "d \<noteq> 45" "d \<noteq> 48" using assms(7) by (auto simp: word_le_nat_alt)
  have "printf_loop fn (37 # 45 # d # e # 115 # f) st = printf_loop fn (d # e # 115 # f) ?st1"
    using assms(1-3) by (simp add: printf_step_def state0_def state1_def PR_defs)
  also have "\<dots> = printf_loop fn (e # 115 # f) ?st2"
    using assms(3) d
    by (cases st, subst printf_loop.simps(2)) (simp add: printf_step_def state1_def state2_def numeral_2_eq_2 del: printf_loop.simps(2))
  also have "\<dots> = printf_loop fn (115 # f) (?st2\<lparr>pr_given_wd := width_of [d, e] 0\<rparr>)"
    using printf_width [of "[e]" ?st2 fn "115 # f"] assms(8) by (simp add: width_of_def)
  also have "\<dots> = printf_loop fn f ((emit_all fn (map ucast s @ replicate (unat (width_of [d, e] 0) - length s) 32) st)\<lparr>pr_args := as\<rparr>)"
    using state2_s [of "?st2\<lparr>pr_given_wd := width_of [d, e] 0\<rparr>" s as fn f] assms(1-6)
    by (cases st) (simp add: printf_step_def)
  finally show ?thesis .
qed

section \<open>What a writer gets\<close>

definition pad_to :: "nat \<Rightarrow> u8 list \<Rightarrow> u8 list" where
  "pad_to n xs = xs @ replicate (n - length xs) 32"

definition log_line :: "LogLevel \<Rightarrow> u8 list \<Rightarrow> u8 list \<Rightarrow> u8 list" where
  "log_line lvl tag fmt = [91] @ pad_to 16 (levelToString lvl) @ [93, 32] @ pad_to 22 tag @ [32] @ fmt @ [10]"

lemma levelToString_text: "0 \<notin> set (levelToString lvl)" "length (levelToString lvl) < 2 ^ 32"
  by (cases lvl; simp add: bytes_of_def of_char_def)+

lemma fold_append_map: "fold (\<lambda>c out. out @ [g c]) cs xs = xs @ map g cs"
  by (induction cs arbitrary: xs) simp_all

lemma log_format: "bytes_of ''[%-16s] %-22s %s'' @ [10] =
    [91] @ 37 # 45 # 49 # 54 # 115 # [93, 32] @ 37 # 45 # 50 # 50 # 115 # [32] @ 37 # 115 # [10]"
  by (simp add: bytes_of_def of_char_def)

lemma format_line_eq:
  assumes "0 \<notin> set tag" "0 \<notin> set fmt" "length (log_line lvl tag fmt) < 1024"
  shows "format_line lvl tag fmt = Inr (log_line lvl tag fmt)"
proof -
  let ?fn = "\<lambda>c out. out @ [ucast c :: u8]" and ?L = "levelToString lvl"
  let ?st = "\<lambda>args n out. \<lparr>pr_state = 0, pr_flags = 0, pr_count = n, pr_given_wd = 0, pr_args = args, pr_ptr = out\<rparr>"
  have len: "length tag < 2 ^ 32" "length fmt < 2 ^ 32" using assms(3) by (simp_all add: log_line_def pad_to_def)
  have uc: "ucast (ucast c :: u32) = c" "ucast (scast c :: u32) = c" for c :: u8
    by (rule bit_word_eqI; auto simp: bit_simps)+
  have plain: "printf_loop ?fn (a @ f) (?st args n out) = printf_loop ?fn f (?st args (n + of_nat (length a)) (out @ a))"
    if "37 \<notin> set a" for a f args n out
    using printf_echo [OF that, of "?st args n out" ?fn f] by (simp add: fold_append_map uc comp_def)
  have field: "printf_loop ?fn (37 # 45 # d # e # 115 # f) (?st (Str s # args) n out) =
      printf_loop ?fn f (?st args (n + of_nat (length (pad_to (unat (width_of [d, e] 0)) s))) (out @ pad_to (unat (width_of [d, e] 0)) s))"
    if "0 \<notin> set s" "length s < 2 ^ 32" "d \<in> {49..57}" "e \<in> {48..57}" for d e f s args n out
    using printf_left_string [of "?st (Str s # args) n out" s args d e ?fn f] that
    by (simp add: fold_append_map uc pad_to_def comp_def del: fold_append fold_replicate printf_loop.simps)
  have w: "unat (width_of [49, 54] 0) = 16" "unat (width_of [50, 50] 0) = 22" by (simp_all add: width_of_def)
  have "\<exists>n. printf_loop ?fn (bytes_of ''[%-16s] %-22s %s'' @ [10]) (?st [Str ?L, Str tag, Str fmt] 0 []) =
      Inr (?st [] n (log_line lvl tag fmt))"
    unfolding log_format
    using plain [of "[91]"] plain [of "[93, 32]"] plain [of "[32]"] plain [of "[10]" "[]"]
      field [OF levelToString_text(1) levelToString_text(2), of 49 54] field [OF assms(1) len(1), of 50 50]
      printf_string [of "?st [Str fmt] n out" fmt "[]" ?fn "[10]" for n out] assms(2) len(2)
    by (simp add: fold_append_map uc w log_line_def comp_def del: printf_loop.simps(2))
  then show ?thesis using assms(3) by (auto simp: format_line_def printf_helper_def m_maxBufferSize_def)
qed

text \<open>The registered writers in order.\<close>

definition active_writers :: "'w logger \<Rightarrow> 'w list" where
  "active_writers lg = concat (map (\<lambda>w. case w of None \<Rightarrow> [] | Some w \<Rightarrow> [w]) (take (m_writersIdx lg) (m_writers lg)))"

definition wf_logger :: "'w logger \<Rightarrow> bool" where
  "wf_logger lg \<longleftrightarrow> length (m_writers lg) = m_maxWriterCount \<and> m_writersIdx lg \<le> m_maxWriterCount"

lemma wf_Logger: "wf_logger (Logger lvl)"
  by (simp add: wf_logger_def Logger_def)

lemma wf_addWriter: "wf_logger lg \<Longrightarrow> wf_logger (snd (addWriter w lg))"
  by (auto simp: wf_logger_def addWriter_def)

lemma wf_removeWriter: "wf_logger lg \<Longrightarrow> wf_logger (snd (removeWriter w lg))"
  by (auto simp: wf_logger_def removeWriter_def split: option.split)

lemma LogHelperPrint_active:
  assumes "wf_logger lg"
  shows "LogHelperPrint call fmt ap lg s = foldE (\<lambda>w. call w fmt ap) (active_writers lg) s"
proof -
  let ?f = "\<lambda>i s. if i < length (m_writers lg)
      then (case m_writers lg ! i of None \<Rightarrow> Inr s | Some w \<Rightarrow> call w fmt ap s) else Inl OutOfBounds"
  have "foldE ?f [0..<n] s = foldE (\<lambda>w. call w fmt ap)
      (concat (map (\<lambda>w. case w of None \<Rightarrow> [] | Some w \<Rightarrow> [w]) (take n (m_writers lg)))) s"
    if "n \<le> length (m_writers lg)" for n
    using that
  proof (induction n)
    case (Suc n)
    then have "foldE ?f [n] = foldE (\<lambda>w. call w fmt ap) (case m_writers lg ! n of None \<Rightarrow> [] | Some w \<Rightarrow> [w])"
      by (intro ext, cases "m_writers lg ! n") (simp_all add: foldE_single del: foldE.simps(2))
    with Suc show ?case by (simp add: foldE_append take_Suc_conv_app_nth del: foldE.simps)
  qed simp
  then show ?thesis using assms by (simp add: LogHelperPrint_def active_writers_def wf_logger_def)
qed

text \<open>a message at or above the logger's level reaches every registered writer, in the order of registration
  and with the message's arguments, as one line: the level in brackets padded to 16, the tag padded to 22
  and the message; a message below the level reaches none.  A line that does not fit the buffer with its
  terminating zero overruns it.\<close>

theorem log_reaches_writers:
  assumes "wf_logger lg" "0 \<notin> set tag" "0 \<notin> set fmt" "length (log_line lvl tag fmt) < 1024"
  shows "Log lvl call tag fmt ap lg s =
    (if level_no (m_logLevel lg) \<le> level_no lvl
     then foldE (\<lambda>w. call w (log_line lvl tag fmt) ap) (active_writers lg) s else Inr s)"
  using format_line_eq [OF assms(2-4)]
  by (simp add: Log_def getLevel_def LogHelper_def LogHelperPrint_active [OF assms(1)])

theorem log_reaches_writers_witness:
  "Log lWARNING (\<lambda>w line ap out. Inr (out @ [(w, length line)])) [97] [98, 99] []
     (snd (addWriter (2 :: nat) (snd (addWriter 1 (Logger lINFO))))) [] = Inr [(1, 45), (2, 45)]"
proof -
  let ?lg = "snd (addWriter (2 :: nat) (snd (addWriter 1 (Logger lINFO))))"
  have "wf_logger ?lg" by (intro wf_addWriter wf_Logger)
  moreover have "length (log_line lWARNING [97] [98, 99]) = 45" by (simp add: log_line_def pad_to_def bytes_of_def)
  moreover have "active_writers ?lg = [1, 2]"
    by (simp add: active_writers_def addWriter_def Logger_def m_maxWriterCount_def numeral_2_eq_2)
  ultimately show ?thesis
    using log_reaches_writers [of ?lg "[97]" "[98, 99]" lWARNING "\<lambda>w line ap out. Inr (out @ [(w, length line)])" "[]" "[]"]
    by (simp add: addWriter_def Logger_def)
qed

text \<open>The slot of a removed writer is not used again: after two registrations there is no room left, whatever is
  removed.\<close>

lemma removed_slots_stay_used:
  "m_writersIdx (snd (removeWriter w lg)) = m_writersIdx lg"
  "m_writersIdx lg = m_maxWriterCount \<Longrightarrow> fst (addWriter v (snd (removeWriter w lg))) = False"
  by (auto simp: removeWriter_def addWriter_def split: option.split)

end
