(* ===== verification/Serial.thy ===== *)
theory Serial
  imports Ring_Buffer Logging Interrupts
begin

text \<open>
  \<open>Kernel/Devices/Serial/rs232.cpp\<close>.  The line status register is a parameter that gives its value at every
  read; the state counts the reads.  The byte that the data register holds is an argument of the function
  that reads it.  Waiting for the device is a partial function, and the value \<open>None\<close> means that the
  awaited bit never comes.  Each function is one uninterrupted call; the mutex is added in \<open>Lock_Users\<close>.
\<close>

section \<open>The driver\<close>

definition RS_232_COM1 :: u16 where "RS_232_COM1 = 0x3F8"

record serial =
  rs_232_port_base :: u16
  rs_ring :: "u8 ring"
  port_out :: port_log
  polls :: nat

type_synonym line_status = "nat \<Rightarrow> u8"

partial_function (option) wait_status :: "line_status \<Rightarrow> u8 \<Rightarrow> nat \<Rightarrow> nat option" where
  "wait_status lsr bits k = (if lsr k AND bits = 0 then wait_status lsr bits (k + 1) else Some (k + 1))"

definition read_byte :: "line_status \<Rightarrow> u8 \<Rightarrow> serial \<Rightarrow> (u8 \<times> serial) outcome" where
  "read_byte lsr data s =
     (case wait_status lsr 1 (polls s) of None \<Rightarrow> Inl Hang | Some k \<Rightarrow> Inr (data, s\<lparr>polls := k\<rparr>))"

definition serial_write :: "line_status \<Rightarrow> u8 list \<Rightarrow> serial \<Rightarrow> (u32 \<times> serial) outcome" where
  "serial_write lsr buf s =
     (case wait_status lsr 0x20 (polls s) of
        None \<Rightarrow> Inl Hang
      | Some k \<Rightarrow> Inr (of_nat (length buf),
          s\<lparr>polls := k, port_out := writeBytes (map (\<lambda>c. (rs_232_port_base s + 0, c)) buf) (port_out s)\<rparr>))"

definition vprintf_helper :: "line_status \<Rightarrow> u32 \<Rightarrow> serial outcome \<Rightarrow> serial outcome" where
  "vprintf_helper lsr c p = bindE p (\<lambda>s. bindE (serial_write lsr [ucast c] s) (\<lambda>(_, s1). Inr s1))"

definition serial_vprintf :: "line_status \<Rightarrow> u8 list \<Rightarrow> va list \<Rightarrow> serial \<Rightarrow> (u32 \<times> serial) outcome" where
  "serial_vprintf lsr fmt args s =
     bindE (printf_helper fmt args (vprintf_helper lsr) (Inr s)) (\<lambda>(n, p). bindE p (\<lambda>s1. Inr (n, s1)))"

definition serial_printf :: "line_status \<Rightarrow> u8 list \<Rightarrow> va list \<Rightarrow> serial \<Rightarrow> (u32 \<times> serial) outcome" where
  "serial_printf lsr fmt args s = serial_vprintf lsr fmt args s"

definition serial_callback :: "line_status \<Rightarrow> u8 \<Rightarrow> serial \<Rightarrow> serial outcome" where
  "serial_callback lsr data s =
     bindE (read_byte lsr data s) (\<lambda>(in_c, s1).
       let c = (if in_c = 13 then 10 else in_c)
       in bindE (serial_printf lsr [37, 99] [Int32 (scast c)] s1) (\<lambda>(_, s2).
            Inr (s2\<lparr>rs_ring := snd (Enqueue c (rs_ring s2))\<rparr>)))"

definition serial_read :: "nat \<Rightarrow> serial \<Rightarrow> u8 list \<times> serial" where
  "serial_read count s = (let (buf, r) = drain IsEmpty Dequeue count (rs_ring s) in (buf, s\<lparr>rs_ring := r\<rparr>))"

definition serial_close :: int where "serial_close = 0"

text \<open>\<open>init\<close>: the interrupt handler, the nine writes that set up the device, the logger's writer and the
  banner, which is printed through the logger.\<close>

definition setup_writes :: "u16 \<Rightarrow> (u16 \<times> u8) list" where
  "setup_writes b = [(b + 1, 0x00), (b + 3, 0x80), (b + 0, 0x03), (b + 1, 0x00), (b + 3, 0x03), (b + 2, 0xC7),
     (b + 4, 0x0B), (b + 3, 0x00), (b + 1, 0x01)]"

definition serial_init ::
    "('w, serial) caller \<Rightarrow> 'h \<Rightarrow> 'w \<Rightarrow> u8 list \<Rightarrow> u16 \<Rightarrow> 'h handlers \<Rightarrow> 'w logger \<Rightarrow> serial
       \<Rightarrow> ('h handlers \<times> 'w logger \<times> serial) outcome" where
  "serial_init call cb writer banner com_id hs lg s =
     (let IRQ = 0x20 + (if com_id = RS_232_COM1 then 0x04 else 0x03);
          hs1 = registerHandler IRQ cb hs;
          s1 = s\<lparr>rs_232_port_base := com_id, port_out := writeBytes (setup_writes com_id) (port_out s)\<rparr>;
          lg1 = snd (addWriter writer lg)
      in bindE (Print call banner [] lg1 s1) (\<lambda>s2. Inr (hs1, lg1, s2)))"

section \<open>Waiting and writing\<close>

definition always_ready :: "line_status \<Rightarrow> u8 \<Rightarrow> bool" where
  "always_ready lsr bits \<longleftrightarrow> (\<forall>k. \<exists>j\<ge>k. lsr j AND bits \<noteq> 0)"

lemma wait_status_ends:
  assumes "k \<le> j" "lsr j AND bits \<noteq> 0"
  shows "\<exists>n. wait_status lsr bits k = Some n"
  using assms
proof (induction "j - k" arbitrary: k)
  case 0
  then show ?case by (subst wait_status.simps) simp
next
  case (Suc d)
  then have "\<exists>n. wait_status lsr bits (Suc k) = Some n" by simp
  then show ?case by (subst wait_status.simps) auto
qed

lemma always_ready_waits: "always_ready lsr bits \<Longrightarrow> \<exists>n. wait_status lsr bits k = Some n"
  using wait_status_ends unfolding always_ready_def by metis

text \<open>Printing characters one by one appends them to what was sent and changes nothing else but the number of
  polls.\<close>

lemma print_chars:
  assumes "always_ready lsr 0x20"
  shows "\<exists>k. fold (vprintf_helper lsr) cs (Inr s) =
    Inr (s\<lparr>polls := k, port_out := port_out s @ map (\<lambda>c. (rs_232_port_base s, ucast c)) cs\<rparr>)"
proof (induction cs arbitrary: s)
  case Nil
  then show ?case by (intro exI [of _ "polls s"]) simp
next
  case (Cons c cs)
  obtain k where k: "wait_status lsr 0x20 (polls s) = Some k" using always_ready_waits [OF assms] by blast
  then show ?case
    using Cons [of "s\<lparr>polls := k, port_out := port_out s @ [(rs_232_port_base s, ucast c)]\<rparr>"]
    by (simp add: vprintf_helper_def serial_write_def writeBytes_append)
qed

lemma conversion_char:
  assumes "pr_flags st = 0" "pr_given_wd st = 0" "pr_args st = Int32 v # as"
  shows "conversion fn 99 st =
    Inr ((if ucast v = (0 :: u8) then st else emit fn (ucast (ucast v :: u8)) st)\<lparr>pr_args := as\<rparr>)"
proof -
  have "EMIT2 fn [ucast v] 1 (st\<lparr>pr_flags := 0, pr_args := as\<rparr>) =
      (if ucast v = (0 :: u8) then st else emit fn (ucast (ucast v :: u8)) st)\<lparr>pr_args := as\<rparr>"
    using assms(1,2) by (cases st) (simp add: EMIT2_def Let_def PR_defs pad_left_emits pad_right_emits emit_def)
  then show ?thesis using assms by (cases "ucast v = (0 :: u8)") (simp_all add: conversion_def Let_def)
qed

lemma printf_char:
  "\<exists>n. printf_helper [37, 99] [Int32 (scast (c :: u8))] fn p = Inr (n, if c = 0 then p else fn (ucast c) p)"
proof -
  let ?st = "\<lparr>pr_state = 0, pr_flags = 0, pr_count = 0, pr_given_wd = 0, pr_args = [Int32 (scast c)], pr_ptr = p\<rparr>"
  have uc: "ucast (scast c :: u32) = c" by (rule bit_word_eqI) (auto simp: bit_simps)
  have "conversion fn 99 (st\<lparr>pr_state := n\<rparr>) = Inr ((if c = 0 then st\<lparr>pr_state := n\<rparr> else emit fn (ucast c) (st\<lparr>pr_state := n\<rparr>))\<lparr>pr_args := []\<rparr>)"
    if "st = ?st" for n st
    using conversion_char [of "st\<lparr>pr_state := n\<rparr>" "scast c" "[]" fn] that by (simp add: uc)
  then show ?thesis
    by (simp add: printf_helper_def printf_step_def state0_def state1_def state2_def state3_def state4_def
        reset_spec_def emit_def)
qed

lemma serial_printf_char:
  assumes "always_ready lsr 0x20"
  shows "\<exists>n k. serial_printf lsr [37, 99] [Int32 (scast c)] s =
    Inr (n, s\<lparr>polls := k, port_out := port_out s @ (if c = 0 then [] else [(rs_232_port_base s, c)])\<rparr>)"
proof -
  obtain n where n: "printf_helper [37, 99] [Int32 (scast c)] (vprintf_helper lsr) (Inr s) =
      Inr (n, if c = 0 then Inr s else vprintf_helper lsr (ucast c) (Inr s))"
    using printf_char [of c "vprintf_helper lsr" "Inr s"] by (elim exE)
  have uc: "ucast (ucast c :: u32) = c" by (rule bit_word_eqI) (auto simp: bit_simps)
  show ?thesis
  proof (cases "c = 0")
    case True
    then show ?thesis using n by (intro exI [of _ n] exI [of _ "polls s"]) (simp add: serial_printf_def serial_vprintf_def)
  next
    case False
    then show ?thesis using n print_chars [OF assms, of "[ucast c]" s]
      by (auto simp: serial_printf_def serial_vprintf_def uc)
  qed
qed

section \<open>Receiving\<close>

definition newline :: "u8 \<Rightarrow> u8" where
  "newline c = (if c = 13 then 10 else c)"

lemma serial_callback_spec:
  assumes "always_ready lsr 1" "always_ready lsr 0x20"
  shows "\<exists>k. serial_callback lsr c s = Inr (s\<lparr>polls := k,
    port_out := port_out s @ (if newline c = 0 then [] else [(rs_232_port_base s, newline c)]),
    rs_ring := snd (Enqueue (newline c) (rs_ring s))\<rparr>)"
proof -
  obtain j where "wait_status lsr 1 (polls s) = Some j" using always_ready_waits [OF assms(1)] by blast
  moreover obtain n k where "serial_printf lsr [37, 99] [Int32 (scast (newline c))] (s\<lparr>polls := j\<rparr>) =
      Inr (n, s\<lparr>polls := k, port_out := port_out s @ (if newline c = 0 then [] else [(rs_232_port_base s, newline c)])\<rparr>)"
    using serial_printf_char [OF assms(2), of "newline c" "s\<lparr>polls := j\<rparr>"] by (cases "newline c = 0") auto
  ultimately show ?thesis
    by (intro exI [of _ k]) (simp add: serial_callback_def read_byte_def Let_def newline_def [symmetric])
qed

lemma serial_callbacks:
  assumes "always_ready lsr 1" "always_ready lsr 0x20"
  shows "\<exists>k. foldE (serial_callback lsr) bs s = Inr (s\<lparr>polls := k,
    port_out := port_out s @ map (\<lambda>c. (rs_232_port_base s, newline c)) (filter (\<lambda>c. c \<noteq> 0) bs),
    rs_ring := fold (\<lambda>c r. snd (Enqueue c r)) (map newline bs) (rs_ring s)\<rparr>)"
proof (induction bs arbitrary: s)
  case Nil
  then show ?case by (intro exI [of _ "polls s"]) simp
next
  case (Cons b bs)
  obtain k where "serial_callback lsr b s = Inr (s\<lparr>polls := k,
      port_out := port_out s @ (if newline b = 0 then [] else [(rs_232_port_base s, newline b)]),
      rs_ring := snd (Enqueue (newline b) (rs_ring s))\<rparr>)"
    using serial_callback_spec [OF assms] by blast
  moreover have "newline b = 0 \<longleftrightarrow> b = 0" by (simp add: newline_def)
  ultimately show ?case
    using Cons [of "s\<lparr>polls := k, port_out := port_out s @ (if newline b = 0 then [] else [(rs_232_port_base s, newline b)]),
      rs_ring := snd (Enqueue (newline b) (rs_ring s))\<rparr>"] by (cases "b = 0") simp_all
qed

text \<open>C32: receiving and reading.  When the device never stays busy for ever, a sequence of receive interrupts
  succeeds, echoes every byte but zero, a carriage return as a newline, and stores the bytes with the same
  translation until the ring buffer is full; \<open>read\<close> then returns the oldest of them in order, at most as
  many as asked for, and leaves the rest.\<close>

theorem serial_receive_read:
  assumes "always_ready lsr 1" "always_ready lsr 0x20" "wf_ring (rs_ring s)"
  shows "\<exists>s' s''. foldE (serial_callback lsr) bs s = Inr s'
    \<and> port_out s' = port_out s @ map (\<lambda>c. (rs_232_port_base s, newline c)) (filter (\<lambda>c. c \<noteq> 0) bs)
    \<and> serial_read n s' = (take n (take (Capacity (rs_ring s)) (rb_contents (rs_ring s) @ map newline bs)), s'')
    \<and> rb_contents (rs_ring s'') = drop n (take (Capacity (rs_ring s)) (rb_contents (rs_ring s) @ map newline bs))"
proof -
  obtain k where k: "foldE (serial_callback lsr) bs s = Inr (s\<lparr>polls := k,
      port_out := port_out s @ map (\<lambda>c. (rs_232_port_base s, newline c)) (filter (\<lambda>c. c \<noteq> 0) bs),
      rs_ring := fold (\<lambda>c r. snd (Enqueue c r)) (map newline bs) (rs_ring s)\<rparr>)"
    using serial_callbacks [OF assms(1,2)] by blast
  obtain r where r: "fold (\<lambda>c r. snd (Enqueue c r)) (map newline bs) (rs_ring s) = r" "wf_ring r"
      "rb_contents r = take (Capacity (rs_ring s)) (rb_contents (rs_ring s) @ map newline bs)"
    using rb.enq_many [OF assms(3), of "map newline bs"] by blast
  obtain r' where "drain IsEmpty Dequeue n r = (take n (rb_contents r), r')" "rb_contents r' = drop n (rb_contents r)"
    using rb.drain_spec [OF r(2), of n] by blast
  then show ?thesis using k r by (auto simp: serial_read_def)
qed

definition demo_serial :: serial where
  "demo_serial = \<lparr>rs_232_port_base = RS_232_COM1, rs_ring = RingBuffer [0, 0, 0], port_out = [], polls = 0\<rparr>"

theorem serial_receive_read_witness:
  "\<exists>s' s''. foldE (serial_callback (\<lambda>_. 0x21)) [97, 13, 98, 99] demo_serial = Inr s'
    \<and> port_out s' = [(0x3F8, 97), (0x3F8, 10), (0x3F8, 98), (0x3F8, 99)]
    \<and> serial_read 2 s' = ([97, 10], s'') \<and> rb_contents (rs_ring s'') = [98]"
proof -
  have "always_ready (\<lambda>_. 0x21) 1" "always_ready (\<lambda>_. 0x21) 0x20" by (auto simp: always_ready_def)
  moreover have "wf_ring (rs_ring demo_serial)" by (simp add: demo_serial_def wf_RingBuffer)
  moreover have "Capacity (rs_ring demo_serial) = 3" "rb_contents (rs_ring demo_serial) = []"
    by (simp_all add: demo_serial_def Capacity_def rb_contents_def RingBuffer_def)
  moreover have "rs_232_port_base demo_serial = 0x3F8" "port_out demo_serial = []"
    by (simp_all add: demo_serial_def RS_232_COM1_def)
  ultimately show ?thesis
    using serial_receive_read [of "\<lambda>_. 0x21" demo_serial "[97, 13, 98, 99]" 2]
    by (simp add: newline_def del: foldE.simps)
qed

text \<open>\<open>write\<close> waits once for the whole buffer: the bytes after the first are sent without another look at the
  line status.\<close>

lemma serial_write_polls_once:
  "lsr (polls s) AND 0x20 \<noteq> 0 \<Longrightarrow>
     serial_write lsr buf s = Inr (of_nat (length buf),
       s\<lparr>polls := polls s + 1, port_out := port_out s @ map (\<lambda>c. (rs_232_port_base s, c)) buf\<rparr>)"
  by (simp add: serial_write_def wait_status.simps [of lsr "0x20" "polls s"] writeBytes_append)

end
