(* ===== verification/Text_Output.thy ===== *)
theory Text_Output
  imports Console Serial
begin

text \<open>
  From a format to the screen: a reference for the formats that the kernel prints (\<open>render\<close>), the proof that
  the format machine of \<open>Library/printf.cpp\<close> emits exactly the rendered characters through any callback, and
  what the console of \<open>Devices/Graphics/console.cpp\<close> does with plain text, colour sequences and a line that is
  written at a fixed position.
\<close>

section \<open>What a format prints\<close>

text \<open>Plain characters, \<open>%%\<close>, and the conversions \<open>%s\<close>, \<open>%c\<close>, \<open>%i\<close>, \<open>%d\<close>, \<open>%u\<close> and \<open>%zu\<close> without a width.\<close>

definition plain_string :: "u8 list \<Rightarrow> bool" where
  "plain_string s \<longleftrightarrow> 0 \<notin> set s \<and> length s < 2 ^ 32"

fun render :: "u8 list \<Rightarrow> va list \<Rightarrow> u8 list option" where
  "render [] args = Some []"
| "render [c] args = (if c \<noteq> 37 \<and> c < 128 then Some [c] else None)"
| "render (c # d # f) args =
     (if c \<noteq> 37 then (if c < 128 then map_option ((#) c) (render (d # f) args) else None)
      else if d = 37 then map_option ((#) 37) (render f args)
      else case args of
        Str s # as \<Rightarrow> if d = 115 \<and> plain_string s then map_option ((@) s) (render f as) else None
      | Int32 v # as \<Rightarrow>
          if d = 99 then (if ucast v = (0 :: u8) then None else map_option ((#) (ucast v)) (render f as))
          else if d = 105 \<or> d = 100 then map_option ((@) (signed_dec v)) (render f as)
          else if d = 117 then map_option ((@) (dec (unat v))) (render f as)
          else if d = 122 then
            (case f of e # f' \<Rightarrow> if e = 117 then map_option ((@) (dec (unat v))) (render f' as) else None | [] \<Rightarrow> None)
          else None
      | _ \<Rightarrow> None)"

section \<open>The format machine prints what is rendered\<close>

abbreviation idle_printer :: "va list \<Rightarrow> u32 \<Rightarrow> 'p \<Rightarrow> 'p printer" where
  "idle_printer args n p \<equiv> \<lparr>pr_state = 0, pr_flags = 0, pr_count = n, pr_given_wd = 0, pr_args = args, pr_ptr = p\<rparr>"

lemma scast_ascii: "c < 128 \<Longrightarrow> (scast (c :: u8) :: u32) = ucast c"
proof -
  assume "c < 128"
  then have "\<not> bit (unat c) 7" by (simp add: word_less_nat_alt bit_iff_odd)
  then have "\<not> bit c 7" by (simp add: bit_unsigned_iff)
  then have "\<not> bit c n" if "7 \<le> n" for n
    using that bit_imp_le_length [of c n] by (cases "n = 7") auto
  then show ?thesis by (intro bit_word_eqI) (auto simp: bit_simps min_def)
qed

lemma printf_plain_char:
  "c \<noteq> 37 \<Longrightarrow> c < 128 \<Longrightarrow>
   printf_loop fn (c # f) (idle_printer args n p) = printf_loop fn f (idle_printer args (n + 1) (fn (ucast c) p))"
  by (simp add: printf_step_def state0_def emit_def scast_ascii)

lemma printf_percent:
  "printf_loop fn (37 # 37 # f) (idle_printer args n p) = printf_loop fn f (idle_printer args (n + 1) (fn 37 p))"
  by (simp add: printf_step_def state0_def state1_def reset_spec_def emit_def)

lemma printf_percent_c:
  "ucast v \<noteq> (0 :: u8) \<Longrightarrow> printf_loop fn (37 # 99 # f) (idle_printer (Int32 v # as) n p) =
   printf_loop fn f (idle_printer as (n + 1) (fn (ucast (ucast v :: u8)) p))"
  using conversion_char [of "(idle_printer (Int32 v # as) n p)\<lparr>pr_state := Suc (Suc (Suc (Suc 0)))\<rparr>" v as fn]
  by (simp add: printf_step_def state0_def state1_def state2_def state3_def state4_def reset_spec_def emit_def)

lemma printf_percent_d:
  assumes "d = 100 \<or> d = 105"
  shows "printf_loop fn (37 # d # f) (idle_printer (Int32 v # as) n p) =
   printf_loop fn f (idle_printer as (n + of_nat (length (signed_dec v))) (fold fn (map ucast (signed_dec v)) p))"
proof -
  obtain fl where "DO_NUM fn 10 ((idle_printer (Int32 v # as) n p)\<lparr>pr_state := Suc (Suc (Suc (Suc 0))), pr_flags := PR_SG\<rparr>) =
      Inr (\<lparr>pr_state = Suc (Suc (Suc (Suc 0))), pr_flags = fl, pr_count = n + of_nat (length (signed_dec v)), pr_given_wd = 0,
            pr_args = as, pr_ptr = fold fn (map ucast (signed_dec v)) p\<rparr>)"
    using DO_NUM_signed_decimal [of "(idle_printer (Int32 v # as) n p)\<lparr>pr_state := Suc (Suc (Suc (Suc 0))), pr_flags := PR_SG\<rparr>" v as fn]
    by auto
  with assms show ?thesis
    by (elim disjE) (simp_all add: printf_step_def state0_def state1_def state2_def state3_def state4_def
      conversion_def reset_spec_def)
qed

lemma DO_NUM_unsigned_decimal:
  assumes "pr_flags st = 0 \<or> pr_flags st = PR_32" "pr_given_wd st = 0" "pr_args st = Int32 v # as"
  shows "DO_NUM fn 10 st = Inr ((emit_all fn (map ucast (dec (unat v))) st)\<lparr>pr_args := as\<rparr>)"
proof -
  let ?ds = "dec (unat v)" and ?st = "st\<lparr>pr_args := as\<rparr>"
  have "EMIT fn ?ds ?st = emit_all fn (map ucast ?ds) ?st"
    using EMIT2_right_justified [of ?st ?ds "[]" fn "of_nat (length ?ds)"] assms(1,2) dec_no_zero
    by (auto simp: EMIT_def PR_defs takeWhile_no_zero Let_def)
  then show ?thesis
    using assms by (auto simp: DO_NUM_def load_num_def take_sign_def PR_defs digit_loop_digits digits_decimal)
qed

lemma printf_percent_u:
  "printf_loop fn (37 # 117 # f) (idle_printer (Int32 v # as) n p) =
   printf_loop fn f (idle_printer as (n + of_nat (length (dec (unat v)))) (fold fn (map ucast (dec (unat v))) p))"
  using DO_NUM_unsigned_decimal [of "(idle_printer (Int32 v # as) n p)\<lparr>pr_state := Suc (Suc (Suc (Suc 0)))\<rparr>" v as fn]
  by (simp add: printf_step_def state0_def state1_def state2_def state3_def state4_def conversion_def reset_spec_def)

lemma printf_percent_zu:
  "printf_loop fn (37 # 122 # 117 # f) (idle_printer (Int32 v # as) n p) =
   printf_loop fn f (idle_printer as (n + of_nat (length (dec (unat v)))) (fold fn (map ucast (dec (unat v))) p))"
  using DO_NUM_unsigned_decimal [of "(idle_printer (Int32 v # as) n p)\<lparr>pr_state := Suc (Suc (Suc (Suc 0))), pr_flags := PR_32\<rparr>" v as fn]
  by (simp add: printf_step_def state0_def state1_def state2_def state3_def state4_def conversion_def reset_spec_def
      PR_32_def)

lemma printf_percent_s:
  "plain_string s \<Longrightarrow> printf_loop fn (37 # 115 # f) (idle_printer (Str s # as) n p) =
   printf_loop fn f (idle_printer as (n + of_nat (length s)) (fold fn (map ucast s) p))"
  using printf_string [of "idle_printer (Str s # as) n p" s as fn f] by (simp add: plain_string_def)

lemmas printf_fields = printf_plain_char printf_percent printf_percent_c printf_percent_d printf_percent_u
  printf_percent_zu printf_percent_s

lemma printf_loop_renders:
  "render fmt args = Some out \<Longrightarrow> \<exists>as. printf_loop fn fmt (idle_printer args n p) =
     Inr (idle_printer as (n + of_nat (length out)) (fold fn (map ucast out) p))"
proof (induction fmt args arbitrary: n p out rule: render.induct)
  case (3 c d f args)
  then show ?case
    by (auto simp: printf_fields add.assoc [symmetric] simp del: printf_loop.simps(2)
      split: if_splits list.splits va.splits)
qed (auto simp: printf_fields simp del: printf_loop.simps(2) split: if_splits)

lemma printf_renders:
  "render fmt args = Some out \<Longrightarrow>
   printf_helper fmt args fn p = Inr (of_nat (length out), fold fn (map ucast out) p)"
  using printf_loop_renders [of fmt args out fn 0 p] by (auto simp: printf_helper_def)

section \<open>A console that shows text\<close>

text \<open>The graphics are either off or have a frame buffer with room for 80 by 25 characters and the row and column
  of pixels that \<open>Draw\<close> paints behind them.\<close>

definition screen_ok :: "gfx \<Rightarrow> bool" where
  "screen_ok g \<longleftrightarrow> \<not> gfx_initialized g \<or>
     (\<exists>f. gfx_ok f g \<and> 640 < unat (fb_width f) \<and> 200 < unat (fb_height f) \<and> length (vram g) = length (backbuffer g))"

lemma pixel_length: "pixel x y c g = Inr g' \<Longrightarrow> length (backbuffer g') = length (backbuffer g)"
  by (auto simp: pixel_def Let_def bindE_Inr_iff store_byte_def split: if_splits option.splits)

lemma pixel_screen_ok:
  assumes "screen_ok g" "X < 641" "Y < 201"
  shows "\<exists>g'. pixel (of_nat X) (of_nat Y) c g = Inr g' \<and> screen_ok g'"
proof (cases "gfx_initialized g")
  case True
  then obtain f where f: "gfx_ok f g" "640 < unat (fb_width f)" "200 < unat (fb_height f)"
      "length (vram g) = length (backbuffer g)"
    using assms(1) by (auto simp: screen_ok_def)
  then obtain g' where "pixel (of_nat X) (of_nat Y) c g = Inr g'" "gfx_ok f g'" "vram g' = vram g"
    using pixel_at [OF f(1), of X Y c] assms(2,3) by auto
  with f pixel_length show ?thesis by (metis screen_ok_def)
qed (use assms in \<open>simp add: pixel_def\<close>)

lemma Draw_screen_ok:
  assumes g: "screen_ok g" and c: "c < 128" and x: "x < 80" and y: "y < 25"
  shows "\<exists>g'. Draw c (of_nat x) (of_nat y) fore back g = Inr g' \<and> screen_ok g'"
  unfolding Draw_def
proof (rule foldE_invariant [where I = "\<lambda>_. screen_ok"])
  fix ys a zs t
  assume cells: "glyph_cells = ys @ a # zs" and t: "screen_ok t"
  obtain fy fx where a: "a = (fy, fx)" by fastforce
  then have cell: "fy < 9" "fx < 9" using glyph_cells_set [of fy fx] by (simp_all add: cells)
  have "\<exists>t'. pixel (of_nat (x * 8 + fx)) (of_nat (y * 8 + fy)) col t = Inr t' \<and> screen_ok t'" for col
    by (rule pixel_screen_ok [OF t]) (use x y cell in simp_all)
  then show "\<exists>t'. (\<lambda>(fy, fx) g. bindE (glyph_bit c fx fy) (\<lambda>on.
       pixel (of_nat x * 8 + of_nat fx) (of_nat y * 8 + of_nat fy) (if on then fore else back) g)) a t = Inr t' \<and> screen_ok t'"
    using glyph_bit_ascii [OF c cell(2,1)] a by simp
qed (rule g)

lemma swap_screen_ok: "screen_ok g \<Longrightarrow> \<exists>g'. swap g = Inr g' \<and> screen_ok g'"
proof (cases "gfx_initialized g")
  case True
  assume "screen_ok g"
  with True obtain f where f: "gfx_ok f g" "640 < unat (fb_width f)" "200 < unat (fb_height f)"
      "length (vram g) = length (backbuffer g)"
    by (auto simp: screen_ok_def)
  then have "swap g = Inr (g\<lparr>vram := backbuffer g\<rparr>)" using swap_shows_backbuffer by blast
  moreover have "gfx_ok f (g\<lparr>vram := backbuffer g\<rparr>)" using f(1) by (simp add: gfx_ok_def)
  ultimately show ?thesis using f by (auto simp: screen_ok_def)
qed (simp add: swap_def)

definition ready_console :: "console \<Rightarrow> bool" where
  "ready_console s \<longleftrightarrow> ansiState s = Normal \<and> ansiValuesIdx s = 0 \<and> length (ansiValues s) = 8 \<and>
     cursorX s < 80 \<and> cursorY s < 25 \<and> screen_ok (con_gfx s)"

text \<open>Between the sequences the machine changes nothing but the cursor, the pixels and what the values leave.\<close>

definition same_colours :: "console \<Rightarrow> console \<Rightarrow> bool" where
  "same_colours s s' \<longleftrightarrow> colorFore s' = colorFore s \<and> colorBack s' = colorBack s \<and> resetFore s' = resetFore s \<and>
     resetBack s' = resetBack s \<and> ansiCursorX s' = ansiCursorX s \<and> ansiCursorY s' = ansiCursorY s"

definition plain_char :: "u8 \<Rightarrow> bool" where
  "plain_char c \<longleftrightarrow> c < 128 \<and> c \<noteq> 27"

lemma wrap_cursor_inside: "cursorX (wrap_cursor s) < 80" "cursorY (wrap_cursor s) < 25"
  by (auto simp: wrap_cursor_def Let_def not_le)

lemma wrap_cursor_frame:
  "ansiState (wrap_cursor s) = ansiState s" "ansiValuesIdx (wrap_cursor s) = ansiValuesIdx s"
  "ansiValues (wrap_cursor s) = ansiValues s" "con_gfx (wrap_cursor s) = con_gfx s" "same_colours s' (wrap_cursor s) = same_colours s' s"
  by (simp_all add: wrap_cursor_def Let_def same_colours_def)

lemma putchar_plain:
  assumes s: "ready_console s" and c: "plain_char c"
  shows "\<exists>s'. putchar (ucast c) s = Inr (0, s') \<and> ready_console s' \<and> same_colours s s'"
proof -
  have u: "ucast (ucast c :: u32) = c" by (rule bit_word_eqI) (auto simp: bit_simps)
  have ne: "(ucast c :: u32) \<noteq> 27"
  proof
    assume "(ucast c :: u32) = 27"
    then show False using c u by (simp add: plain_char_def)
  qed
  let ?s = "s\<lparr>ansiState := Normal\<rparr>"
  have "\<exists>g'. Draw c (of_nat (unat (cursorX s))) (of_nat (unat (cursorY s))) (colorFore s) (colorBack s) (con_gfx s) = Inr g' \<and> screen_ok g'"
    using s c by (intro Draw_screen_ok) (auto simp: ready_console_def plain_char_def word_less_nat_alt)
  then obtain g where g: "Draw c (ucast (cursorX s)) (ucast (cursorY s)) (colorFore s) (colorBack s) (con_gfx s) = Inr g" "screen_ok g"
    by auto
  have "\<exists>s1. put_text (ucast c) ?s = Inr s1 \<and> ansiState s1 = Normal \<and> ansiValuesIdx s1 = 0 \<and> length (ansiValues s1) = 8 \<and>
      screen_ok (con_gfx s1) \<and> same_colours s s1"
    using s g u by (auto simp: put_text_def ready_console_def same_colours_def)
  then show ?thesis
    using s ne by (auto simp: putchar_def ready_console_def fell_through_def wrap_cursor_inside wrap_cursor_frame)
qed

text \<open>The characters that \<open>printf\<close> hands to the console one by one.\<close>

abbreviation put_all :: "u8 list \<Rightarrow> console \<Rightarrow> console outcome" where
  "put_all cs s \<equiv> fold put_callback (map ucast cs) (Inr s)"

lemma put_all_append: "put_all xs s = Inr s1 \<Longrightarrow> put_all (xs @ ys) s = put_all ys s1"
  by simp

lemma put_all_Cons: "putchar (ucast c) s = Inr (r, s1) \<Longrightarrow> put_all (c # cs) s = put_all cs s1"
  by (simp add: put_callback_def)

lemma same_colours_trans: "same_colours s s' \<Longrightarrow> same_colours s' s'' \<Longrightarrow> same_colours s s''"
  by (simp add: same_colours_def)

lemma put_plain:
  assumes "ready_console s" "\<forall>c \<in> set cs. plain_char c"
  shows "\<exists>s'. put_all cs s = Inr s' \<and> ready_console s' \<and> same_colours s s'"
  using assms
proof (induction cs arbitrary: s)
  case Nil
  then show ?case by (simp add: same_colours_def)
next
  case (Cons c cs)
  then obtain s1 where s1: "putchar (ucast c) s = Inr (0, s1)" "ready_console s1" "same_colours s s1"
    using putchar_plain [of s c] by auto
  from Cons.IH [OF s1(2)] Cons.prems obtain s' where "put_all cs s1 = Inr s'" "ready_console s'" "same_colours s1 s'" by auto
  then show ?case using put_all_Cons [OF s1(1)] same_colours_trans s1(3) by metis
qed

section \<open>Colours\<close>

lemma put_digits:
  assumes "ansiState s = Value" "set ds \<subseteq> {48..57}"
  shows "put_all ds s = Inr (s\<lparr>ansiVal := dec16 ds (ansiVal s)\<rparr>)"
  using assms
proof (induction ds arbitrary: s)
  case (Cons d ds)
  have "d < 128" using Cons.prems(2) by (auto simp: word_less_nat_alt word_le_nat_alt)
  then have "putchar (ucast d) s = Inr (0, s\<lparr>ansiVal := ansiVal s * 10 + (ucast d - 48)\<rparr>)"
    using Cons.prems digit_char_facts [of d] scast_ascii [of d] by (auto simp: putchar_def in_value_def)
  then show ?case using put_all_Cons [of d s] Cons by (simp add: dec16_def)
qed (simp add: dec16_def)

lemma put_number:
  assumes "ansiState s = Bracket" "ds \<noteq> []" "set ds \<subseteq> {48..57}"
  shows "put_all ds s = Inr (s\<lparr>ansiVal := dec16 ds 0, ansiState := Value\<rparr>)"
proof (cases ds)
  case (Cons d ds')
  then have "d < 128" using assms(3) by (auto simp: word_less_nat_alt word_le_nat_alt)
  then have "putchar (ucast d) s = Inr (0, s\<lparr>ansiVal := ucast d - 48, ansiState := Value\<rparr>)"
    using assms Cons digit_char_facts [of d] scast_ascii [of d] by (auto simp: putchar_def in_bracket_def)
  then show ?thesis
    using put_all_Cons [of d s] put_digits [of "s\<lparr>ansiVal := ucast d - 48, ansiState := Value\<rparr>" ds'] assms(3) Cons
    by (simp add: dec16_def)
qed (use assms in simp)

lemma put_csi: "ansiState s = Normal \<Longrightarrow> put_all [27, 91] s = Inr (s\<lparr>ansiState := Bracket\<rparr>)"
  by (simp add: put_callback_def putchar_def)

lemma put_colour:
  assumes s: "ready_console s" and ds: "ds \<noteq> []" "set ds \<subseteq> {48..57}"
  shows "\<exists>s'. put_all ([27, 91] @ ds @ [109]) s = Inr s' \<and> ready_console s'"
proof -
  let ?s1 = "s\<lparr>ansiState := Bracket\<rparr>" and ?s2 = "s\<lparr>ansiVal := dec16 ds 0, ansiState := Value\<rparr>"
  have 1: "put_all [27, 91] s = Inr ?s1" using s by (intro put_csi) (simp add: ready_console_def)
  have 2: "put_all ds ?s1 = Inr ?s2" using put_number [of ?s1 ds] ds by simp
  let ?s3 = "?s2\<lparr>ansiValues := (ansiValues s)[0 := dec16 ds 0]\<rparr>"
  have l: "ansiValuesIdx s = 0" "length (ansiValues s) = 8" using s by (simp_all add: ready_console_def)
  have "sgr_loop (?s2\<lparr>ansiValues := (ansiValues s)[0 := dec16 ds 0], ansiValuesIdx := 1\<rparr>) = Inr (apply_sgr (dec16 ds 0) (?s3\<lparr>ansiValuesIdx := 0\<rparr>))"
    using l by (cases s, subst sgr_loop.simps) (simp add: POP_VAL_def, subst sgr_loop.simps, simp)
  then have "\<exists>s'. put_all [109] ?s2 = Inr s' \<and> ready_console s'"
    using s l by (auto simp: put_callback_def putchar_def in_value_def PUSH_VAL_def goto_normal_def ready_console_def)
  then show ?thesis using put_all_append [OF 1, of "ds @ [109]"] put_all_append [OF 2, of "[109]"] by simp
qed

text \<open>Text with colour sequences in it leaves the console ready for more text.\<close>

definition styled :: "u8 list \<Rightarrow> bool" where
  "styled out \<longleftrightarrow> (\<exists>ps. out = concat ps \<and> (\<forall>p \<in> set ps. (\<forall>c \<in> set p. plain_char c) \<or>
     (\<exists>ds. p = [27, 91] @ ds @ [109] \<and> ds \<noteq> [] \<and> set ds \<subseteq> {48..57})))"

lemma styled_plain: "\<forall>c \<in> set xs. plain_char c \<Longrightarrow> styled xs"
  unfolding styled_def by (intro exI [of _ "[xs]"]) simp

lemma styled_colour: "ds \<noteq> [] \<Longrightarrow> set ds \<subseteq> {48..57} \<Longrightarrow> styled ([27, 91] @ ds @ [109])"
  unfolding styled_def by (intro exI [of _ "[[27, 91] @ ds @ [109]]"]) auto

lemma styled_append: "styled xs \<Longrightarrow> styled ys \<Longrightarrow> styled (xs @ ys)"
  unfolding styled_def by (metis concat_append set_append Un_iff)

lemma put_styled: "ready_console s \<Longrightarrow> styled out \<Longrightarrow> \<exists>s'. put_all out s = Inr s' \<and> ready_console s'"
proof -
  have "\<exists>s'. put_all (concat ps) s = Inr s' \<and> ready_console s'"
    if "\<forall>p \<in> set ps. (\<forall>c \<in> set p. plain_char c) \<or> (\<exists>ds. p = [27, 91] @ ds @ [109] \<and> ds \<noteq> [] \<and> set ds \<subseteq> {48..57})"
      "ready_console s" for ps s
    using that
  proof (induction ps arbitrary: s)
    case (Cons p ps)
    then obtain s1 where "put_all p s = Inr s1" "ready_console s1"
      using put_plain [of s p] put_colour [of s] by (metis list.set_intros(1))
    then show ?case using Cons by simp
  qed simp
  then show "ready_console s \<Longrightarrow> styled out \<Longrightarrow> \<exists>s'. put_all out s = Inr s' \<and> ready_console s'"
    unfolding styled_def by blast
qed

lemma Console_printf_styled:
  assumes "ready_console s" "render fmt args = Some out" "styled out"
  shows "\<exists>s'. Console_printf fmt args s = Inr (of_nat (length out), s') \<and> ready_console s'"
proof -
  obtain s1 where s1: "put_all out s = Inr s1" "ready_console s1" using put_styled [OF assms(1,3)] by blast
  then obtain g where "swap (con_gfx s1) = Inr g" "screen_ok g" using swap_screen_ok by (auto simp: ready_console_def)
  then show ?thesis
    using s1 printf_renders [OF assms(2), of put_callback "Inr s"]
    by (auto simp: Console_printf_def Console_vprintf_def ready_console_def)
qed

section \<open>A line at a fixed position\<close>

text \<open>\<open>ESC[s\<close>, a position, text and \<open>ESC[u\<close>: the text appears at the position and the cursor is back where it was.\<close>

lemma put_status_line:
  assumes s: "ready_console s"
    and ys: "ys \<noteq> []" "set ys \<subseteq> {48..57}" "dec16 ys 0 < 25" and xs: "xs \<noteq> []" "set xs \<subseteq> {48..57}" "dec16 xs 0 < 80"
    and tx: "\<forall>c \<in> set tx. plain_char c"
  shows "\<exists>s'. put_all ([27, 91, 115, 27, 91] @ ys @ [59] @ xs @ [102] @ tx @ [27, 91, 117]) s = Inr s'
    \<and> ready_console s' \<and> cursorX s' = cursorX s \<and> cursorY s' = cursorY s \<and> colorFore s' = colorFore s \<and> colorBack s' = colorBack s"
proof -
  let ?s1 = "s\<lparr>ansiCursorX := ucast (cursorX s), ansiCursorY := ucast (cursorY s), ansiVal := 0\<rparr>"
  let ?s2 = "?s1\<lparr>ansiVal := 0, ansiState := Bracket, ansiValuesIdx := 1, ansiValues := (ansiValues s)[0 := dec16 ys 0]\<rparr>"
  let ?s3 = "?s1\<lparr>cursorX := ucast (dec16 xs 0), cursorY := ucast (dec16 ys 0), ansiVal := 0,
      ansiValues := (ansiValues s)[0 := dec16 ys 0, 1 := dec16 xs 0]\<rparr>"
  have l: "ansiValuesIdx s = 0" "length (ansiValues s) = 8" "ansiState s = Normal" using s by (simp_all add: ready_console_def)
  have 1: "put_all [27, 91, 115, 27, 91] s = Inr (?s1\<lparr>ansiState := Bracket\<rparr>)"
    using l by (simp add: put_callback_def putchar_def in_bracket_def isdigit_def goto_normal_def)
  have 2: "put_all ys (?s1\<lparr>ansiState := Bracket\<rparr>) = Inr (?s1\<lparr>ansiVal := dec16 ys 0, ansiState := Value\<rparr>)"
    using put_number [of "?s1\<lparr>ansiState := Bracket\<rparr>" ys] ys by simp
  have 3: "put_all [59] (?s1\<lparr>ansiVal := dec16 ys 0, ansiState := Value\<rparr>) = Inr ?s2"
    using l by (simp add: put_callback_def putchar_def in_value_def PUSH_VAL_def)
  have 4: "put_all xs ?s2 = Inr (?s2\<lparr>ansiVal := dec16 xs 0, ansiState := Value\<rparr>)"
    using put_number [of ?s2 xs] xs by simp
  have 5: "put_all [102] (?s2\<lparr>ansiVal := dec16 xs 0, ansiState := Value\<rparr>) = Inr ?s3"
    using l by (simp add: put_callback_def putchar_def in_value_def set_position_def PUSH_VAL_def POP_VAL_def goto_normal_def
      Let_def)
  have "ucast (dec16 xs 0) < (80 :: u8)" "ucast (dec16 ys 0) < (25 :: u8)"
    using xs(3) ys(3) by (simp_all add: word_less_nat_alt unsigned_ucast_eq take_bit_nat_eq_self)
  then have "ready_console ?s3" using s by (simp add: ready_console_def)
  from put_plain [OF this tx] obtain s4 where s4: "put_all tx ?s3 = Inr s4" "ready_console s4" "same_colours ?s3 s4" by blast
  have u: "ucast (ucast c :: u32) = c" for c :: u8 by (rule bit_word_eqI) (auto simp: bit_simps)
  have 6: "put_all [27, 91, 117] s4 = Inr (s4\<lparr>cursorX := cursorX s, cursorY := cursorY s, ansiVal := 0\<rparr>)"
    using s4(2,3) u by (simp add: ready_console_def same_colours_def put_callback_def putchar_def in_bracket_def isdigit_def goto_normal_def)
  have "put_all ([27, 91, 115, 27, 91] @ ys @ [59] @ xs @ [102] @ tx @ [27, 91, 117]) s =
      Inr (s4\<lparr>cursorX := cursorX s, cursorY := cursorY s, ansiVal := 0\<rparr>)"
    by (simp only: put_all_append [OF 1] put_all_append [OF 2] put_all_append [OF 3] put_all_append [OF 4]
        put_all_append [OF 5] put_all_append [OF s4(1)] 6)
  then show ?thesis using s s4(2,3) by (auto simp: ready_console_def same_colours_def)
qed

section \<open>Plain pieces of a format\<close>

lemma render_plain_append:
  "\<forall>c \<in> set xs. c \<noteq> 37 \<and> c < 128 \<Longrightarrow> f \<noteq> [] \<Longrightarrow> render (xs @ f) args = map_option ((@) xs) (render f args)"
proof (induction xs)
  case (Cons c xs)
  obtain d f' where df: "xs @ f = d # f'" using Cons.prems(2) by (cases "xs @ f") auto
  have "render ((c # xs) @ f) args = map_option ((#) c) (render (xs @ f) args)"
    using Cons.prems(1) unfolding append_Cons df by simp
  also have "\<dots> = map_option ((@) (c # xs)) (render f args)" using Cons by (cases "render f args") simp_all
  finally show ?case .
qed (cases "render f args"; simp)

lemma render_plain: "\<forall>c \<in> set xs. c \<noteq> 37 \<and> c < 128 \<Longrightarrow> render xs args = Some xs"
proof (induction xs)
  case (Cons c xs)
  then show ?case by (cases xs) simp_all
qed simp

lemma dec_plain: "\<forall>c \<in> set (dec n). plain_char c"
proof (induction n rule: less_induct)
  case (less n)
  have d: "plain_char (of_nat (n mod 10) + 48)"
  proof -
    have "n mod 10 \<in> {0, 1, 2, 3, 4, 5, 6, 7, 8, 9}" by (simp only: insert_iff empty_iff) presburger
    then show ?thesis by (elim insertE emptyE) (simp_all add: plain_char_def)
  qed
  show ?case using d less [of "n div 10"] by (subst dec.simps) auto
qed

lemma signed_dec_plain: "\<forall>c \<in> set (signed_dec v). plain_char c"
  using dec_plain by (simp add: signed_dec_def plain_char_def)

end
