(* ===== verification/Diagnostics.thy ===== *)
theory Diagnostics
  imports Logging Interrupts
begin

text \<open>
  What the kernel shows when it stops: \<open>Kernel/Arch/i686/Arch.cpp\<close>, \<open>Panic.cpp\<close>, \<open>Stacktrace.cpp\<close> and
  \<open>Arch/i686/Bootloader/EarlyPanic.cpp\<close>, with the start of the processor in \<open>Arch::CPU::init\<close>.  Text that goes
  through \<open>log_all\<close> is the list of formats with their arguments; text that is formatted into a buffer is
  its bytes.
\<close>

section \<open>Registers\<close>

record registers =
  r_ds :: u32
  r_edi :: u32
  r_esi :: u32
  r_ebp :: u32
  r_ignored :: u32
  r_ebx :: u32
  r_edx :: u32
  r_ecx :: u32
  r_eax :: u32
  r_int_num :: u32
  r_err_code :: u32
  r_eip :: u32
  r_cs :: u32
  r_eflags :: u32
  r_esp :: u32
  r_ss :: u32

definition exceptionStrings :: "string list" where
  "exceptionStrings = [''Divide-By-Zero'', ''Debugging'', ''Non-Maskable Interrupt'', ''Breakpoint'',
     ''Overflow'', ''Bound Range Exceeded'', ''Invalid Opcode'', ''Device Not Available'',
     ''Double Fault'', ''Coprocessor Overrun'', ''Invalid TSS'', ''Segment Not Present'',
     ''Segmentation Fault'', ''Protection Fault'', ''Page Fault'', ''RESERVED'',
     ''Floating Point Exception'', ''Alignment Check'', ''Machine Check'', ''SIMD Floating Point Exception'',
     ''Virtualization Exception'', ''RESERVED'', ''RESERVED'', ''RESERVED'',
     ''RESERVED'', ''RESERVED'', ''RESERVED'', ''RESERVED'',
     ''RESERVED'', ''Security Exception'', ''RESERVED'', ''Triple Fault'', ''FPU Error'']"

text \<open>The format of \<open>registersToString\<close>: a piece of text before each register and the rest after the last.\<close>

definition red :: "string \<Rightarrow> u8 list" where
  "red name = 27 # bytes_of ''[31m'' @ bytes_of name @ 27 # bytes_of ''[0m 0x''"

definition register_pieces :: "u8 list list" where
  "register_pieces =
     [red '' DS:'', 10 # red ''EDI:'', 32 # red ''ESI:'', 32 # red ''EBP:'', 32 # red ''ESP:'',
      10 # red ''EAX:'', 32 # red ''EBX:'', 32 # red ''ECX:'', 32 # red ''EDX:'',
      10 # red ''ERR:'', 32 # red ''EIP:'', 32 # red '' CS:'', 10 # red ''FLG:'', 32 # red '' SS:'']"

definition register_format :: "u8 list" where
  "register_format = concat (map (\<lambda>t. t @ bytes_of ''%08X'') register_pieces) @ [10, 10]"

definition register_values :: "registers \<Rightarrow> u32 list" where
  "register_values r = [r_ds r, r_edi r, r_esi r, r_ebp r, r_esp r, r_eax r, r_ebx r, r_ecx r, r_edx r,
     r_err_code r, r_eip r, r_cs r, r_eflags r, r_ss r]"

definition registersToString :: "registers \<Rightarrow> (u32 \<times> u8 list) outcome" where
  "registersToString r = printf_helper register_format (map Int32 (register_values r)) (\<lambda>c out. out @ [ucast c]) []"

type_synonym log_lines = "(string \<times> va list) list"

definition page_fault_words :: "u32 \<Rightarrow> string list" where
  "page_fault_words err =
     [if err AND 1 \<noteq> 0 then ''missing'' else ''present'', if err AND 2 \<noteq> 0 then ''reading'' else ''writing'',
      if err AND 4 \<noteq> 0 then ''user-mode'' else ''kernel'', if err AND 8 \<noteq> 0 then ''reserved'' else ''available'']"

definition registersPrintInformation :: "u32 \<Rightarrow> registers \<Rightarrow> log_lines outcome" where
  "registersPrintInformation cr2 r =
     (if unat (r_int_num r) < length exceptionStrings
      then Inr ([(''Exception: %lu (%s)'' @ [CHR 0x0A, CHR 0x0A],
                  [Int32 (r_int_num r), Str (bytes_of (exceptionStrings ! unat (r_int_num r)))])]
        @ (if r_err_code r \<noteq> 0 then [(''Error code: %lu'', [Int32 (r_err_code r)])] else [])
        @ (if r_int_num r = ucast EXCEPTION_PAGE_FAULT
           then [(''Page fault at 0x%08lX [ %s %s %s %s ] (id -> %i)'' @ [CHR 0x0A],
                  Int32 cr2 # map (\<lambda>w. Str (bytes_of w)) (page_fault_words (r_err_code r))
                    @ [Int32 (r_err_code r AND 0x10)])]
           else []))
      else Inl OutOfBounds)"

section \<open>The processor\<close>

text \<open>\<open>criticalRegion\<close>: the flag tells whether interrupts are enabled.\<close>

definition criticalRegion :: "('s \<Rightarrow> 's outcome) \<Rightarrow> bool \<times> 's \<Rightarrow> (bool \<times> 's) outcome" where
  "criticalRegion work = (\<lambda>(_, s). bindE (work s) (\<lambda>s1. Inr (True, s1)))"

record 'h machine =
  mc_gdt :: "gdt_entry list"
  mc_gdtr :: table_register
  mc_idt :: "gate list"
  mc_idtr :: table_register
  mc_handlers :: "'h handlers"
  mc_ports :: port_log

definition CPU_init ::
    "(nat \<Rightarrow> u32) \<Rightarrow> (nat \<Rightarrow> u32) \<Rightarrow> u32 \<Rightarrow> u32 \<Rightarrow> 'h \<Rightarrow> bool \<times> 'h machine \<Rightarrow> (bool \<times> 'h machine) outcome" where
  "CPU_init exceptionStub interruptStub gdt_addr idt_addr timer_cb =
     criticalRegion (\<lambda>m.
       let (gdt, gdtr) = GDT_init gdt_addr
       in bindE (Interrupts_init exceptionStub interruptStub idt_addr (mc_idt m, mc_ports m)) (\<lambda>(idt, ports, idtr).
          bindE (timer_init 1000 timer_cb (mc_handlers m) ports) (\<lambda>(hs, ports1).
          Inr (m\<lparr>mc_gdt := gdt, mc_gdtr := gdtr, mc_idt := idt, mc_idtr := idtr, mc_handlers := hs, mc_ports := ports1\<rparr>))))"

text \<open>\<open>vendor\<close>: the bytes of the four words as \<open>cpuid\<close> leaves them.\<close>

definition le_bytes :: "u32 \<Rightarrow> u8 list" where
  "le_bytes w = [ucast w, ucast (drop_bit 8 w), ucast (drop_bit 16 w), ucast (drop_bit 24 w)]"

definition vendor :: "(u32 \<Rightarrow> u32 list) \<Rightarrow> u8 list" where
  "vendor cpuid = concat (map le_bytes (cpuid 0))"

definition model :: "(u32 \<Rightarrow> u32 list) \<Rightarrow> u8 list" where
  "model cpuid = concat (map le_bytes (cpuid 0x80000002 @ cpuid 0x80000003 @ cpuid 0x80000004))"

section \<open>Stack trace\<close>

record stackframe =
  sf_ebp :: u32
  sf_eip :: u32

fun printTrace :: "(u32 \<Rightarrow> stackframe) \<Rightarrow> nat \<Rightarrow> u32 \<Rightarrow> u32 list" where
  "printTrace frames 0 frame = []"
| "printTrace frames (Suc n) frame =
     (if frame \<noteq> 0
      then sf_eip (frames frame) #
           (if sf_ebp (frames frame) = 0 then [] else printTrace frames n (sf_ebp (frames frame)))
      else [])"

section \<open>Early panic\<close>

definition TTY_WIDTH :: nat where "TTY_WIDTH = 80"
definition TTY_HEIGHT :: nat where "TTY_HEIGHT = 25"

definition VGA_COLOR :: "u16 \<Rightarrow> u16 \<Rightarrow> u16" where
  "VGA_COLOR bg fg = push_bit 4 bg OR (fg AND 0xF)"

definition VGA_CHAR :: "u8 \<Rightarrow> u16 \<Rightarrow> u16" where
  "VGA_CHAR c co = scast c OR push_bit 8 co"

definition clear_vga :: "u16 list \<Rightarrow> u16 list" where
  "clear_vga buf = fold (\<lambda>i. fold (\<lambda>j b. b[j * TTY_WIDTH + i := VGA_CHAR 32 (VGA_COLOR 0 15)]) [0..<TTY_HEIGHT]) [0..<TTY_WIDTH] buf"

text \<open>The position is not wrapped at the end of a line.\<close>

definition early_char :: "u8 \<Rightarrow> nat \<times> nat \<times> u16 list \<Rightarrow> (nat \<times> nat \<times> u16 list) outcome" where
  "early_char c = (\<lambda>(x, y, buf).
     if c = 10 then Inr (0, y + 1, buf)
     else if y * TTY_WIDTH + x < length buf
     then Inr (x + 1, y, buf[y * TTY_WIDTH + x := VGA_CHAR c (VGA_COLOR 4 15)])
     else Inl OutOfBounds)"

definition EarlyPanic :: "u8 list \<Rightarrow> u16 list \<Rightarrow> u16 list outcome" where
  "EarlyPanic str buf = bindE (foldE early_char str (0, 0, clear_vga buf)) (\<lambda>(x, y, b). Inr b)"

section \<open>Panic\<close>

definition PANIC_MAX_TRACE :: nat where "PANIC_MAX_TRACE = 64"
definition PANIC_MOO_BUF_SZ :: nat where "PANIC_MOO_BUF_SZ = 256"
definition PANIC_MSG_BUF_SZ :: nat where "PANIC_MSG_BUF_SZ = 256"
definition PANIC_REG_BUG_SZ :: nat where "PANIC_REG_BUG_SZ = 512"

definition apostrophe :: "u8 list" where "apostrophe = [0xE2, 0x80, 0x99]"

definition funnyMessagesForMoo :: "u8 list list" where
  "funnyMessagesForMoo =
     [bytes_of ''Oh, it'' @ apostrophe @ bytes_of ''s you. It'' @ apostrophe @ bytes_of ''s been a long time.'' @ 10 # bytes_of ''How have you been?'',
      bytes_of ''Sorry, I accidentally let the magic smoke out.'',
      bytes_of ''Not sure how we got here, but here we are.'',
      bytes_of ''Whatever you just did, don'' @ 39 # bytes_of ''t do it again.'',
      bytes_of ''Something udderly terrible happened!'',
      bytes_of ''Still more stable than DOS!'',
      bytes_of ''Yeah, that'' @ 39 # bytes_of ''s about right.'',
      bytes_of ''I'' @ 39 # bytes_of ''m Moo, the Xryis cow!'',
      bytes_of ''Guru meditation time!'',
      bytes_of ''Yahaha, you found me!'',
      bytes_of ''Minecraft crashed!'',
      bytes_of ''Get Dunked On!'']"

definition cow_tail :: "u8 list" where
  "cow_tail = [10, 10] @ bytes_of ''        '' @ 92 # bytes_of ''   ^__^'' @ 10 #
     bytes_of ''         '' @ 92 # bytes_of ''  (OO)'' @ 92 # bytes_of ''_______'' @ 10 #
     bytes_of ''            (__)'' @ 92 # bytes_of ''       )'' @ [92, 47, 92, 10] @
     bytes_of ''             U  ||----w |'' @ 10 # bytes_of ''                ||     ||'' @ [10, 10]"

text \<open>\<open>printMoo\<close>: the cow with the message chosen by the time stamp counter, in its buffer.\<close>

definition printMoo :: "u64 \<Rightarrow> u8 list outcome" where
  "printMoo tsc =
     bindE (printf_helper (10 # bytes_of ''%s'' @ cow_tail)
              [Str (funnyMessagesForMoo ! unat (tsc mod of_nat (length funnyMessagesForMoo)))]
              (\<lambda>c out. out @ [ucast c]) []) (\<lambda>(_, out).
       if length out < PANIC_MOO_BUF_SZ then Inr out else Inl OutOfBounds)"

text \<open>\<open>panicInternal\<close>: everything it prints before the machine is halted, with the return addresses of the
  stack trace at the end.\<close>

definition panicInternal ::
    "u64 \<Rightarrow> u32 \<Rightarrow> (u32 \<Rightarrow> stackframe) \<Rightarrow> u32 \<Rightarrow> u8 list option \<Rightarrow> registers option \<Rightarrow> (log_lines \<times> u32 list) outcome" where
  "panicInternal tsc cr2 frames ebp msg regs =
     bindE (printMoo tsc) (\<lambda>cow.
     bindE (case regs of
              None \<Rightarrow> Inr []
            | Some r \<Rightarrow> bindE (registersPrintInformation cr2 r) (\<lambda>info.
                bindE (registersToString r) (\<lambda>(_, out).
                if length out < PANIC_REG_BUG_SZ then Inr (info @ [(''%s'', [Str out])]) else Inl OutOfBounds)))
       (\<lambda>reg_lines.
     Inr ([(''%s'', [Str cow])]
            @ (case msg of None \<Rightarrow> [] | Some m \<Rightarrow> [(''%s'' @ [CHR 0x0A, CHR 0x0A], [Str m])]) @ reg_lines,
          printTrace frames PANIC_MAX_TRACE ebp)))"

text \<open>\<open>panicf\<close> formats into its buffer without a bound.\<close>

definition panicf_message :: "u8 list \<Rightarrow> va list \<Rightarrow> u8 list outcome" where
  "panicf_message fmt args =
     bindE (printf_helper fmt args (\<lambda>c out. out @ [ucast c]) []) (\<lambda>(_, out).
       if length out < PANIC_MSG_BUF_SZ then Inr out else Inl OutOfBounds)"

section \<open>Hexadecimal fields\<close>

abbreviation hex_flags :: u32 where
  "hex_flags \<equiv> PR_LZ OR PR_CA OR PR_32"

definition hex8 :: "u32 \<Rightarrow> u8 list" where
  "hex8 v = (let ds = digits hex_flags 16 (unat v) in replicate (8 - length ds) 48 @ ds)"

lemma hex_digits_length: "length (digits hex_flags 16 (unat (v :: u32))) \<le> 8"
  using digits_length [of 16 "unat v" 7 hex_flags] unat_lt_u32 [of v] by simp

lemma length_hex8 [simp]: "length (hex8 v) = 8"
  using hex_digits_length [of v] by (simp add: hex8_def Let_def)

lemma digit_char_nonzero: "n < 16 \<Longrightarrow> digit_char hex_flags (of_nat n) \<noteq> 0"
proof -
  assume "n < 16"
  then have "n \<in> {0, 1, 2, 3, 4, 5, 6, 7, 8, 9, 10, 11, 12, 13, 14, 15}"
    by (simp only: insert_iff empty_iff) presburger
  then show ?thesis by (elim insertE emptyE) (simp_all add: digit_char_def PR_defs)
qed

lemma hex_digits_nonzero: "0 \<notin> set (digits hex_flags 16 n)"
proof (induction n rule: less_induct)
  case (less n)
  have d: "digit_char hex_flags (of_nat (n mod 16)) \<noteq> 0" by (rule digit_char_nonzero) simp
  have ih: "0 \<notin> set (digits hex_flags 16 (n div 16))" if "\<not> n < 16" by (rule less) (use that in simp)
  show ?case
  proof (cases "n < 16")
    case True
    then show ?thesis using d by (subst digits.simps) simp
  next
    case False
    then have "digits hex_flags 16 n = digits hex_flags 16 (n div 16) @ [digit_char hex_flags (of_nat (n mod 16))]"
      by (subst digits.simps) simp
    then show ?thesis using d ih [OF False] by auto
  qed
qed

lemma conversion_hex:
  assumes "pr_flags st = PR_LZ" "pr_args st = Int32 v # as"
  shows "\<exists>fl. conversion fn 88 st = Inr ((emit_all fn (map ucast (hex8 v)) st)\<lparr>pr_flags := fl, pr_given_wd := 0, pr_args := as\<rparr>)"
proof -
  let ?ds = "digits hex_flags 16 (unat v)"
  let ?st = "st\<lparr>pr_flags := hex_flags, pr_given_wd := 8, pr_args := as\<rparr>"
  have fl: "hex_flags AND PR_LJ = 0" "hex_flags AND PR_WS = 0" "hex_flags AND PR_LZ \<noteq> 0" "hex_flags AND PR_SG = 0"
      "hex_flags AND PR_64 = 0" "hex_flags AND (PR_WS OR PR_LZ) \<noteq> (PR_WS OR PR_LZ)" "hex_flags AND (PR_WS OR PR_LZ) \<noteq> PR_WS"
      "PR_LZ OR PR_CA OR PR_LZ OR PR_32 = hex_flags"
    by (simp_all add: PR_defs)
  have w: "unat (of_nat (length ?ds) :: u32) = length ?ds" using hex_digits_length [of v] by (intro unat_of_nat_u32) simp
  have "EMIT fn ?ds ?st = EMIT2 fn ?ds (of_nat (length ?ds)) ?st"
    using fl by (simp add: EMIT_def Let_def takeWhile_no_zero [OF hex_digits_nonzero])
  also have "\<dots> = (emit_all fn (map ucast (hex8 v)) ?st)\<lparr>pr_given_wd := 0\<rparr>"
    using EMIT2_right_justified [of ?st ?ds "[]" fn "of_nat (length ?ds)"] fl hex_digits_nonzero w
    by (simp add: hex8_def Let_def)
  finally have e: "EMIT fn ?ds ?st = (emit_all fn (map ucast (hex8 v)) ?st)\<lparr>pr_given_wd := 0\<rparr>" .
  have "conversion fn 88 st = DO_NUM fn 16 (st\<lparr>pr_flags := hex_flags, pr_given_wd := 8\<rparr>)"
    using assms(1) fl(8) by (cases st) (simp add: conversion_def Let_def or.assoc)
  also have "\<dots> = Inr (EMIT fn ?ds ?st)"
    using assms(2) fl digit_loop_digits [of 16 hex_flags v "[]"]
    by (simp add: DO_NUM_def load_num_def take_sign_def)
  finally show ?thesis by (intro exI [of _ hex_flags]) (simp add: e)
qed

lemma printf_hex8:
  assumes "pr_state st = 0" "pr_flags st = 0" "pr_given_wd st = 0" "pr_args st = Int32 v # as"
  shows "printf_loop fn (37 # 48 # 56 # 88 # f) st = printf_loop fn f ((emit_all fn (map ucast (hex8 v)) st)\<lparr>pr_args := as\<rparr>)"
proof -
  let ?st = "st\<lparr>pr_state := Suc (Suc 0), pr_flags := PR_LZ, pr_given_wd := 8\<rparr>"
  have "printf_loop fn (37 # 48 # 56 # 88 # f) st = printf_loop fn (88 # f) ?st"
    using assms by (cases st, subst printf_loop.simps(2))
      (simp add: printf_step_def state0_def state1_def state2_def del: printf_loop.simps(2))
  also obtain fl where "conversion fn 88 (?st\<lparr>pr_state := Suc (Suc (Suc (Suc 0)))\<rparr>) =
      Inr ((emit_all fn (map ucast (hex8 v)) (?st\<lparr>pr_state := Suc (Suc (Suc (Suc 0)))\<rparr>))\<lparr>pr_flags := fl, pr_given_wd := 0, pr_args := as\<rparr>)"
    using conversion_hex [of "?st\<lparr>pr_state := Suc (Suc (Suc (Suc 0)))\<rparr>" v as fn] assms(4) by auto
  then have "printf_loop fn (88 # f) ?st = printf_loop fn f ((emit_all fn (map ucast (hex8 v)) st)\<lparr>pr_args := as\<rparr>)"
    using assms by (cases st, subst printf_loop.simps(2))
      (simp add: printf_step_def state2_def state3_def state4_def reset_spec_def del: printf_loop.simps(2))
  finally show ?thesis .
qed

section \<open>Buffers of the panic report\<close>

abbreviation to_list :: "u32 \<Rightarrow> u8 list \<Rightarrow> u8 list" where
  "to_list c out \<equiv> out @ [ucast c]"

abbreviation fresh :: "va list \<Rightarrow> u32 \<Rightarrow> u8 list \<Rightarrow> u8 list printer" where
  "fresh args n out \<equiv> \<lparr>pr_state = 0, pr_flags = 0, pr_count = n, pr_given_wd = 0, pr_args = args, pr_ptr = out\<rparr>"

lemma ucast_back: "ucast (ucast c :: u32) = c" "ucast (scast c :: u32) = c" for c :: u8
  by (rule bit_word_eqI; auto simp: bit_simps)+

lemma to_list_plain:
  "37 \<notin> set a \<Longrightarrow> printf_loop to_list (a @ f) (fresh args n out) =
     printf_loop to_list f (fresh args (n + of_nat (length a)) (out @ a))"
  using printf_echo [of a "fresh args n out" to_list f] by (simp add: fold_append_map ucast_back comp_def)

lemma to_list_string:
  "0 \<notin> set s \<Longrightarrow> length s < 2 ^ 32 \<Longrightarrow> printf_loop to_list (37 # 115 # f) (fresh (Str s # args) n out) =
     printf_loop to_list f (fresh args (n + of_nat (length s)) (out @ s))"
  using printf_string [of "fresh (Str s # args) n out" s args to_list f]
  by (simp add: fold_append_map ucast_back comp_def del: printf_loop.simps)

lemma to_list_hex8:
  "printf_loop to_list (37 # 48 # 56 # 88 # f) (fresh (Int32 v # args) n out) =
     printf_loop to_list f (fresh args (n + 8) (out @ hex8 v))"
  using printf_hex8 [of "fresh (Int32 v # args) n out" v args to_list f]
  by (simp add: fold_append_map ucast_back comp_def del: printf_loop.simps)

lemma hex_format: "bytes_of ''%08X'' = [37, 48, 56, 88]"
  by (simp add: bytes_of_def of_char_def)

lemma to_list_registers:
  assumes "length ts = length vs" "\<forall>t \<in> set ts. 37 \<notin> set t"
  shows "\<exists>n'. printf_loop to_list (concat (map (\<lambda>t. t @ bytes_of ''%08X'') ts) @ f) (fresh (map Int32 vs) n out) =
    printf_loop to_list f (fresh [] n' (out @ concat (map (\<lambda>(t, v). t @ hex8 v) (zip ts vs))))"
  using assms
proof (induction ts vs arbitrary: n out rule: list_induct2)
  case (Cons t ts v vs)
  then have "37 \<notin> set t" by simp
  then show ?case
    using Cons.IH [of "n + of_nat (length t) + 8" "out @ t @ hex8 v"] Cons.prems
      to_list_plain [of t "37 # 48 # 56 # 88 # concat (map (\<lambda>t. t @ bytes_of ''%08X'') ts) @ f" n "Int32 v # map Int32 vs" out]
      to_list_hex8 [of "concat (map (\<lambda>t. t @ bytes_of ''%08X'') ts) @ f" "n + of_nat (length t)" v "map Int32 vs" "out @ t"]
    by (simp add: hex_format del: printf_loop.simps)
qed auto

lemma register_pieces_plain: "\<forall>t \<in> set register_pieces. 37 \<notin> set t"
  by (simp add: register_pieces_def red_def bytes_of_def of_char_def)

definition register_dump :: "registers \<Rightarrow> u8 list" where
  "register_dump r = concat (map (\<lambda>(t, v). t @ hex8 v) (zip register_pieces (register_values r))) @ [10, 10]"

lemma registersToString_eq: "\<exists>n. registersToString r = Inr (n, register_dump r)"
proof -
  have "length register_pieces = length (register_values r)" by (simp add: register_pieces_def register_values_def)
  from to_list_registers [OF this register_pieces_plain, of "[10, 10]" 0 "[]"]
  show ?thesis using to_list_plain [of "[10, 10]" "[]"]
    by (auto simp: registersToString_def printf_helper_def register_format_def register_dump_def simp del: printf_loop.simps(2))
qed

lemma register_dump_length: "length (register_dump r) = 351"
  by (simp add: register_dump_def register_pieces_def register_values_def red_def bytes_of_def)

lemma messages_plain: "\<forall>m \<in> set funnyMessagesForMoo. 0 \<notin> set m \<and> length m \<le> 70"
  by (simp add: funnyMessagesForMoo_def bytes_of_def of_char_def apostrophe_def)

lemma cow_tail_plain: "37 \<notin> set cow_tail" "length cow_tail = 126"
  by (simp_all add: cow_tail_def bytes_of_def of_char_def)

definition moo_message :: "u64 \<Rightarrow> u8 list" where
  "moo_message tsc = funnyMessagesForMoo ! unat (tsc mod of_nat (length funnyMessagesForMoo))"

lemma printMoo_message: "moo_message tsc \<in> set funnyMessagesForMoo" "printMoo tsc = Inr (10 # moo_message tsc @ cow_tail)"
proof -
  let ?i = "unat (tsc mod of_nat (length funnyMessagesForMoo))" and ?m = "funnyMessagesForMoo ! unat (tsc mod of_nat (length funnyMessagesForMoo))"
  have "?i < 12" by (simp add: funnyMessagesForMoo_def unat_mod)
  moreover have "length funnyMessagesForMoo = 12" by (simp add: funnyMessagesForMoo_def)
  ultimately have m: "?m \<in> set funnyMessagesForMoo" by (intro nth_mem) simp
  then have p: "0 \<notin> set ?m" "length ?m \<le> 70" using messages_plain by blast+
  have "bytes_of ''%s'' = [37, 115]" by (simp add: bytes_of_def of_char_def)
  then have "printMoo tsc = Inr (10 # ?m @ cow_tail)"
    using to_list_plain [of "[10]" "37 # 115 # cow_tail" 0 "[Str ?m]" "[]"] p cow_tail_plain
      to_list_string [OF p(1), of cow_tail 1 "[]" "[10]"] to_list_plain [OF cow_tail_plain(1), of "[]"]
    by (simp add: printMoo_def printf_helper_def PANIC_MOO_BUF_SZ_def del: printf_loop.simps(2))
  with m show "moo_message tsc \<in> set funnyMessagesForMoo" "printMoo tsc = Inr (10 # moo_message tsc @ cow_tail)"
    by (simp_all add: moo_message_def)
qed

lemma printMoo_eq: "\<exists>m \<in> set funnyMessagesForMoo. printMoo tsc = Inr (10 # m @ cow_tail)"
  using printMoo_message by blast

lemma printTrace_bound: "length (printTrace frames n ebp) \<le> n"
  by (induction n arbitrary: ebp) simp_all

text \<open>The trace lists the return addresses of the chain of frames, from the innermost on.\<close>

fun frame_chain :: "(u32 \<Rightarrow> stackframe) \<Rightarrow> u32 \<Rightarrow> u32 list \<Rightarrow> bool" where
  "frame_chain frames a [] \<longleftrightarrow> a = 0"
| "frame_chain frames a (e # es) \<longleftrightarrow> a \<noteq> 0 \<and> sf_eip (frames a) = e \<and> frame_chain frames (sf_ebp (frames a)) es"

lemma printTrace_chain: "frame_chain frames a es \<Longrightarrow> printTrace frames n a = take n es"
proof (induction n arbitrary: a es)
  case (Suc n)
  show ?case
  proof (cases es)
    case (Cons e es')
    then show ?thesis using Suc by (cases es') auto
  qed (use Suc.prems in simp)
qed simp


definition demo_registers :: registers where
  "demo_registers = \<lparr>r_ds = 16, r_edi = 0, r_esi = 0, r_ebp = 0, r_ignored = 0, r_ebx = 0, r_edx = 0, r_ecx = 0,
     r_eax = 0xDEADBEEF, r_int_num = 14, r_err_code = 2, r_eip = 0xC0100000, r_cs = 8, r_eflags = 2, r_esp = 0, r_ss = 16\<rparr>"


text \<open>The description of a page fault has the first two bits the wrong way round: bit 0 is set when the page was
  present and bit 1 when the access was a write.\<close>

lemma write_to_present_page_described_wrongly:
  "page_fault_words 3 = [''missing'', ''reading'', ''kernel'', ''available'']"
  by (simp add: page_fault_words_def)

text \<open>The security exception has vector 30, its name entry 29.\<close>

lemma security_exception_name: "exceptionStrings ! 30 = ''RESERVED''" "exceptionStrings ! 29 = ''Security Exception''"
  by (simp_all add: exceptionStrings_def)

text \<open>\<open>vendor\<close> starts with the largest leaf and has the last two words exchanged: the words that spell
  \<open>GenuineIntel\<close> in \<open>ebx\<close>, \<open>edx\<close>, \<open>ecx\<close> come out as below.\<close>

lemma vendor_scrambled:
  "vendor (\<lambda>_. [0x0000000D, 0x756E6547, 0x6C65746E, 0x49656E69]) = [13, 0, 0, 0] @ bytes_of ''GenuntelineI''"
  by (simp add: vendor_def le_bytes_def bytes_of_def of_char_def)

lemma timer_init_1000:
  "timer_init 1000 cb hs l = Inr (hs(0x20 := Some cb), l @ [(0x43, 0x36), (0x40, 0xA9), (0x40, 0x04)])"
  by (simp add: timer_init_def registerHandler_def writeBytes_append)

text \<open>A critical region leaves interrupts enabled even when they were disabled before it.\<close>

lemma criticalRegion_enables: "work s = Inr s1 \<Longrightarrow> criticalRegion work (False, s) = Inr (True, s1)"
  by (simp add: criticalRegion_def)

text \<open>An early message is written cell by cell from the corner; more than one screen overruns it.\<close>

lemma length_clear_vga [simp]: "length (clear_vga buf) = length buf"
proof -
  have inner: "length (fold (\<lambda>j b. b[g j := v]) js b) = length b" for g :: "nat \<Rightarrow> nat" and v :: u16 and js b
    by (induction js arbitrary: b) simp_all
  have "length (fold (\<lambda>i. fold (\<lambda>j b. b[j * TTY_WIDTH + i := v]) js) is b) = length b" for v :: u16 and js "is" b
    by (induction "is" arbitrary: b) (simp_all add: inner)
  then show ?thesis by (simp add: clear_vga_def)
qed

lemma early_chars:
  assumes "10 \<notin> set str" "x + length str \<le> length buf"
  shows "\<exists>b. foldE early_char str (x, 0, buf) = Inr (x + length str, 0, b) \<and> length b = length buf
    \<and> (\<forall>i. b ! i = (if x \<le> i \<and> i < x + length str then VGA_CHAR (str ! (i - x)) (VGA_COLOR 4 15) else buf ! i))"
  using assms
proof (induction str arbitrary: x buf)
  case (Cons c str)
  from Cons.IH [of "x + 1" "buf[x := VGA_CHAR c (VGA_COLOR 4 15)]"] Cons.prems
  obtain b where "foldE early_char str (x + 1, 0, buf[x := VGA_CHAR c (VGA_COLOR 4 15)]) = Inr (x + 1 + length str, 0, b)"
      "length b = length buf"
      "\<forall>i. b ! i = (if x + 1 \<le> i \<and> i < x + 1 + length str then VGA_CHAR (str ! (i - (x + 1))) (VGA_COLOR 4 15)
        else buf[x := VGA_CHAR c (VGA_COLOR 4 15)] ! i)" by auto
  moreover have "early_char c (x, 0, buf) = Inr (x + 1, 0, buf[x := VGA_CHAR c (VGA_COLOR 4 15)])"
    using Cons.prems by (simp add: early_char_def)
  ultimately show ?case using Cons.prems by (auto simp: nth_list_update nth_Cons' Suc_le_eq)
qed auto

lemma early_panic_shows_message:
  assumes "10 \<notin> set str" "length str \<le> TTY_WIDTH * TTY_HEIGHT" "length buf = TTY_WIDTH * TTY_HEIGHT"
  shows "\<exists>b. EarlyPanic str buf = Inr b \<and> (\<forall>i<length str. b ! i = VGA_CHAR (str ! i) (VGA_COLOR 4 15))"
  using early_chars [of str 0 "clear_vga buf"] assms by (auto simp: EarlyPanic_def)

end
