(* ===== verification/Registers.thy ===== *)
theory Registers
  imports Arch_Memory
begin

text \<open>
  The control registers: the bit fields of \<open>Kernel/Arch/i686/regs.hpp\<close>, the functions that read and write
  the registers there and in \<open>Kernel/Arch/i686/Memory/Functions.h\<close>, and \<open>pagingEnable\<close> and \<open>pagingDisable\<close>
  of \<open>Kernel/Arch/i686/Arch.cpp\<close>.  The register itself is the 32-bit value that the \<open>mov\<close> instruction moves;
  the structure is its view as fields, laid out from the least significant bit on.
\<close>

section \<open>Structures\<close>

record CR0 =
  c0_protectedMode :: bool
  c0_monitorCoProcessor :: bool
  c0_emulation :: bool
  c0_taskSwitched :: bool
  c0_extensionType :: bool
  c0_numericError :: bool
  c0_reservedA :: "10 word"
  c0_writeProtection :: bool
  c0_reservedB :: bool
  c0_alignmentMask :: bool
  c0_reservedC :: "10 word"
  c0_nonWriteThrough :: bool
  c0_cacheDisable :: bool
  c0_pagingEnable :: bool

record CR3 =
  c3_ignoredA :: "3 word"
  c3_writeThrough :: bool
  c3_cacheDisable :: bool
  c3_ignoredB :: "7 word"
  c3_pageDir :: "20 word"

record control =
  creg0 :: u32
  creg2 :: u32
  creg3 :: u32

definition field :: "nat \<Rightarrow> bool \<Rightarrow> u32" where
  "field n b = (if b then push_bit n 1 else 0)"

definition CR0_of_word :: "u32 \<Rightarrow> CR0" where
  "CR0_of_word w = \<lparr>c0_protectedMode = bit w 0, c0_monitorCoProcessor = bit w 1, c0_emulation = bit w 2,
     c0_taskSwitched = bit w 3, c0_extensionType = bit w 4, c0_numericError = bit w 5,
     c0_reservedA = ucast (drop_bit 6 w), c0_writeProtection = bit w 16, c0_reservedB = bit w 17,
     c0_alignmentMask = bit w 18, c0_reservedC = ucast (drop_bit 19 w), c0_nonWriteThrough = bit w 29,
     c0_cacheDisable = bit w 30, c0_pagingEnable = bit w 31\<rparr>"

definition word_of_CR0 :: "CR0 \<Rightarrow> u32" where
  "word_of_CR0 c =
     field 0 (c0_protectedMode c) OR field 1 (c0_monitorCoProcessor c) OR field 2 (c0_emulation c)
     OR field 3 (c0_taskSwitched c) OR field 4 (c0_extensionType c) OR field 5 (c0_numericError c)
     OR push_bit 6 (ucast (c0_reservedA c)) OR field 16 (c0_writeProtection c) OR field 17 (c0_reservedB c)
     OR field 18 (c0_alignmentMask c) OR push_bit 19 (ucast (c0_reservedC c)) OR field 29 (c0_nonWriteThrough c)
     OR field 30 (c0_cacheDisable c) OR field 31 (c0_pagingEnable c)"

definition CR3_of_word :: "u32 \<Rightarrow> CR3" where
  "CR3_of_word w = \<lparr>c3_ignoredA = ucast w, c3_writeThrough = bit w 3, c3_cacheDisable = bit w 4,
     c3_ignoredB = ucast (drop_bit 5 w), c3_pageDir = ucast (drop_bit 12 w)\<rparr>"

definition word_of_CR3 :: "CR3 \<Rightarrow> u32" where
  "word_of_CR3 c = ucast (c3_ignoredA c) OR field 3 (c3_writeThrough c) OR field 4 (c3_cacheDisable c)
     OR push_bit 5 (ucast (c3_ignoredB c)) OR push_bit 12 (ucast (c3_pageDir c))"

section \<open>Access\<close>

definition readCR0 :: "control \<Rightarrow> CR0" where
  "readCR0 s = CR0_of_word (creg0 s)"

definition writeCR0 :: "CR0 \<Rightarrow> control \<Rightarrow> control" where
  "writeCR0 x s = s\<lparr>creg0 := word_of_CR0 x\<rparr>"

definition readCR2 :: "control \<Rightarrow> u32" where
  "readCR2 s = creg2 s"

definition readCR3 :: "control \<Rightarrow> CR3" where
  "readCR3 s = CR3_of_word (creg3 s)"

definition writeCR3 :: "CR3 \<Rightarrow> control \<Rightarrow> control" where
  "writeCR3 x s = s\<lparr>creg3 := word_of_CR3 x\<rparr>"

definition setPageDirectory :: "u32 \<Rightarrow> control \<Rightarrow> control" where
  "setPageDirectory pageDirPhysAddr s = s\<lparr>creg3 := pageDirPhysAddr\<rparr>"

definition Memory_pagingEnable :: "control \<Rightarrow> control" where
  "Memory_pagingEnable s = (let cr0 = readCR0 s in writeCR0 (cr0\<lparr>c0_pagingEnable := True\<rparr>) s)"

definition Memory_pagingDisable :: "control \<Rightarrow> control" where
  "Memory_pagingDisable s = (let cr0 = readCR0 s in writeCR0 (cr0\<lparr>c0_pagingEnable := False\<rparr>) s)"

section \<open>Fields and registers\<close>

lemma bit_field: "n < 32 \<Longrightarrow> bit (field n b) m \<longleftrightarrow> b \<and> m = n"
  by (auto simp: field_def bit_simps)

lemma small_bit: "\<not> bit (x :: 10 word) n" if "10 \<le> n" for x n
  using that bit_imp_le_length [of x n] by auto

lemma word_of_CR0_of_word: "word_of_CR0 (CR0_of_word w) = w"
proof (rule bit_word_eqI)
  fix n assume n: "n < LENGTH(32)"
  consider "n < 6" | "6 \<le> n" "n < 16" | "16 \<le> n" "n < 19" | "19 \<le> n" "n < 29" | "29 \<le> n" by linarith
  then show "bit (word_of_CR0 (CR0_of_word w)) n = bit w n"
  proof cases
    case 1
    then have "n \<in> {0, 1, 2, 3, 4, 5}" by auto
    with n show ?thesis by (auto simp: word_of_CR0_def CR0_of_word_def bit_simps bit_field)
  next
    case 3
    then have "n \<in> {16, 17, 18}" by auto
    with n show ?thesis by (auto simp: word_of_CR0_def CR0_of_word_def bit_simps bit_field)
  next
    case 5
    with n have "n \<in> {29, 30, 31}" by auto
    with n show ?thesis by (auto simp: word_of_CR0_def CR0_of_word_def bit_simps bit_field)
  qed (use n in \<open>auto simp: word_of_CR0_def CR0_of_word_def bit_simps bit_field\<close>)
qed

lemma CR0_of_word_of_CR0: "CR0_of_word (word_of_CR0 c) = c"
proof -
  have "(ucast (drop_bit 6 (word_of_CR0 c)) :: 10 word) = c0_reservedA c"
    "(ucast (drop_bit 19 (word_of_CR0 c)) :: 10 word) = c0_reservedC c"
    by (rule bit_word_eqI, auto simp: word_of_CR0_def bit_simps bit_field small_bit)+
  then show ?thesis
    by (cases c) (simp add: CR0_of_word_def word_of_CR0_def bit_simps bit_field small_bit)
qed

lemma word_of_CR3_of_word: "word_of_CR3 (CR3_of_word w) = w"
proof (rule bit_word_eqI)
  fix n assume n: "n < LENGTH(32)"
  consider "n < 3" | "n = 3" | "n = 4" | "5 \<le> n" "n < 12" | "12 \<le> n" by linarith
  then show "bit (word_of_CR3 (CR3_of_word w)) n = bit w n"
    using n by cases (auto simp: word_of_CR3_def CR3_of_word_def bit_simps bit_field)
qed

text \<open>Switching paging on and off touches the top bit of the register and nothing else.\<close>

lemma word_of_CR0_paging: "word_of_CR0 (CR0_of_word w\<lparr>c0_pagingEnable := b\<rparr>) = (if b then set_bit 31 w else unset_bit 31 w)"
proof (rule bit_word_eqI)
  fix n assume n: "n < LENGTH(32)"
  have "bit (word_of_CR0 (CR0_of_word w\<lparr>c0_pagingEnable := b\<rparr>)) n \<longleftrightarrow> (if n = 31 then b else bit (word_of_CR0 (CR0_of_word w)) n)"
    using n by (auto simp: word_of_CR0_def bit_simps bit_field small_bit)
  then show "bit (word_of_CR0 (CR0_of_word w\<lparr>c0_pagingEnable := b\<rparr>)) n = bit (if b then set_bit 31 w else unset_bit 31 w) n"
    using n by (auto simp: word_of_CR0_of_word bit_simps)
qed

lemma Memory_pagingEnable_eq: "Memory_pagingEnable s = s\<lparr>creg0 := set_bit 31 (creg0 s)\<rparr>"
  by (simp add: Memory_pagingEnable_def readCR0_def writeCR0_def word_of_CR0_paging)

lemma Memory_pagingDisable_eq: "Memory_pagingDisable s = s\<lparr>creg0 := unset_bit 31 (creg0 s)\<rparr>"
  by (simp add: Memory_pagingDisable_def readCR0_def writeCR0_def word_of_CR0_paging)

lemma paging_on_off:
  "c0_pagingEnable (readCR0 (Memory_pagingEnable s))" "\<not> c0_pagingEnable (readCR0 (Memory_pagingDisable s))"
  "c3_pageDir (readCR3 (Memory_pagingEnable (setPageDirectory a s))) = ucast (drop_bit 12 a)"
  by (simp_all add: Memory_pagingEnable_def Memory_pagingDisable_def readCR0_def writeCR0_def CR0_of_word_of_CR0
      readCR3_def setPageDirectory_def CR3_of_word_def)

end
