(* ===== verification/Entry.thy ===== *)
theory Entry
  imports Boot_Memory Scheduler_Lifecycle Text_Output Diagnostics Clock Stage1 Registers
begin

text \<open>
  \<open>Kernel/Entry.cpp\<close>: the kernel's entry function, put together from the components.  The state \<open>kernel\<close> holds
  the static variables of every component; the record \<open>boot_params\<close> holds what the machine, the linker and the
  build contribute: addresses, the boot loader's tags, the values read from devices, and the text of the build.
  A function ends with a \<open>fault\<close> where the kernel would stop.
\<close>

section \<open>State\<close>

datatype irq_handler = Timer_Callback | Serial_Callback | Rtc_Callback | Page_Fault_Callback
datatype log_writer = Serial_Writer
datatype timer_func = On_Timer

record kernel =
  k_machine :: "irq_handler machine"
  k_cr0 :: u32
  k_cr2 :: u32
  k_serial :: serial
  k_logger :: "log_writer logger"
  k_env :: boot_env
  k_paging :: paging
  k_console :: console
  k_timer :: "timer_func timer"
  k_rtc :: rtc
  k_rtc_reads :: nat
  k_sched :: sched

record boot_params =
  bp_exceptionStub :: "nat \<Rightarrow> u32"
  bp_interruptStub :: "nat \<Rightarrow> u32"
  bp_gdt :: u32
  bp_idt :: u32
  bp_lsr :: line_status
  bp_cmos :: chip
  bp_tags :: tags
  bp_handle :: u32
  bp_info :: u64
  bp_magic :: u32
  bp_layout :: layout
  bp_malloc :: "u32 \<Rightarrow> u8 list option"
  bp_cpuid :: "u32 \<Rightarrow> u32 list"
  bp_behind :: "u8 list"
  bp_ticks :: "nat \<Rightarrow> nat \<Rightarrow> u32"
  bp_port61 :: "nat \<Rightarrow> u8"
  bp_strings :: "nat \<Rightarrow> u8 list"
  bp_year :: u32
  bp_starting :: u32
  bp_stopping :: u32
  bp_cleaner_impl :: u32
  bp_find_primes :: u32
  bp_show_primes :: u32
  bp_spinner :: u32
  bp_first_task :: addr
  bp_cleaner_task :: addr
  bp_compute :: addr
  bp_status :: addr
  bp_spinner_task :: addr

section \<open>Steps\<close>

definition start_CPU :: "boot_params \<Rightarrow> kernel \<Rightarrow> kernel outcome" where
  "start_CPU p k =
     bindE (CPU_init (bp_exceptionStub p) (bp_interruptStub p) (bp_gdt p) (bp_idt p) Timer_Callback (intr (k_sched k), k_machine k))
       (\<lambda>(i, m). Inr (k\<lparr>k_machine := m, k_sched := (k_sched k)\<lparr>intr := i\<rparr>\<rparr>))"

text \<open>The log goes to the serial port, whose writes are part of the machine's port log.\<close>

definition serial_call :: "line_status \<Rightarrow> (log_writer, serial) caller" where
  "serial_call lsr w fmt ap s = bindE (serial_vprintf lsr fmt ap s) (\<lambda>(_, s1). Inr s1)"

definition serial_banner :: "u8 list" where
  "serial_banner = 27 # bytes_of ''[93m'' @ [10] @
     bytes_of ''   _  __           _              _____'' @ [10] @
     bytes_of ''  | |/ /_  _______(_)____   _   _|__  /'' @ [10] @
     bytes_of ''  |   / / / / ___/ / ___/  | | / //_ <'' @ [10] @
     bytes_of '' /   / /_/ / /  / (__  )   | |/ /__/ /'' @ [10] @
     bytes_of ''/_/|_'' @ [92] @ bytes_of ''__, /_/  /_/____/    |___/____/'' @ [10] @
     bytes_of ''    /____/'' @ [10, 10, 27] @ bytes_of ''[0m'' @
     bytes_of ''Xyris Serial Output Debugger'' @ [10, 10]"

definition devInit :: "boot_params \<Rightarrow> kernel \<Rightarrow> kernel outcome" where
  "devInit p k =
     bindE (serial_init (serial_call (bp_lsr p)) Serial_Callback Serial_Writer serial_banner RS_232_COM1
              (mc_handlers (k_machine k)) (k_logger k) ((k_serial k)\<lparr>port_out := mc_ports (k_machine k)\<rparr>)) (\<lambda>(hs, lg, s).
       let (hs1, l) = rtc_init Rtc_Callback (bp_cmos p (k_rtc_reads k) 0x0B) hs (port_out s)
       in Inr (k\<lparr>k_machine := (k_machine k)\<lparr>mc_handlers := hs1, mc_ports := l\<rparr>, k_logger := lg,
                 k_serial := s, k_rtc_reads := k_rtc_reads k + 1\<rparr>))"

definition start_devices :: "boot_params \<Rightarrow> kernel \<Rightarrow> kernel outcome" where
  "start_devices p k =
     bindE (criticalRegion (devInit p) (intr (k_sched k), k)) (\<lambda>(i, k1).
       Inr (k1\<lparr>k_sched := (k_sched k1)\<lparr>intr := i\<rparr>\<rparr>))"

text \<open>The control registers; the scheduler keeps \<open>cr3\<close>, which a context switch loads.\<close>

definition on_control :: "(control \<Rightarrow> control) \<Rightarrow> kernel \<Rightarrow> kernel" where
  "on_control f k =
     (let c = f \<lparr>creg0 = k_cr0 k, creg2 = k_cr2 k, creg3 = cpu_cr3 (k_sched k)\<rparr>
      in k\<lparr>k_cr0 := creg0 c, k_cr2 := creg2 c, k_sched := (k_sched k)\<lparr>cpu_cr3 := creg3 c\<rparr>\<rparr>)"

text \<open>\<open>Memory::init\<close> with its handler and the registers.\<close>

definition Memory_init :: "boot_params \<Rightarrow> kernel \<Rightarrow> kernel outcome" where
  "Memory_init p k =
     (let k1 = k\<lparr>k_machine := (k_machine k)\<lparr>mc_handlers := registerHandler EXCEPTION_PAGE_FAULT Page_Fault_Callback (mc_handlers (k_machine k))\<rparr>\<rparr>
      in bindE (Paging_init (bp_layout p) (k_paging k1)) (\<lambda>(dir, pg).
           Inr (on_control Memory_pagingEnable (on_control (setPageDirectory dir) (k1\<lparr>k_paging := pg\<rparr>)))))"

definition start_memory :: "boot_params \<Rightarrow> kernel \<Rightarrow> kernel outcome" where
  "start_memory p k =
     bindE (Handoff (bp_tags p) (bp_handle p) (bp_info p) (bp_magic p) (k_env k)) (\<lambda>(handoff, env).
     bindE (Physical_initialize (m_memoryMap handoff) (phys (k_paging k))) (\<lambda>(_, _, b).
     bindE (Memory_init p (k\<lparr>k_env := env, k_paging := (k_paging k)\<lparr>phys := b\<rparr>\<rparr>)) (\<lambda>k1.
     bindE (Graphics_init (bp_malloc p) (Some (m_framebuffer handoff)) (k_paging k1) (con_gfx (k_console k1))) (\<lambda>(pg1, g).
       Inr (k1\<lparr>k_paging := pg1, k_console := (k_console k1)\<lparr>con_gfx := g\<rparr>\<rparr>)))))"

text \<open>\<open>tasks_init\<close> and \<open>tasks_new\<close> with the page that \<open>Memory::newPage\<close> gives them for the new stack.\<close>

definition start_tasks :: "boot_params \<Rightarrow> kernel \<Rightarrow> kernel outcome" where
  "start_tasks p k =
     bindE (newPage 1 (k_paging k)) (\<lambda>(stack, pg).
     bindE (tasks_init stack (getPageDirPhysAddr (bp_layout p)) (bp_starting p) (bp_stopping p) (bp_cleaner_impl p)
              (bp_first_task p) (bp_cleaner_task p) (k_sched k)) (\<lambda>s.
       Inr (k\<lparr>k_paging := pg, k_sched := s, k_timer := timer_register_callback On_Timer (k_timer k)\<rparr>)))"

definition new_task :: "boot_params \<Rightarrow> u32 \<Rightarrow> addr \<Rightarrow> string \<Rightarrow> kernel \<Rightarrow> kernel outcome" where
  "new_task p entry storage nm k =
     bindE (newPage 1 (k_paging k)) (\<lambda>(stack, pg).
     bindE (tasks_new None stack (getPageDirPhysAddr (bp_layout p)) (bp_starting p) (bp_stopping p) entry (Some storage)
              TASK_READY nm (k_sched k)) (\<lambda>(_, s).
       Inr (k\<lparr>k_paging := pg, k_sched := s\<rparr>)))"

definition print :: "u8 list \<Rightarrow> va list \<Rightarrow> kernel \<Rightarrow> kernel outcome" where
  "print fmt args k = bindE (Console_printf fmt args (k_console k)) (\<lambda>(_, c). Inr (k\<lparr>k_console := c\<rparr>))"

definition splash_format :: "u8 list" where
  "splash_format = 27 # bytes_of ''[93mXyris %s'' @ [10] @
     bytes_of ''Copyright the Xyris Contributors (c) %i. All rights reserved.'' @ [10] @
     bytes_of ''Kernel source available at %s.'' @ [10, 27] @ bytes_of ''[0m''"

definition commit_format :: "u8 list" where
  "commit_format = bytes_of ''Commit %s (v%s.%s.%s) built on %s at %s.'' @ [10, 10]"

definition printSplash :: "boot_params \<Rightarrow> kernel \<Rightarrow> kernel outcome" where
  "printSplash p k =
     bindE (print splash_format [Str (bp_strings p 0), Int32 (bp_year p), Str (bp_strings p 1)] k)
       (print commit_format (map (\<lambda>i. Str (bp_strings p i)) [2..<8]))"

definition print_time :: "boot_params \<Rightarrow> kernel \<Rightarrow> kernel outcome" where
  "print_time p k =
     (case toDate (bp_cmos p) (k_rtc_reads k) (k_rtc k) of
        None \<Rightarrow> Inl Hang
      | Some (t, r, n) \<Rightarrow>
          print (bytes_of ''UTC: %i/%i/%i %i:%i'' @ [10])
            [Int32 (of_int (td_month t)), Int32 (of_int (td_day t)), Int32 (of_int (td_year t)),
             Int32 (of_int (td_hour t)), Int32 (of_int (td_minutes t))] (k\<lparr>k_rtc := r, k_rtc_reads := n\<rparr>))"

text \<open>A string argument ends at the first zero; \<open>vendor\<close> has none of its own and is read on into what lies behind.\<close>

definition c_text :: "u8 list \<Rightarrow> u8 list" where
  "c_text = takeWhile (\<lambda>c. c \<noteq> 0)"

definition log_processor :: "boot_params \<Rightarrow> kernel \<Rightarrow> kernel outcome" where
  "log_processor p k =
     bindE (Info (serial_call (bp_lsr p)) (bytes_of ''kernelEntry'') (bytes_of ''%s'' @ [10] @ bytes_of ''%s'' @ [10])
              [Str (c_text (vendor (bp_cpuid p) @ bp_behind p)), Str (c_text (model (bp_cpuid p) @ bp_behind p))]
              (k_logger k) ((k_serial k)\<lparr>port_out := mc_ports (k_machine k)\<rparr>)) (\<lambda>s.
       Inr (k\<lparr>k_serial := s, k_machine := (k_machine k)\<lparr>mc_ports := port_out s\<rparr>\<rparr>))"

definition bootTone :: "boot_params \<Rightarrow> kernel \<Rightarrow> kernel outcome" where
  "bootTone p k =
     bindE (spkr_beep (bp_ticks p 0) 1000 50 (bp_port61 p 0) (bp_port61 p 1) (mc_ports (k_machine k))) (\<lambda>l1.
     bindE (spkr_beep (bp_ticks p 1) 1000 50 (bp_port61 p 2) (bp_port61 p 3) l1) (\<lambda>l2.
       Inr (k\<lparr>k_machine := (k_machine k)\<lparr>mc_ports := l2\<rparr>\<rparr>)))"

section \<open>The entry function\<close>

text \<open>\<open>n\<close> is the number of timer interrupts that can arrive while the processor idles.  The last statement runs only if
  the entry function gets the processor back.\<close>

definition kernelEntry :: "boot_params \<Rightarrow> nat \<Rightarrow> kernel \<Rightarrow> kernel outcome" where
  "kernelEntry p n k =
     bindE (start_CPU p k) (\<lambda>k.
     bindE (start_devices p k) (\<lambda>k.
     bindE (start_memory p k) (\<lambda>k.
     bindE (start_tasks p k) (\<lambda>k.
     bindE (printSplash p k) (\<lambda>k.
     bindE (print_time p k) (\<lambda>k.
     bindE (log_processor p k) (\<lambda>k.
     bindE (new_task p (bp_find_primes p) (bp_compute p) ''prime_compute'' k) (\<lambda>k.
     bindE (new_task p (bp_show_primes p) (bp_status p) ''prime_display'' k) (\<lambda>k.
     bindE (new_task p (bp_spinner p) (bp_spinner_task p) ''spinner'' k) (\<lambda>k.
     bindE (bootTone p k) (\<lambda>k.
     bindE (tasks_block_current n TASK_PAUSED (k_sched k)) (\<lambda>s.
       if current_task s = current_task (k_sched k) then Inl (Panic ''Kernel terminated unexpectedly!'')
       else Inr (k\<lparr>k_sched := s\<rparr>)))))))))))))"

section \<open>Processor and devices\<close>

lemma start_CPU_ok:
  assumes "length (mc_idt (k_machine k)) = 256"
  shows "\<exists>m. start_CPU p k = Inr (k\<lparr>k_machine := m, k_sched := (k_sched k)\<lparr>intr := True\<rparr>\<rparr>)
    \<and> mc_handlers m = (mc_handlers (k_machine k))(0x20 := Some Timer_Callback)
    \<and> (\<forall>n<32. gate_address (mc_idt m ! n) = bp_exceptionStub p n)
    \<and> (\<forall>n<16. gate_address (mc_idt m ! (32 + n)) = bp_interruptStub p n)"
proof -
  obtain idt where idt: "Interrupts_init (bp_exceptionStub p) (bp_interruptStub p) (bp_idt p) (mc_idt (k_machine k), mc_ports (k_machine k)) =
      Inr (idt, mc_ports (k_machine k) @ pic_remap, \<lparr>tr_size = 0x7FF, tr_base = bp_idt p\<rparr>)"
      "\<forall>n. idt ! n = (if n < 32 then kernel_gate (bp_exceptionStub p n)
              else if n < 48 then kernel_gate (bp_interruptStub p (n - 32)) else mc_idt (k_machine k) ! n)"
    using Interrupts_init_stubs [OF assms] by blast
  then show ?thesis
    by (simp add: start_CPU_def CPU_init_def criticalRegion_def timer_init_1000 Let_def split_beta)
      (rule exI, rule conjI, rule refl, simp)
qed

lemma serial_call_renders:
  assumes "always_ready lsr 0x20" "render fmt ap = Some out"
  shows "\<exists>j. serial_call lsr w fmt ap s =
    Inr (s\<lparr>polls := j, port_out := port_out s @ map (\<lambda>c. (rs_232_port_base s, c)) out\<rparr>)"
proof -
  have u: "ucast (ucast c :: u32) = c" for c :: u8 by (rule bit_word_eqI) (auto simp: bit_simps)
  obtain j where "fold (vprintf_helper lsr) (map ucast out) (Inr s) =
      Inr (s\<lparr>polls := j, port_out := port_out s @ map (\<lambda>c. (rs_232_port_base s, c)) out\<rparr>)"
    using print_chars [OF assms(1), of "map ucast out" s] by (auto simp: comp_def u)
  then show ?thesis
    using printf_renders [OF assms(2), of "vprintf_helper lsr" "Inr s"] by (auto simp: serial_call_def serial_vprintf_def)
qed

lemma banner_renders: "render serial_banner [] = Some serial_banner"
  by (rule render_plain) (simp add: serial_banner_def bytes_of_def of_char_def)

lemma one_writer: "active_writers (snd (addWriter w (Logger lvl))) = [w]" "wf_logger (snd (addWriter w (Logger lvl)))"
  "m_logLevel (snd (addWriter w (Logger lvl))) = lvl"
  by (simp_all add: active_writers_def addWriter_def Logger_def m_maxWriterCount_def wf_logger_def numeral_2_eq_2)

lemma start_devices_ok:
  assumes "always_ready (bp_lsr p) 0x20" "k_logger k = Logger lvl"
  shows "\<exists>j l. start_devices p k = Inr (k\<lparr>k_machine := (k_machine k)\<lparr>
      mc_handlers := (mc_handlers (k_machine k))(0x24 := Some Serial_Callback, 0x28 := Some Rtc_Callback), mc_ports := l\<rparr>,
    k_logger := snd (addWriter Serial_Writer (Logger lvl)),
    k_serial := (k_serial k)\<lparr>rs_232_port_base := RS_232_COM1, polls := j,
      port_out := mc_ports (k_machine k) @ setup_writes RS_232_COM1 @ map (\<lambda>c. (RS_232_COM1, c)) serial_banner\<rparr>,
    k_rtc_reads := k_rtc_reads k + 1, k_sched := (k_sched k)\<lparr>intr := True\<rparr>\<rparr>)"
proof -
  let ?s = "(k_serial k)\<lparr>rs_232_port_base := RS_232_COM1, port_out := mc_ports (k_machine k) @ setup_writes RS_232_COM1\<rparr>"
  let ?l = "mc_ports (k_machine k) @ setup_writes RS_232_COM1 @ map (\<lambda>c. (RS_232_COM1, c)) serial_banner @
      [(0x70, 0x8A), (0x71, 0x20), (0x70, 0x8B), (0x70, 0x8B), (0x71, bp_cmos p (k_rtc_reads k) 0x0B OR 0x40)]"
  let ?lg = "snd (addWriter Serial_Writer (Logger lvl))"
  obtain j where j: "serial_call (bp_lsr p) Serial_Writer serial_banner [] ?s =
      Inr (?s\<lparr>polls := j, port_out := port_out ?s @ map (\<lambda>c. (rs_232_port_base ?s, c)) serial_banner\<rparr>)"
    using serial_call_renders [OF assms(1) banner_renders] by blast
  have "Print (serial_call (bp_lsr p)) serial_banner [] ?lg ?s = serial_call (bp_lsr p) Serial_Writer serial_banner [] ?s"
    by (simp add: Print_def LogHelperPrint_active [OF one_writer(2)] one_writer(1) foldE_single del: foldE.simps(2))
  then show ?thesis
    using j assms(2)
    by (intro exI [of _ j] exI [of _ ?l])
      (simp add: start_devices_def criticalRegion_def devInit_def serial_init_def Let_def rtc_init_def registerHandler_def
        writeBytes_append split_beta)
qed

section \<open>Memory\<close>

text \<open>Room for another \<open>n\<close> stacks: page 0 is in use, so that no stack gets the null address, and there are enough
  virtual pages outside the last 32 and enough frames.\<close>

definition free_pages :: "paging \<Rightarrow> nat set" where
  "free_pages st = {v. v + 32 \<le> MEM_BITMAP_SIZE \<and> \<not> te_present (entry_at st v)}"

definition room :: "nat \<Rightarrow> paging \<Rightarrow> bool" where
  "room n st \<longleftrightarrow> paging_ok st \<and> te_present (entry_at st 0) \<and> n \<le> card (free_pages st) \<and> n \<le> card (free_frames (phys st))"

lemma finite_free_pages: "finite (free_pages st)"
  by (rule finite_subset [of _ "{..<MEM_BITMAP_SIZE}"]) (auto simp: free_pages_def)

lemma newPage_room:
  assumes "room (Suc n) st"
  shows "\<exists>a st'. newPage 1 st = Inr (a, st') \<and> a \<noteq> 0 \<and> room n st'"
proof -
  let ?P = "\<lambda>v. v \<in> free_pages st"
  have ok: "paging_ok st" and p0: "te_present (entry_at st 0)" using assms by (auto simp: room_def)
  have "free_pages st \<noteq> {}" using assms by (auto simp: room_def)
  then have "\<exists>v. ?P v" by blast
  define i where "i = (LEAST v. ?P v)"
  have i: "?P i" using \<open>\<exists>v. ?P v\<close> unfolding i_def by (rule LeastI_ex)
  then have im: "i + 32 \<le> MEM_BITMAP_SIZE" by (simp add: free_pages_def)
  have "i \<noteq> 0" using i p0 by (cases "i = 0") (simp_all add: free_pages_def)
  have bits: "bits (virtualMemoryBitset st) v \<longleftrightarrow> te_present (entry_at st v)" if "v < MEM_BITMAP_SIZE" for v
    using ok that by (simp add: paging_ok_def)
  have pc: "PAGE_COUNT 1 = 1" by (simp add: PAGE_COUNT_def ARCH_PAGE_SIZE_def)
  have fr: "free_range (virtualMemoryBitset st) (unat (1 :: u32)) i" using i im bits [of i] by (simp add: free_range_def free_pages_def)
  have nf: "\<forall>j<i. \<not> free_range (virtualMemoryBitset st) (unat (1 :: u32)) j"
  proof (intro allI impI)
    fix j assume j: "j < i"
    then have "\<not> ?P j" unfolding i_def by (rule not_less_Least)
    then show "\<not> free_range (virtualMemoryBitset st) (unat (1 :: u32)) j"
      using j im bits [of j] by (simp add: free_range_def free_pages_def)
  qed
  have ff: "findNextFreeVirtualAddress 1 st = Inr (of_nat i)"
    unfolding findNextFreeVirtualAddress_def
    by (rule FindFirstRange_hit) (use ok im fr nf in \<open>simp_all add: paging_ok_def\<close>)
  have u: "unat (of_nat i :: u32) = i" "unat (of_nat i + 1 :: u32) = i + 1"
    using im by (simp_all add: MEM_BITMAP_SIZE_def unat_of_nat_u32 unat_word_ariths)
  have ne: "(of_nat i :: u32) \<noteq> - 1" using im u(2) by (metis add.left_inverse add.commute unsigned_0 Zero_not_Suc Suc_eq_plus1)
  have im1: "i + 1 \<le> MEM_BITMAP_SIZE" and np: "\<forall>v. i \<le> v \<and> v < i + 1 \<longrightarrow> \<not> te_present (entry_at st v)"
      and c1: "1 \<le> card (free_frames (phys st))"
    using i im assms by (auto simp: free_pages_def room_def le_less_Suc_eq)
  obtain fs st' where r: "newPage_loop [i..<i + 1] st = Inr (True, st')" "paging_ok st'" "length fs = 1"
      "set fs \<subseteq> free_frames (phys st)" "\<forall>p. bits (phys st') p \<longleftrightarrow> bits (phys st) p \<or> p \<in> set fs"
      "\<forall>u. entry_at st' u = (if i \<le> u \<and> u < i + 1 then kernel_entry (fs ! (u - i)) else entry_at st u)"
    using newPage_loop_spec [OF ok im1 np c1] by blast
  obtain f where f: "fs = [f]" using r(3) by (auto simp: length_Suc_conv)
  have "free_pages st' = free_pages st - {i}" "free_frames (phys st') = free_frames (phys st) - {f}"
    using r(5,6) f by (auto simp: free_pages_def free_frames_def kernel_entry_def)
  then have "room n st'"
    using assms r(2,4,6) i f \<open>i \<noteq> 0\<close> p0 finite_free_pages [of st]
    by (auto simp: room_def kernel_entry_def card_Diff_singleton_if)
  moreover have "(of_nat i :: u32) * ARCH_PAGE_SIZE \<noteq> 0"
  proof -
    have "unat (page_addr i) = 4096 * i" using im by (intro unat_page_addr) simp
    then show ?thesis using \<open>i \<noteq> 0\<close> by (metis page_addr_def unsigned_0 mult_eq_0_iff zero_neq_numeral)
  qed
  ultimately show ?thesis using ff ne r(1) by (simp add: newPage_def Let_def pc u)
qed

text \<open>A frame buffer for the text console: it starts at a page boundary, its pages are not those of early memory or of
  the kernel, and it has room for 80 by 25 characters.\<close>

definition display_pages :: "framebuffer \<Rightarrow> nat set" where
  "display_pages f = (if fb_addr f = 0 then {}
     else {unat (fb_addr f) div 4096..<unat (fb_addr f) div 4096 + (unat (fb_bytes f) + 4095) div 4096})"

definition display_ok :: "boot_params \<Rightarrow> framebuffer \<Rightarrow> gfx \<Rightarrow> bool" where
  "display_ok p f g \<longleftrightarrow> \<not> gfx_initialized g \<and> (fb_addr f \<noteq> 0 \<longrightarrow>
     unat (fb_addr f) mod 4096 = 0 \<and> unat (fb_addr f) div 4096 + (unat (fb_bytes f) + 4095) div 4096 < MEM_BITMAP_SIZE
     \<and> display_pages f \<inter> (early_pages (bp_layout p) \<union> kernel_pages (bp_layout p)) = {}
     \<and> (\<exists>blk. bp_malloc p (fb_bytes f) = Some blk \<and> length blk = unat (fb_bytes f)) \<and> length (vram g) = unat (fb_bytes f)
     \<and> getPixelWidth f \<in> {3, 4} \<and> unat (fb_width f) * unat (getPixelWidth f) \<le> unat (fb_pitch f)
     \<and> unat (fb_pitch f) * unat (fb_height f) < 2 ^ 32 \<and> fb_redMaskShift f < 32 \<and> fb_greenMaskShift f < 32
     \<and> fb_blueMaskShift f < 32 \<and> 640 < unat (fb_width f) \<and> 200 < unat (fb_height f))"

lemma Graphics_init_ok:
  assumes pg: "paging_ok pg" "\<forall>v \<in> display_pages f. \<not> te_present (entry_at pg v)" and d: "display_ok p f g"
  shows "\<exists>pg' g'. Graphics_init (bp_malloc p) (Some f) pg g = Inr (pg', g') \<and> paging_ok pg' \<and> screen_ok g'
    \<and> (\<forall>u. te_present (entry_at pg' u) \<longleftrightarrow> u \<in> display_pages f \<or> te_present (entry_at pg u))
    \<and> (\<forall>q. bits (phys pg') q \<longleftrightarrow> bits (phys pg) q \<or> q \<in> display_pages f)"
proof (cases "fb_addr f = 0")
  case True
  then show ?thesis using pg d by (auto simp: Graphics_init_def display_ok_def screen_ok_def display_pages_def)
next
  case False
  let ?v = "unat (fb_addr f) div 4096" and ?n = "(unat (fb_bytes f) + 4095) div 4096" and ?e = "fb_addr f + fb_bytes f"
  have a: "fb_addr f = page_addr ?v" "?v + ?n < MEM_BITMAP_SIZE" and b: "unat (fb_addr f) = 4096 * ?v"
    using d False aligned_page_addr [of "fb_addr f"] by (auto simp: display_ok_def)
  have ue: "unat ?e = 4096 * ?v + unat (fb_bytes f)"
    using a(2) b by (simp add: unat_word_ariths MEM_BITMAP_SIZE_def)
  have rnd: "unat ?e \<le> 4096 * (?v + ?n)" "4096 * (?v + ?n) < unat ?e + 4096" using ue by simp_all
  have dp: "display_pages f = {?v..<?v + ?n}" using False by (simp add: display_pages_def)
  obtain pg' where m: "map_range (\<lambda>a. a) (page_addr ?v) (page_addr (?v + ?n)) pg = Some (Inr pg')" "paging_ok pg'"
      "\<forall>u. entry_at pg' u = (if ?v \<le> u \<and> u < ?v + ?n then kernel_entry u else entry_at pg u)"
      "\<forall>q. bits (phys pg') q \<longleftrightarrow> bits (phys pg) q \<or> q \<in> {?v..<?v + ?n}"
    using map_range_new [OF pg(1) a(2), of "\<lambda>a. a" id] pg(2) a(2) dp by auto
  obtain blk where blk: "bp_malloc p (fb_bytes f) = Some blk" "length blk = unat (fb_bytes f)" "length (vram g) = unat (fb_bytes f)"
    using d False by (auto simp: display_ok_def)
  let ?g = "g\<lparr>gfx_info := Some f, backbuffer := vram g, gfx_initialized := True\<rparr>"
  have "mapKernelRangeVirtual (Section (fb_addr f) (fb_bytes f)) pg = Inr pg'"
    using m(1) map_range_round [OF a(2) rnd, of "\<lambda>a. a" pg] a(1) by (simp add: mapKernelRangeVirtual_def Section_def section_end_def)
  then have "Graphics_init (bp_malloc p) (Some f) pg g = Inr (pg', ?g)"
    using False blk by (simp add: Graphics_init_def Let_def copy_block_def)
  moreover have "unat (fb_bytes f) = unat (fb_pitch f) * unat (fb_height f)"
    using d False unat_mult_lem [of "fb_pitch f" "fb_height f"] by (simp add: display_ok_def fb_bytes_def)
  then have "gfx_ok f ?g" using d False blk by (simp add: gfx_ok_def display_ok_def)
  then have "screen_ok ?g" using d False by (auto simp: screen_ok_def display_ok_def)
  ultimately show ?thesis using m(2-4) dp by (auto simp: kernel_entry_def)
qed

text \<open>What the boot loader leaves: a list of tags with one memory map, the magic number, and a machine whose tables are
  still those of the first stage.\<close>

definition boot_tags_ok :: "boot_params \<Rightarrow> tag_body list \<Rightarrow> mmap_entry list \<Rightarrow> tag_body list \<Rightarrow> boot_env \<Rightarrow> bool" where
  "boot_tags_ok p xs es ys env \<longleftrightarrow> tag_chain (bp_tags p) (ucast (bp_info p)) (xs @ TAG_MEMMAP es # ys)
     \<and> (\<forall>b \<in> set (xs @ ys). plain_tag env b) \<and> length es \<le> 32 \<and> (\<forall>e \<in> set es. fits e)
     \<and> bp_magic p = STIVALE2_MAGIC \<and> memory_layout_ok (bp_layout p)"

definition used_pages :: "boot_params \<Rightarrow> framebuffer \<Rightarrow> nat set" where
  "used_pages p f = early_pages (bp_layout p) \<union> kernel_pages (bp_layout p) \<union> display_pages f"

definition usable_frames :: "boot_params \<Rightarrow> framebuffer \<Rightarrow> mmap_entry list \<Rightarrow> nat set" where
  "usable_frames p f es = {q. q < MEM_BITMAP_SIZE \<and> (\<exists>e \<in> set es. e_type e = MMAP_USABLE \<and> e_base e \<noteq> 0 \<and> frame_in q e)
     \<and> q \<notin> early_pages (bp_layout p) \<and> q \<notin> (\<lambda>v. v - unat (lk_KERNEL_BASE (bp_layout p)) div 4096) ` kernel_pages (bp_layout p)
     \<and> q \<notin> display_pages f}"

lemma on_control_paging:
  "on_control (setPageDirectory d) k = k\<lparr>k_sched := (k_sched k)\<lparr>cpu_cr3 := d\<rparr>\<rparr>"
  "on_control Memory_pagingEnable k = k\<lparr>k_cr0 := set_bit 31 (k_cr0 k)\<rparr>"
  by (cases k; simp add: on_control_def setPageDirectory_def Memory_pagingEnable_eq)+

text \<open>The kernel after \<open>Memory::init\<close>, but for the page tables.\<close>

definition paged :: "boot_params \<Rightarrow> kernel \<Rightarrow> kernel" where
  "paged p k = k\<lparr>k_machine := (k_machine k)\<lparr>mc_handlers := (mc_handlers (k_machine k))(0x0E := Some Page_Fault_Callback)\<rparr>,
     k_cr0 := set_bit 31 (k_cr0 k),
     k_sched := (k_sched k)\<lparr>cpu_cr3 := pageAlign (KADDR_TO_PHYS (bp_layout p) (lk_pageDirectory (bp_layout p)))\<rparr>\<rparr>"

lemma paged_simps [simp]:
  "k_timer (paged p k) = k_timer k" "k_console (paged p k) = k_console k" "k_logger (paged p k) = k_logger k"
  "blank (k_sched (paged p k)) \<longleftrightarrow> blank (k_sched k)" "c0_pagingEnable (CR0_of_word (k_cr0 (paged p k)))"
  by (simp_all add: paged_def blank_def locks_def CR0_of_word_def bit_simps)

lemma Memory_init_eq:
  assumes "Paging_init (bp_layout p) (k_paging k) = Inr (pageAlign (KADDR_TO_PHYS (bp_layout p) (lk_pageDirectory (bp_layout p))), pg)"
  shows "Memory_init p k = Inr ((paged p k)\<lparr>k_paging := pg\<rparr>)"
  using assms by (simp add: Memory_init_def Let_def on_control_paging paged_def registerHandler_def EXCEPTION_PAGE_FAULT_def)

lemma start_memory_ok:
  assumes t: "boot_tags_ok p xs es ys (k_env k)" and k: "k_paging k = boot_paging dir Physical_Manager"
    and d: "display_ok p (last_framebuffer (xs @ ys) (fst (Framebuffer_empty None))) (con_gfx (k_console k))"
  defines "f \<equiv> last_framebuffer (xs @ ys) (fst (Framebuffer_empty None))"
  shows "\<exists>env pg g. start_memory p k = Inr ((paged p k)\<lparr>k_env := env, k_paging := pg, k_console := (k_console k)\<lparr>con_gfx := g\<rparr>\<rparr>)
    \<and> paging_ok pg \<and> screen_ok g \<and> (\<forall>v. te_present (entry_at pg v) \<longleftrightarrow> v \<in> used_pages p f)
    \<and> free_frames (phys pg) = usable_frames p f es"
proof -
  let ?k = "bp_layout p"
  have ok: "memory_layout_ok ?k" using t by (simp add: boot_tags_ok_def)
  obtain h env fr re b where h: "Handoff (bp_tags p) (bp_handle p) (bp_info p) (bp_magic p) (k_env k) = Inr (h, env)"
      "m_framebuffer h = f" "Physical_initialize (m_memoryMap h) Physical_Manager = Inr (fr, re, b)" "wf_phys b"
      "\<forall>q < MEM_BITMAP_SIZE. isFree (of_nat (4096 * q)) b =
          Inr (\<exists>e \<in> set es. e_type e = MMAP_USABLE \<and> e_base e \<noteq> 0 \<and> frame_in q e)"
    using boot_memory_map_frees_usable [of "bp_tags p" "bp_info p" xs es ys "k_env k" "bp_handle p"] t
    unfolding boot_tags_ok_def f_def by auto
  have fb: "\<not> bits b q \<longleftrightarrow> (\<exists>e \<in> set es. e_type e = MMAP_USABLE \<and> e_base e \<noteq> 0 \<and> frame_in q e)" if "q < MEM_BITMAP_SIZE" for q
    using isFree_page [OF h(4) that] h(5) that by auto
  obtain st where st: "Paging_init ?k (boot_paging dir b) = Inr (pageAlign (KADDR_TO_PHYS ?k (lk_pageDirectory ?k)), st)"
      "paging_ok st"
      "\<forall>u. entry_at st u = (if u \<in> kernel_pages ?k then kernel_entry (u - unat (lk_KERNEL_BASE ?k) div 4096)
                              else if u \<in> early_pages ?k then kernel_entry u else zero_entry)"
      "\<forall>q. bits (phys st) q \<longleftrightarrow> bits b q \<or> q \<in> early_pages ?k \<or> q \<in> (\<lambda>u. u - unat (lk_KERNEL_BASE ?k) div 4096) ` kernel_pages ?k"
    using Paging_init_boot [OF ok h(4)] by blast
  have pr: "te_present (entry_at st v) \<longleftrightarrow> v \<in> early_pages ?k \<union> kernel_pages ?k" for v using boot_translation(1) [OF ok st(3)] by blast
  have "display_pages f \<inter> (early_pages ?k \<union> kernel_pages ?k) = {}"
    using d by (cases "fb_addr f = 0") (simp_all add: display_ok_def f_def display_pages_def)
  then have "\<forall>v \<in> display_pages f. \<not> te_present (entry_at st v)" using pr by auto
  from Graphics_init_ok [OF st(2) this d [folded f_def]] obtain pg g where
    g: "Graphics_init (bp_malloc p) (Some f) st (con_gfx (k_console k)) = Inr (pg, g)" "paging_ok pg" "screen_ok g"
      "\<forall>u. te_present (entry_at pg u) \<longleftrightarrow> u \<in> display_pages f \<or> te_present (entry_at st u)"
      "\<forall>q. bits (phys pg) q \<longleftrightarrow> bits (phys st) q \<or> q \<in> display_pages f" by blast
  have "Memory_init p (k\<lparr>k_env := env, k_paging := boot_paging dir b\<rparr>) = Inr ((paged p k)\<lparr>k_env := env, k_paging := st\<rparr>)"
    using Memory_init_eq [of p "k\<lparr>k_env := env, k_paging := boot_paging dir b\<rparr>" st] st(1) by (simp add: paged_def)
  then have "start_memory p k = Inr ((paged p k)\<lparr>k_env := env, k_paging := pg, k_console := (k_console k)\<lparr>con_gfx := g\<rparr>\<rparr>)"
    using h(1-3) g(1) k by (simp add: start_memory_def boot_paging_def paged_def)
  moreover have "free_frames (phys pg) = usable_frames p f es"
    using g(5) st(4) fb by (auto simp: free_frames_def usable_frames_def)
  ultimately show ?thesis using g(2-4) pr
    by (intro exI [of _ env] exI [of _ pg] exI [of _ g]) (auto simp: used_pages_def)
qed

section \<open>Tasks\<close>

lemma new_task_ok:
  assumes r: "room (Suc n) (k_paging k)" and q: "quiet (k_sched k) c L" and t: "t \<notin> queued L" "t \<noteq> c"
  shows "\<exists>pg s. new_task p entry t nm k = Inr (k\<lparr>k_paging := pg, k_sched := s\<rparr>) \<and> room n pg
    \<and> quiet s c (L(QReady := L QReady @ [t]))
    \<and> (\<exists>stack. stack_top (tasks s t) = stack + 4064 \<and> stack_mem s (stack + 4080) = bp_starting p
         \<and> stack_mem s (stack + 4084) = entry \<and> stack_mem s (stack + 4088) = bp_stopping p)"
proof -
  obtain a pg where a: "newPage 1 (k_paging k) = Inr (a, pg)" "a \<noteq> 0" "room n pg" using newPage_room [OF r] by blast
  obtain s where s: "tasks_new None a (getPageDirPhysAddr (bp_layout p)) (bp_starting p) (bp_stopping p) entry (Some t) TASK_READY nm (k_sched k) = Inr (t, s)"
      "quiet s c (L(QReady := L QReady @ [t]))" "stack_top (tasks s t) = a + 4064"
      "stack_mem s = snd (fold stack_push_word [0, bp_stopping p, entry, bp_starting p, 0, 0, 0, 0] (a + 4096, stack_mem (k_sched k)))"
    using tasks_new_static_ready [OF q t a(2)] by blast
  have "stack_mem s (a + 4080) = bp_starting p" "stack_mem s (a + 4084) = entry" "stack_mem s (a + 4088) = bp_stopping p"
    using s(4) unfolding new_stack_words by (simp_all add: fun_upd_apply)
  with a s show ?thesis
    by (intro exI [of _ pg] exI [of _ s] conjI exI [of _ a]) (simp_all add: new_task_def)
qed

lemma start_tasks_ok:
  assumes r: "room (Suc n) (k_paging k)" and b: "blank (k_sched k)" and d: "bp_first_task p \<noteq> bp_cleaner_task p"
  shows "\<exists>pg s. start_tasks p k = Inr (k\<lparr>k_paging := pg, k_sched := s, k_timer := timer_register_callback On_Timer (k_timer k)\<rparr>)
    \<and> room n pg \<and> quiet s (bp_first_task p) (\<lambda>_. [])"
proof -
  obtain a pg where a: "newPage 1 (k_paging k) = Inr (a, pg)" "a \<noteq> 0" "room n pg" using newPage_room [OF r] by blast
  then obtain s where "tasks_init a (getPageDirPhysAddr (bp_layout p)) (bp_starting p) (bp_stopping p) (bp_cleaner_impl p)
      (bp_first_task p) (bp_cleaner_task p) (k_sched k) = Inr s" "quiet s (bp_first_task p) (\<lambda>_. [])"
    using tasks_init_quiet [OF b d, of a "getPageDirPhysAddr (bp_layout p)" "bp_starting p" "bp_stopping p" "bp_cleaner_impl p"]
    by auto
  then show ?thesis using a by (intro exI [of _ pg] exI [of _ s]) (simp add: start_tasks_def)
qed

section \<open>Output\<close>

definition boot_text_ok :: "boot_params \<Rightarrow> bool" where
  "boot_text_ok p \<longleftrightarrow> (\<forall>i<8. length (bp_strings p i) < 2 ^ 32 \<and> (\<forall>c \<in> set (bp_strings p i). c \<noteq> 0 \<and> c < 128 \<and> c \<noteq> 27))
     \<and> length (vendor (bp_cpuid p) @ bp_behind p) < 2 ^ 32 \<and> length (model (bp_cpuid p) @ bp_behind p) < 2 ^ 32"

lemma boot_string:
  assumes "boot_text_ok p" "i < 8"
  shows "plain_string (bp_strings p i)" "\<forall>c \<in> set (bp_strings p i). plain_char c"
  using assms by (auto simp: boot_text_ok_def plain_string_def plain_char_def)

lemma print_ok:
  assumes "ready_console (k_console k)" "render fmt args = Some out" "styled out"
  shows "\<exists>c. print fmt args k = Inr (k\<lparr>k_console := c\<rparr>) \<and> ready_console c"
  using Console_printf_styled [OF assms] by (auto simp: print_def)

lemma printSplash_ok:
  assumes c: "ready_console (k_console k)" and t: "boot_text_ok p"
  shows "\<exists>c. printSplash p k = Inr (k\<lparr>k_console := c\<rparr>) \<and> ready_console c"
proof -
  let ?s = "bp_strings p"
  let ?text = "bytes_of ''Xyris '' @ ?s 0 @ [10] @ bytes_of ''Copyright the Xyris Contributors (c) '' @ signed_dec (bp_year p) @
    bytes_of ''. All rights reserved.'' @ [10] @ bytes_of ''Kernel source available at '' @ ?s 1 @ [46, 10]"
  let ?commit = "bytes_of ''Commit '' @ ?s 2 @ bytes_of '' (v'' @ ?s 3 @ [46] @ ?s 4 @ [46] @ ?s 5 @ bytes_of '') built on '' @ ?s 6 @
    bytes_of '' at '' @ ?s 7 @ [46, 10, 10]"
  have p: "plain_string (?s i)" "\<forall>c \<in> set (?s i). plain_char c" if "i < 8" for i using boot_string [OF t that] by simp_all
  have "render splash_format [Str (?s 0), Int32 (bp_year p), Str (?s 1)] =
      Some (([27, 91] @ [57, 51] @ [109]) @ ?text @ ([27, 91] @ [48] @ [109]))"
    using p [of 0] p [of 1] by (simp add: splash_format_def bytes_of_def of_char_def)
  moreover have tx: "styled ?text"
    using p [of 0] p [of 1] signed_dec_plain [of "bp_year p"]
    by (intro styled_plain) (auto simp: bytes_of_def of_char_def plain_char_def)
  have "styled (([27, 91] @ [57, 51] @ [109]) @ ?text @ ([27, 91] @ [48] @ [109]))"
    by (rule styled_append [OF styled_colour styled_append [OF tx styled_colour]]) simp_all
  ultimately obtain c1 where c1: "print splash_format [Str (?s 0), Int32 (bp_year p), Str (?s 1)] k = Inr (k\<lparr>k_console := c1\<rparr>)" "ready_console c1"
    using print_ok [OF c] by blast
  have "[2..<8] = [2, 3, 4, 5, 6, 7 :: nat]" by (simp add: upt_rec)
  then have "render commit_format (map (\<lambda>i. Str (?s i)) [2..<8]) = Some ?commit"
    using p by (simp add: commit_format_def bytes_of_def of_char_def)
  moreover have "styled ?commit" using p(2) [of 2] p(2) [of 3] p(2) [of 4] p(2) [of 5] p(2) [of 6] p(2) [of 7] by (intro styled_plain) (auto simp: bytes_of_def of_char_def plain_char_def)
  ultimately show ?thesis
    using print_ok [of "k\<lparr>k_console := c1\<rparr>" commit_format "map (\<lambda>i. Str (?s i)) [2..<8]" ?commit] c1
    by (auto simp: printSplash_def)
qed

lemma print_time_ok:
  assumes c: "ready_console (k_console k)" and clk: "bp_cmos p = (\<lambda>_. regs)" "regs 0x0A AND 0x80 = 0" "regs 0x08 \<noteq> 0"
  shows "\<exists>c r n. print_time p k = Inr (k\<lparr>k_rtc := r, k_rtc_reads := n, k_console := c\<rparr>) \<and> ready_console c"
proof -
  obtain t r n where t: "toDate (bp_cmos p) (k_rtc_reads k) (k_rtc k) = Some (t, r, n)"
    using rtc_read_stable [OF clk(2,3), of "k_rtc_reads k" "k_rtc k"] by (auto simp: clk(1) toDate_def getEpoch_def)
  let ?i = "\<lambda>x. of_int x :: u32"
  let ?args = "[Int32 (?i (td_month t)), Int32 (?i (td_day t)), Int32 (?i (td_year t)), Int32 (?i (td_hour t)), Int32 (?i (td_minutes t))]"
  let ?out = "bytes_of ''UTC: '' @ signed_dec (?i (td_month t)) @ [47] @ signed_dec (?i (td_day t)) @ [47] @ signed_dec (?i (td_year t))
     @ [32] @ signed_dec (?i (td_hour t)) @ [58] @ signed_dec (?i (td_minutes t)) @ [10]"
  have "render (bytes_of ''UTC: %i/%i/%i %i:%i'' @ [10]) ?args = Some ?out" by (simp add: bytes_of_def of_char_def)
  moreover have "styled ?out" using signed_dec_plain by (intro styled_plain) (auto simp: bytes_of_def of_char_def plain_char_def)
  ultimately show ?thesis
    using print_ok [of "k\<lparr>k_rtc := r, k_rtc_reads := n\<rparr>" "bytes_of ''UTC: %i/%i/%i %i:%i'' @ [10]" ?args ?out] c t
    by (auto simp: print_time_def)
qed

lemma c_text_plain: "length xs < 2 ^ 32 \<Longrightarrow> plain_string (c_text xs)"
  using length_takeWhile_le [of "\<lambda>c. c \<noteq> 0" xs] by (auto simp: plain_string_def c_text_def dest: set_takeWhileD)

lemma log_processor_ok:
  assumes "always_ready (bp_lsr p) 0x20" "boot_text_ok p" "k_logger k = snd (addWriter Serial_Writer (Logger lvl))"
  shows "\<exists>s l. log_processor p k = Inr (k\<lparr>k_serial := s, k_machine := (k_machine k)\<lparr>mc_ports := l\<rparr>\<rparr>)"
proof -
  let ?tag = "bytes_of ''kernelEntry''" and ?fmt = "bytes_of ''%s'' @ [10] @ bytes_of ''%s'' @ [10]"
  let ?v = "c_text (vendor (bp_cpuid p) @ bp_behind p)" and ?m = "c_text (model (bp_cpuid p) @ bp_behind p)"
  let ?s = "(k_serial k)\<lparr>port_out := mc_ports (k_machine k)\<rparr>"
  have pl: "plain_string ?v" "plain_string ?m" using assms(2) by (auto simp: boot_text_ok_def intro!: c_text_plain)
  have len: "length (log_line lINFO ?tag ?fmt) < 1024" by (simp add: log_line_def pad_to_def bytes_of_def)
  have nz: "0 \<notin> set ?tag" "0 \<notin> set ?fmt" by (simp_all add: bytes_of_def of_char_def)
  let ?pre = "[91] @ pad_to 16 (levelToString lINFO) @ [93, 32] @ pad_to 22 ?tag @ [32]"
  have pre: "\<forall>c \<in> set ?pre. c \<noteq> 37 \<and> c < 128" by (simp add: pad_to_def bytes_of_def of_char_def)
  have "log_line lINFO ?tag ?fmt = ?pre @ [37, 115, 10, 37, 115, 10, 10]" by (simp add: log_line_def bytes_of_def of_char_def)
  then have "render (log_line lINFO ?tag ?fmt) [Str ?v, Str ?m] = Some (?pre @ ?v @ [10] @ ?m @ [10, 10])"
    using render_plain_append [OF pre, of "[37, 115, 10, 37, 115, 10, 10]" "[Str ?v, Str ?m]"] pl by simp
  from serial_call_renders [OF assms(1) this] obtain s where
    "serial_call (bp_lsr p) Serial_Writer (log_line lINFO ?tag ?fmt) [Str ?v, Str ?m] ?s = Inr s" by blast
  then have "LogHelper (serial_call (bp_lsr p)) ?tag lINFO ?fmt [Str ?v, Str ?m] (k_logger k) ?s = Inr s"
    unfolding LogHelper_def format_line_eq [OF nz len] assms(3) LogHelperPrint_active [OF one_writer(2)] one_writer(1) bindE_simps
    by (simp add: foldE_single del: foldE.simps(2))
  then have "Info (serial_call (bp_lsr p)) ?tag ?fmt [Str ?v, Str ?m] (k_logger k) ?s =
      Inr (if level_no (getLevel (k_logger k)) \<le> level_no lINFO then s else ?s)"
    by (simp add: Info_def Log_def)
  then obtain s' where "Info (serial_call (bp_lsr p)) ?tag ?fmt [Str ?v, Str ?m] (k_logger k) ?s = Inr s'" by blast
  then show ?thesis by (intro exI [of _ s'] exI [of _ "port_out s'"]) (simp add: log_processor_def)
qed

lemma bootTone_ok:
  assumes "\<forall>i<2. \<exists>j>0. \<not> bp_ticks p i j < bp_ticks p i 0 + 50"
  shows "\<exists>l. bootTone p k = Inr (k\<lparr>k_machine := (k_machine k)\<lparr>mc_ports := l\<rparr>\<rparr>)"
proof -
  have "\<exists>n. timer_sleep (bp_ticks p i) 50 = Some n" if "i < 2" for i
    using assms that timer_sleep_ends [of _ "bp_ticks p i" 50] by blast
  then have beep: "\<exists>l'. spkr_beep (bp_ticks p i) 1000 50 x y l = Inr l'" if "i < 2" for i x y l
    using that by (fastforce simp: spkr_beep_def spkr_tone_def Let_def)
  obtain l1 where "spkr_beep (bp_ticks p 0) 1000 50 (bp_port61 p 0) (bp_port61 p 1) (mc_ports (k_machine k)) = Inr l1"
    using beep [of 0 "bp_port61 p 0" "bp_port61 p 1" "mc_ports (k_machine k)"] by auto
  moreover obtain l2 where "spkr_beep (bp_ticks p 1) 1000 50 (bp_port61 p 2) (bp_port61 p 3) l1 = Inr l2"
    using beep [of 1 "bp_port61 p 2" "bp_port61 p 3" l1] by auto
  ultimately show ?thesis by (intro exI [of _ l2]) (simp add: bootTone_def)
qed

section \<open>The kernel comes up\<close>

text \<open>The static variables as the loader leaves them, and what the entry function needs of the machine: a serial port
  that becomes ready again and again, a clock chip that is not in the middle of an update, a timer that runs, and
  five different task structures.\<close>

definition static_state :: "kernel \<Rightarrow> bool" where
  "static_state k \<longleftrightarrow> length (mc_idt (k_machine k)) = 256 \<and> (\<exists>lvl. k_logger k = Logger lvl)
     \<and> (\<exists>dir. k_paging k = boot_paging dir Physical_Manager) \<and> (\<exists>g. k_console k = console_start g)
     \<and> blank ((k_sched k)\<lparr>intr := True\<rparr>) \<and> k_timer k = timer_start"

definition machine_runs :: "boot_params \<Rightarrow> bool" where
  "machine_runs p \<longleftrightarrow> always_ready (bp_lsr p) 0x20
     \<and> (\<exists>regs. bp_cmos p = (\<lambda>_. regs) \<and> regs 0x0A AND 0x80 = 0 \<and> regs 0x08 \<noteq> 0)
     \<and> (\<forall>i<2. \<exists>j>0. \<not> bp_ticks p i j < bp_ticks p i 0 + 50) \<and> boot_text_ok p
     \<and> distinct [bp_first_task p, bp_cleaner_task p, bp_compute p, bp_status p, bp_spinner_task p]"

definition memory_suffices :: "boot_params \<Rightarrow> framebuffer \<Rightarrow> mmap_entry list \<Rightarrow> bool" where
  "memory_suffices p f es \<longleftrightarrow> 0 \<in> used_pages p f \<and> 4 \<le> card {v. v + 32 \<le> MEM_BITMAP_SIZE \<and> v \<notin> used_pages p f}
     \<and> 4 \<le> card (usable_frames p f es)"

lemma boot_devices:
  assumes k: "static_state k" and m: "machine_runs p"
  shows "\<exists>k1 k2 lvl. start_CPU p k = Inr k1 \<and> start_devices p k1 = Inr k2
    \<and> k_logger k2 = snd (addWriter Serial_Writer (Logger lvl)) \<and> k_paging k2 = k_paging k \<and> k_console k2 = k_console k
    \<and> k_timer k2 = k_timer k \<and> k_env k2 = k_env k \<and> k_sched k2 = (k_sched k)\<lparr>intr := True\<rparr>
    \<and> mc_handlers (k_machine k2) = (mc_handlers (k_machine k))(0x20 := Some Timer_Callback, 0x24 := Some Serial_Callback, 0x28 := Some Rtc_Callback)
    \<and> (\<forall>n<32. gate_address (mc_idt (k_machine k2) ! n) = bp_exceptionStub p n)
    \<and> (\<forall>n<16. gate_address (mc_idt (k_machine k2) ! (32 + n)) = bp_interruptStub p n)"
proof -
  obtain lvl where lvl: "k_logger k = Logger lvl" using k by (auto simp: static_state_def)
  have idt: "length (mc_idt (k_machine k)) = 256" and rdy: "always_ready (bp_lsr p) 0x20"
    using k m by (simp_all add: static_state_def machine_runs_def)
  obtain mc where mc: "start_CPU p k = Inr (k\<lparr>k_machine := mc, k_sched := (k_sched k)\<lparr>intr := True\<rparr>\<rparr>)"
      "mc_handlers mc = (mc_handlers (k_machine k))(0x20 := Some Timer_Callback)"
      "\<forall>n<32. gate_address (mc_idt mc ! n) = bp_exceptionStub p n"
      "\<forall>n<16. gate_address (mc_idt mc ! (32 + n)) = bp_interruptStub p n"
    using start_CPU_ok [OF idt] by blast
  let ?k1 = "k\<lparr>k_machine := mc, k_sched := (k_sched k)\<lparr>intr := True\<rparr>\<rparr>"
  obtain j l where j: "start_devices p ?k1 = Inr (?k1\<lparr>k_machine := (k_machine ?k1)\<lparr>
      mc_handlers := (mc_handlers (k_machine ?k1))(0x24 := Some Serial_Callback, 0x28 := Some Rtc_Callback), mc_ports := l\<rparr>,
    k_logger := snd (addWriter Serial_Writer (Logger lvl)),
    k_serial := (k_serial ?k1)\<lparr>rs_232_port_base := RS_232_COM1, polls := j,
      port_out := mc_ports (k_machine ?k1) @ setup_writes RS_232_COM1 @ map (\<lambda>c. (RS_232_COM1, c)) serial_banner\<rparr>,
    k_rtc_reads := k_rtc_reads ?k1 + 1, k_sched := (k_sched ?k1)\<lparr>intr := True\<rparr>\<rparr>)" (is "_ = Inr ?k2")
    using start_devices_ok [OF rdy, of ?k1 lvl] lvl by auto
  show ?thesis by (intro exI [of _ ?k1] exI [of _ ?k2] exI [of _ lvl] conjI mc(1) j) (simp_all add: mc)
qed

lemma boot_output:
  assumes c: "ready_console (k_console k)" and m: "machine_runs p" and l: "k_logger k = snd (addWriter Serial_Writer (Logger lvl))"
  shows "\<exists>k1 k2 k3. printSplash p k = Inr k1 \<and> print_time p k1 = Inr k2 \<and> log_processor p k2 = Inr k3
    \<and> ready_console (k_console k3) \<and> k_paging k3 = k_paging k \<and> k_sched k3 = k_sched k \<and> k_timer k3 = k_timer k
    \<and> k_cr0 k3 = k_cr0 k \<and> mc_handlers (k_machine k3) = mc_handlers (k_machine k) \<and> mc_idt (k_machine k3) = mc_idt (k_machine k)"
proof -
  obtain regs where regs: "bp_cmos p = (\<lambda>_. regs)" "regs 0x0A AND 0x80 = 0" "regs 0x08 \<noteq> 0"
    and tx: "boot_text_ok p" and rdy: "always_ready (bp_lsr p) 0x20" using m by (auto simp: machine_runs_def)
  obtain c1 where c1: "printSplash p k = Inr (k\<lparr>k_console := c1\<rparr>)" "ready_console c1" using printSplash_ok [OF c tx] by blast
  let ?k1 = "k\<lparr>k_console := c1\<rparr>"
  obtain c2 r n where c2: "print_time p ?k1 = Inr (?k1\<lparr>k_rtc := r, k_rtc_reads := n, k_console := c2\<rparr>)" "ready_console c2"
    using print_time_ok [OF _ regs, of ?k1] c1(2) by auto
  let ?k2 = "?k1\<lparr>k_rtc := r, k_rtc_reads := n, k_console := c2\<rparr>"
  obtain s w where l: "log_processor p ?k2 = Inr (?k2\<lparr>k_serial := s, k_machine := (k_machine ?k2)\<lparr>mc_ports := w\<rparr>\<rparr>)" (is "_ = Inr ?k3")
    using log_processor_ok [OF rdy tx, of ?k2 lvl] l by auto
  show ?thesis by (intro exI [of _ ?k1] exI [of _ ?k2] exI [of _ ?k3] conjI c1(1) c2(1) l) (simp_all add: c2(2))
qed

lemma boot_new_tasks:
  assumes r: "room 3 (k_paging k)" and q: "quiet (k_sched k) c (\<lambda>_. [])" and d: "distinct [c, t1, t2, t3]"
  shows "\<exists>k1 k2 k3. new_task p e1 t1 n1 k = Inr k1 \<and> new_task p e2 t2 n2 k1 = Inr k2 \<and> new_task p e3 t3 n3 k2 = Inr k3
    \<and> room 0 (k_paging k3) \<and> quiet (k_sched k3) c ((\<lambda>_. [])(QReady := [t1, t2, t3]))
    \<and> k_console k3 = k_console k \<and> k_machine k3 = k_machine k \<and> k_timer k3 = k_timer k \<and> k_cr0 k3 = k_cr0 k"
proof -
  let ?L = "\<lambda>xs. (\<lambda>_. [])(QReady := xs)"
  have nq: "t \<notin> queued (?L xs)" if "t \<notin> set xs" for t xs using that by (simp add: notin_queued)
  have L0: "?L [] = (\<lambda>_. [])" by auto
  have ap: "(?L xs)(QReady := ?L xs QReady @ [t]) = ?L (xs @ [t])" for xs t by simp
  obtain k1 where k1: "new_task p e1 t1 n1 k = Inr k1" "room 2 (k_paging k1)" "quiet (k_sched k1) c (?L [t1])"
      "k_console k1 = k_console k" "k_machine k1 = k_machine k" "k_timer k1 = k_timer k" "k_cr0 k1 = k_cr0 k"
    using new_task_ok [of 2 k c "?L []" t1 p e1 n1] r q d nq [of t1 "[]"] unfolding ap L0 by (auto simp: numeral_3_eq_3 numeral_2_eq_2)
  obtain k2 where k2: "new_task p e2 t2 n2 k1 = Inr k2" "room 1 (k_paging k2)" "quiet (k_sched k2) c (?L [t1, t2])"
      "k_console k2 = k_console k" "k_machine k2 = k_machine k" "k_timer k2 = k_timer k" "k_cr0 k2 = k_cr0 k"
    using new_task_ok [of 1 k1 c "?L [t1]" t2 p e2 n2] k1 d nq [of t2 "[t1]"] unfolding ap by (auto simp: numeral_2_eq_2)
  obtain k3 where k3: "new_task p e3 t3 n3 k2 = Inr k3" "room 0 (k_paging k3)" "quiet (k_sched k3) c (?L [t1, t2, t3])"
      "k_console k3 = k_console k" "k_machine k3 = k_machine k" "k_timer k3 = k_timer k" "k_cr0 k3 = k_cr0 k"
    using new_task_ok [of 0 k2 c "?L [t1, t2]" t3 p e3 n3] k2 d nq [of t3 "[t1, t2]"] unfolding ap by auto
  from k1(1) k2(1) k3 show ?thesis by blast
qed

lemma boot_memory_tasks:
  assumes s: "blank (k_sched k)" and t: "boot_tags_ok p xs es ys (k_env k)" and k: "k_paging k = boot_paging dir Physical_Manager"
    and c: "k_console k = console_start g" and n: "k_timer k = timer_start" and m: "machine_runs p"
  defines "f \<equiv> last_framebuffer (xs @ ys) (fst (Framebuffer_empty None))"
  assumes d: "display_ok p f g" and r: "memory_suffices p f es"
  shows "\<exists>k1 k2. start_memory p k = Inr k1 \<and> start_tasks p k1 = Inr k2 \<and> room 3 (k_paging k2)
    \<and> quiet (k_sched k2) (bp_first_task p) (\<lambda>_. []) \<and> ready_console (k_console k2) \<and> k_logger k2 = k_logger k
    \<and> k_machine k2 = k_machine (paged p k) \<and> c0_pagingEnable (CR0_of_word (k_cr0 k2))
    \<and> k_timer k2 = timer_register_callback On_Timer timer_start"
proof -
  have d': "display_ok p f (con_gfx (k_console k))" using d c by (simp add: console_start_def)
  obtain env pg g1 where g1: "start_memory p k = Inr ((paged p k)\<lparr>k_env := env, k_paging := pg, k_console := (k_console k)\<lparr>con_gfx := g1\<rparr>\<rparr>)"
      (is "_ = Inr ?k1") "paging_ok pg" "screen_ok g1" "\<forall>v. te_present (entry_at pg v) \<longleftrightarrow> v \<in> used_pages p f"
      "free_frames (phys pg) = usable_frames p f es"
    using start_memory_ok [OF t k d' [unfolded f_def]] unfolding f_def by blast
  have "room 4 pg" using g1(2,4,5) r by (simp add: room_def memory_suffices_def free_pages_def)
  then have "room (Suc 3) (k_paging ?k1)" "blank (k_sched ?k1)" "bp_first_task p \<noteq> bp_cleaner_task p"
    using s m by (simp_all add: machine_runs_def)
  from start_tasks_ok [OF this] obtain pg2 s2 where
    s2: "start_tasks p ?k1 = Inr (?k1\<lparr>k_paging := pg2, k_sched := s2, k_timer := timer_register_callback On_Timer (k_timer ?k1)\<rparr>)"
      (is "_ = Inr ?k2") "room 3 pg2" "quiet s2 (bp_first_task p) (\<lambda>_. [])" by blast
  have "ready_console (k_console ?k2)" using g1(3) c by (simp add: ready_console_def console_start_def)
  then show ?thesis
    by (intro exI [of _ ?k1] exI [of _ ?k2] conjI g1(1) s2(1)) (use s2 n in simp_all)
qed

text \<open>the kernel comes up.  From the static variables as the loader leaves them, with a list of boot tags that ends
  and has one memory map, with or without a frame buffer for the text console, and with room for four stacks,
  \<open>kernelEntry\<close> runs through without a fault and hands the processor to the prime search: its task runs, the
  display of the search and the spinner are ready in this order and no other task is on any list; the memory manager
  is consistent, the console is ready for text, every vector leads to its stub, the four handlers are installed, paging is
  on and the scheduler is the timer's only callback.\<close>

theorem kernelEntry_starts_tasks:
  assumes "static_state k" "machine_runs p" "boot_tags_ok p xs es ys (k_env k)"
    and "display_ok p (last_framebuffer (xs @ ys) (fst (Framebuffer_empty None))) (con_gfx (k_console k))"
    and "memory_suffices p (last_framebuffer (xs @ ys) (fst (Framebuffer_empty None))) es"
  shows "\<exists>k'. kernelEntry p n k = Inr k'
    \<and> quiet (k_sched k') (bp_compute p) ((\<lambda>_. [])(QReady := [bp_status p, bp_spinner_task p]))
    \<and> paging_ok (k_paging k') \<and> ready_console (k_console k')
    \<and> (\<forall>v<32. gate_address (mc_idt (k_machine k') ! v) = bp_exceptionStub p v)
    \<and> (\<forall>v<16. gate_address (mc_idt (k_machine k') ! (32 + v)) = bp_interruptStub p v)
    \<and> mc_handlers (k_machine k') = (mc_handlers (k_machine k))(0x20 := Some Timer_Callback, 0x24 := Some Serial_Callback, 0x28 := Some Rtc_Callback, 0x0E := Some Page_Fault_Callback)
    \<and> c0_pagingEnable (CR0_of_word (k_cr0 k')) \<and> callback_count (k_timer k') = 1 \<and> length (callbacks (k_timer k')) = 8 \<and> callbacks (k_timer k') ! 0 = Some On_Timer"
proof -
  let ?f = "last_framebuffer (xs @ ys) (fst (Framebuffer_empty None))"
  obtain dir g where st: "k_paging k = boot_paging dir Physical_Manager" "k_console k = console_start g"
      "blank ((k_sched k)\<lparr>intr := True\<rparr>)" "k_timer k = timer_start"
    using assms(1) by (auto simp: static_state_def)
  obtain k1 k2 lvl where k2: "start_CPU p k = Inr k1" "start_devices p k1 = Inr k2" "k_logger k2 = snd (addWriter Serial_Writer (Logger lvl))"
      "k_paging k2 = k_paging k" "k_console k2 = k_console k" "k_timer k2 = k_timer k" "k_env k2 = k_env k" "k_sched k2 = (k_sched k)\<lparr>intr := True\<rparr>"
      "mc_handlers (k_machine k2) = (mc_handlers (k_machine k))(0x20 := Some Timer_Callback, 0x24 := Some Serial_Callback, 0x28 := Some Rtc_Callback)"
      "\<forall>v<32. gate_address (mc_idt (k_machine k2) ! v) = bp_exceptionStub p v"
      "\<forall>v<16. gate_address (mc_idt (k_machine k2) ! (32 + v)) = bp_interruptStub p v"
    using boot_devices [OF assms(1,2)] by blast
  have "display_ok p ?f g" using assms(4) st(2) by (simp add: console_start_def)
  then obtain k3 k4 where k4: "start_memory p k2 = Inr k3" "start_tasks p k3 = Inr k4" "room 3 (k_paging k4)"
      "quiet (k_sched k4) (bp_first_task p) (\<lambda>_. [])" "ready_console (k_console k4)" "k_logger k4 = k_logger k2"
      "k_machine k4 = k_machine (paged p k2)" "c0_pagingEnable (CR0_of_word (k_cr0 k4))" "k_timer k4 = timer_register_callback On_Timer timer_start"
    using boot_memory_tasks [of k2 p xs es ys dir g] assms(2,3,5) st k2(4-8) by auto
  obtain k5 k6 k7 where k7: "printSplash p k4 = Inr k5" "print_time p k5 = Inr k6" "log_processor p k6 = Inr k7"
      "ready_console (k_console k7)" "k_paging k7 = k_paging k4" "k_sched k7 = k_sched k4" "k_timer k7 = k_timer k4" "k_cr0 k7 = k_cr0 k4"
      "mc_handlers (k_machine k7) = mc_handlers (k_machine k4)" "mc_idt (k_machine k7) = mc_idt (k_machine k4)"
    using boot_output [OF k4(5) assms(2), of lvl] k4(6) k2(3) by auto
  have ds: "distinct [bp_first_task p, bp_compute p, bp_status p, bp_spinner_task p]"
    and tk: "\<forall>i<2. \<exists>j>0. \<not> bp_ticks p i j < bp_ticks p i 0 + 50"
    using assms(2) by (auto simp: machine_runs_def)
  obtain k8 k9 k10 where k10: "new_task p (bp_find_primes p) (bp_compute p) ''prime_compute'' k7 = Inr k8"
      "new_task p (bp_show_primes p) (bp_status p) ''prime_display'' k8 = Inr k9"
      "new_task p (bp_spinner p) (bp_spinner_task p) ''spinner'' k9 = Inr k10" "room 0 (k_paging k10)"
      "quiet (k_sched k10) (bp_first_task p) ((\<lambda>_. [])(QReady := [bp_compute p, bp_status p, bp_spinner_task p]))"
      "k_console k10 = k_console k7" "k_machine k10 = k_machine k7" "k_timer k10 = k_timer k7" "k_cr0 k10 = k_cr0 k7"
    using boot_new_tasks [of k7, OF _ _ ds] k7(5,6) k4(3,4) by metis
  obtain l where tone: "bootTone p k10 = Inr (k10\<lparr>k_machine := (k_machine k10)\<lparr>mc_ports := l\<rparr>\<rparr>)" using bootTone_ok [OF tk] by blast
  obtain s where s: "tasks_block_current n TASK_PAUSED (k_sched k10) = Inr s"
      "quiet s (bp_compute p) (((\<lambda>_. [])(QReady := [bp_compute p, bp_status p, bp_spinner_task p]))(QReady := [bp_status p, bp_spinner_task p]))"
    using tasks_block_current_runs_next [OF k10(5), of "bp_compute p" "[bp_status p, bp_spinner_task p]" TASK_PAUSED n] by auto
  have "current_task s \<noteq> current_task (k_sched k10)" using quietD(2) [OF s(2)] quietD(2) [OF k10(5)] ds by auto
  then have "kernelEntry p n k = Inr (k10\<lparr>k_machine := (k_machine k10)\<lparr>mc_ports := l\<rparr>, k_sched := s\<rparr>)" (is "_ = Inr ?k")
    using k2(1,2) k4(1,2) k7(1-3) k10(1-3) tone s(1) by (simp add: kernelEntry_def)
  moreover have "quiet (k_sched ?k) (bp_compute p) ((\<lambda>_. [])(QReady := [bp_status p, bp_spinner_task p]))"
    "paging_ok (k_paging ?k)" "ready_console (k_console ?k)" using s(2) k10(4,6) k7(4) by (simp_all add: room_def)
  moreover have "callback_count (k_timer ?k) = 1 \<and> length (callbacks (k_timer ?k)) = 8 \<and> callbacks (k_timer ?k) ! 0 = Some On_Timer"
    using k10(8) k7(7) k4(9) by (simp add: timer_register_callback_def timer_start_def MAX_CALLBACKS_def)
  ultimately show ?thesis using k2(9-11) k4(7,8) k7(8-10) k10(7,9) by (intro exI [of _ ?k] conjI) (simp_all add: paged_def)
qed

section \<open>An instance\<close>

definition demo_kernel :: layout where
  "demo_kernel = \<lparr>lk_EARLY_MEM_START = 0, lk_EARLY_KERNEL_START = 0x100000, lk_KERNEL_BASE = 0xC0000000,
     lk_KERNEL_START = 0xC0110000, lk_KERNEL_SIZE = 0x200000, lk_pageDirectory = 0xC0300000, lk_pageTables = (\<lambda>_. 0)\<rparr>"

definition demo_info :: tags where
  "demo_info = (\<lambda>_. \<lparr>t_body = TAG_OTHER, t_next = 0\<rparr>)(0x9000 :=
     \<lparr>t_body = TAG_MEMMAP [\<lparr>e_base = 0x100000, e_length = 0x7F00000, e_type = MMAP_USABLE\<rparr>], t_next = 0\<rparr>)"

definition demo_params :: boot_params where
  "demo_params = \<lparr>bp_exceptionStub = (\<lambda>n. 0xC0110000 + of_nat n), bp_interruptStub = (\<lambda>n. 0xC0120000 + of_nat n),
     bp_gdt = 0xC0130000, bp_idt = 0xC0140000, bp_lsr = (\<lambda>_. 0x20), bp_cmos = (\<lambda>_ r. if r = 8 then 7 else 0),
     bp_tags = demo_info, bp_handle = 0x8000, bp_info = 0x9000, bp_magic = STIVALE2_MAGIC, bp_layout = demo_kernel,
     bp_malloc = (\<lambda>_. None), bp_cpuid = (\<lambda>_. [0, 0, 0, 0]), bp_behind = [], bp_ticks = (\<lambda>_ j. if j = 0 then 0 else 50),
     bp_port61 = (\<lambda>_. 0), bp_strings = (\<lambda>_. [118, 51]), bp_year = 2022, bp_starting = 0xC0150000, bp_stopping = 0xC0150010,
     bp_cleaner_impl = 0xC0150020, bp_find_primes = 0xC0150030, bp_show_primes = 0xC0150040, bp_spinner = 0xC0150050,
     bp_first_task = 1, bp_cleaner_task = 2, bp_compute = 3, bp_status = 4, bp_spinner_task = 5\<rparr>"

definition demo_boot :: kernel where
  "demo_boot = \<lparr>k_machine = \<lparr>mc_gdt = [], mc_gdtr = \<lparr>tr_size = 0, tr_base = 0\<rparr>, mc_idt = replicate 256 (kernel_gate 0),
       mc_idtr = \<lparr>tr_size = 0, tr_base = 0\<rparr>, mc_handlers = (\<lambda>_. None), mc_ports = []\<rparr>,
     k_cr0 = 0x11, k_cr2 = 0,
     k_serial = \<lparr>rs_232_port_base = 0, rs_ring = RingBuffer (replicate 1024 0), port_out = [], polls = 0\<rparr>,
     k_logger = Logger lINFO, k_env = demo_env, k_paging = boot_paging (\<lambda>_. directory stage1_start 0) Physical_Manager,
     k_console = console_start \<lparr>gfx_info = None, backbuffer = [], gfx_initialized = False, vram = []\<rparr>,
     k_timer = timer_start, k_rtc = rtc_zero, k_rtc_reads = 0,
     k_sched = demo_sched\<lparr>tasks_ready := empty_list, tasks_sleeping := empty_list,
       syncs := \<lambda>_. \<lparr>possessor = None, dbg_name = None, waiting = empty_list\<rparr>, intr := False\<rparr>\<rparr>"

lemma demo_static: "static_state demo_boot"
  by (auto simp: static_state_def demo_boot_def blank_def demo_sched_def locks_def)

lemma demo_machine: "machine_runs demo_params"
proof -
  have c: "\<exists>regs. bp_cmos demo_params = (\<lambda>_. regs) \<and> regs 0x0A AND 0x80 = 0 \<and> regs 0x08 \<noteq> 0"
    by (intro exI [of _ "\<lambda>r. if r = 8 then 7 else 0"]) (simp add: demo_params_def)
  have "\<exists>j>0. \<not> bp_ticks demo_params i j < bp_ticks demo_params i 0 + 50" for i
    by (intro exI [of _ 1]) (simp add: demo_params_def)
  moreover have "always_ready (bp_lsr demo_params) 0x20" by (auto simp: always_ready_def demo_params_def)
  moreover have "boot_text_ok demo_params" by (simp add: boot_text_ok_def demo_params_def vendor_def model_def le_bytes_def)
  moreover have "distinct [bp_first_task demo_params, bp_cleaner_task demo_params, bp_compute demo_params,
      bp_status demo_params, bp_spinner_task demo_params]" by (simp add: demo_params_def)
  ultimately show ?thesis using c by (simp only: machine_runs_def simp_thms)
qed

lemma demo_pages:
  "early_pages demo_kernel = {0..<0x100}" "kernel_pages demo_kernel = {0xC0110..<0xC0310}"
  "unat (lk_KERNEL_BASE demo_kernel) div 4096 = 0xC0000" "display_pages (fst (Framebuffer_empty None)) = {}"
  by (simp_all add: early_pages_def kernel_pages_def demo_kernel_def display_pages_def Framebuffer_empty_def Let_def)

abbreviation demo_entry :: mmap_entry where
  "demo_entry \<equiv> \<lparr>e_base = 0x100000, e_length = 0x7F00000, e_type = MMAP_USABLE\<rparr>"

lemma demo_tags: "boot_tags_ok demo_params [] [demo_entry] [] demo_env"
  by (simp add: boot_tags_ok_def demo_params_def demo_info_def fits_def memory_layout_ok_def demo_kernel_def MEM_BITMAP_SIZE_def)

lemma four_le_card: "finite A \<Longrightarrow> {0x100, 0x101, 0x102, 0x103 :: nat} \<subseteq> A \<Longrightarrow> 4 \<le> card A"
  using card_mono [of A "{0x100, 0x101, 0x102, 0x103}"] by simp

lemma demo_memory: "memory_suffices demo_params (fst (Framebuffer_empty None)) [demo_entry]"
proof -
  let ?f = "fst (Framebuffer_empty None)"
  have lay: "bp_layout demo_params = demo_kernel" by (simp add: demo_params_def)
  have u: "used_pages demo_params ?f = {0..<0x100} \<union> {0xC0110..<0xC0310}" by (simp add: used_pages_def lay demo_pages)
  have "4 \<le> card {v. v + 32 \<le> MEM_BITMAP_SIZE \<and> v \<notin> used_pages demo_params ?f}"
    by (rule four_le_card) (auto simp: u MEM_BITMAP_SIZE_def intro: finite_subset [of _ "{..<MEM_BITMAP_SIZE}"])
  moreover have "v - 0xC0000 \<notin> {0x100, 0x101, 0x102, 0x103}" if "v \<in> {0xC0110..<0xC0310 :: nat}" for v using that by auto
  then have k: "q \<notin> (\<lambda>v. v - 0xC0000) ` {0xC0110..<0xC0310 :: nat}" if "q \<in> {0x100, 0x101, 0x102, 0x103}" for q
    using that by blast
  have "4 \<le> card (usable_frames demo_params ?f [demo_entry])"
    by (rule four_le_card)
      (use k in \<open>auto simp: usable_frames_def lay demo_pages MEM_BITMAP_SIZE_def frame_in_def
        intro: finite_subset [of _ "{..<MEM_BITMAP_SIZE}"]\<close>)
  ultimately show ?thesis by (simp add: memory_suffices_def u)
qed

theorem kernelEntry_starts_tasks_witness:
  "\<exists>k'. kernelEntry demo_params 0 demo_boot = Inr k' \<and> current_task (k_sched k') = Some 3
    \<and> gate_address (mc_idt (k_machine k') ! 33) = 0xC0120001 \<and> mc_handlers (k_machine k') 0x24 = Some Serial_Callback"
proof -
  have d: "display_ok demo_params (last_framebuffer ([] @ []) (fst (Framebuffer_empty None))) (con_gfx (k_console demo_boot))"
    by (simp add: display_ok_def last_framebuffer_def Framebuffer_empty_def Let_def demo_boot_def console_start_def)
  have t: "boot_tags_ok demo_params [] [demo_entry] [] (k_env demo_boot)" using demo_tags by (simp add: demo_boot_def)
  have m: "memory_suffices demo_params (last_framebuffer ([] @ []) (fst (Framebuffer_empty None))) [demo_entry]"
    using demo_memory by (simp add: last_framebuffer_def)
  obtain k' where k': "kernelEntry demo_params 0 demo_boot = Inr k'"
      "quiet (k_sched k') (bp_compute demo_params) ((\<lambda>_. [])(QReady := [bp_status demo_params, bp_spinner_task demo_params]))"
      "\<forall>v<16. gate_address (mc_idt (k_machine k') ! (32 + v)) = bp_interruptStub demo_params v"
      "mc_handlers (k_machine k') = (mc_handlers (k_machine demo_boot))(0x20 := Some Timer_Callback, 0x24 := Some Serial_Callback, 0x28 := Some Rtc_Callback, 0x0E := Some Page_Fault_Callback)"
    using kernelEntry_starts_tasks [OF demo_static demo_machine t d m, of 0] by blast
  have "current_task (k_sched k') = Some 3" using quietD(2) [OF k'(2)] by (simp add: demo_params_def)
  moreover have "gate_address (mc_idt (k_machine k') ! 33) = 0xC0120001"
    using k'(3) [rule_format, of 1] by (simp add: demo_params_def)
  ultimately show ?thesis using k'(1,4) by auto
qed

text \<open>An unknown boot loader stops the kernel right after the devices are set up.\<close>

lemma kernelEntry_wrong_magic:
  assumes "static_state k" "machine_runs p" "bp_magic p \<noteq> STIVALE2_MAGIC"
  shows "kernelEntry p n k = Inl (Panic ''Invalid bootloader magic!'')"
proof -
  obtain k1 k2 where "start_CPU p k = Inr k1" "start_devices p k1 = Inr k2" using boot_devices [OF assms(1,2)] by blast
  then show ?thesis by (simp add: kernelEntry_def start_memory_def wrong_magic_panics [OF assms(3)])
qed

end
