(* ===== verification/Machine_Code.thy ===== *)
theory Machine_Code
  imports Xyris_Prelude
begin

text \<open>
  The processor as the kernel's assembly files use it (\<open>Kernel/Arch/i686/Assembly/*.s\<close>): the general and segment
  registers, \<open>cr3\<close>, and a memory of bytes, with one constructor per form of instruction in these files.  A
  routine is its list of instructions; a forward jump skips the instructions up to its label.  A \<open>call\<close> runs a
  function of the C++ part: the parameter \<open>ext\<close> gives its effect, from the moment before the call to the
  moment after the return.

  Segments are flat (\<open>Interrupts\<close> shows the descriptors), so a selector does not change what an address means.
  \<open>c_eip\<close> is where execution continues when the routine is left.  The arithmetic flags are kept out of \<open>c_eflags\<close>;
  the only one that an instruction here asks for is the zero flag of the last comparison, \<open>c_zf\<close>.
\<close>

section \<open>Words in memory\<close>

definition store_word :: "u32 \<Rightarrow> u32 \<Rightarrow> (u32 \<Rightarrow> u8) \<Rightarrow> (u32 \<Rightarrow> u8)" where
  "store_word a w m = m(a := ucast w, a + 1 := ucast (drop_bit 8 w), a + 2 := ucast (drop_bit 16 w), a + 3 := ucast (drop_bit 24 w))"

definition load_word :: "u32 \<Rightarrow> (u32 \<Rightarrow> u8) \<Rightarrow> u32" where
  "load_word a m = ucast (m a) OR push_bit 8 (ucast (m (a + 1))) OR push_bit 16 (ucast (m (a + 2))) OR push_bit 24 (ucast (m (a + 3)))"

text \<open>Two words that share no byte.\<close>

definition apart :: "u32 \<Rightarrow> u32 \<Rightarrow> bool" where
  "apart a b \<longleftrightarrow> 4 \<le> a - b \<and> 4 \<le> b - a"

section \<open>The processor\<close>

datatype reg = EAX | ECX | EDX | EBX | ESP | EBP | ESI | EDI
datatype seg = CS | DS | ES | FS | GS | SS

record cpu =
  c_reg :: "reg \<Rightarrow> u32"
  c_seg :: "seg \<Rightarrow> u16"
  c_eip :: u32
  c_eflags :: u32
  c_zf :: bool
  c_cr3 :: u32
  c_gdtr :: "u16 \<times> u32"
  c_tr :: u16
  c_mem :: "u32 \<Rightarrow> u8"

datatype address = At u32 | Based reg u32

datatype instr =
    PushI u32 | PushR reg | PopR reg | Pushad | Popad
  | MovSeg seg reg           \<comment> \<open>\<open>mov ds, ax\<close>: the low half of the register\<close>
  | MovLowSeg reg seg        \<comment> \<open>\<open>mov ax, ds\<close>: the high half of the register stays\<close>
  | MovLowI reg u16          \<comment> \<open>\<open>mov ax, 0x10\<close>\<close>
  | AddEsp u32
  | Cld
  | Call string
  | Iret | Ret
  | Load reg address | Store address reg | StoreI address u32
  | MovFromCr3 reg | MovToCr3 reg
  | CmpI address u32 | CmpR reg reg
  | Jne nat | Je nat
  | MovR reg reg
  | Lgdt reg                 \<comment> \<open>\<open>lgdt [eax]\<close>: two bytes of size, four of address\<close>
  | Ltr reg
  | JmpFar u16               \<comment> \<open>a jump to the next instruction that loads the code segment\<close>

definition set_reg :: "reg \<Rightarrow> u32 \<Rightarrow> cpu \<Rightarrow> cpu" where
  "set_reg r w s = s\<lparr>c_reg := (c_reg s)(r := w)\<rparr>"

definition set_low :: "reg \<Rightarrow> u16 \<Rightarrow> cpu \<Rightarrow> cpu" where
  "set_low r h s = set_reg r ((c_reg s r AND NOT 0xFFFF) OR ucast h) s"

definition push_word :: "u32 \<Rightarrow> cpu \<Rightarrow> cpu" where
  "push_word w s = set_reg ESP (c_reg s ESP - 4) (s\<lparr>c_mem := store_word (c_reg s ESP - 4) w (c_mem s)\<rparr>)"

definition top_word :: "cpu \<Rightarrow> u32" where
  "top_word s = load_word (c_reg s ESP) (c_mem s)"

definition drop_word :: "cpu \<Rightarrow> cpu" where
  "drop_word s = set_reg ESP (c_reg s ESP + 4) s"

fun ea :: "address \<Rightarrow> cpu \<Rightarrow> u32" where
  "ea (At a) s = a"
| "ea (Based r d) s = c_reg s r + d"

text \<open>\<open>pushad\<close> stores the stack pointer from before its first push; \<open>popad\<close> skips it.  An interrupt that comes
  from the kernel's own privilege level saves no stack pointer, so \<open>iret\<close> takes three words.\<close>

fun step_instr :: "(string \<Rightarrow> cpu \<Rightarrow> cpu) \<Rightarrow> instr \<Rightarrow> cpu \<Rightarrow> cpu" where
  "step_instr ext (PushI w) s = push_word w s"
| "step_instr ext (PushR r) s = push_word (c_reg s r) s"
| "step_instr ext (PopR r) s = set_reg r (top_word s) (drop_word s)"
| "step_instr ext Pushad s = fold push_word (map (c_reg s) [EAX, ECX, EDX, EBX, ESP, EBP, ESI, EDI]) s"
| "step_instr ext Popad s =
     fold (\<lambda>r s. if r = ESP then drop_word s else set_reg r (top_word s) (drop_word s)) [EDI, ESI, EBP, ESP, EBX, EDX, ECX, EAX] s"
| "step_instr ext (MovSeg sg r) s = s\<lparr>c_seg := (c_seg s)(sg := ucast (c_reg s r))\<rparr>"
| "step_instr ext (MovLowSeg r sg) s = set_low r (c_seg s sg) s"
| "step_instr ext (MovLowI r h) s = set_low r h s"
| "step_instr ext (AddEsp n) s = set_reg ESP (c_reg s ESP + n) s"
| "step_instr ext Cld s = s\<lparr>c_eflags := c_eflags s AND NOT 0x400\<rparr>"
| "step_instr ext (Call f) s = ext f s"
| "step_instr ext Iret s =
     (let s1 = drop_word (s\<lparr>c_eip := top_word s\<rparr>);
          s2 = drop_word (s1\<lparr>c_seg := (c_seg s1)(CS := ucast (top_word s1))\<rparr>)
      in drop_word (s2\<lparr>c_eflags := top_word s2\<rparr>))"
| "step_instr ext Ret s = drop_word (s\<lparr>c_eip := top_word s\<rparr>)"
| "step_instr ext (Load r a) s = set_reg r (load_word (ea a s) (c_mem s)) s"
| "step_instr ext (Store a r) s = s\<lparr>c_mem := store_word (ea a s) (c_reg s r) (c_mem s)\<rparr>"
| "step_instr ext (StoreI a w) s = s\<lparr>c_mem := store_word (ea a s) w (c_mem s)\<rparr>"
| "step_instr ext (MovFromCr3 r) s = set_reg r (c_cr3 s) s"
| "step_instr ext (MovToCr3 r) s = s\<lparr>c_cr3 := c_reg s r\<rparr>"
| "step_instr ext (CmpI a w) s = s\<lparr>c_zf := (load_word (ea a s) (c_mem s) = w)\<rparr>"
| "step_instr ext (CmpR r q) s = s\<lparr>c_zf := (c_reg s r = c_reg s q)\<rparr>"
| "step_instr ext (MovR r q) s = set_reg r (c_reg s q) s"
| "step_instr ext (Lgdt r) s = s\<lparr>c_gdtr := (ucast (load_word (c_reg s r) (c_mem s)), load_word (c_reg s r + 2) (c_mem s))\<rparr>"
| "step_instr ext (Ltr r) s = s\<lparr>c_tr := ucast (c_reg s r)\<rparr>"
| "step_instr ext (JmpFar sel) s = s\<lparr>c_seg := (c_seg s)(CS := sel)\<rparr>"
| "step_instr ext (Jne n) s = s"
| "step_instr ext (Je n) s = s"

fun skipped :: "instr \<Rightarrow> cpu \<Rightarrow> nat" where
  "skipped (Jne n) s = (if c_zf s then 0 else n)"
| "skipped (Je n) s = (if c_zf s then n else 0)"
| "skipped i s = 0"

function exec_code :: "(string \<Rightarrow> cpu \<Rightarrow> cpu) \<Rightarrow> instr list \<Rightarrow> cpu \<Rightarrow> cpu" where
  "exec_code ext [] s = s"
| "exec_code ext (i # is) s = exec_code ext (drop (skipped i s) is) (step_instr ext i s)"
  by pat_completeness auto
termination by (relation "measure (\<lambda>(ext, is, s). length is)") auto

section \<open>Memory\<close>

lemma word_of_bytes [simp]: "load_word a (store_word a w m) = w"
proof (rule bit_word_eqI)
  fix n assume n: "n < LENGTH(32)"
  consider "n < 8" | "8 \<le> n" "n < 16" | "16 \<le> n" "n < 24" | "24 \<le> n" by linarith
  then show "bit (load_word a (store_word a w m)) n = bit w n"
    using n by cases (auto simp: load_word_def store_word_def bit_simps)
qed

lemma apart_bytes:
  assumes "apart a b" "i < 4" "j < 4"
  shows "a + i \<noteq> b + j"
proof
  assume "a + i = b + j"
  then have d: "a - b = j - i" "b - a = i - j" by (simp_all add: algebra_simps diff_eq_eq)
  have "j - i < 4 \<or> i - j < 4"
  proof (cases "i \<le> j")
    case True
    then have "unat (j - i) \<le> unat j" by (simp add: unat_sub)
    then show ?thesis using assms(3) by (simp add: word_less_nat_alt)
  next
    case False
    then have "unat (i - j) \<le> unat i" by (simp add: unat_sub)
    then show ?thesis using assms(2) by (simp add: word_less_nat_alt)
  qed
  with assms(1) d show False by (auto simp: apart_def)
qed

lemma load_store_apart [simp]:
  assumes "apart a b"
  shows "load_word a (store_word b w m) = load_word a m"
proof -
  have "store_word b w m (a + i) = m (a + i)" if "i < 4" for i
    using apart_bytes [OF assms that, of 0] apart_bytes [OF assms that, of 1]
      apart_bytes [OF assms that, of 2] apart_bytes [OF assms that, of 3] by (simp add: store_word_def)
  from this [of 0] this [of 1] this [of 2] this [of 3] show ?thesis by (simp add: load_word_def)
qed

lemma apart_sym: "apart a b \<Longrightarrow> apart b a"
  by (simp add: apart_def)

section \<open>The stack\<close>

text \<open>The \<open>n\<close> words from the stack pointer up.\<close>

definition stack_words :: "nat \<Rightarrow> cpu \<Rightarrow> u32 list" where
  "stack_words n s = map (\<lambda>i. load_word (c_reg s ESP + 4 * of_nat i) (c_mem s)) [0..<n]"

lemma length_stack_words [simp]: "length (stack_words n s) = n"
  by (simp add: stack_words_def)

lemma stack_Suc: "stack_words (Suc n) s = top_word s # stack_words n (drop_word s)"
  by (simp add: stack_words_def upt_0_Suc top_word_def drop_word_def set_reg_def comp_def algebra_simps del: upt_Suc)

lemma apart_of_offset:
  assumes "0 < i" "i < 2 ^ 30"
  shows "apart (x + 4 * of_nat i) x"
proof -
  have u: "unat (4 * of_nat i :: u32) = 4 * i"
    using unat_of_nat_u32 [of "4 * i"] assms(2) by simp
  moreover have "unat (- (4 * of_nat i :: u32)) = 2 ^ 32 - 4 * i"
    using u assms unat_sub_if' [of "0 :: u32" "4 * of_nat i"] by simp
  ultimately show ?thesis using assms by (simp add: apart_def word_le_nat_alt)
qed

lemma stack_push [simp]:
  assumes "n < 2 ^ 30"
  shows "stack_words (Suc n) (push_word w s) = w # stack_words n s"
proof -
  have "load_word (c_reg s ESP + 4 * of_nat i) (store_word (c_reg s ESP - 4) w (c_mem s)) = load_word (c_reg s ESP + 4 * of_nat i) (c_mem s)"
    if "i < n" for i
    using apart_of_offset [of "Suc i" "c_reg s ESP - 4"] that assms by (simp add: algebra_simps)
  then show ?thesis
    by (simp add: stack_words_def push_word_def set_reg_def upt_0_Suc comp_def algebra_simps del: upt_Suc)
qed

lemma stack_fold_push:
  "n + length ws < 2 ^ 30 \<Longrightarrow> stack_words (length ws + n) (fold push_word ws s) = rev ws @ stack_words n s"
proof (induction ws arbitrary: s n)
  case (Cons w ws)
  then show ?case using Cons.IH [of "Suc n" "push_word w s"] by simp
qed simp

lemma fold_push_parts [simp]:
  "c_reg (fold push_word ws s) = (c_reg s)(ESP := c_reg s ESP - 4 * of_nat (length ws))"
  "c_seg (fold push_word ws s) = c_seg s" "c_eip (fold push_word ws s) = c_eip s"
  "c_eflags (fold push_word ws s) = c_eflags s"
  "c_cr3 (fold push_word ws s) = c_cr3 s"
  by (induction ws arbitrary: s) (auto simp: push_word_def set_reg_def fun_eq_iff algebra_simps)

lemma load_pushes:
  assumes "\<And>j. j < length ws \<Longrightarrow> apart a (c_reg s ESP - 4 * of_nat (Suc j))"
  shows "load_word a (c_mem (fold push_word ws s)) = load_word a (c_mem s)"
  using assms
proof (induction ws arbitrary: s)
  case (Cons w ws)
  have "apart a (c_reg s ESP - 4)" using Cons.prems [of 0] by simp
  moreover have "apart a (c_reg (push_word w s) ESP - 4 * of_nat (Suc j))" if "j < length ws" for j
    using Cons.prems [of "Suc j"] that by (simp add: push_word_def set_reg_def algebra_simps)
  ultimately show ?case using Cons.IH [of "push_word w s"] by (simp add: push_word_def set_reg_def)
qed simp

lemma stack_store:
  "(\<And>i. i < n \<Longrightarrow> apart (c_reg s ESP + 4 * of_nat i) a) \<Longrightarrow> stack_words n (s\<lparr>c_mem := store_word a w (c_mem s)\<rparr>) = stack_words n s"
  by (simp add: stack_words_def)

lemma stack_nth: "i < n \<Longrightarrow> load_word (c_reg s ESP + 4 * of_nat i) (c_mem s) = stack_words n s ! i"
  by (simp add: stack_words_def)

lemma take_stack_words: "m \<le> n \<Longrightarrow> take m (stack_words n s) = stack_words m s"
  by (simp add: stack_words_def take_map)

text \<open>Setting other parts of the processor leaves the stack.\<close>

lemma stack_words_cong:
  "c_reg s ESP = c_reg s' ESP \<Longrightarrow> c_mem s = c_mem s' \<Longrightarrow> stack_words n s = stack_words n s'"
  by (simp add: stack_words_def)

lemma stack_words_other [simp]:
  "r \<noteq> ESP \<Longrightarrow> stack_words n (set_reg r w s) = stack_words n s"
  "stack_words n (s\<lparr>c_seg := g\<rparr>) = stack_words n s"
  "stack_words n (s\<lparr>c_eflags := e\<rparr>) = stack_words n s"
  "stack_words n (s\<lparr>c_zf := z\<rparr>) = stack_words n s"
  by (simp_all add: stack_words_def set_reg_def)

lemma low_half: "ucast ((w AND NOT 0xFFFF) OR ucast h :: u32) = (h :: u16)"
proof -
  have low: "(0xFFFF :: u32) = mask 16" by (simp add: mask_eq_exp_minus_1)
  show ?thesis unfolding low by (rule bit_word_eqI) (auto simp: bit_simps)
qed

lemma ucast_u16_u32: "ucast (ucast (x :: u16) :: u32) = x"
  by (rule bit_word_eqI) (auto simp: bit_simps)

section \<open>Code\<close>

definition straight :: "instr list \<Rightarrow> bool" where
  "straight is \<longleftrightarrow> (\<forall>i \<in> set is. \<forall>s. skipped i s = 0)"

lemma exec_append: "straight is \<Longrightarrow> exec_code ext (is @ js) s = exec_code ext js (exec_code ext is s)"
  by (induction "is" arbitrary: s) (simp_all add: straight_def)

lemma exec_Call: "exec_code ext (Call f # is) s = exec_code ext is (ext f s)"
  by simp

text \<open>What a function compiled for the System V interface keeps: the registers that belong to the caller, the
  segments, and the caller's stack above the argument, of which \<open>n\<close> words matter.\<close>

definition callee_saved :: "reg list" where "callee_saved = [EBX, ESP, EBP, ESI, EDI]"

definition abi_call :: "nat \<Rightarrow> (cpu \<Rightarrow> cpu) \<Rightarrow> cpu \<Rightarrow> bool" where
  "abi_call n f s \<longleftrightarrow> (\<forall>r \<in> set callee_saved. c_reg (f s) r = c_reg s r) \<and> c_seg (f s) = c_seg s
     \<and> tl (stack_words (Suc n) (f s)) = tl (stack_words (Suc n) s)"

end
