(* ===== verification/Loader.thy ===== *)
theory Loader
  imports Entry Machine_Code
begin

text \<open>
  From the boot loader to the kernel: the jump at the end of stage 1 (\<open>stage1JumpToStage2\<close> of
  \<open>Kernel/Arch/i686/Bootloader/stivale2.c\<close>), the header that the boot loader reads there, and \<open>stage2Entry\<close> of
  \<open>Loader.cpp\<close>.  The jump is written in assembly: it moves the stack and pushes the arguments, over a memory
  of bytes.
\<close>

section \<open>The jump\<close>

definition KERNEL_STACK_SZ :: u32 where "KERNEL_STACK_SZ = 4 * ARCH_PAGE_SIZE"

record jump_layout =
  jl_stage1Stack :: u32
  jl_stage2Stack :: u32
  jl_BSS_START :: u32
  jl_BSS_SIZE :: u32
  jl_stage1Entry :: u32
  jl_framebuffer_hdr_tag :: u32

record jump =
  j_esp :: u32
  j_ebp :: u32
  j_mem :: "u32 \<Rightarrow> u8"

definition pushl :: "u32 \<Rightarrow> jump \<Rightarrow> jump" where
  "pushl w st = st\<lparr>j_esp := j_esp st - 4, j_mem := store_word (j_esp st - 4) w (j_mem st)\<rparr>"

definition stage1JumpToStage2 :: "jump_layout \<Rightarrow> u32 \<Rightarrow> jump \<Rightarrow> jump" where
  "stage1JumpToStage2 k stivale2Info st =
     (let st1 = st\<lparr>j_mem := zero_bss (jl_BSS_START k) (jl_BSS_SIZE k) (j_mem st)\<rparr>;
          st2 = st1\<lparr>j_esp := jl_stage2Stack k + KERNEL_STACK_SZ, j_ebp := 0\<rparr>
      in pushl 0 (pushl stivale2Info (pushl STIVALE2_MAGIC st2)))"

text \<open>The arguments of a function at its first instruction: above the return address, the first one lowest.\<close>

definition argument :: "nat \<Rightarrow> jump \<Rightarrow> u32" where
  "argument i st = load_word (j_esp st + 4 + 4 * of_nat i) (j_mem st)"

section \<open>What the boot loader reads\<close>

record header_tag_framebuffer =
  ht_identifier :: u64
  ht_next :: u64
  ht_framebuffer_width :: u16
  ht_framebuffer_height :: u16
  ht_framebuffer_bpp :: u16

definition framebuffer_hdr_tag :: "u64 \<Rightarrow> header_tag_framebuffer" where
  "framebuffer_hdr_tag framebuffer_id = \<lparr>ht_identifier = framebuffer_id, ht_next = 0,
     ht_framebuffer_width = 0, ht_framebuffer_height = 0, ht_framebuffer_bpp = 0\<rparr>"

record stivale2_header =
  sh_entry_point :: u64
  sh_stack :: u64
  sh_flags :: u64
  sh_tags :: u64

definition stivale_hdr :: "jump_layout \<Rightarrow> stivale2_header" where
  "stivale_hdr k = \<lparr>sh_entry_point = ucast (jl_stage1Entry k), sh_stack = ucast (jl_stage1Stack k + KERNEL_STACK_SZ),
     sh_flags = 0, sh_tags = ucast (jl_framebuffer_hdr_tag k)\<rparr>"

section \<open>Stage 2\<close>

text \<open>\<open>constructors\<close> is \<open>_init\<close>, the constructors of the static objects.  \<open>kernelEntry\<close> does not come back: it hands
  the processor on, or panics when it gets it back; the destructors and the panic behind it are not reached.\<close>

definition stage2Entry :: "(kernel \<Rightarrow> kernel outcome) \<Rightarrow> boot_params \<Rightarrow> nat \<Rightarrow> kernel \<Rightarrow> kernel outcome" where
  "stage2Entry constructors p n k = bindE (constructors k) (kernelEntry p n)"

text \<open>The whole start: \<open>stage1Entry\<close> builds the first page tables and jumps; \<open>stage2Entry\<close> takes its arguments from
  the stack.\<close>

definition boot ::
    "stage1_layout \<Rightarrow> jump_layout \<Rightarrow> (kernel \<Rightarrow> kernel outcome) \<Rightarrow> boot_params \<Rightarrow> nat \<Rightarrow> stage1 \<times> jump \<times> kernel \<Rightarrow> (stage1 \<times> jump \<times> kernel) outcome" where
  "boot lk jk constructors p n = (\<lambda>(st, j, k).
     bindE (stage1Entry lk (bp_tags p) (if bp_handle p = 0 then None else Some (bp_info p)) st) (\<lambda>st1.
       let j1 = stage1JumpToStage2 jk (bp_handle p) j
       in bindE (stage2Entry constructors (p\<lparr>bp_handle := argument 0 j1, bp_magic := argument 1 j1\<rparr>) n k) (\<lambda>k1.
            Inr (st1, j1, k1))))"

section \<open>The arguments arrive\<close>

lemma zero_bss_at:
  "zero_bss start sz m a = (if \<exists>i<unat sz. a = start + of_nat i then 0 else m a)"
proof -
  have "fold (\<lambda>i m. m(start + of_nat i := 0)) xs m a = (if \<exists>i\<in>set xs. a = start + of_nat i then 0 else m a)" for xs
    by (induction xs arbitrary: m) auto
  then show ?thesis by (auto simp: zero_bss_def)
qed

lemma jump_memory:
  defines "stack_top2 k \<equiv> jl_stage2Stack k + KERNEL_STACK_SZ"
  shows "j_esp (stage1JumpToStage2 k info st) = stack_top2 k - 12" "j_ebp (stage1JumpToStage2 k info st) = 0"
    "j_mem (stage1JumpToStage2 k info st) =
       store_word (stack_top2 k - 12) 0 (store_word (stack_top2 k - 8) info (store_word (stack_top2 k - 4) STIVALE2_MAGIC
         (zero_bss (jl_BSS_START k) (jl_BSS_SIZE k) (j_mem st))))"
  by (simp_all add: stage1JumpToStage2_def pushl_def Let_def stack_top2_def)

lemma argument_words:
  assumes "j_esp st = b" "j_mem st = store_word b x (store_word (b + 4) y (store_word (b + 8) z m))"
  shows "load_word (j_esp st) (j_mem st) = x" "argument 0 st = y" "argument 1 st = z"
proof -
  have sep: "load_word a (store_word c w m') = load_word a m'"
    if "\<forall>i \<in> {0, 1, 2, 3}. \<forall>j \<in> {0, 1, 2, 3}. a + i \<noteq> c + j" for a c w and m' :: "u32 \<Rightarrow> u8"
    using that by (auto simp: load_word_def store_word_def)
  show "load_word (j_esp st) (j_mem st) = x" by (simp add: assms word_of_bytes)
  have "load_word (b + 4) (j_mem st) = y" unfolding assms(2) by (subst sep) (simp_all add: word_of_bytes add.assoc)
  then show "argument 0 st = y" by (simp add: argument_def assms(1))
  have "load_word (b + 8) (j_mem st) = z" unfolding assms(2)
    by (subst sep, simp add: add.assoc, subst sep, simp add: add.assoc) (rule word_of_bytes)
  then show "argument 1 st = z" by (simp add: argument_def assms(1) add.assoc)
qed

lemma jump_arguments:
  "argument 0 (stage1JumpToStage2 k info st) = info" "argument 1 (stage1JumpToStage2 k info st) = STIVALE2_MAGIC"
  "load_word (j_esp (stage1JumpToStage2 k info st)) (j_mem (stage1JumpToStage2 k info st)) = 0"
proof -
  let ?b = "jl_stage2Stack k + KERNEL_STACK_SZ - 12"
  have e: "jl_stage2Stack k + KERNEL_STACK_SZ - 8 = ?b + 4" "jl_stage2Stack k + KERNEL_STACK_SZ - 4 = ?b + 8" by simp_all
  note m = argument_words [OF jump_memory(1) jump_memory(3) [of k info st, unfolded e]]
  show "argument 0 (stage1JumpToStage2 k info st) = info" "argument 1 (stage1JumpToStage2 k info st) = STIVALE2_MAGIC"
    "load_word (j_esp (stage1JumpToStage2 k info st)) (j_mem (stage1JumpToStage2 k info st)) = 0"
    using m by simp_all
qed

section \<open>The boot\<close>

lemma stage1Entry_ends:
  assumes ok: "layout_ok k" and bi: "boot_info_ok k (ucast info) len"
    and g: "stage1GetBootInfoAddr ts (ucast info) = Some (Inr len)"
  shows "\<exists>st. stage1Entry k ts (Some info) stage1_start = Inr st \<and> pagingEnable st \<and> cr3 st = l_pageDirectory k"
proof -
  obtain st1 st2 where 1: "stage1MapLowMemory k stage1_start = Inr st1" "stage1MapHighMemory k st1 = Inr st2"
      "mapped_low_high k st2"
    using low_high_mapped [OF ok] by blast
  obtain st' where "stage1MapBootloader k ts info st2 = Inr st'" by (rule boot_mapped [OF ok bi g 1(3)]) (rule that)
  with 1 show ?thesis by (simp add: stage1Entry_def stage1EnablePaging_def)
qed

text \<open>What the boot needs of the machine does not depend on the magic number.\<close>

lemma params_magic [simp]:
  "machine_runs (p\<lparr>bp_magic := m\<rparr>) = machine_runs p" "display_ok (p\<lparr>bp_magic := m\<rparr>) f g = display_ok p f g"
  "memory_suffices (p\<lparr>bp_magic := m\<rparr>) f es = memory_suffices p f es"
  by (simp_all add: machine_runs_def boot_text_ok_def display_ok_def memory_suffices_def used_pages_def usable_frames_def)


section \<open>An instance\<close>

definition demo_boot_info :: tags where
  "demo_boot_info = (\<lambda>_. \<lparr>t_body = TAG_OTHER, t_next = 0\<rparr>)(0x7FF0000 :=
     \<lparr>t_body = TAG_MEMMAP [demo_entry, \<lparr>e_base = 0x7FF0000, e_length = 0x3000, e_type = MMAP_BOOTLOADER_RECLAIMABLE\<rparr>], t_next = 0\<rparr>)"

definition boot_demo :: boot_params where
  "boot_demo = demo_params\<lparr>bp_tags := demo_boot_info, bp_info := 0x7FF0000, bp_magic := 0\<rparr>"

lemma boot_demo_ok:
  "machine_runs boot_demo" "display_ok boot_demo f g = display_ok demo_params f g"
  "memory_suffices boot_demo f [demo_entry, \<lparr>e_base = 0x7FF0000, e_length = 0x3000, e_type = MMAP_BOOTLOADER_RECLAIMABLE\<rparr>] =
     memory_suffices demo_params f [demo_entry]"
proof -
  show "machine_runs boot_demo" using demo_machine by (simp add: boot_demo_def machine_runs_def boot_text_ok_def)
  show "display_ok boot_demo f g = display_ok demo_params f g" by (simp add: boot_demo_def display_ok_def)
  show "memory_suffices boot_demo f [demo_entry, \<lparr>e_base = 0x7FF0000, e_length = 0x3000, e_type = MMAP_BOOTLOADER_RECLAIMABLE\<rparr>] =
     memory_suffices demo_params f [demo_entry]"
    by (simp add: boot_demo_def memory_suffices_def used_pages_def usable_frames_def)
qed


end
