(* ===== verification/Running.thy ===== *)
theory Running
  imports Loader "HOL-Library.Sublist"
begin

text \<open>
  The running kernel: what happens between the boot and the end of time.  An event is an interrupt of one of the
  sixteen lines or a call of the running task into the scheduler.  An interrupt goes through the dispatcher
  of \<open>Kernel/Arch/i686/isr.cpp\<close> to the handler that the boot has registered: the timer's, which counts and calls
  the scheduler, the serial port's, or the clock's, which does nothing.
\<close>

section \<open>Events\<close>

definition Rtc_callback :: "kernel \<Rightarrow> kernel outcome" where
  "Rtc_callback k = Inr k"

definition pageFaultCallback :: "kernel outcome" where
  "pageFaultCallback = exceptionHandler"

fun call_timer_func :: "nat \<Rightarrow> timer_func \<Rightarrow> u32 \<Rightarrow> sched outcome \<Rightarrow> sched outcome" where
  "call_timer_func n On_Timer tick s = bindE s (on_timer n)"

text \<open>\<open>data\<close> is the byte that waits at the serial port.\<close>

fun call_handler :: "boot_params \<Rightarrow> nat \<Rightarrow> u8 \<Rightarrow> irq_handler \<Rightarrow> kernel \<Rightarrow> kernel outcome" where
  "call_handler p n data Timer_Callback k =
     bindE (timer_callback (call_timer_func n) (k_timer k) (Inr (k_sched k))) (\<lambda>(t, r).
     bindE r (\<lambda>s. Inr (k\<lparr>k_timer := t, k_sched := s\<rparr>)))"
| "call_handler p n data Serial_Callback k =
     bindE (serial_callback (bp_lsr p) data ((k_serial k)\<lparr>port_out := mc_ports (k_machine k)\<rparr>)) (\<lambda>s.
       Inr (k\<lparr>k_serial := s, k_machine := (k_machine k)\<lparr>mc_ports := port_out s\<rparr>\<rparr>))"
| "call_handler p n data Rtc_Callback k = Rtc_callback k"
| "call_handler p n data Page_Fault_Callback k = pageFaultCallback"

definition interrupt :: "boot_params \<Rightarrow> nat \<Rightarrow> u32 \<Rightarrow> u8 \<Rightarrow> kernel \<Rightarrow> kernel outcome" where
  "interrupt p n int_num data k =
     bindE (interruptHandler int_num (mc_handlers (k_machine k)) (mc_ports (k_machine k))) (\<lambda>(h, l).
       let k1 = k\<lparr>k_machine := (k_machine k)\<lparr>mc_ports := l\<rparr>\<rparr>
       in case h of None \<Rightarrow> Inr k1 | Some f \<Rightarrow> call_handler p n data f k1)"

datatype event = Line nat u8 | Call sched_call

fun kernel_step :: "boot_params \<Rightarrow> nat \<Rightarrow> event \<Rightarrow> kernel \<Rightarrow> kernel outcome" where
  "kernel_step p n (Line i data) k = interrupt p n (32 + of_nat i) data k"
| "kernel_step p n (Call c) k = bindE (sched_step n c (k_sched k)) (\<lambda>s. Inr (k\<lparr>k_sched := s\<rparr>))"

section \<open>A kernel that runs\<close>

definition running :: "kernel \<Rightarrow> addr \<Rightarrow> (qid \<Rightarrow> addr list) \<Rightarrow> bool" where
  "running k c L \<longleftrightarrow> quiet (k_sched k) c L
     \<and> mc_handlers (k_machine k) = (\<lambda>_. None)(0x20 := Some Timer_Callback, 0x24 := Some Serial_Callback,
         0x28 := Some Rtc_Callback, 0x0E := Some Page_Fault_Callback)
     \<and> callback_count (k_timer k) = 1 \<and> length (callbacks (k_timer k)) = 8 \<and> callbacks (k_timer k) ! 0 = Some On_Timer"

text \<open>What one event does besides its effect on the tasks: the ticks it counts, and the components it leaves alone.\<close>

fun ticks_of :: "event \<Rightarrow> nat" where
  "ticks_of (Line i data) = (if i = 0 then 1 else 0)"
| "ticks_of (Call c) = 0"

definition others_kept :: "kernel \<Rightarrow> kernel \<Rightarrow> bool" where
  "others_kept k k' \<longleftrightarrow> k_paging k' = k_paging k \<and> k_console k' = k_console k \<and> k_logger k' = k_logger k
     \<and> k_rtc k' = k_rtc k \<and> k_cr0 k' = k_cr0 k \<and> mc_idt (k_machine k') = mc_idt (k_machine k)
     \<and> mc_gdt (k_machine k') = mc_gdt (k_machine k)"

text \<open>The acknowledgements that an interrupt of a line needs, so that the controllers send the next one.\<close>

fun acks :: "event \<Rightarrow> port_log" where
  "acks (Line i data) = (if 8 \<le> i then [(0xA0, 0x20)] else []) @ [(0x20, 0x20)]"
| "acks (Call c) = []"

definition moves_on :: "nat \<Rightarrow> port_log \<Rightarrow> kernel \<Rightarrow> addr \<Rightarrow> (qid \<Rightarrow> addr list) \<Rightarrow> kernel \<Rightarrow> bool" where
  "moves_on m as k c L k' \<longleftrightarrow> (\<exists>c' L'. running k' c' L' \<and> insert c' (queued L') = insert c (queued L))
     \<and> saved_esp (k_sched k') = saved_esp (k_sched k) \<and> timer_tick (k_timer k') = timer_tick (k_timer k) + of_nat m
     \<and> (\<exists>w. mc_ports (k_machine k') = mc_ports (k_machine k) @ w \<and> subseq as w) \<and> others_kept k k'"

lemma timer_callback_once:
  assumes "callback_count t = 1" "length (callbacks t) = 8" "callbacks t ! 0 = Some On_Timer"
  shows "timer_callback (call_timer_func n) t (Inr s) = Inr (t\<lparr>timer_tick := timer_tick t + 1\<rparr>, on_timer n s)"
  using assms by (simp add: timer_callback_def Let_def)

lemma call_keeps:
  assumes "running k c L"
  shows "case sched_step n x (k_sched k) of Inl e \<Rightarrow> e = Hang
    | Inr s \<Rightarrow> \<exists>c' L'. quiet s c' L' \<and> insert c' (queued L') = insert c (queued L) \<and> saved_esp s = saved_esp (k_sched k)"
  using sched_step_keeps [of "k_sched k" c L n x] assms by (auto simp: running_def keeps_tasks_def split: sum.splits)

lemma line_handler:
  assumes "i < 16" "running k c L"
  shows "interruptHandler (32 + of_nat i) (mc_handlers (k_machine k)) l =
    Inr (if i = 0 then Some Timer_Callback else if i = 4 then Some Serial_Callback else if i = 8 then Some Rtc_Callback else None,
      l @ (if 8 \<le> i then [(0xA0, 0x20)] else []) @ [(0x20, 0x20)])"
proof -
  have "i \<in> {0, 1, 2, 3, 4, 5, 6, 7, 8, 9, 10, 11, 12, 13, 14, 15}"
    using assms(1) by (simp only: insert_iff empty_iff) presburger
  then show ?thesis using assms(2)
    by (elim insertE emptyE) (simp_all add: running_def interruptHandler_def writeByte_def)
qed

lemma call_moves:
  assumes r: "running k c L"
  shows "case kernel_step p n (Call x) k of Inl e \<Rightarrow> e = Hang | Inr k' \<Rightarrow> moves_on 0 [] k c L k'"
  using call_keeps [OF r, of n x] r by (auto simp: moves_on_def running_def others_kept_def split: sum.splits)

lemma timer_moves:
  assumes r: "running k c L"
  shows "case kernel_step p n (Line 0 data) k of Inl e \<Rightarrow> e = Hang | Inr k' \<Rightarrow> moves_on 1 (acks (Line 0 data)) k c L k'"
proof -
  let ?k = "k\<lparr>k_machine := (k_machine k)\<lparr>mc_ports := mc_ports (k_machine k) @ [(0x20, 0x20)]\<rparr>\<rparr>"
  have t: "timer_callback (call_timer_func n) (k_timer k) (Inr (k_sched k)) =
      Inr ((k_timer k)\<lparr>timer_tick := timer_tick (k_timer k) + 1\<rparr>, on_timer n (k_sched k))"
    using timer_callback_once r by (simp add: running_def)
  have "kernel_step p n (Line 0 data) k = bindE (on_timer n (k_sched k)) (\<lambda>s.
      Inr (?k\<lparr>k_timer := (k_timer k)\<lparr>timer_tick := timer_tick (k_timer k) + 1\<rparr>, k_sched := s\<rparr>))"
    using line_handler [OF _ r, of 0] by (simp add: interrupt_def t)
  then show ?thesis
    using call_keeps [OF r, of n TimerIrq] r by (auto simp: moves_on_def running_def others_kept_def split: sum.splits)
qed

lemma serial_moves:
  assumes r: "running k c L" and lsr: "always_ready (bp_lsr p) 1" "always_ready (bp_lsr p) 0x20"
  shows "\<exists>k'. kernel_step p n (Line 4 data) k = Inr k' \<and> moves_on 0 (acks (Line 4 data)) k c L k'"
proof -
  let ?l = "mc_ports (k_machine k) @ [(0x20, 0x20)]"
  obtain j where j: "serial_callback (bp_lsr p) data ((k_serial k)\<lparr>port_out := ?l\<rparr>) = Inr ((k_serial k)\<lparr>polls := j,
      port_out := ?l @ (if newline data = 0 then [] else [(rs_232_port_base (k_serial k), newline data)]),
      rs_ring := snd (Enqueue (newline data) (rs_ring (k_serial k)))\<rparr>)" (is "_ = Inr ?s")
    using serial_callback_spec [OF lsr, of data "(k_serial k)\<lparr>port_out := ?l\<rparr>"] by (cases "newline data = 0") auto
  have "kernel_step p n (Line 4 data) k = Inr (k\<lparr>k_serial := ?s, k_machine := (k_machine k)\<lparr>mc_ports := port_out ?s\<rparr>\<rparr>)"
    using line_handler [OF _ r, of 4] by (simp add: interrupt_def j)
  moreover have "subseq [(0x20, 0x20)] ([(0x20, 0x20)] @ w)" for w :: port_log by simp
  ultimately show ?thesis using r by (auto simp: moves_on_def running_def others_kept_def)
qed

lemma other_moves:
  assumes r: "running k c L" and i: "i < 16" "i \<notin> {0, 4}"
  shows "\<exists>k'. kernel_step p n (Line i data) k = Inr k' \<and> moves_on 0 (acks (Line i data)) k c L k'"
  using line_handler [OF i(1) r] i(2) r
  by (auto simp: interrupt_def Rtc_callback_def moves_on_def running_def others_kept_def)

fun event_ok :: "event \<Rightarrow> bool" where
  "event_ok (Line i data) \<longleftrightarrow> i < 16"
| "event_ok (Call c) \<longleftrightarrow> True"

lemma kernel_step_moves:
  assumes r: "running k c L" and e: "event_ok ev" and lsr: "always_ready (bp_lsr p) 1" "always_ready (bp_lsr p) 0x20"
  shows "case kernel_step p n ev k of Inl e \<Rightarrow> e = Hang | Inr k' \<Rightarrow> moves_on (ticks_of ev) (acks ev) k c L k'"
proof (cases ev)
  case (Call x)
  then show ?thesis using call_moves [OF r, of p n x] unfolding Call by (simp only: ticks_of.simps acks.simps)
next
  case (Line i data)
  consider "i = 0" | "i = 4" | "i < 16" "i \<notin> {0, 4}" using e Line by auto
  then show ?thesis
  proof cases
    case 1
    have "ticks_of ev = 1" "ev = Line 0 data" using 1 Line by simp_all
    then show ?thesis using timer_moves [OF r, where p = p and n = n and data = data] by (simp only:)
  next
    case 2
    then show ?thesis using serial_moves [OF r lsr, where n = n and data = data] unfolding Line by fastforce
  next
    case 3
    then show ?thesis using other_moves [OF r 3, where p = p and n = n and data = data] unfolding Line by fastforce
  qed
qed

lemma moves_on_trans:
  assumes 1: "moves_on m as k c L k1" and 2: "running k1 c1 L1" "insert c1 (queued L1) = insert c (queued L)"
    and 3: "moves_on m' as' k1 c1 L1 k2"
  shows "moves_on (m + m') (as @ as') k c L k2"
proof -
  obtain w where w: "mc_ports (k_machine k1) = mc_ports (k_machine k) @ w" "subseq as w" using 1 by (auto simp: moves_on_def)
  obtain w' where w': "mc_ports (k_machine k2) = mc_ports (k_machine k1) @ w'" "subseq as' w'" using 3 by (auto simp: moves_on_def)
  have "mc_ports (k_machine k2) = mc_ports (k_machine k) @ (w @ w')" "subseq (as @ as') (w @ w')"
    using w w' by (simp_all add: list_emb_append_mono)
  then show ?thesis using 1 2(2) 3 by (auto simp: moves_on_def others_kept_def add.assoc)
qed

lemma kernel_run_moves:
  assumes "running k c L" and "\<forall>e \<in> set evs. event_ok e" and lsr: "always_ready (bp_lsr p) 1" "always_ready (bp_lsr p) 0x20"
  shows "case foldE (kernel_step p n) evs k of Inl e \<Rightarrow> e = Hang
    | Inr k' \<Rightarrow> moves_on (sum_list (map ticks_of evs)) (concat (map acks evs)) k c L k'"
  using assms(1,2)
proof (induction evs arbitrary: k c L)
  case Nil
  then show ?case by (auto simp: moves_on_def others_kept_def)
next
  case (Cons ev evs)
  note st = kernel_step_moves [OF Cons.prems(1) _ lsr, of ev n]
  show ?case
  proof (cases "kernel_step p n ev k")
    case (Inl e)
    then show ?thesis using st Cons.prems(2) by simp
  next
    case (Inr k1)
    then have 1: "moves_on (ticks_of ev) (acks ev) k c L k1" using st Cons.prems(2) by simp
    then obtain c1 L1 where 2: "running k1 c1 L1" "insert c1 (queued L1) = insert c (queued L)" by (auto simp: moves_on_def)
    show ?thesis
      using Cons.IH [OF 2(1)] Cons.prems(2) Inr moves_on_trans [OF 1 2] by (auto split: sum.splits)
  qed
qed

section \<open>The kernel keeps running\<close>


definition demo_running :: kernel where
  "demo_running = demo_boot\<lparr>k_sched := demo_sched, k_timer := timer_register_callback On_Timer timer_start,
     k_machine := (k_machine demo_boot)\<lparr>mc_handlers := (\<lambda>_. None)(0x20 := Some Timer_Callback, 0x24 := Some Serial_Callback,
         0x28 := Some Rtc_Callback, 0x0E := Some Page_Fault_Callback)\<rparr>\<rparr>"

lemma demo_running: "running demo_running 9 demo_lists"
  using quiet_demo by (simp add: running_def demo_running_def timer_register_callback_def timer_start_def MAX_CALLBACKS_def)


text \<open>The kernel that has just booted is one that runs, with the three tasks of \<open>kernelEntry\<close>.\<close>

lemma booted_kernel_runs:
  assumes "static_state k" "machine_runs p" "boot_tags_ok p xs es ys (k_env k)" "mc_handlers (k_machine k) = (\<lambda>_. None)"
    and "display_ok p (last_framebuffer (xs @ ys) (fst (Framebuffer_empty None))) (con_gfx (k_console k))"
    and "memory_suffices p (last_framebuffer (xs @ ys) (fst (Framebuffer_empty None))) es"
  shows "\<exists>k'. kernelEntry p n k = Inr k' \<and> running k' (bp_compute p) ((\<lambda>_. [])(QReady := [bp_status p, bp_spinner_task p]))"
  using kernelEntry_starts_tasks [OF assms(1-3,5,6), of n] assms(4) unfolding running_def by metis

end
