(* ===== verification/Apps.thy ===== *)
theory Apps
  imports Text_Output Primes
begin

text \<open>
  The programs of \<open>Kernel/Applications\<close> that the kernel starts as tasks: the spinner, the messages of the prime
  search and the animation.  An endless loop is modelled by one of its rounds and a number of rounds; the waits
  between rounds (\<open>hlt\<close>, \<open>tasks_nano_sleep\<close>) are the scheduler's.
\<close>

section \<open>Spinner\<close>

definition spinnay :: "u8 list" where "spinnay = [124, 47, 45, 92]"

definition spinner_format :: "u8 list" where
  "spinner_format = 27 # bytes_of ''[s'' @ 27 # bytes_of ''[24;0f%c'' @ 27 # bytes_of ''[u''"

definition spinner_round :: "nat \<times> console \<Rightarrow> (nat \<times> console) outcome" where
  "spinner_round = (\<lambda>(i, s).
     if i < length spinnay
     then bindE (Console_printf spinner_format [Int32 (scast (spinnay ! i))] s) (\<lambda>(_, s1). Inr ((i + 1) mod length spinnay, s1))
     else Inl OutOfBounds)"

definition spinner :: "nat \<Rightarrow> console \<Rightarrow> (nat \<times> console) outcome" where
  "spinner rounds s =
     bindE (Console_printf [10] [] s) (\<lambda>(_, s1). foldE (\<lambda>_. spinner_round) [0..<rounds] (0, s1))"

section \<open>Messages of the prime search\<close>

definition show_progress :: "nat \<Rightarrow> nat \<Rightarrow> console \<Rightarrow> (u32 \<times> console) outcome" where
  "show_progress r prime_current =
     Console_printf (27 # bytes_of ''[s'' @ 27 # bytes_of ''[23;0fComputing primes: %%%zu'' @ 27 # bytes_of ''[u'')
       [Int32 (of_nat (progress r prime_current))]"

definition show_count :: "nat \<Rightarrow> nat \<Rightarrow> console \<Rightarrow> (u32 \<times> console) outcome" where
  "show_count r count =
     Console_printf (27 # bytes_of ''[s'' @ 27 # bytes_of ''[23;0fFound %zu primes between 2 and %u.'' @ 27 # bytes_of ''[u'')
       [Int32 (of_nat count), Int32 (of_nat (PRIME_MAX r))]"

section \<open>Animation\<close>

definition animation_frame :: "nat \<times> gfx \<Rightarrow> (nat \<times> gfx) outcome" where
  "animation_frame = (\<lambda>(x, g).
     let x1 = (if x > 250 then 10 else x) in
     bindE (resetDoubleBuffer g) (\<lambda>g1.
     bindE (putrect 0 0 280 280 0x00FFFF g1) (\<lambda>g2.
     let x2 = x1 + 10 in
     bindE (putrect (of_nat x2) 10 10 10 0xFF0000 g2) (\<lambda>g3.
     bindE (putrect 50 30 10 10 0xFFFF00 g3) (\<lambda>g4.
     bindE (swap g4) (\<lambda>g5. Inr (x2, g5)))))))"

definition testAnimation :: "nat \<Rightarrow> gfx \<Rightarrow> (nat \<times> gfx) outcome" where
  "testAnimation frames g = foldE (\<lambda>_. animation_frame) [0..<frames] (10, g)"

section \<open>The status lines\<close>

lemma printf_status_line:
  assumes s: "ready_console s"
    and r: "render fmt args = Some ([27, 91, 115, 27, 91] @ ys @ [59] @ xs @ [102] @ tx @ [27, 91, 117])"
    and ys: "ys \<noteq> []" "set ys \<subseteq> {48..57}" "dec16 ys 0 < 25" and xs: "xs \<noteq> []" "set xs \<subseteq> {48..57}" "dec16 xs 0 < 80"
    and tx: "\<forall>c \<in> set tx. plain_char c"
  shows "\<exists>n s'. Console_printf fmt args s = Inr (n, s') \<and> ready_console s' \<and> cursorX s' = cursorX s \<and> cursorY s' = cursorY s
    \<and> colorFore s' = colorFore s \<and> colorBack s' = colorBack s"
proof -
  obtain s1 where s1: "put_all ([27, 91, 115, 27, 91] @ ys @ [59] @ xs @ [102] @ tx @ [27, 91, 117]) s = Inr s1"
      "ready_console s1" "cursorX s1 = cursorX s" "cursorY s1 = cursorY s" "colorFore s1 = colorFore s" "colorBack s1 = colorBack s"
    using put_status_line [OF s ys xs tx] by blast
  then obtain g where g: "swap (con_gfx s1) = Inr g" "screen_ok g" using swap_screen_ok by (auto simp: ready_console_def)
  have "Console_printf fmt args s = Inr (of_nat (length ([27, 91, 115, 27, 91] @ ys @ [59] @ xs @ [102] @ tx @ [27, 91, 117])), s1\<lparr>con_gfx := g\<rparr>)"
    unfolding Console_printf_def Console_vprintf_def printf_renders [OF r] bindE_simps prod.case s1(1) g(1) by simp
  then show ?thesis using s1 g(2) by (auto simp: ready_console_def)
qed

abbreviation keeps_place :: "console \<Rightarrow> console \<Rightarrow> bool" where
  "keeps_place s s' \<equiv> ready_console s' \<and> cursorX s' = cursorX s \<and> cursorY s' = cursorY s
     \<and> colorFore s' = colorFore s \<and> colorBack s' = colorBack s"

lemma spinnay_chars: "i < 4 \<Longrightarrow> spinnay ! i \<in> set [124, 47, 45, 92]" "length spinnay = 4"
  by (simp_all add: spinnay_def nth_Cons')

lemma spinner_round_place:
  assumes "ready_console s" "i < 4"
  shows "\<exists>s'. spinner_round (i, s) = Inr ((i + 1) mod 4, s') \<and> keeps_place s s'"
proof -
  have c: "spinnay ! i \<in> set [124, 47, 45, 92]" using spinnay_chars assms(2) by blast
  then have u: "ucast (scast (spinnay ! i) :: u32) = spinnay ! i" by (auto simp: spinnay_def)
  have "render spinner_format [Int32 (scast (spinnay ! i))] =
      Some ([27, 91, 115, 27, 91] @ [50, 52] @ [59] @ [48] @ [102] @ [spinnay ! i] @ [27, 91, 117])"
    using c by (auto simp: spinner_format_def bytes_of_def of_char_def u)
  from printf_status_line [OF assms(1) this] show ?thesis
    using c assms(2) by (auto simp: spinner_round_def spinnay_chars dec16_def plain_char_def)
qed

lemma show_progress_place:
  assumes "ready_console s"
  shows "\<exists>n s'. show_progress r p s = Inr (n, s') \<and> keeps_place s s'"
proof -
  let ?v = "of_nat (progress r p) :: u32"
  have "render (27 # bytes_of ''[s'' @ 27 # bytes_of ''[23;0fComputing primes: %%%zu'' @ 27 # bytes_of ''[u'') [Int32 ?v] =
      Some ([27, 91, 115, 27, 91] @ [50, 51] @ [59] @ [48] @ [102] @ (bytes_of ''Computing primes: %'' @ dec (unat ?v)) @ [27, 91, 117])"
    by (simp add: bytes_of_def of_char_def)
  from printf_status_line [OF assms this] show ?thesis
    using dec_plain by (auto simp: show_progress_def dec16_def plain_char_def bytes_of_def of_char_def)
qed

lemma show_count_place:
  assumes "ready_console s"
  shows "\<exists>n s'. show_count r k s = Inr (n, s') \<and> keeps_place s s'"
proof -
  let ?v = "of_nat k :: u32" and ?m = "of_nat (PRIME_MAX r) :: u32"
  have "render (27 # bytes_of ''[s'' @ 27 # bytes_of ''[23;0fFound %zu primes between 2 and %u.'' @ 27 # bytes_of ''[u'') [Int32 ?v, Int32 ?m] =
      Some ([27, 91, 115, 27, 91] @ [50, 51] @ [59] @ [48] @ [102] @
        (bytes_of ''Found '' @ dec (unat ?v) @ bytes_of '' primes between 2 and '' @ dec (unat ?m) @ [46]) @ [27, 91, 117])"
    by (simp add: bytes_of_def of_char_def)
  from printf_status_line [OF assms this] show ?thesis
    using dec_plain by (auto simp: show_count_def dec16_def plain_char_def bytes_of_def of_char_def)
qed

lemma spinner_rounds_place:
  assumes "ready_console s" "i < 4"
  shows "\<exists>s'. foldE (\<lambda>_. spinner_round) [0..<n] (i, s) = Inr ((i + n) mod 4, s') \<and> keeps_place s s'"
proof (induction n)
  case (Suc n)
  then obtain s1 where s1: "foldE (\<lambda>_. spinner_round) [0..<n] (i, s) = Inr ((i + n) mod 4, s1)" "keeps_place s s1" by blast
  then obtain s2 where "spinner_round ((i + n) mod 4, s1) = Inr (((i + n) mod 4 + 1) mod 4, s2)" "keeps_place s1 s2"
    using spinner_round_place [of s1 "(i + n) mod 4"] by auto
  then show ?case using s1 by (auto simp: foldE_append mod_simps)
qed (use assms in simp)

text \<open>the tasks' status lines do not disturb other output.  On a console that is ready for text, with the
  graphics off or with a frame buffer that has room for 80 by 25 characters, any number of rounds of the
  spinner, every progress message and the final count of the prime search are printed without a fault, leave
  the cursor and the colours as they were and the console ready for text; the spinner steps through its
  four characters in order.\<close>

theorem status_lines_keep_cursor:
  assumes "ready_console s" "i < 4"
  shows "(\<exists>s'. foldE (\<lambda>_. spinner_round) [0..<rounds] (i, s) = Inr ((i + rounds) mod 4, s') \<and> ready_console s'
      \<and> cursorX s' = cursorX s \<and> cursorY s' = cursorY s \<and> colorFore s' = colorFore s \<and> colorBack s' = colorBack s)
    \<and> (\<exists>n s'. show_progress r prime_current s = Inr (n, s') \<and> ready_console s'
      \<and> cursorX s' = cursorX s \<and> cursorY s' = cursorY s \<and> colorFore s' = colorFore s \<and> colorBack s' = colorBack s)
    \<and> (\<exists>n s'. show_count r count s = Inr (n, s') \<and> ready_console s'
      \<and> cursorX s' = cursorX s \<and> cursorY s' = cursorY s \<and> colorFore s' = colorFore s \<and> colorBack s' = colorBack s)"
  using spinner_rounds_place [OF assms] show_progress_place [OF assms(1)] show_count_place [OF assms(1)] by blast

definition demo_screen :: gfx where
  "demo_screen = \<lparr>gfx_info = None, backbuffer = [], gfx_initialized = False, vram = []\<rparr>"

lemma demo_ready: "ready_console (console_start demo_screen)"
  by (simp add: ready_console_def console_start_def screen_ok_def demo_screen_def)

theorem status_lines_keep_cursor_witness:
  "\<exists>s'. foldE (\<lambda>_. spinner_round) [0..<7] (2, console_start demo_screen) = Inr (1, s') \<and> cursorX s' = 0 \<and> cursorY s' = 0"
  using status_lines_keep_cursor [OF demo_ready, of 2 7 0 0 0]
  by (auto simp: console_start_def simp del: foldE.simps upt_Suc)

section \<open>The animation\<close>

lemma rect_rows_inside:
  assumes "gfx_ok f g" "X < unat (fb_width f)" "unat e < unat (fb_height f)" "unat y \<le> unat e + 1"
  shows "\<exists>g'. rect_rows c (of_nat X) y e g = Some (Inr g') \<and> gfx_ok f g' \<and> vram g' = vram g"
  using assms(1,4)
proof (induction "unat e + 1 - unat y" arbitrary: y g)
  case 0
  then show ?case by (subst rect_rows.simps) (simp add: word_le_nat_alt)
next
  case (Suc d)
  then have le: "unat y \<le> unat e" by simp
  then obtain g1 where g1: "pixel (of_nat X) y c g = Inr g1" "gfx_ok f g1" "vram g1 = vram g"
    using pixel_at [OF Suc.prems(1) assms(2), of "unat y" c] assms(3) by auto
  have d: "d = unat e - unat y" using Suc.hyps(2) le by simp
  have "unat (y + 1) = unat y + 1"
    using le assms(3) unat_lt_u32 [of "fb_height f"] by (simp add: unat_word_ariths)
  then obtain g' where "rect_rows c (of_nat X) (y + 1) e g1 = Some (Inr g')" "gfx_ok f g'" "vram g' = vram g1"
    using Suc.hyps(1) [of "y + 1" g1] d g1(2) le by auto
  then show ?case using g1 le by (subst rect_rows.simps) (simp add: word_le_nat_alt)
qed

lemma rect_cols_inside:
  assumes "gfx_ok f g" "unat (y + h) < unat (fb_height f)" "unat y \<le> unat (y + h) + 1" "unat e < unat (fb_width f)" "unat x \<le> unat e + 1"
  shows "\<exists>g'. rect_cols c y h x e g = Some (Inr g') \<and> gfx_ok f g' \<and> vram g' = vram g"
  using assms(1,5)
proof (induction "unat e + 1 - unat x" arbitrary: x g)
  case 0
  then show ?case by (subst rect_cols.simps) (simp add: word_le_nat_alt)
next
  case (Suc d)
  then have le: "unat x \<le> unat e" by simp
  then obtain g1 where g1: "rect_rows c x y (y + h) g = Some (Inr g1)" "gfx_ok f g1" "vram g1 = vram g"
    using rect_rows_inside [OF Suc.prems(1) _ assms(2,3), of "unat x" c] assms(4) by auto
  have d: "d = unat e - unat x" using Suc.hyps(2) le by simp
  have "unat (x + 1) = unat x + 1"
    using le assms(4) unat_lt_u32 [of "fb_width f"] by (simp add: unat_word_ariths)
  then obtain g' where "rect_cols c y h (x + 1) e g1 = Some (Inr g')" "gfx_ok f g'" "vram g' = vram g1"
    using Suc.hyps(1) [of "x + 1" g1] d g1(2) le by auto
  then show ?case using g1 le by (subst rect_cols.simps) (simp add: word_le_nat_alt)
qed

text \<open>A rectangle inside the screen is painted and shown; the loops end.\<close>

definition shown :: "framebuffer \<Rightarrow> gfx \<Rightarrow> bool" where
  "shown f g \<longleftrightarrow> gfx_ok f g \<and> length (vram g) = length (backbuffer g)"

lemma gfx_ok_lengths: "gfx_ok f g \<Longrightarrow> gfx_ok f g' \<Longrightarrow> length (backbuffer g) = length (backbuffer g')"
  by (simp add: gfx_ok_def)

lemma swap_shown: "shown f g \<Longrightarrow> \<exists>g'. swap g = Inr g' \<and> shown f g'"
  using swap_shows_backbuffer [of f g] by (auto simp: shown_def gfx_ok_def)

lemma putrect_shown:
  assumes "shown f g" "unat x + unat w < unat (fb_width f)" "unat y + unat h < unat (fb_height f)"
  shows "\<exists>g'. putrect x y w h c g = Inr g' \<and> shown f g'"
proof -
  have u: "unat (x + w) = unat x + unat w" "unat (y + h) = unat y + unat h"
    using assms(2,3) unat_lt_u32 [of "fb_width f"] unat_lt_u32 [of "fb_height f"] by (simp_all add: unat_word_ariths)
  obtain g1 where g1: "rect_cols c y h x (x + w) g = Some (Inr g1)" "gfx_ok f g1" "vram g1 = vram g"
    using rect_cols_inside [of f g y h "x + w" x c] assms u by (auto simp: shown_def)
  then have "shown f g1" using assms(1) gfx_ok_lengths [of f g g1] by (simp add: shown_def)
  then show ?thesis using g1(1) swap_shown [of f g1] assms(1) by (simp add: putrect_def shown_def gfx_ok_def)
qed

lemma resetDoubleBuffer_shown: "shown f g \<Longrightarrow> \<exists>g'. resetDoubleBuffer g = Inr g' \<and> shown f g'"
  using unat_mult_lem [of "fb_pitch f" "fb_height f"]
  by (auto simp: resetDoubleBuffer_def shown_def gfx_ok_def copy_block_def fb_bytes_def)

text \<open>On a screen of more than 280 by 280 pixels the animation runs for ever; the moving square goes through the
  columns 20, 30, up to 260 and starts again.\<close>

definition snake_column :: "nat \<Rightarrow> nat" where
  "snake_column n = (if n = 0 then 10 else 20 + 10 * ((n - 1) mod 25))"

lemma snake_column_Suc: "snake_column (Suc n) = (if snake_column n > 250 then 10 else snake_column n) + 10"
proof (cases n)
  case (Suc m)
  have "m mod 25 < 25" by simp
  then show ?thesis using Suc by (auto simp: snake_column_def mod_Suc)
qed (simp add: snake_column_def)

lemma snake_column_bound: "snake_column n \<le> 260"
proof -
  have "(n - 1) mod 25 < 25" by simp
  then have "20 + 10 * ((n - 1) mod 25) \<le> 260" by linarith
  then show ?thesis by (simp only: snake_column_def split: if_split) simp
qed

lemma animation_runs:
  assumes "shown f g" "280 < unat (fb_width f)" "280 < unat (fb_height f)"
  shows "\<exists>g'. testAnimation n g = Inr (snake_column n, g') \<and> shown f g'"
proof (induction n)
  case 0
  then show ?case using assms by (simp add: testAnimation_def snake_column_def)
next
  case (Suc n)
  then obtain g0 where g0: "testAnimation n g = Inr (snake_column n, g0)" "shown f g0" by blast
  have u: "unat (of_nat (snake_column (Suc n)) :: u32) = snake_column (Suc n)"
    using snake_column_bound [of "Suc n"] by (intro unat_of_nat_u32) simp
  obtain g1 where g1: "resetDoubleBuffer g0 = Inr g1" "shown f g1" using resetDoubleBuffer_shown g0(2) by blast
  obtain g2 where g2: "putrect 0 0 280 280 0x00FFFF g1 = Inr g2" "shown f g2"
    using putrect_shown [OF g1(2), of 0 280 0 280] assms(2,3) by auto
  obtain g3 where g3: "putrect (of_nat (snake_column (Suc n))) 10 10 10 0xFF0000 g2 = Inr g3" "shown f g3"
    using putrect_shown [OF g2(2), of "of_nat (snake_column (Suc n))" 10 10 10] assms(2,3) snake_column_bound [of "Suc n"] u by auto
  obtain g4 where g4: "putrect 50 30 10 10 0xFFFF00 g3 = Inr g4" "shown f g4"
    using putrect_shown [OF g3(2), of 50 10 30 10] assms(2,3) by auto
  obtain g5 where "swap g4 = Inr g5" "shown f g5" using swap_shown g4(2) by blast
  then have "animation_frame (snake_column n, g0) = Inr (snake_column (Suc n), g5)" "shown f g5"
    using g1(1) g2(1) g3(1) g4(1) by (simp_all add: animation_frame_def Let_def snake_column_Suc del: of_nat_add of_nat_Suc)
  then show ?case using g0(1) by (simp add: testAnimation_def foldE_append)
qed

end
