(* ===== verification/Scoped_Lock.thy ===== *)
theory Scoped_Lock
  imports Locking Paging
begin

text \<open>
  The users of a mutex: the whole of \<open>Mutex::lock\<close>, the scoped lock of \<open>Kernel/Locking/RAII.hpp\<close>, and the
  hooks and operators of \<open>Kernel/Memory/heap.cpp\<close>.  A task that finds the mutex taken gives up the processor;
  what the other tasks have made of the mutex and the scheduler when it runs again the \<open>i\<close>-th time is the
  parameter \<open>resume i\<close>.  The allocator behind \<open>malloc\<close> and \<open>free\<close> is a library of its own and a parameter.
\<close>

section \<open>Lock and unlock\<close>

partial_function (option) Mutex_lock ::
    "(nat \<Rightarrow> mutex \<times> sched \<Rightarrow> mutex \<times> sched) \<Rightarrow> nat \<Rightarrow> nat \<Rightarrow> mutex \<Rightarrow> sched \<Rightarrow> (bool \<times> mutex \<times> sched) outcome option" where
  "Mutex_lock resume n i m s =
     (case lock_iteration n m s of
        Inl e \<Rightarrow> Some (Inl e)
      | Inr r \<Rightarrow> if fst r then Some (Inr (True, snd r))
                 else Mutex_lock resume n (i + 1) (fst (resume i (snd r))) (snd (resume i (snd r))))"

text \<open>The constructor of the scoped lock takes the mutex and its destructor releases it.\<close>

definition RAIIMutex ::
    "(nat \<Rightarrow> mutex \<times> sched \<Rightarrow> mutex \<times> sched) \<Rightarrow> nat \<Rightarrow> mutex \<Rightarrow> sched \<Rightarrow> (mutex \<times> sched) outcome option" where
  "RAIIMutex resume n m s = (case Mutex_lock resume n 0 m s of None \<Rightarrow> None | Some r \<Rightarrow> Some (bindE r (\<lambda>(_, st). Inr st)))"

definition RAIIMutex_destruct :: "nat \<Rightarrow> mutex \<Rightarrow> sched \<Rightarrow> (mutex \<times> sched) outcome" where
  "RAIIMutex_destruct n m s = bindE (unlock n m s) (\<lambda>(_, st). Inr st)"

definition lockedRegion ::
    "(nat \<Rightarrow> mutex \<times> sched \<Rightarrow> mutex \<times> sched) \<Rightarrow> nat \<Rightarrow> (mutex \<times> sched \<times> 'x \<Rightarrow> (mutex \<times> sched \<times> 'x) outcome)
       \<Rightarrow> mutex \<times> sched \<times> 'x \<Rightarrow> (mutex \<times> sched \<times> 'x) outcome option" where
  "lockedRegion resume n lockedWork = (\<lambda>(m, s, x).
     (case RAIIMutex resume n m s of
        None \<Rightarrow> None
      | Some r \<Rightarrow> Some (bindE r (\<lambda>(m1, s1).
          bindE (lockedWork (m1, s1, x)) (\<lambda>(m2, s2, x1).
          bindE (RAIIMutex_destruct n m2 s2) (\<lambda>(m3, s3). Inr (m3, s3, x1)))))))"

section \<open>The heap\<close>

definition liballoc_lock ::
    "(nat \<Rightarrow> mutex \<times> sched \<Rightarrow> mutex \<times> sched) \<Rightarrow> nat \<Rightarrow> mutex \<Rightarrow> sched \<Rightarrow> (int \<times> mutex \<times> sched) outcome option" where
  "liballoc_lock resume n m s =
     (case Mutex_lock resume n 0 m s of
        None \<Rightarrow> None
      | Some r \<Rightarrow> Some (bindE r (\<lambda>(b, m1, s1). Inr (if b then 0 else 1, m1, s1))))"

definition liballoc_unlock :: "nat \<Rightarrow> mutex \<Rightarrow> sched \<Rightarrow> (int \<times> mutex \<times> sched) outcome" where
  "liballoc_unlock n m s = bindE (unlock n m s) (\<lambda>(b, m1, s1). Inr (if b then 0 else 1, m1, s1))"

definition operator_new :: "(u32 \<Rightarrow> 'h \<Rightarrow> u32 \<times> 'h) \<Rightarrow> u32 \<Rightarrow> 'h \<Rightarrow> u32 \<times> 'h" where
  "operator_new malloc sz h = malloc sz h"

definition operator_new_array :: "(u32 \<Rightarrow> 'h \<Rightarrow> u32 \<times> 'h) \<Rightarrow> u32 \<Rightarrow> 'h \<Rightarrow> u32 \<times> 'h" where
  "operator_new_array malloc sz h = malloc sz h"

definition operator_delete :: "(u32 \<Rightarrow> 'h \<Rightarrow> 'h) \<Rightarrow> u32 \<Rightarrow> 'h \<Rightarrow> 'h" where
  "operator_delete free p h = free p h"

definition operator_delete_array :: "(u32 \<Rightarrow> 'h \<Rightarrow> 'h) \<Rightarrow> u32 \<Rightarrow> 'h \<Rightarrow> 'h" where
  "operator_delete_array free p h = free p h"

definition operator_delete_sized :: "(u32 \<Rightarrow> 'h \<Rightarrow> 'h) \<Rightarrow> u32 \<Rightarrow> u32 \<Rightarrow> 'h \<Rightarrow> 'h" where
  "operator_delete_sized free p sz h = free p h"

definition operator_delete_array_sized :: "(u32 \<Rightarrow> 'h \<Rightarrow> 'h) \<Rightarrow> u32 \<Rightarrow> u32 \<Rightarrow> 'h \<Rightarrow> 'h" where
  "operator_delete_array_sized free p sz h = free p h"

section \<open>When the lock is taken\<close>

lemma Mutex_lock_free: "\<not> m_isLocked m \<Longrightarrow> Mutex_lock resume n i m s = Some (Inr (True, m\<lparr>m_isLocked := True\<rparr>, s))"
  by (simp add: Mutex_lock.simps lock_iteration_def test_and_set_def)

text \<open>The states in which the task looks at the mutex, one after the other.\<close>

fun looks :: "(nat \<Rightarrow> mutex \<times> sched \<Rightarrow> mutex \<times> sched) \<Rightarrow> nat \<Rightarrow> nat \<Rightarrow> mutex \<times> sched \<Rightarrow> nat \<Rightarrow> (mutex \<times> sched) outcome" where
  "looks resume n i st 0 = Inr st"
| "looks resume n i st (Suc k) =
     bindE (lock_iteration n (fst st) (snd st)) (\<lambda>(_, st1). looks resume n (i + 1) (resume i st1) k)"

lemma Mutex_lock_eventually:
  assumes "\<forall>j<k. \<exists>st'. looks resume n i (m, s) j = Inr st' \<and> m_isLocked (fst st')"
    and "looks resume n i (m, s) k = Inr (m', s')" "\<not> m_isLocked m'"
  shows "Mutex_lock resume n i m s = Some (Inr (True, m'\<lparr>m_isLocked := True\<rparr>, s'))"
  using assms
proof (induction k arbitrary: i m s)
  case 0
  then show ?case by (simp add: Mutex_lock_free)
next
  case (Suc k)
  have l: "m_isLocked m" using Suc.prems(1) by auto
  obtain s1 where s1: "lock_iteration n m s = Inr (False, m, s1)"
  proof (cases "task_only (tasks_sync_block n (mx_sync m)) s")
    case (Inl e)
    then show ?thesis using Suc.prems(2) l by (simp add: lock_iteration_def test_and_set_def)
  next
    case (Inr s1)
    then show ?thesis using that l by (cases m) (simp add: lock_iteration_def test_and_set_def)
  qed
  obtain m2 s2 where r: "resume i (m, s1) = (m2, s2)" by fastforce
  have "\<forall>j<k. \<exists>st'. looks resume n (i + 1) (m2, s2) j = Inr st' \<and> m_isLocked (fst st')"
    using Suc.prems(1) s1 r by fastforce
  moreover have "looks resume n (i + 1) (m2, s2) k = Inr (m', s')" using Suc.prems(2) s1 r by simp
  ultimately have "Mutex_lock resume n (i + 1) m2 s2 = Some (Inr (True, m'\<lparr>m_isLocked := True\<rparr>, s'))"
    using Suc.IH Suc.prems(3) by blast
  then show ?case by (subst Mutex_lock.simps) (simp add: s1 r)
qed

text \<open>Before there are tasks nobody else can release a mutex: to lock one twice is to wait for ever.\<close>

lemma Mutex_lock_returns_only_if:
  assumes "Mutex_lock resume n i m s = Some r"
  shows "\<not> (current_task s = None \<and> m_isLocked m \<and> (\<forall>i. resume i (m, s) = (m, s)))"
proof (rule Mutex_lock.raw_induct
    [of "\<lambda>resume n i m s r. \<not> (current_task s = None \<and> m_isLocked m \<and> (\<forall>i. resume i (m, s) = (m, s)))", OF _ assms])
  fix rec :: "(nat \<Rightarrow> mutex \<times> sched \<Rightarrow> mutex \<times> sched) \<Rightarrow> nat \<Rightarrow> nat \<Rightarrow> mutex \<Rightarrow> sched \<Rightarrow> (bool \<times> mutex \<times> sched) outcome option"
  fix resume n i m s r
  assume ih: "\<And>resume n i m s r. rec resume n i m s = Some r \<Longrightarrow>
      \<not> (current_task s = None \<and> m_isLocked m \<and> (\<forall>i. resume i (m, s) = (m, s)))"
    and r: "(case lock_iteration n m s of Inl e \<Rightarrow> Some (Inl e)
      | Inr r \<Rightarrow> if fst r then Some (Inr (True, snd r))
                 else rec resume n (i + 1) (fst (resume i (snd r))) (snd (resume i (snd r)))) = Some r"
  show "\<not> (current_task s = None \<and> m_isLocked m \<and> (\<forall>i. resume i (m, s) = (m, s)))"
  proof
    assume a: "current_task s = None \<and> m_isLocked m \<and> (\<forall>i. resume i (m, s) = (m, s))"
    then have "lock_iteration n m s = Inr (False, m, s)"
      by (cases m) (simp add: lock_iteration_def test_and_set_def task_only_def)
    then have "rec resume n (i + 1) m s = Some r" using r a by simp
    from ih [OF this] a show False by blast
  qed
qed

lemma Mutex_lock_twice_hangs:
  assumes "current_task s = None" "m_isLocked m" "\<forall>i. resume i (m, s) = (m, s)"
  shows "Mutex_lock resume n i m s = None"
  using Mutex_lock_returns_only_if [of resume n i m s] assms by (cases "Mutex_lock resume n i m s") auto

section \<open>The scoped lock\<close>

text \<open>The work runs with the mutex held, and the mutex is free afterwards.  Before there are tasks nothing else
  happens; with tasks, those that waited for the mutex are ready, and the processor goes to the first ready one
  if there was any.\<close>

lemma lockedRegion_no_tasks:
  assumes "\<not> m_isLocked m" "lockedWork (m\<lparr>m_isLocked := True\<rparr>, s, x) = Inr (m1, s1, x1)" "current_task s1 = None"
  shows "lockedRegion resume n lockedWork (m, s, x) = Some (Inr (m1\<lparr>m_isLocked := False\<rparr>, s1, x1))"
  using assms by (simp add: lockedRegion_def RAIIMutex_def RAIIMutex_destruct_def Mutex_lock_free unlock_def task_only_def)

lemma unlock_wakes:
  assumes "quiet s c L"
  shows "\<exists>s'. unlock n m s = Inr (True, m\<lparr>m_isLocked := False\<rparr>, s') \<and>
    (if L (QWait (mx_sync m)) = [] then quiet s' c L
     else quiet s' (hd (L QReady @ L (QWait (mx_sync m))))
       (L(QWait (mx_sync m) := [], QReady := tl (L QReady @ L (QWait (mx_sync m))) @ [c])))"
proof (cases "L (QWait (mx_sync m)) = []")
  case True
  then show ?thesis using tasks_sync_unblock_none [OF assms True, of n] quietD(2) [OF assms] by (auto simp: unlock_def task_only_def)
next
  case False
  let ?a = "mx_sync m"
  let ?L = "L(QWait ?a := [], QReady := L QReady @ L (QWait ?a))"
  obtain s1 where s1: "tasks_sync_unblock n ?a s = bindE (schedule n s1) (release_scheduler_lock n)"
    "hands_over s c ?L s1" "t_state (tasks s1 c) = TASK_RUNNING"
    using tasks_sync_unblock_reduce [OF assms False] by blast
  obtain s' where s': "tasks_sync_unblock n ?a s = Inr s'" "passes_on s' c ?L"
    using finish_running [OF s1(2,3), of n] s1(1) by auto
  obtain t ts where t: "L QReady @ L (QWait ?a) = t # ts" using False by (cases "L QReady @ L (QWait ?a)") auto
  have "quiet s' t (L(QWait ?a := [], QReady := ts @ [c]))"
    using s'(2) by (simp only: passes_on_def fun_upd_same t list.case fun_upd_upd)
  then show ?thesis using s'(1) False quietD(2) [OF assms] unfolding t
    by (intro exI [of _ s']) (simp add: unlock_def task_only_def del: fun_upd_apply)
qed

lemma lockedRegion_tasks:
  assumes "\<forall>j<k. \<exists>st'. looks resume n 0 (m, s) j = Inr st' \<and> m_isLocked (fst st')"
    and "looks resume n 0 (m, s) k = Inr (m0, s0)" "\<not> m_isLocked m0"
    and "lockedWork (m0\<lparr>m_isLocked := True\<rparr>, s0, x) = Inr (m1, s1, x1)" "quiet s1 c L"
  shows "\<exists>s2. lockedRegion resume n lockedWork (m, s, x) = Some (Inr (m1\<lparr>m_isLocked := False\<rparr>, s2, x1))
    \<and> (if L (QWait (mx_sync m1)) = [] then quiet s2 c L
       else quiet s2 (hd (L QReady @ L (QWait (mx_sync m1))))
         (L(QWait (mx_sync m1) := [], QReady := tl (L QReady @ L (QWait (mx_sync m1))) @ [c])))"
  using unlock_wakes [OF assms(5), of n m1] Mutex_lock_eventually [OF assms(1-3)] assms(4)
  by (auto simp: lockedRegion_def RAIIMutex_def RAIIMutex_destruct_def)

lemma liballoc_lock_unlock:
  assumes "\<not> m_isLocked m" "current_task s = None"
  shows "liballoc_lock resume n m s = Some (Inr (0, m\<lparr>m_isLocked := True\<rparr>, s))"
    "liballoc_unlock n (m\<lparr>m_isLocked := True\<rparr>) s = Inr (0, m, s)"
  using assms by (cases m; simp add: liballoc_lock_def Mutex_lock_free liballoc_unlock_def unlock_def task_only_def)+

end
