(* ===== verification/Task_Listing.thy ===== *)
theory Task_Listing
  imports Scheduler_Invariant Logging
begin

text \<open>
  The debugging output of \<open>Kernel/Scheduler/tasks.cpp\<close>: a task, a list of tasks and the list a task is on are
  written to the log.  The loop follows the \<open>next\<close> pointers; it ends because the list does.
\<close>

section \<open>Functions\<close>

fun state_lists :: "task_state \<Rightarrow> qid option" where
  "state_lists TASK_RUNNING = None"
| "state_lists TASK_READY = Some QReady"
| "state_lists TASK_SLEEPING = Some QSleeping"
| "state_lists TASK_BLOCKED = None"
| "state_lists TASK_STOPPED = Some QStopped"
| "state_lists TASK_PAUSED = None"

fun state_names :: "task_state \<Rightarrow> string" where
  "state_names TASK_RUNNING = ''RUNNING''"
| "state_names TASK_READY = ''READY''"
| "state_names TASK_SLEEPING = ''SLEEPING''"
| "state_names TASK_BLOCKED = ''BLOCKED''"
| "state_names TASK_STOPPED = ''STOPPED''"
| "state_names TASK_PAUSED = ''PAUSED''"

definition print_task :: "('w, 's) caller \<Rightarrow> 'w logger \<Rightarrow> u8 list \<Rightarrow> task \<Rightarrow> 's \<Rightarrow> 's outcome" where
  "print_task call lg tag t =
     Debug call tag (bytes_of ''%s is %s'') [Str (bytes_of (t_name t)), Str (bytes_of (state_names (t_state t)))] lg"

partial_function (option) print_tasks ::
    "('w, 's) caller \<Rightarrow> 'w logger \<Rightarrow> task_store \<Rightarrow> addr option \<Rightarrow> 's \<Rightarrow> 's outcome option" where
  "print_tasks call lg h t x =
     (case t of
        None \<Rightarrow> Some (Inr x)
      | Some a \<Rightarrow> (case print_task call lg [9] (h a) x of
                     Inl e \<Rightarrow> Some (Inl e)
                   | Inr x1 \<Rightarrow> print_tasks call lg h (t_next (h a)) x1))"

definition print_tasklist :: "('w, 's) caller \<Rightarrow> 'w logger \<Rightarrow> string \<Rightarrow> tasklist \<Rightarrow> task_store \<Rightarrow> 's \<Rightarrow> 's outcome option" where
  "print_tasklist call lg nm list h x =
     (case Verbose call (bytes_of ''_print_tasklist'') (bytes_of ''%s:'') [Str (bytes_of nm)] lg x of
        Inl e \<Rightarrow> Some (Inl e)
      | Inr x1 \<Rightarrow> print_tasks call lg h (tl_head list) x1)"

definition print_tasklist_of :: "('w, 's) caller \<Rightarrow> 'w logger \<Rightarrow> addr \<Rightarrow> sched \<Rightarrow> 's \<Rightarrow> 's outcome option" where
  "print_tasklist_of call lg task s x =
     (let state = t_state (tasks s task); state_name = state_names state
      in case state_lists state of
           None \<Rightarrow> Some (Warning call (bytes_of ''_print_tasklist'') (bytes_of ''no tasklist available for %s tasks.'')
                     [Str (bytes_of state_name)] lg x)
         | Some q \<Rightarrow> print_tasklist call lg state_name (qlist s q) (tasks s) x)"

section \<open>The list is printed in order, and the loop ends\<close>

lemma print_tasks_chain:
  "chain h p xs None \<Longrightarrow> print_tasks call lg h p x = Some (foldE (\<lambda>a. print_task call lg [9] (h a)) xs x)"
proof (induction xs arbitrary: p x)
  case Nil
  then show ?case by (subst print_tasks.simps) simp
next
  case (Cons a xs)
  then show ?case by (subst print_tasks.simps) (auto split: sum.split)
qed

lemma print_tasklist_of_all:
  assumes "sched_ok s L" "state_lists (t_state (tasks s t)) = Some q"
  shows "print_tasklist_of call lg t s x =
    Some (bindE (Verbose call (bytes_of ''_print_tasklist'') (bytes_of ''%s:'') [Str (bytes_of (state_names (t_state (tasks s t))))] lg x)
      (foldE (\<lambda>a. print_task call lg [9] (tasks s a)) (L q)))"
proof -
  have "chain (tasks s) (tl_head (qlist s q)) (L q) None"
    using queues_okD(1) [OF assms(1), of q] by (simp add: tlist_def)
  then show ?thesis using assms(2)
    by (auto simp: print_tasklist_of_def print_tasklist_def print_tasks_chain Let_def split: sum.split)
qed

end
