(* ===== verification/Printf_Spec.thy ===== *)
theory Printf_Spec
  imports Printf
begin

text \<open>
  A reference for \<open>Kernel/Library/printf.cpp\<close>.  A format is a sequence of pieces: a character, \<open>%%\<close>, or a field
  with its flags, width, modifiers and conversion.  Each piece has its spelling in the format string, its
  argument and the text it stands for, which is given without flags, buffers or states.  The theorem says that the
  format machine prints exactly these texts, one after the other.
\<close>

section \<open>Pieces of a format\<close>

record field_spec =
  fs_left :: bool
  fs_zero :: bool
  fs_width :: nat
  fs_mods :: "u8 list"
  fs_conv :: u8

datatype piece = Literal u8 | Percent | Field field_spec va

definition spelling :: "field_spec \<Rightarrow> u8 list" where
  "spelling s = 37 # (if fs_left s then [45] else []) @ (if fs_zero s then [48] else [])
     @ (if fs_width s = 0 then [] else dec (fs_width s)) @ fs_mods s @ [fs_conv s]"

fun format_of :: "piece \<Rightarrow> u8 list" where
  "format_of (Literal c) = [c]"
| "format_of Percent = [37, 37]"
| "format_of (Field s a) = spelling s"

fun args_of :: "piece \<Rightarrow> va list" where
  "args_of (Field s a) = [a]"
| "args_of _ = []"

section \<open>What a piece prints\<close>

definition digit_text :: "bool \<Rightarrow> nat \<Rightarrow> u8" where
  "digit_text upper d = (if d < 10 then of_nat (48 + d) else of_nat ((if upper then 65 else 97) + (d - 10)))"

fun radix_text :: "bool \<Rightarrow> nat \<Rightarrow> nat \<Rightarrow> u8 list" where
  "radix_text upper b n =
     (if n < b \<or> b \<le> 1 then [digit_text upper n] else radix_text upper b (n div b) @ [digit_text upper (n mod b)])"

declare radix_text.simps [simp del]

definition justify :: "bool \<Rightarrow> bool \<Rightarrow> nat \<Rightarrow> u8 list \<Rightarrow> u8 list \<Rightarrow> nat \<Rightarrow> u8 list" where
  "justify left zero w sign body n =
     (if left then sign @ body @ replicate (w - n) 32
      else if zero then sign @ replicate (w - n) 48 @ body
      else replicate (w - n) 32 @ sign @ body)"

fun number_of :: "va \<Rightarrow> u32" where
  "number_of (Int32 v) = v"
| "number_of (Int64 v) = ucast v"
| "number_of (Str s) = 0"

text \<open>\<open>X\<close>, \<open>x\<close> and \<open>p\<close> always have eight digits; \<open>n\<close> is hexadecimal as well.\<close>

definition number_text :: "field_spec \<Rightarrow> u32 \<Rightarrow> u8 list" where
  "number_text s v =
     (let hex = fs_conv s \<in> {88, 120, 112};
          negative = fs_conv s \<in> {100, 105} \<and> sint v < 0;
          radix = (if hex \<or> fs_conv s = 110 then 16 else if fs_conv s = 111 then 8 else 10);
          sign = (if negative then [45] else []);
          body = radix_text (fs_conv s = 88) radix (if negative then nat (- sint v) else unat v)
      in justify (fs_left s) (fs_zero s \<or> hex) (if hex then 8 else fs_width s) sign body (length (sign @ body)))"

definition field_text :: "field_spec \<Rightarrow> va \<Rightarrow> u8 list" where
  "field_text s a =
     (if fs_conv s = 115 then (case a of Str t \<Rightarrow> justify (fs_left s) False (fs_width s) [] t (length t) | _ \<Rightarrow> [])
      else if fs_conv s = 99
      then justify (fs_left s) False (fs_width s) [] (if ucast (number_of a) = (0 :: u8) then [] else [ucast (number_of a)]) 1
      else number_text s (number_of a))"

fun text_of :: "piece \<Rightarrow> u32 list" where
  "text_of (Literal c) = [scast c]"
| "text_of Percent = [37]"
| "text_of (Field s a) = map ucast (field_text s a)"

definition fitting :: "field_spec \<Rightarrow> va \<Rightarrow> bool" where
  "fitting s a \<longleftrightarrow>
     (if fs_conv s = 115 then (\<exists>t. a = Str t \<and> 0 \<notin> set t \<and> length t < 2 ^ 32)
      else if fs_conv s = 99 \<or> 76 \<notin> set (fs_mods s) then (\<exists>v. a = Int32 v) else (\<exists>v. a = Int64 v))"

fun wf_piece :: "piece \<Rightarrow> bool" where
  "wf_piece (Literal c) \<longleftrightarrow> c \<noteq> 37 \<and> c \<noteq> 0"
| "wf_piece Percent \<longleftrightarrow> True"
| "wf_piece (Field s a) \<longleftrightarrow> fs_width s < 2 ^ 32 \<and> set (fs_mods s) \<subseteq> {70, 78, 122, 108, 76, 104}
     \<and> fs_conv s \<in> {88, 120, 112, 110, 100, 105, 117, 111, 99, 115} \<and> fitting s a"

section \<open>Flags\<close>

lemma flag_bits:
  "fl AND PR_LJ \<noteq> 0 \<longleftrightarrow> bit fl 0" "fl AND PR_CA \<noteq> 0 \<longleftrightarrow> bit fl 1" "fl AND PR_SG \<noteq> 0 \<longleftrightarrow> bit fl 2"
  "fl AND PR_64 \<noteq> 0 \<longleftrightarrow> bit fl 3" "fl AND PR_WS \<noteq> 0 \<longleftrightarrow> bit fl 6" "fl AND PR_LZ \<noteq> 0 \<longleftrightarrow> bit fl 7"
  "fl AND PR_LJ = 0 \<longleftrightarrow> \<not> bit fl 0"
proof -
  have "fl AND push_bit k 1 \<noteq> 0 \<longleftrightarrow> bit fl k" if "k < 32" for k and fl :: u32
    using that by (auto simp: bit_eq_iff [where 'a = u32] bit_simps)
  from this [of 0 fl] this [of 1 fl] this [of 2 fl] this [of 3 fl] this [of 6 fl] this [of 7 fl]
  show "fl AND PR_LJ \<noteq> 0 \<longleftrightarrow> bit fl 0" "fl AND PR_CA \<noteq> 0 \<longleftrightarrow> bit fl 1" "fl AND PR_SG \<noteq> 0 \<longleftrightarrow> bit fl 2"
    "fl AND PR_64 \<noteq> 0 \<longleftrightarrow> bit fl 3" "fl AND PR_WS \<noteq> 0 \<longleftrightarrow> bit fl 6" "fl AND PR_LZ \<noteq> 0 \<longleftrightarrow> bit fl 7"
    "fl AND PR_LJ = 0 \<longleftrightarrow> \<not> bit fl 0"
    by (simp_all add: PR_defs) blast
qed

lemma bit_PR:
  "bit PR_LJ n \<longleftrightarrow> n = 0" "bit PR_CA n \<longleftrightarrow> n = 1" "bit PR_SG n \<longleftrightarrow> n = 2" "bit PR_64 n \<longleftrightarrow> n = 3" "bit PR_32 n \<longleftrightarrow> n = 4"
  "bit PR_16 n \<longleftrightarrow> n = 5" "bit PR_WS n \<longleftrightarrow> n = 6" "bit PR_LZ n \<longleftrightarrow> n = 7" "bit PR_FP n \<longleftrightarrow> n = 8"
proof -
  have "bit (push_bit k 1 :: u32) n \<longleftrightarrow> n = k" if "k < 32" for k n using that by (auto simp: bit_simps)
  from this [of 0 n] this [of 1 n] this [of 2 n] this [of 3 n] this [of 4 n] this [of 5 n] this [of 6 n] this [of 7 n] this [of 8 n]
  show "bit PR_LJ n \<longleftrightarrow> n = 0" "bit PR_CA n \<longleftrightarrow> n = 1" "bit PR_SG n \<longleftrightarrow> n = 2" "bit PR_64 n \<longleftrightarrow> n = 3" "bit PR_32 n \<longleftrightarrow> n = 4"
    "bit PR_16 n \<longleftrightarrow> n = 5" "bit PR_WS n \<longleftrightarrow> n = 6" "bit PR_LZ n \<longleftrightarrow> n = 7" "bit PR_FP n \<longleftrightarrow> n = 8"
    by (simp_all add: PR_defs)
qed

lemma sign_flags:
  "fl AND (PR_WS OR PR_LZ) = PR_WS \<longleftrightarrow> bit fl 6 \<and> \<not> bit fl 7"
  "fl AND (PR_WS OR PR_LZ) = (PR_WS OR PR_LZ) \<longleftrightarrow> bit fl 6 \<and> bit fl 7"
  by (auto simp: bit_eq_iff [where 'a = u32] bit_simps bit_PR dest: spec [of _ 6] spec [of _ 7])

section \<open>Fields\<close>

lemma digit_char_text: "k < 16 \<Longrightarrow> digit_char fl (of_nat k) = digit_text (bit fl 1) k"
proof -
  assume "k < 16"
  then have k: "k \<in> {0, 1, 2, 3, 4, 5, 6, 7, 8, 9, 10, 11, 12, 13, 14, 15}"
    by (simp only: insert_iff empty_iff) presburger
  show ?thesis
    unfolding digit_char_def digit_text_def flag_bits using k by (elim insertE emptyE) simp_all
qed

lemma digits_radix_text:
  assumes "2 \<le> b" "b \<le> 16"
  shows "digits fl b n = radix_text (bit fl 1) b n"
proof (induction n rule: less_induct)
  case (less n)
  have "digit_char fl (of_nat (n mod b)) = digit_text (bit fl 1) (n mod b)"
    using assms by (intro digit_char_text) (simp add: order_less_le_trans [OF mod_less_divisor])
  moreover have "n div b < n" if "\<not> n < b" using that assms by (intro div_less_dividend) auto
  ultimately show ?case using less.IH [of "n div b"] assms by (subst digits.simps, subst radix_text.simps) auto
qed

lemma radix_text_small: "2 \<le> b \<Longrightarrow> b \<le> 16 \<Longrightarrow> 0 \<notin> set (radix_text up b n)"
proof (induction up b n rule: radix_text.induct)
  case (1 up b n)
  have nz: "digit_text up d \<noteq> 0" if "d < 16" for d
  proof -
    have "d \<in> {0, 1, 2, 3, 4, 5, 6, 7, 8, 9, 10, 11, 12, 13, 14, 15}"
      using that by (simp only: insert_iff empty_iff) presburger
    then show ?thesis by (elim insertE emptyE) (simp_all add: digit_text_def)
  qed
  have "n mod b < 16" "n < b \<Longrightarrow> n < 16" using "1.prems" by (simp_all add: order_less_le_trans [OF mod_less_divisor])
  then show ?case using 1 nz [of "n mod b"] nz [of n] by (subst radix_text.simps) (auto simp: not_less)
qed

lemma EMIT2_text:
  "EMIT2 fn ws w st = (emit_all fn
     ((if bit (pr_flags st) 0 then [] else replicate (unat (pr_given_wd st) - unat w) (if bit (pr_flags st) 7 then 48 else 32))
      @ (if bit (pr_flags st) 6 \<and> \<not> bit (pr_flags st) 7 then [45] else [])
      @ map ucast (takeWhile (\<lambda>c. c \<noteq> 0) ws)
      @ (if bit (pr_flags st) 0 then replicate (unat (pr_given_wd st) - unat w) 32 else [])) st)\<lparr>pr_given_wd := 0\<rparr>"
proof -
  have sub: "unat (g - w) = unat g - unat w" if "\<not> g < w" for g :: u32 using that by (simp add: unat_sub not_less)
  have cnt: "of_nat (unat g - unat w) = g - w" if "\<not> g < w" for g :: u32 unfolding sub [OF that, symmetric] by simp
  have z: "unat g - unat w = 0" if "g < w" for g :: u32 using that by (simp add: word_less_nat_alt)
  show ?thesis
    unfolding EMIT2_def Let_def flag_bits sign_flags pad_left_emits
    by (auto simp: pad_right_emits emit_fold emit_def sub cnt z flag_bits sign_flags algebra_simps)
qed

lemma EMIT_text:
  assumes "0 \<notin> set body" "length body + 1 < 2 ^ 32 \<or> \<not> bit (pr_flags st) 6 \<and> length body < 2 ^ 32"
  defines "sign \<equiv> if bit (pr_flags st) 6 then [45] else []"
  shows "EMIT fn body st = (emit_all fn (map ucast (justify (bit (pr_flags st) 0) (bit (pr_flags st) 7) (unat (pr_given_wd st)) sign body
      (length (sign @ body)))) st)\<lparr>pr_given_wd := 0\<rparr>"
proof -
  have l: "unat (of_nat (length body) + 1 :: u32) = length body + 1" if "bit (pr_flags st) 6"
    using that assms(2) unat_of_nat_u32 [of "length body + 1"] by (simp add: add.commute)
  have l0: "unat (of_nat (length body) :: u32) = length body" using assms(2) by (intro unat_of_nat_u32) auto
  let ?w = "if bit (pr_flags st) 6 then of_nat (length body) + 1 else of_nat (length body) :: u32"
  have w: "unat ?w = length (sign @ body)" using l l0 by (simp add: sign_def)
  have e: "EMIT fn body st = EMIT2 fn body ?w (if bit (pr_flags st) 6 \<and> bit (pr_flags st) 7 then emit fn 45 st else st)"
    by (simp only: EMIT_def Let_def flag_bits sign_flags takeWhile_no_zero [OF assms(1)])
  show ?thesis
    unfolding e EMIT2_text w takeWhile_no_zero [OF assms(1)]
    by (auto simp: emit_def justify_def sign_def)
qed

lemma load_num_arg:
  assumes "pr_args st = a # as" "if bit (pr_flags st) 3 then \<exists>v. a = Int64 v else \<exists>v. a = Int32 v"
  shows "load_num st = Inr (number_of a, st\<lparr>pr_args := as\<rparr>)"
  using assms by (auto simp: load_num_def flag_bits split: if_splits)

lemma DO_NUM_text:
  assumes ld: "pr_args st = a # as" "if bit (pr_flags st) 3 then \<exists>v. a = Int64 v else \<exists>v. a = Int32 v"
    and fl: "\<not> bit (pr_flags st) 6" and r: "8 \<le> radix" "radix \<le> 16"
  defines "neg \<equiv> bit (pr_flags st) 2 \<and> sint (number_of a) < 0"
  defines "sign \<equiv> if neg then [45] else []"
    and "body \<equiv> radix_text (bit (pr_flags st) 1) (unat radix) (if neg then nat (- sint (number_of a)) else unat (number_of a))"
  shows "\<exists>fl. DO_NUM fn radix st = Inr ((emit_all fn (map ucast (justify (bit (pr_flags st) 0) (bit (pr_flags st) 7)
      (unat (pr_given_wd st)) sign body (length (sign @ body)))) st)\<lparr>pr_given_wd := 0, pr_args := as, pr_flags := fl\<rparr>)"
proof -
  let ?v = "if neg then - number_of a else number_of a"
  let ?fl = "if neg then pr_flags st OR PR_WS else pr_flags st"
  let ?st = "st\<lparr>pr_args := as, pr_flags := ?fl\<rparr>"
  have b: "bit ?fl 0 = bit (pr_flags st) 0" "bit ?fl 7 = bit (pr_flags st) 7" "bit ?fl 6 = neg" "bit ?fl 1 = bit (pr_flags st) 1"
    using fl by (auto simp: bit_simps bit_PR)
  have rr: "1 < radix" "2 \<le> unat radix" "unat radix \<le> 16" using r by (simp_all add: word_less_nat_alt word_le_nat_alt)
  have "unat ?v = (if neg then nat (- sint (number_of a)) else unat (number_of a))" by (simp add: neg_def unat_uminus_sint)
  then have body: "digit_loop ?fl radix ?v [] = body"
    using digit_loop_digits [OF rr(1), of ?fl ?v "[]"] digits_radix_text [OF rr(2,3), of ?fl] b(4) by (simp add: body_def)
  have len: "length body \<le> 11" using conversion_buffer_suffices [OF r(1), of ?fl ?v] body by simp
  have nz: "0 \<notin> set body" unfolding body_def by (rule radix_text_small [OF rr(2,3)])
  have "take_sign (number_of a) (st\<lparr>pr_args := as\<rparr>) = (?v, ?st)"
    unfolding take_sign_def flag_bits by (simp add: neg_def)
  then have "DO_NUM fn radix st = Inr (EMIT fn body ?st)"
    using load_num_arg [OF ld] body by (simp add: DO_NUM_def)
  moreover have "EMIT fn body ?st = (emit_all fn (map ucast (justify (bit (pr_flags st) 0) (bit (pr_flags st) 7)
      (unat (pr_given_wd st)) sign body (length (sign @ body)))) ?st)\<lparr>pr_given_wd := 0\<rparr>"
    using EMIT_text [OF nz, of ?st fn] len b by (simp add: sign_def)
  ultimately show ?thesis by (intro exI [of _ ?fl]) simp
qed

abbreviation idle :: "va list \<Rightarrow> u32 \<Rightarrow> 'p \<Rightarrow> 'p printer" where
  "idle args n p \<equiv> \<lparr>pr_state = 0, pr_flags = 0, pr_count = n, pr_given_wd = 0, pr_args = args, pr_ptr = p\<rparr>"

lemma conversion_number:
  assumes k: "fs_conv s \<in> {88, 120, 112, 110, 100, 105, 117, 111}" and f: "fitting s a" and w: "fs_width s < 2 ^ 32"
    and st: "pr_args st = a # as" "pr_given_wd st = of_nat (fs_width s)" "bit (pr_flags st) 0 = fs_left s"
      "bit (pr_flags st) 7 = fs_zero s" "bit (pr_flags st) 3 \<longleftrightarrow> 76 \<in> set (fs_mods s)" "\<not> bit (pr_flags st) 1"
      "\<not> bit (pr_flags st) 2" "\<not> bit (pr_flags st) 6"
  shows "\<exists>st'. conversion fn (fs_conv s) st = Inr st' \<and> reset_spec st' =
    idle as (pr_count st + of_nat (length (field_text s a))) (fold fn (map ucast (field_text s a)) (pr_ptr st))"
proof -
  let ?hex = "fs_conv s \<in> {88, 120, 112}"
  let ?st1 = "if fs_conv s = 88 then add_flag PR_CA st else st"
  define st2 where "st2 = (if ?hex then add_flag PR_32 ((add_flag PR_LZ ?st1)\<lparr>pr_given_wd := 8\<rparr>)
     else if fs_conv s \<in> {100, 105} then add_flag PR_SG st else st)"
  define r where "r = (if ?hex \<or> fs_conv s = 110 then 16 else if fs_conv s = 111 then 8 else 10 :: u32)"
  have arg: "if bit (pr_flags st) 3 then \<exists>v. a = Int64 v else \<exists>v. a = Int32 v"
    using f k st(5) by (auto simp: fitting_def)
  have fl: "bit (pr_flags st2) 0 = fs_left s" "bit (pr_flags st2) 7 \<longleftrightarrow> fs_zero s \<or> ?hex" "bit (pr_flags st2) 3 = bit (pr_flags st) 3"
      "bit (pr_flags st2) 1 \<longleftrightarrow> fs_conv s = 88" "bit (pr_flags st2) 2 \<longleftrightarrow> fs_conv s \<in> {100, 105}" "\<not> bit (pr_flags st2) 6"
      "pr_given_wd st2 = (if ?hex then 8 else of_nat (fs_width s))" "pr_args st2 = a # as" "pr_count st2 = pr_count st" "pr_ptr st2 = pr_ptr st"
    using st by (auto simp: st2_def bit_simps bit_PR)
  have ur: "unat r = (if ?hex \<or> fs_conv s = 110 then 16 else if fs_conv s = 111 then 8 else 10)" by (simp add: r_def)
  have rb: "8 \<le> r" "r \<le> 16" by (simp_all add: r_def)
  have uw: "unat (pr_given_wd st2) = (if ?hex then 8 else fs_width s)" using w fl(7) by (simp add: unat_of_nat_u32)
  have conv: "conversion fn (fs_conv s) st = DO_NUM fn r st2" using k by (auto simp: conversion_def st2_def r_def)
  have t: "field_text s a = number_text s (number_of a)" using k by (auto simp: field_text_def)
  obtain fl' where "DO_NUM fn r st2 = Inr ((emit_all fn (map ucast (number_text s (number_of a))) st2)\<lparr>pr_given_wd := 0, pr_args := as, pr_flags := fl'\<rparr>)"
    using DO_NUM_text [OF fl(8) arg [folded fl(3)] fl(6) rb, of fn, unfolded fl(1,2,4,5) uw ur]
    unfolding number_text_def Let_def by blast
  then show ?thesis by (simp only: conv t) (simp add: reset_spec_def fl(9,10))
qed

lemma conversion_text:
  assumes "wf_piece (Field s a)"
    and st: "pr_args st = a # as" "pr_given_wd st = of_nat (fs_width s)" "bit (pr_flags st) 0 = fs_left s"
      "bit (pr_flags st) 7 = fs_zero s" "bit (pr_flags st) 3 \<longleftrightarrow> 76 \<in> set (fs_mods s)" "\<not> bit (pr_flags st) 1"
      "\<not> bit (pr_flags st) 2" "\<not> bit (pr_flags st) 6"
  shows "\<exists>st'. conversion fn (fs_conv s) st = Inr st' \<and> reset_spec st' =
    idle as (pr_count st + of_nat (length (field_text s a))) (fold fn (map ucast (field_text s a)) (pr_ptr st))"
proof -
  let ?st = "st\<lparr>pr_flags := pr_flags st AND NOT PR_LZ, pr_args := as\<rparr>"
  have w: "fs_width s < 2 ^ 32" "unat (of_nat (fs_width s) :: u32) = fs_width s" and f: "fitting s a"
    using assms(1) by (simp_all add: unat_of_nat_u32)
  have fl: "bit (pr_flags ?st) 0 = fs_left s" "\<not> bit (pr_flags ?st) 7" "\<not> bit (pr_flags ?st) 6"
    using st by (auto simp: bit_simps bit_PR)
  consider "fs_conv s = 115" | "fs_conv s = 99" | "fs_conv s \<in> {88, 120, 112, 110, 100, 105, 117, 111}" using assms(1) by auto
  then show ?thesis
  proof cases
    case 1
    then obtain t where t: "a = Str t" "0 \<notin> set t" "length t < 2 ^ 32" using f by (auto simp: fitting_def)
    have "EMIT fn t ?st = (emit_all fn (map ucast (field_text s a)) ?st)\<lparr>pr_given_wd := 0\<rparr>"
      using EMIT_text [OF t(2), of ?st fn] t(1,3) fl st(2) w(2) 1 by (simp add: field_text_def)
    then show ?thesis using 1 t(1) st(1) by (simp add: conversion_def reset_spec_def)
  next
    case 2
    then obtain v where v: "a = Int32 v" using f by (auto simp: fitting_def)
    have "EMIT2 fn [ucast v] 1 ?st = (emit_all fn (map ucast (field_text s a)) ?st)\<lparr>pr_given_wd := 0\<rparr>"
      unfolding EMIT2_text using v fl st(2) w(2) 2 by (simp add: field_text_def justify_def)
    then show ?thesis using 2 v st(1) by (simp add: conversion_def reset_spec_def)
  next
    case 3
    then show ?thesis by (rule conversion_number [OF _ f w(1) st])
  qed
qed

section \<open>Reading a field\<close>

text \<open>The rest of the loop after one step.\<close>

definition go_on :: "(u32 \<Rightarrow> 'p \<Rightarrow> 'p) \<Rightarrow> (u8 list \<times> 'p printer) outcome \<Rightarrow> 'p printer outcome" where
  "go_on fn r = bindE r (\<lambda>(f, st). case f of [] \<Rightarrow> Inl OutOfBounds | _ # f' \<Rightarrow> printf_loop fn f' st)"

lemma printf_loop_go_on: "f \<noteq> [] \<Longrightarrow> printf_loop fn f st = go_on fn (printf_step fn f st)"
  by (cases f) (simp_all add: go_on_def)

lemma read_minus:
  "\<not> bit (pr_flags st) 0 \<Longrightarrow> pr_state st = 1 \<Longrightarrow> f \<noteq> [] \<Longrightarrow>
   go_on fn (state1 fn (45 # f) st) = go_on fn (state1 fn f (add_flag PR_LJ st))"
proof -
  assume a: "\<not> bit (pr_flags st) 0" "pr_state st = 1" "f \<noteq> []"
  then have "go_on fn (state1 fn (45 # f) st) = printf_loop fn f (add_flag PR_LJ st)"
    by (simp add: go_on_def state1_def flag_bits)
  also have "\<dots> = go_on fn (state1 fn f (add_flag PR_LJ st))" using a by (simp add: printf_loop_go_on printf_step_def)
  finally show ?thesis .
qed

lemma read_zero: "go_on fn (state1 fn (48 # f) st) = go_on fn (state2 fn f (add_flag PR_LZ (next_state st)))"
  by (simp add: state1_def)

lemma read_no_flag: "ch f \<notin> {37, 45, 48} \<Longrightarrow> go_on fn (state1 fn f st) = go_on fn (state2 fn f (next_state st))"
  by (simp add: state1_def)

lemma read_width:
  "set ws \<subseteq> {48..57} \<Longrightarrow> pr_state st = 2 \<Longrightarrow> f \<noteq> [] \<Longrightarrow>
   go_on fn (state2 fn (ws @ f) st) = go_on fn (state2 fn f (st\<lparr>pr_given_wd := width_of ws (pr_given_wd st)\<rparr>))"
proof (induction ws arbitrary: st)
  case (Cons w ws)
  have "go_on fn (state2 fn ((w # ws) @ f) st) = printf_loop fn (ws @ f) (st\<lparr>pr_given_wd := 10 * pr_given_wd st + (ucast w - 48)\<rparr>)"
    using Cons.prems by (simp add: go_on_def state2_def)
  also have "\<dots> = go_on fn (state2 fn (ws @ f) (st\<lparr>pr_given_wd := 10 * pr_given_wd st + (ucast w - 48)\<rparr>))"
    using Cons.prems by (simp add: printf_loop_go_on printf_step_def)
  finally show ?case using Cons by (simp add: width_of_def)
qed (simp add: width_of_def)

fun mod_flag :: "u8 \<Rightarrow> u32" where
  "mod_flag m = (if m = 70 then PR_FP else if m = 122 \<or> m = 108 then PR_32 else if m = 76 then PR_64 else if m = 104 then PR_16 else 0)"

lemma read_mods:
  "set ms \<subseteq> {70, 78, 122, 108, 76, 104} \<Longrightarrow> pr_state st = 3 \<Longrightarrow> f \<noteq> [] \<Longrightarrow>
   go_on fn (state3 fn (ms @ f) st) = go_on fn (state3 fn f (st\<lparr>pr_flags := fold (\<lambda>m fl. fl OR mod_flag m) ms (pr_flags st)\<rparr>))"
proof (induction ms arbitrary: st)
  case (Cons m ms)
  have "go_on fn (state3 fn ((m # ms) @ f) st) = printf_loop fn (ms @ f) (st\<lparr>pr_flags := pr_flags st OR mod_flag m\<rparr>)"
    using Cons.prems by (auto simp: go_on_def state3_def)
  also have "\<dots> = go_on fn (state3 fn (ms @ f) (st\<lparr>pr_flags := pr_flags st OR mod_flag m\<rparr>))"
    using Cons.prems by (simp add: printf_loop_go_on printf_step_def)
  finally show ?case using Cons by simp
qed simp

lemma bit_mods:
  "set ms \<subseteq> {70, 78, 122, 108, 76, 104} \<Longrightarrow> n \<notin> {4, 5, 8} \<Longrightarrow>
   bit (fold (\<lambda>m fl. fl OR mod_flag m) ms fl) n \<longleftrightarrow> bit fl n \<or> n = 3 \<and> 76 \<in> set ms"
  by (induction ms arbitrary: fl) (auto simp: bit_simps bit_PR)

lemma hd_dec: "0 < n \<Longrightarrow> hd (dec n) \<noteq> 48 \<and> dec n \<noteq> []"
proof (induction n rule: dec.induct)
  case (1 n)
  have "(of_nat (n + 48) :: u8) \<noteq> 48" if "n < 10" 
  proof
    assume "(of_nat (n + 48) :: u8) = 48"
    then have "unat (of_nat (n + 48) :: u8) = 48" by simp
    then show False using unat_digit [OF that] 1(2) by simp
  qed
  then show ?case using 1 by (subst (1 2) dec.simps) (auto simp: hd_append)
qed

lemma dec_digits: "set (dec n) \<subseteq> {48..57}"
proof (induction n rule: dec.induct)
  case (1 n)
  have "(of_nat (k + 48) :: u8) \<in> {48..57}" if "k < 10" for k
    using unat_digit [OF that] that by (simp add: word_le_nat_alt del: of_nat_add)
  then show ?case using 1 by (subst dec.simps) (auto simp del: of_nat_add)
qed

lemma width_of_dec: "width_of (dec n) 0 = of_nat n"
proof (induction n rule: dec.induct)
  case (1 n)
  have d: "ucast (of_nat (k + 48) :: u8) - 48 = (of_nat k :: u32)" if "k < 10" for k
  proof -
    have "ucast (of_nat (k + 48) :: u8) = (of_nat (unat (of_nat (k + 48) :: u8)) :: u32)" by (simp del: of_nat_add)
    then have "ucast (of_nat (k + 48) :: u8) = (of_nat (k + 48) :: u32)" unfolding unat_digit [OF that] .
    then show ?thesis by simp
  qed
  show ?case
  proof (cases "n < 10")
    case True
    then show ?thesis using d [of n] by (subst dec.simps) (simp add: width_of_def)
  next
    case False
    have "(of_nat n :: u32) = 10 * of_nat (n div 10) + of_nat (n mod 10)"
      by (metis mult_div_mod_eq of_nat_add of_nat_mult of_nat_numeral)
    then show ?thesis using 1 False d [of "n mod 10"] by (subst dec.simps) (simp add: width_of_def)
  qed
qed

lemma read_flags:
  assumes "ch f \<notin> {37, 45}" "fs_zero s \<or> ch f \<noteq> 48" "f \<noteq> []" "pr_flags st = 0" "pr_state st = 1"
  shows "go_on fn (state1 fn ((if fs_left s then [45] else []) @ (if fs_zero s then [48] else []) @ f) st) =
    go_on fn (state2 fn f (st\<lparr>pr_state := 2, pr_flags := (if fs_left s then PR_LJ else 0) OR (if fs_zero s then PR_LZ else 0)\<rparr>))"
proof -
  let ?z = "(if fs_zero s then [48] else []) @ f" and ?st = "st\<lparr>pr_flags := if fs_left s then PR_LJ else 0\<rparr>"
  have st0: "st\<lparr>pr_flags := 0\<rparr> = st" using assms(4) by (cases st) simp
  have "go_on fn (state1 fn ((if fs_left s then [45] else []) @ ?z) st) = go_on fn (state1 fn ?z ?st)"
    using read_minus [of st ?z fn] assms(3-5) by (cases "fs_left s") (simp_all add: st0)
  also have "\<dots> = go_on fn (state2 fn f (?st\<lparr>pr_state := 2, pr_flags := pr_flags ?st OR (if fs_zero s then PR_LZ else 0)\<rparr>))"
    using read_zero [of fn f ?st] read_no_flag [of f fn ?st] assms(1,2,5)
    by (cases st; cases "fs_zero s") (simp_all add: numeral_2_eq_2)
  finally show ?thesis by simp
qed

lemma read_conversion:
  assumes "c \<notin> {70, 78, 122, 108, 76, 104}" "conversion fn c (next_state st) = Inr st'"
  shows "go_on fn (state3 fn (c # f) st) = printf_loop fn f (reset_spec st')"
  using assms by (simp add: go_on_def state3_def state4_def)

lemma printf_field:
  assumes wf: "wf_piece (Field s a)"
  shows "printf_loop fn (spelling s @ f) (idle (a # as) n p) =
    printf_loop fn f (idle as (n + of_nat (length (field_text s a))) (fold fn (map ucast (field_text s a)) p))"
proof -
  let ?W = "if fs_width s = 0 then [] else dec (fs_width s)" and ?M = "fs_mods s" and ?c = "fs_conv s"
  let ?st = "(idle (a # as) n p)\<lparr>pr_state := 1\<rparr>"
  define fl where "fl = (if fs_left s then PR_LJ else 0) OR (if fs_zero s then PR_LZ else 0)"
  define fl1 where "fl1 = fold (\<lambda>m fl. fl OR mod_flag m) ?M fl"
  have m: "set ?M \<subseteq> {70, 78, 122, 108, 76, 104}" and c: "?c \<in> {88, 120, 112, 110, 100, 105, 117, 111, 99, 115}"
    using wf by simp_all
  have W: "set ?W \<subseteq> {48..57}" "?W = [] \<or> hd ?W \<noteq> 48" "width_of ?W 0 = of_nat (fs_width s)"
    using dec_digits hd_dec width_of_dec by (auto simp: width_of_def)
  have M: "ch (?M @ ?c # f) \<in> {70, 78, 122, 108, 76, 104} \<union> {88, 120, 112, 110, 100, 105, 117, 111, 99, 115}"
    using m c by (cases ?M) auto
  have chW: "ch (?W @ ?M @ ?c # f) \<notin> {37, 45, 48}"
  proof (cases ?W)
    case Nil
    then show ?thesis using M by auto
  next
    case (Cons w ws)
    then have "w \<in> {48..57}" "w \<noteq> 48" using W(1,2) by auto
    then show ?thesis using Cons by auto
  qed
  have "printf_loop fn (spelling s @ f) (idle (a # as) n p) =
      go_on fn (state1 fn ((if fs_left s then [45] else []) @ (if fs_zero s then [48] else []) @ ?W @ ?M @ ?c # f) ?st)"
    by (simp add: spelling_def go_on_def printf_step_def state0_def)
  also have "\<dots> = go_on fn (state2 fn (?W @ ?M @ ?c # f) (?st\<lparr>pr_state := 2, pr_flags := fl\<rparr>))"
    unfolding fl_def by (rule read_flags) (use chW in auto)
  also have "\<dots> = go_on fn (state2 fn (?M @ ?c # f) (?st\<lparr>pr_state := 2, pr_flags := fl, pr_given_wd := of_nat (fs_width s)\<rparr>))"
    using read_width [OF W(1), of "?st\<lparr>pr_state := 2, pr_flags := fl\<rparr>" "?M @ ?c # f" fn] W(3) by simp
  also have "\<dots> = go_on fn (state3 fn (?M @ ?c # f) (?st\<lparr>pr_state := 3, pr_flags := fl, pr_given_wd := of_nat (fs_width s)\<rparr>))"
    using M by (auto simp: state2_def numeral_3_eq_3)
  also have "\<dots> = go_on fn (state3 fn (?c # f) (?st\<lparr>pr_state := 3, pr_flags := fl1, pr_given_wd := of_nat (fs_width s)\<rparr>))"
    using read_mods [OF m, of "?st\<lparr>pr_state := 3, pr_flags := fl, pr_given_wd := of_nat (fs_width s)\<rparr>" "?c # f" fn] by (simp add: fl1_def)
  finally have 1: "printf_loop fn (spelling s @ f) (idle (a # as) n p) =
      go_on fn (state3 fn (?c # f) (?st\<lparr>pr_state := 3, pr_flags := fl1, pr_given_wd := of_nat (fs_width s)\<rparr>))" .
  let ?st4 = "?st\<lparr>pr_state := 4, pr_flags := fl1, pr_given_wd := of_nat (fs_width s)\<rparr>"
  have "bit fl1 k \<longleftrightarrow> (k = 0 \<and> fs_left s) \<or> (k = 7 \<and> fs_zero s) \<or> (k = 3 \<and> 76 \<in> set ?M)" if "k \<notin> {4, 5, 8}" for k
    unfolding fl1_def bit_mods [OF m that] by (auto simp: fl_def bit_simps bit_PR)
  then obtain st' where "conversion fn ?c ?st4 = Inr st'"
      "reset_spec st' = idle as (n + of_nat (length (field_text s a))) (fold fn (map ucast (field_text s a)) p)"
    using conversion_text [OF wf, of ?st4 as fn] by auto
  then show ?thesis unfolding 1
    using read_conversion [of ?c fn "?st\<lparr>pr_state := 3, pr_flags := fl1, pr_given_wd := of_nat (fs_width s)\<rparr>" st' f] c
    by auto
qed

lemma printf_pieces:
  "\<forall>q \<in> set ps. wf_piece q \<Longrightarrow> printf_loop fn (concat (map format_of ps)) (idle (concat (map args_of ps) @ as) n p) =
    Inr (idle as (n + of_nat (length (concat (map text_of ps)))) (fold fn (concat (map text_of ps)) p))"
proof (induction ps arbitrary: n p)
  case (Cons q ps)
  have "printf_loop fn (format_of q @ f) (idle (args_of q @ as') n p) =
      printf_loop fn f (idle as' (n + of_nat (length (text_of q))) (fold fn (text_of q) p))" for f as'
    using Cons.prems printf_field [where f = f and as = as' and n = n and p = p and fn = fn]
    by (cases q) (simp_all add: printf_step_def state0_def state1_def emit_def reset_spec_def)
  then show ?case using Cons by (simp add: add.assoc)
qed simp

section \<open>Into a buffer\<close>

lemma field_text_no_zero: "wf_piece (Field s a) \<Longrightarrow> 0 \<notin> set (field_text s a)"
  using radix_text_small [of 16] radix_text_small [of 10] radix_text_small [of 8]
  by (auto simp: field_text_def number_text_def justify_def fitting_def Let_def split: if_splits)

definition bytes_of_text :: "u32 list \<Rightarrow> u8 list" where
  "bytes_of_text cs = map ucast cs"

lemma text_no_zero: "\<forall>q \<in> set ps. wf_piece q \<Longrightarrow> 0 \<notin> set (bytes_of_text (concat (map text_of ps)))"
proof (induction ps)
  case (Cons q ps)
  have s: "ucast (scast c :: u32) = c" "ucast (ucast c :: u32) = c" for c :: u8
    by (rule bit_word_eqI, auto simp: bit_simps)+
  have "0 \<notin> set (bytes_of_text (text_of q))"
    using Cons.prems field_text_no_zero by (cases q) (auto simp: bytes_of_text_def s comp_def)
  then show ?case using Cons by (simp add: bytes_of_text_def)
qed (simp add: bytes_of_text_def)

lemma ksprintf_pieces:
  assumes "\<forall>q \<in> set ps. wf_piece q"
  defines "out \<equiv> concat (map text_of ps)"
  assumes "length out < 2 ^ 32"
  shows "\<exists>m'. ksprintf buf (concat (map format_of ps)) (concat (map args_of ps)) m = Inr (of_nat (length out), m')
    \<and> cstr m' buf (bytes_of_text out) \<and> (\<forall>x. x < buf \<or> buf + length out < x \<longrightarrow> m' x = m x)"
proof -
  have fold: "fold vsprintf_help cs (d, m) =
      (d + length cs, \<lambda>x. if d \<le> x \<and> x < d + length cs then ucast (cs ! (x - d)) else m x)" for cs d m
    by (induction cs arbitrary: d m) (auto simp: vsprintf_help_def nth_Cons' fun_eq_iff)
  have "0 \<notin> set (bytes_of_text out)" using text_no_zero [OF assms(1)] by (simp add: out_def)
  then show ?thesis
    using printf_pieces [OF assms(1), where as = "[]" and n = 0 and p = "(buf, m)" and fn = vsprintf_help] assms(3)
    by (auto simp: ksprintf_def kvsprintf_def printf_helper_def fold cstr_def unat_of_nat_u32 bytes_of_text_def
      out_def [symmetric])
qed

section \<open>The reference and the machine agree\<close>

text \<open>C28: \<open>printf\<close> is the reference.  For every sequence of well-formed pieces, that is of plain characters, \<open>%%\<close>, and
  fields with any combination of the flags \<open>-\<close> and \<open>0\<close>, a width below \<open>2 ^ 32\<close>, any modifiers and one of the ten
  conversions, with arguments of the widths that the fields ask for, the format machine hands exactly the texts of
  the pieces to its callback, in order, and returns the number of characters modulo \<open>2 ^ 32\<close>.\<close>

theorem printf_prints_pieces:
  assumes "\<forall>q \<in> set ps. wf_piece q"
  shows "printf_helper (concat (map format_of ps)) (concat (map args_of ps)) fn p =
    Inr (of_nat (length (concat (map text_of ps))), fold fn (concat (map text_of ps)) p)"
  using printf_pieces [OF assms, where as = "[]" and n = 0 and p = p and fn = fn] by (simp add: printf_helper_def)

text \<open>\<open>"a%%%-5d|%04i|%lX"\<close> with \<open>-42\<close>, \<open>-7\<close> and \<open>0xBEEF\<close> prints \<open>"a%-42  |-007|0000BEEF"\<close>.\<close>

theorem printf_prints_pieces_witness:
  "printf_helper [97, 37, 37, 37, 45, 53, 100, 124, 37, 48, 52, 105, 124, 37, 108, 88] [Int32 (- 42), Int32 (- 7), Int32 0xBEEF]
     (\<lambda>c cs. cs @ [c]) [] =
   Inr (21, [97, 37, 45, 52, 50, 32, 32, 124, 45, 48, 48, 55, 124, 48, 48, 48, 48, 66, 69, 69, 70])"
proof -
  let ?f = "\<lambda>l z w m c. \<lparr>fs_left = l, fs_zero = z, fs_width = w, fs_mods = m, fs_conv = c\<rparr>"
  let ?ps = "[Literal 97, Percent, Field (?f True False 5 [] 100) (Int32 (- 42)), Literal 124,
    Field (?f False True 4 [] 105) (Int32 (- 7)), Literal 124, Field (?f False False 0 [108] 88) (Int32 0xBEEF)]"
  have "\<forall>q \<in> set ?ps. wf_piece q" by (simp add: fitting_def)
  note r = printf_prints_pieces [OF this, of "\<lambda>c cs. cs @ [c]" "[]"]
  have f: "concat (map format_of ?ps) = [97, 37, 37, 37, 45, 53, 100, 124, 37, 48, 52, 105, 124, 37, 108, 88]"
    by (simp add: spelling_def dec.simps)
  have rp: "replicate 4 x = [x, x, x, x]" "replicate 2 x = [x, x]" for x :: u8 by (simp_all add: numeral_eq_Suc)
  have n: "radix_text False 10 42 = [52, 50]" "radix_text False 10 7 = [55]" "radix_text True 16 0xBEEF = [66, 69, 69, 70]"
    by (simp_all add: radix_text.simps digit_text_def)
  have t: "number_text (?f True False 5 [] 100) (- 42) = [45, 52, 50, 32, 32]" "number_text (?f False True 4 [] 105) (- 7) = [45, 48, 48, 55]"
      "number_text (?f False False 0 [108] 88) 0xBEEF = [48, 48, 48, 48, 66, 69, 69, 70]"
    using n rp by (simp_all add: number_text_def justify_def Let_def)
  have x: "concat (map text_of ?ps) = [97, 37, 45, 52, 50, 32, 32, 124, 45, 48, 48, 55, 124, 48, 48, 48, 48, 66, 69, 69, 70]"
    by (simp add: field_text_def t)
  have a: "concat (map args_of ?ps) = [Int32 (- 42), Int32 (- 7), Int32 0xBEEF]" by simp
  show ?thesis using r unfolding f x a by simp
qed

end
