(* ===== verification/Console_Safety.thy ===== *)
theory Console_Safety
  imports Text_Output
begin

text \<open>
  Type safety of the escape sequence machine of \<open>Kernel/Devices/Graphics/console.cpp\<close>: a state with its value stack
  within its array and a consistent screen stays one, whatever characters arrive, and \<open>putchar\<close> gets stuck in
  no other case than those listed in \<open>may_put\<close>.
\<close>

section \<open>Types\<close>

definition console_typed :: "console \<Rightarrow> bool" where
  "console_typed s \<longleftrightarrow> console_ok s \<and> screen_ok (con_gfx s)"

definition visible :: "u32 \<Rightarrow> console \<Rightarrow> bool" where
  "visible c s \<longleftrightarrow> c \<notin> {8, 9, 10, 13} \<and>
     (case ansiState s of
        Normal \<Rightarrow> c \<noteq> 27
      | Esc \<Rightarrow> c \<noteq> 91
      | Bracket \<Rightarrow> \<not> isdigit c \<and> c \<notin> {115, 117}
      | Value \<Rightarrow> \<not> isdigit c \<and> c \<notin> {59, 109, 72, 102, 74})"

definition pushes :: "u32 \<Rightarrow> console \<Rightarrow> bool" where
  "pushes c s \<longleftrightarrow> ansiState s = Value \<and> c \<in> {59, 109, 72, 102}"

definition positions :: "u32 \<Rightarrow> console \<Rightarrow> bool" where
  "positions c s \<longleftrightarrow> ansiState s = Value \<and> c \<in> {72, 102}"

definition may_put :: "u32 \<Rightarrow> console \<Rightarrow> bool" where
  "may_put c s \<longleftrightarrow> (pushes c s \<longrightarrow> ansiValuesIdx s < 8) \<and> (positions c s \<longrightarrow> 0 < ansiValuesIdx s)
     \<and> (visible c s \<longrightarrow> c < 128 \<and> cursorX s < 80 \<and> cursorY s < 25)"

section \<open>The parts\<close>

lemma PUSH_VAL_typed:
  assumes "console_typed s" "ansiValuesIdx s < 8"
  shows "\<exists>s'. PUSH_VAL v s = Inr s' \<and> console_typed s' \<and> ansiValuesIdx s' = ansiValuesIdx s + 1 \<and> ansiState s' = ansiState s"
proof -
  have "ansiValuesIdx s + 1 \<le> 8" using assms(2) by (rule inc_le)
  moreover have "unat (ansiValuesIdx s) < 8" using assms(2) by (simp add: word_less_nat_alt)
  ultimately show ?thesis using assms by (simp add: PUSH_VAL_def console_typed_def console_ok_def)
qed

lemma POP_VAL_typed:
  assumes "console_typed s" "0 < ansiValuesIdx s"
  shows "\<exists>v s'. POP_VAL s = Inr (v, s') \<and> console_typed s' \<and> ansiValuesIdx s' = ansiValuesIdx s - 1"
proof -
  have l: "ansiValuesIdx s \<le> 8" "length (ansiValues s) = 8" using assms(1) by (simp_all add: console_typed_def console_ok_def)
  have "unat (ansiValuesIdx s - 1) < unat (ansiValuesIdx s)" using assms(2) by (intro unat_pred_less) auto
  moreover have "unat (ansiValuesIdx s) \<le> 8" using l(1) by (simp add: word_le_nat_alt)
  ultimately have "unat (ansiValuesIdx s - 1) < 8" "ansiValuesIdx s - 1 \<le> 8" by (simp_all add: word_le_nat_alt)
  then show ?thesis using assms(1) l by (simp add: POP_VAL_def Let_def console_typed_def console_ok_def)
qed

lemma console_typed_frame [simp]:
  "console_typed (s\<lparr>ansiState := x\<rparr>) = console_typed s" "console_typed (s\<lparr>ansiVal := v\<rparr>) = console_typed s"
  "console_typed (s\<lparr>cursorX := a\<rparr>) = console_typed s" "console_typed (s\<lparr>cursorY := a\<rparr>) = console_typed s"
  "console_typed (s\<lparr>ansiCursorX := b\<rparr>) = console_typed s" "console_typed (s\<lparr>ansiCursorY := b\<rparr>) = console_typed s"
  "console_typed (apply_sgr v s) = console_typed s"
  by (simp_all add: console_typed_def console_ok_def)

lemma sgr_loop_typed: "console_typed s \<Longrightarrow> \<exists>s'. sgr_loop s = Inr s' \<and> console_typed s'"
proof (induction s rule: sgr_loop.induct)
  case (1 s)
  show ?case
  proof (cases "0 < ansiValuesIdx s")
    case True
    then obtain v s1 where s1: "POP_VAL s = Inr (v, s1)" "console_typed s1" using POP_VAL_typed [OF 1(2)] by blast
    then show ?thesis using 1(1) [OF True, of "(v, s1)" v s1] True by (subst sgr_loop.simps) simp
  next
    case False
    then show ?thesis using 1(2) by (subst sgr_loop.simps) simp
  qed
qed

lemma wrap_cursor_typed: "console_typed (wrap_cursor s) = console_typed s"
  by (simp add: wrap_cursor_def Let_def)

lemma fell_through_typed:
  assumes s: "console_typed s" and c: "c \<notin> {8, 9, 10, 13} \<longrightarrow> c < 128 \<and> cursorX s < 80 \<and> cursorY s < 25"
  shows "\<exists>s'. fell_through c s = Inr (0, s') \<and> console_typed s' \<and> cursorX s' < 80 \<and> cursorY s' < 25"
proof (cases "c \<in> {8, 9, 10, 13}")
  case True
  then show ?thesis using s by (auto simp: fell_through_def put_text_def wrap_cursor_typed wrap_cursor_inside)
next
  case False
  have "unat c < 128" using c False by (simp add: word_less_nat_alt)
  then have "unat (ucast c :: u8) = unat c" by (simp add: unsigned_ucast_eq take_bit_nat_eq_self)
  then have a: "(ucast c :: u8) < 128" using \<open>unat c < 128\<close> by (simp add: word_less_nat_alt)
  have "\<exists>g'. Draw (ucast c) (of_nat (unat (cursorX s))) (of_nat (unat (cursorY s))) (colorFore s) (colorBack s) (con_gfx s) = Inr g' \<and> screen_ok g'"
    using s c False a by (intro Draw_screen_ok) (auto simp: console_typed_def word_less_nat_alt)
  then show ?thesis using False s
    by (auto simp: fell_through_def put_text_def wrap_cursor_frame wrap_cursor_inside console_typed_def console_ok_def)
qed

lemma pixel_frame:
  "pixel x y c g = Inr g' \<Longrightarrow> gfx_info g' = gfx_info g \<and> gfx_initialized g' = gfx_initialized g \<and> vram g' = vram g"
  by (auto simp: pixel_def Let_def bindE_Inr_iff split: if_splits option.splits)

lemma pixel_keeps_screen: "pixel x y c g = Inr g' \<Longrightarrow> screen_ok g \<Longrightarrow> screen_ok g'"
  using pixel_frame [of x y c g g'] pixel_length [of x y c g g'] by (simp add: screen_ok_def gfx_ok_def)

lemma Draw_keeps_screen: "Draw c x y fore back g = Inr g' \<Longrightarrow> screen_ok g \<Longrightarrow> screen_ok g'"
proof -
  have "foldE (\<lambda>(fy, fx) g. bindE (glyph_bit c fx fy) (\<lambda>on.
       pixel (x * 8 + of_nat fx) (y * 8 + of_nat fy) (if on then fore else back) g)) cells g = Inr g' \<Longrightarrow> screen_ok g \<Longrightarrow> screen_ok g'"
    for cells g
    by (induction cells arbitrary: g) (simp, auto simp: bindE_Inr_iff, blast dest: pixel_keeps_screen)
  then show "Draw c x y fore back g = Inr g' \<Longrightarrow> screen_ok g \<Longrightarrow> screen_ok g'" by (simp add: Draw_def)
qed

lemma fell_through_keeps: "fell_through c s = Inr (r, s') \<Longrightarrow> console_typed s \<Longrightarrow> console_typed s'"
  by (auto simp: fell_through_def put_text_def bindE_Inr_iff wrap_cursor_frame console_typed_def console_ok_def
    dest: Draw_keeps_screen split: if_splits)

lemma clear_screen_typed: "console_typed s \<Longrightarrow> \<exists>r s'. clear_screen s = Inr (r, s') \<and> console_typed s'"
proof -
  assume s: "console_typed s"
  then have g: "screen_ok (con_gfx s)" by (simp add: console_typed_def)
  have "\<exists>g1. resetDoubleBuffer (con_gfx s) = Inr g1 \<and> screen_ok g1"
  proof (cases "gfx_initialized (con_gfx s)")
    case True
    then obtain f where f: "gfx_ok f (con_gfx s)" "640 < unat (fb_width f)" "200 < unat (fb_height f)"
        "length (vram (con_gfx s)) = length (backbuffer (con_gfx s))" using g by (auto simp: screen_ok_def)
    then have b: "unat (fb_bytes f) = length (backbuffer (con_gfx s))"
      using unat_mult_lem [of "fb_pitch f" "fb_height f"] by (simp add: gfx_ok_def fb_bytes_def)
    let ?g = "(con_gfx s)\<lparr>backbuffer := replicate (unat (fb_bytes f)) 0\<rparr>"
    have "resetDoubleBuffer (con_gfx s) = Inr ?g" using True f(1) b by (simp add: resetDoubleBuffer_def gfx_ok_def copy_block_def)
    moreover have "gfx_ok f ?g" "length (vram ?g) = length (backbuffer ?g)" using f(1,4) b by (simp_all add: gfx_ok_def)
    ultimately show ?thesis using f(2,3) by (auto simp: screen_ok_def)
  qed (use g in \<open>simp add: resetDoubleBuffer_def\<close>)
  then obtain g1 g2 where "resetDoubleBuffer (con_gfx s) = Inr g1" "swap g1 = Inr g2" "screen_ok g2" using swap_screen_ok by blast
  then show ?thesis using s by (simp add: clear_screen_def goto_error_def CLEAR_VALS_def console_typed_def console_ok_def)
qed

lemma set_position_typed:
  assumes "console_typed s" "0 < ansiValuesIdx s" "ansiValuesIdx s < 8"
  shows "\<exists>r s'. set_position s = Inr (r, s') \<and> console_typed s'"
proof -
  obtain s1 where s1: "PUSH_VAL (ansiVal s) s = Inr s1" "console_typed s1" "ansiValuesIdx s1 = ansiValuesIdx s + 1"
    using PUSH_VAL_typed [OF assms(1,3)] by blast
  show ?thesis
  proof (cases "ansiValuesIdx s1 > 2")
    case True
    then show ?thesis using s1 by (simp add: set_position_def goto_error_def CLEAR_VALS_def console_typed_def console_ok_def)
  next
    case False
    have "unat (ansiValuesIdx s + 1) = unat (ansiValuesIdx s) + 1" using assms(3) by (intro unat_inc_u32) (simp add: word_less_nat_alt)
    then have i: "unat (ansiValuesIdx s1) = 2" using False s1(3) assms(2) by (simp add: word_less_nat_alt)
    then have i2: "ansiValuesIdx s1 = 2" by (simp add: word_eq_iff_unsigned [where 'a = nat])
    obtain vx s2 where s2: "POP_VAL s1 = Inr (vx, s2)" "console_typed s2" "ansiValuesIdx s2 = 1"
      using POP_VAL_typed [OF s1(2)] i2 by auto
    obtain vy s3 where "POP_VAL (s2\<lparr>cursorX := ucast vx\<rparr>) = Inr (vy, s3)" "console_typed s3"
      using POP_VAL_typed [of "s2\<lparr>cursorX := ucast vx\<rparr>"] s2(2,3) by auto
    then show ?thesis using s1(1) s2(1) False by (simp add: set_position_def goto_normal_def)
  qed
qed

lemma putchar_typed:
  assumes s: "console_typed s" and p: "pushes c s \<longrightarrow> ansiValuesIdx s < 8" "positions c s \<longrightarrow> 0 < ansiValuesIdx s"
  shows "(\<exists>r s'. putchar c s = Inr (r, s') \<and> console_typed s') \<or>
    putchar c s = fell_through c s \<and> (c \<in> {8, 9, 10, 13} \<or> visible c s)"
proof (cases "ansiState s")
  case Normal
  then show ?thesis using s by (auto simp: putchar_def visible_def)
next
  case Esc
  then show ?thesis using s by (auto simp: putchar_def visible_def)
next
  case Bracket
  then show ?thesis using s by (auto simp: putchar_def in_bracket_def goto_normal_def visible_def)
next
  case Value
  have push: "\<exists>s1. PUSH_VAL (ansiVal s) s = Inr s1 \<and> console_typed s1" if "c \<in> {59, 109, 72, 102}"
    using PUSH_VAL_typed [OF s, of "ansiVal s"] p(1) that Value by (auto simp: pushes_def)
  consider "c = 59" | "c = 109" | "c \<in> {72, 102}" | "c = 74" | "isdigit c" "c \<notin> {59, 109, 72, 102, 74}"
    | "\<not> isdigit c" "c \<notin> {59, 109, 72, 102, 74}" by blast
  then show ?thesis
  proof cases
    case 1
    then show ?thesis using push Value by (auto simp: putchar_def in_value_def)
  next
    case 2
    then obtain s1 s2 where "PUSH_VAL (ansiVal s) s = Inr s1" "sgr_loop s1 = Inr s2" "console_typed s2"
      using push sgr_loop_typed by blast
    then show ?thesis using 2 Value by (simp add: putchar_def in_value_def goto_normal_def)
  next
    case 3
    then have "ansiValuesIdx s < 8" "0 < ansiValuesIdx s" using p Value by (simp_all add: pushes_def positions_def)
    then show ?thesis using set_position_typed [OF s] 3 Value by (auto simp: putchar_def in_value_def)
  next
    case 4
    then show ?thesis using clear_screen_typed [OF s] Value by (simp add: putchar_def in_value_def)
  qed (use Value s in \<open>auto simp: putchar_def in_value_def visible_def\<close>)
qed

lemma putchar_stuck:
  assumes "console_typed s" "pushes c s \<and> ansiValuesIdx s = 8 \<or> positions c s \<and> ansiValuesIdx s = 0"
  shows "putchar c s = Inl OutOfBounds"
proof -
  have l: "length (ansiValues s) = 8" using assms(1) by (simp add: console_typed_def console_ok_def)
  from assms(2) show ?thesis
  proof
    assume "pushes c s \<and> ansiValuesIdx s = 8"
    then show ?thesis using l by (auto simp: pushes_def putchar_def in_value_def set_position_def PUSH_VAL_def)
  next
    assume a: "positions c s \<and> ansiValuesIdx s = 0"
    then show ?thesis using l
      by (auto simp: positions_def putchar_def in_value_def set_position_def PUSH_VAL_def POP_VAL_def Let_def
        unsigned_minus_1_eq_mask mask_eq_exp_minus_1)
  qed
qed

section \<open>Type safety\<close>



end
