(* ===== verification/Cxa_Guard.thy ===== *)
theory Cxa_Guard
  imports Locking
begin

text \<open>
  The guards of local static variables, \<open>Kernel/Support/cxa_guard.cpp\<close>.  The first part gives the three
  functions as they run alone; the mutex is its flag, and a \<open>lock\<close> of a mutex that is already held by the
  only task hangs.  The second part interleaves them: a step is one access to the guard or to the flag of
  the mutex.  Waiting for the mutex leaves the state as it is; that its flag gives mutual exclusion is
  shown in \<open>Locking\<close>, whose flag changes in the same three places: set by a successful test-and-set, kept
  by a failed one, cleared by \<open>unlock\<close>.
\<close>

section \<open>The functions\<close>

record cxaguard =
  initialized_byte :: u8
  inuse_byte :: u8

definition cxaGuardSetInitializeHasRun :: "cxaguard \<Rightarrow> cxaguard" where
  "cxaGuardSetInitializeHasRun g = g\<lparr>initialized_byte := 1\<rparr>"

definition cxaGuardHasInitializerRun :: "cxaguard \<Rightarrow> bool" where
  "cxaGuardHasInitializerRun g \<longleftrightarrow> initialized_byte g \<noteq> 0"

definition cxaGuardSetInUse :: "cxaguard \<Rightarrow> cxaguard" where
  "cxaGuardSetInUse g = g\<lparr>inuse_byte := 1\<rparr>"

definition cxaGuardSetNotInUse :: "cxaguard \<Rightarrow> cxaguard" where
  "cxaGuardSetNotInUse g = g\<lparr>inuse_byte := 0\<rparr>"

definition cxaGuardIsInUse :: "cxaguard \<Rightarrow> bool" where
  "cxaGuardIsInUse g \<longleftrightarrow> inuse_byte g \<noteq> 0"

definition cxa_guard_acquire :: "cxaguard \<times> bool \<Rightarrow> (int \<times> cxaguard \<times> bool) outcome" where
  "cxa_guard_acquire = (\<lambda>(g, locked).
     if cxaGuardHasInitializerRun g then Inr (0, g, locked)
     else if locked then Inl Hang
     else if cxaGuardHasInitializerRun g then Inr (0, g, False)
     else if cxaGuardIsInUse g then Inl (Panic ''[__cxa_guard_acquire] __guard in bad state'')
     else Inr (1, cxaGuardSetInUse g, True))"

definition cxa_guard_release :: "cxaguard \<times> bool \<Rightarrow> cxaguard \<times> bool" where
  "cxa_guard_release = (\<lambda>(g, locked). (cxaGuardSetInitializeHasRun g, False))"

definition cxa_guard_abort :: "cxaguard \<times> bool \<Rightarrow> cxaguard \<times> bool" where
  "cxa_guard_abort = (\<lambda>(g, locked). (cxaGuardSetNotInUse g, False))"

lemmas guard_defs = cxaGuardSetInitializeHasRun_def cxaGuardHasInitializerRun_def cxaGuardSetInUse_def
  cxaGuardSetNotInUse_def cxaGuardIsInUse_def

text \<open>Alone, an aborted initialisation can be repeated and a completed one is not; the initialisation of a
  second static variable inside that of the first never returns.\<close>

lemma guard_sequence:
  assumes "g = \<lparr>initialized_byte = 0, inuse_byte = 0\<rparr>"
  shows "bindE (cxa_guard_acquire (g, False)) (\<lambda>(r, s). Inr (r, cxa_guard_abort s)) = Inr (1, g, False)"
    and "bindE (cxa_guard_acquire (g, False)) (\<lambda>(r, s). cxa_guard_acquire (cxa_guard_release s)) =
           Inr (0, \<lparr>initialized_byte = 1, inuse_byte = 1\<rparr>, False)"
    and "bindE (cxa_guard_acquire (g, False)) (\<lambda>(r, _, locked). cxa_guard_acquire (g', locked)) =
           (if cxaGuardHasInitializerRun g' then Inr (0, g', True) else Inl Hang)"
  using assms
  by (simp_all add: cxa_guard_acquire_def cxa_guard_release_def cxa_guard_abort_def guard_defs)

section \<open>Interleavings\<close>

datatype guard_pc =
    GIdle
  | GLock addr     \<comment> \<open>in \<open>lock\<close> of \<open>__cxa_guard_acquire\<close>\<close>
  | GCheck addr    \<comment> \<open>holds the mutex, before the second look at the guard\<close>
  | GInit addr     \<comment> \<open>\<open>__cxa_guard_acquire\<close> returned 1, the initialiser runs\<close>
  | GUnlock        \<comment> \<open>before \<open>unlock\<close> at the end of acquire or release\<close>
  | GAbort addr    \<comment> \<open>in \<open>__cxa_guard_abort\<close>, after \<open>unlock\<close>\<close>
  | GPanic

text \<open>\<open>completed\<close> counts the calls of \<open>__cxa_guard_release\<close> for each guard, \<open>aborted\<close> remembers whether any
  initialisation was aborted.\<close>

record guard_sys =
  guards :: "addr \<Rightarrow> cxaguard"
  locked :: bool
  gpc :: "addr \<Rightarrow> guard_pc"
  completed :: "addr \<Rightarrow> nat"
  aborted :: bool

abbreviation ggoto :: "addr \<Rightarrow> guard_pc \<Rightarrow> guard_sys \<Rightarrow> guard_sys" where
  "ggoto t p s \<equiv> s\<lparr>gpc := (gpc s)(t := p)\<rparr>"

abbreviation put :: "addr \<Rightarrow> (cxaguard \<Rightarrow> cxaguard) \<Rightarrow> guard_sys \<Rightarrow> guard_sys" where
  "put g f s \<equiv> s\<lparr>guards := (guards s)(g := f (guards s g))\<rparr>"

inductive guard_step :: "guard_sys \<Rightarrow> guard_sys \<Rightarrow> bool" where
  acquire_done: "gpc s t = GIdle \<Longrightarrow> cxaGuardHasInitializerRun (guards s g) \<Longrightarrow> guard_step s s"
| acquire_call: "gpc s t = GIdle \<Longrightarrow> \<not> cxaGuardHasInitializerRun (guards s g) \<Longrightarrow> guard_step s (ggoto t (GLock g) s)"
| acquire_lock: "gpc s t = GLock g \<Longrightarrow> \<not> locked s \<Longrightarrow> guard_step s (ggoto t (GCheck g) (s\<lparr>locked := True\<rparr>))"
| check_done: "gpc s t = GCheck g \<Longrightarrow> cxaGuardHasInitializerRun (guards s g) \<Longrightarrow> guard_step s (ggoto t GUnlock s)"
| check_busy: "gpc s t = GCheck g \<Longrightarrow> \<not> cxaGuardHasInitializerRun (guards s g) \<Longrightarrow> cxaGuardIsInUse (guards s g) \<Longrightarrow>
    guard_step s (ggoto t GPanic s)"
| check_take: "gpc s t = GCheck g \<Longrightarrow> \<not> cxaGuardHasInitializerRun (guards s g) \<Longrightarrow> \<not> cxaGuardIsInUse (guards s g) \<Longrightarrow>
    guard_step s (ggoto t (GInit g) (put g cxaGuardSetInUse s))"
| release_set: "gpc s t = GInit g \<Longrightarrow>
    guard_step s (ggoto t GUnlock (put g cxaGuardSetInitializeHasRun s\<lparr>completed := (completed s)(g := completed s g + 1)\<rparr>))"
| guard_unlock: "gpc s t = GUnlock \<Longrightarrow> guard_step s (ggoto t GIdle (s\<lparr>locked := False\<rparr>))"
| abort_unlock: "gpc s t = GInit g \<Longrightarrow> guard_step s (ggoto t (GAbort g) (s\<lparr>locked := False, aborted := True\<rparr>))"
| abort_clear: "gpc s t = GAbort g \<Longrightarrow> guard_step s (ggoto t GIdle (put g cxaGuardSetNotInUse s))"

definition guard_start :: guard_sys where
  "guard_start = \<lparr>guards = (\<lambda>_. \<lparr>initialized_byte = 0, inuse_byte = 0\<rparr>), locked = False, gpc = (\<lambda>_. GIdle),
     completed = (\<lambda>_. 0), aborted = False\<rparr>"

text \<open>The tasks that hold the mutex; a task that panicked still does.\<close>

fun holds :: "guard_pc \<Rightarrow> bool" where
  "holds (GCheck _) = True"
| "holds (GInit _) = True"
| "holds GUnlock = True"
| "holds GPanic = True"
| "holds _ = False"

definition guard_inv :: "guard_sys \<Rightarrow> bool" where
  "guard_inv s \<longleftrightarrow>
     (\<forall>t u. holds (gpc s t) \<longrightarrow> holds (gpc s u) \<longrightarrow> t = u)
     \<and> (\<forall>t. holds (gpc s t) \<longrightarrow> locked s)
     \<and> (\<forall>t g. gpc s t = GInit g \<longrightarrow> \<not> cxaGuardHasInitializerRun (guards s g))
     \<and> (\<forall>g. completed s g = (if cxaGuardHasInitializerRun (guards s g) then 1 else 0))
     \<and> (\<not> aborted s \<longrightarrow> (\<forall>t. gpc s t \<noteq> GPanic \<and> (\<forall>g. gpc s t \<noteq> GAbort g))
          \<and> (\<forall>g. cxaGuardIsInUse (guards s g) \<longrightarrow> \<not> cxaGuardHasInitializerRun (guards s g) \<longrightarrow> (\<exists>t. gpc s t = GInit g)))"

lemma guard_inv_holder:
  "guard_inv s \<Longrightarrow> holds (gpc s t) \<Longrightarrow> locked s \<and> (\<forall>u. holds (gpc s u) \<longrightarrow> u = t)"
  unfolding guard_inv_def by blast

lemma guard_inv_busy:
  assumes "guard_inv s" "gpc s t = GCheck g" "\<not> cxaGuardHasInitializerRun (guards s g)" "cxaGuardIsInUse (guards s g)"
  shows "aborted s"
proof (rule ccontr)
  assume "\<not> aborted s"
  then obtain u where u: "gpc s u = GInit g" using assms unfolding guard_inv_def by blast
  then have "u = t" using guard_inv_holder [OF assms(1), of t] assms(2) by auto
  then show False using u assms(2) by simp
qed

lemma other_initialiser:
  "gpc s t \<noteq> GInit g \<Longrightarrow> \<exists>u. gpc s u = GInit g \<Longrightarrow> \<exists>u. u \<noteq> t \<and> (u \<noteq> t \<longrightarrow> gpc s u = GInit g)"
  by force

interpretation grd: kept_by_steps guard_step guard_inv
proof
  fix s s'
  assume i: "guard_inv s" and st: "guard_step s s'"
  note h = guard_inv_holder [OF i]
  from st show "guard_inv s'"
  proof (cases rule: guard_step.cases)
    case (check_busy t g)
    then show ?thesis using i h [of t] guard_inv_busy [OF i, of t g] by (auto simp: guard_inv_def intro!: other_initialiser)
  next
    case (check_take t g)
    then show ?thesis using i h [of t] by (auto simp: guard_inv_def guard_defs intro!: other_initialiser)
  next
    case (release_set t g)
    then show ?thesis using i h [of t] by (auto simp: guard_inv_def guard_defs intro!: other_initialiser)
  next
    case (abort_clear t g)
    then show ?thesis using i by (auto simp: guard_inv_def guard_defs intro!: other_initialiser)
  next
    case (check_done t g)
    then show ?thesis using i h [of t] by (auto simp: guard_inv_def intro!: other_initialiser)
  next
    case (guard_unlock t)
    then show ?thesis using i h [of t] by (auto simp: guard_inv_def intro!: other_initialiser)
  next
    case (abort_unlock t g)
    then show ?thesis using i h [of t] by (auto simp: guard_inv_def intro!: other_initialiser)
  next
    case (acquire_lock t g)
    then show ?thesis using i by (auto simp: guard_inv_def intro!: other_initialiser)
  next
    case (acquire_call t g)
    then show ?thesis using i by (auto simp: guard_inv_def intro!: other_initialiser)
  qed (use i in simp)
qed

text \<open>C25: a local static variable is initialised at most once.  In every interleaving of any number of tasks and
  guards at most one initialiser runs at a time, it completes at most once for each guard, the guard says
  so exactly from then on, and none runs for a guard that says so; the panic about a bad state can only
  happen when some initialisation was aborted.\<close>

theorem static_initialised_once:
  assumes "guard_step\<^sup>*\<^sup>* guard_start s"
  shows "(\<forall>t u g g'. gpc s t = GInit g \<longrightarrow> gpc s u = GInit g' \<longrightarrow> t = u)
    \<and> (\<forall>g. completed s g = (if cxaGuardHasInitializerRun (guards s g) then 1 else 0))
    \<and> (\<forall>t g. gpc s t = GInit g \<longrightarrow> \<not> cxaGuardHasInitializerRun (guards s g))
    \<and> ((\<exists>t. gpc s t = GPanic) \<longrightarrow> aborted s)"
proof -
  have "guard_inv guard_start" by (simp add: guard_inv_def guard_start_def guard_defs)
  then have i: "guard_inv s" by (rule grd.reachable [OF assms])
  have "t = u" if "gpc s t = GInit g" "gpc s u = GInit g'" for t u g g'
    using guard_inv_holder [OF i, of t] guard_inv_holder [OF i, of u] that by auto
  then show ?thesis using i unfolding guard_inv_def by blast
qed

text \<open>Two tasks; the second waits for the mutex and finds the variable initialised.\<close>

theorem static_initialised_once_witness:
  "\<exists>s. guard_step\<^sup>*\<^sup>* guard_start s \<and> gpc s 1 = GUnlock \<and> gpc s 2 = GLock 7 \<and> completed s 7 = 1"
proof -
  let ?s1 = "ggoto 1 (GLock 7) guard_start"
  let ?s2 = "ggoto 2 (GLock 7) ?s1"
  let ?s3 = "ggoto 1 (GCheck 7) (?s2\<lparr>locked := True\<rparr>)"
  let ?s4 = "ggoto 1 (GInit 7) (put 7 cxaGuardSetInUse ?s3)"
  let ?s5 = "ggoto 1 GUnlock (put 7 cxaGuardSetInitializeHasRun ?s4\<lparr>completed := (completed ?s4)(7 := completed ?s4 7 + 1)\<rparr>)"
  have "guard_step guard_start ?s1" by (rule acquire_call) (simp_all add: guard_start_def guard_defs)
  moreover have "guard_step ?s1 ?s2" by (rule acquire_call) (simp_all add: guard_start_def guard_defs)
  moreover have "guard_step ?s2 ?s3" by (rule acquire_lock) (simp_all add: guard_start_def)
  moreover have "guard_step ?s3 ?s4" by (rule check_take) (simp_all add: guard_start_def guard_defs)
  moreover have "guard_step ?s4 ?s5" by (rule release_set) simp
  ultimately have r: "guard_step\<^sup>*\<^sup>* guard_start ?s5"
    by (meson converse_rtranclp_into_rtranclp rtranclp.rtrancl_refl)
  then have "completed ?s5 7 = (if cxaGuardHasInitializerRun (guards ?s5 7) then 1 else 0)"
    using static_initialised_once [OF r] by blast
  then have "completed ?s5 7 = 1" by (simp add: guard_defs)
  moreover have "gpc ?s5 1 = GUnlock" "gpc ?s5 2 = GLock 7" by simp_all
  ultimately show ?thesis using r by blast
qed

text \<open>\<open>__cxa_guard_abort\<close> releases the mutex before it clears the mark of use, so a task that takes the mutex in
  between panics although nothing is wrong.\<close>

lemma abort_race_panics: "\<exists>s. guard_step\<^sup>*\<^sup>* guard_start s \<and> gpc s 2 = GPanic"
proof -
  let ?s1 = "ggoto 1 (GLock 7) guard_start"
  let ?s2 = "ggoto 1 (GCheck 7) (?s1\<lparr>locked := True\<rparr>)"
  let ?s3 = "ggoto 1 (GInit 7) (put 7 cxaGuardSetInUse ?s2)"
  let ?s4 = "ggoto 1 (GAbort 7) (?s3\<lparr>locked := False, aborted := True\<rparr>)"
  let ?s5 = "ggoto 2 (GLock 7) ?s4"
  let ?s6 = "ggoto 2 (GCheck 7) (?s5\<lparr>locked := True\<rparr>)"
  let ?s7 = "ggoto 2 GPanic ?s6"
  have "guard_step guard_start ?s1" by (rule acquire_call) (simp_all add: guard_start_def guard_defs)
  moreover have "guard_step ?s1 ?s2" by (rule acquire_lock) (simp_all add: guard_start_def)
  moreover have "guard_step ?s2 ?s3" by (rule check_take) (simp_all add: guard_start_def guard_defs)
  moreover have "guard_step ?s3 ?s4" by (rule abort_unlock) simp
  moreover have "guard_step ?s4 ?s5" by (rule acquire_call) (simp_all add: guard_start_def guard_defs)
  moreover have "guard_step ?s5 ?s6" by (rule acquire_lock) simp_all
  moreover have "guard_step ?s6 ?s7" by (rule check_busy) (simp_all add: guard_start_def guard_defs)
  ultimately have "guard_step\<^sup>*\<^sup>* guard_start ?s7"
    by (meson converse_rtranclp_into_rtranclp rtranclp.rtrancl_refl)
  then show ?thesis by (intro exI [of _ ?s7]) simp
qed

section \<open>The other hooks of the compiler\<close>

text \<open>\<open>Support/cxa_pure_virtual.cpp\<close> and \<open>Support/stack_chk_fail.cpp\<close>: both stop the kernel.\<close>

definition cxa_pure_virtual :: "'a outcome" where
  "cxa_pure_virtual = Inl (Panic ''Pure virtual called!'')"

definition stack_chk_guard :: u32 where
  "stack_chk_guard = 0xDEADC0DE"

definition stack_chk_fail :: "'a outcome" where
  "stack_chk_fail = Inl (Panic ''Smashed stack detected.'')"

end
