(* ===== verification/Rand.thy ===== *)
theory Rand
  imports Xyris_Prelude
begin

text \<open>
  \<open>Kernel/Library/rand.cpp\<close>: a linear congruential generator on the 32-bit \<open>unsigned long\<close> of this target.
  The state is the seed.
\<close>

definition MAX_RAND :: u32 where "MAX_RAND = 32767"

definition rand :: "u32 \<Rightarrow> int \<times> u32" where
  "rand seed = (let seed1 = seed * 214013 + 2531011 in (sint (drop_bit 16 seed1 AND MAX_RAND), seed1))"

definition srand :: "u32 \<Rightarrow> u32" where
  "srand seed = seed"

section \<open>The period\<close>

definition next_seed :: "u32 \<Rightarrow> u32" where
  "next_seed s = snd (rand s)"

text \<open>\<open>1 + a + ... + a ^ (n - 1)\<close> for the multiplier \<open>a\<close>.\<close>

fun lcg_sum :: "nat \<Rightarrow> nat" where
  "lcg_sum 0 = 0"
| "lcg_sum (Suc n) = 1 + 214013 * lcg_sum n"

lemma lcg_sum_add: "lcg_sum (m + n) = lcg_sum n + 214013 ^ n * lcg_sum m"
  by (induction n) (simp_all add: algebra_simps)

lemma lcg_sum_parity: "even (lcg_sum n) \<longleftrightarrow> even n"
  by (induction n) simp_all

lemma power_multiplier: "\<exists>q. (214013 :: nat) ^ m + 1 = 2 * (2 * q + 1)"
proof (induction m)
  case (Suc m)
  then obtain q where "(214013 :: nat) ^ m + 1 = 2 * (2 * q + 1)" by blast
  then have "(214013 :: nat) ^ m = 4 * q + 1" by simp
  then have "(214013 :: nat) ^ Suc m + 1 = 2 * (2 * (214013 * q + 53503) + 1)" by simp
  then show ?case by blast
qed (intro exI [of _ 0], simp)

lemma power_two_dvd_lcg_sum: "2 ^ k dvd lcg_sum n \<longleftrightarrow> 2 ^ k dvd n"
proof (induction n arbitrary: k rule: less_induct)
  case (less n)
  show ?case
  proof (cases "even n \<and> n \<noteq> 0 \<and> k \<noteq> 0")
    case True
    then obtain m j where m: "n = m + m" "m < n" and k: "k = Suc j"
      by (metis evenE mult_2 less_add_same_cancel1 neq0_conv add_0 gr0_implies_Suc)
    obtain q where q: "(214013 :: nat) ^ m + 1 = 2 * (2 * q + 1)" using power_multiplier by blast
    have "lcg_sum n = lcg_sum m * (214013 ^ m + 1)" unfolding m(1) lcg_sum_add by (simp add: algebra_simps)
    then have l: "lcg_sum n = 2 * ((2 * q + 1) * lcg_sum m)" unfolding q by simp
    have "2 ^ k dvd lcg_sum n \<longleftrightarrow> 2 ^ j dvd (2 * q + 1) * lcg_sum m"
      unfolding l k power_Suc by (subst nat_mult_dvd_cancel_disj) simp
    also have "\<dots> \<longleftrightarrow> 2 ^ j dvd lcg_sum m"
      by (intro coprime_dvd_mult_right_iff) simp
    also have "\<dots> \<longleftrightarrow> 2 ^ j dvd m" by (rule less.IH [OF m(2)])
    also have "\<dots> \<longleftrightarrow> 2 ^ k dvd n" using k m(1) by (simp flip: mult_2)
    finally show ?thesis .
  next
    case False
    have "\<not> 2 ^ k dvd x" if "odd x" "k \<noteq> 0" for x :: nat
      using that by (metis dvd_power dvd_trans neq0_conv)
    then show ?thesis using False lcg_sum_parity [of n] by (cases "k = 0"; cases "n = 0") auto
  qed
qed

lemma next_seed_iterate: "(next_seed ^^ n) s = s + of_nat (lcg_sum n) * (214012 * s + 2531011)"
  by (induction n) (simp_all add: next_seed_def rand_def Let_def algebra_simps)

lemma of_nat_zero_u32: "(of_nat n :: u32) = 0 \<longleftrightarrow> 2 ^ 32 dvd n"
  by (simp add: word_of_nat_eq_0_iff)

lemma odd_not_zero_divisor:
  fixes d :: u32
  assumes "odd (unat d)" "of_nat n * d = 0"
  shows "2 ^ 32 dvd n"
proof -
  have "(of_nat (n * unat d) :: u32) = 0" using assms(2) by simp
  then have "2 ^ 32 dvd n * unat d" by (simp only: of_nat_zero_u32)
  moreover have "coprime (2 ^ 32) (unat d)" using assms(1)
    by (simp only: coprime_power_left_iff coprime_left_2_iff_odd simp_thms)
  ultimately show ?thesis by (simp add: coprime_dvd_mult_left_iff)
qed

lemma step_odd: "odd (unat (214012 * s + 2531011 :: u32))"
  by (simp add: unat_word_ariths dvd_mod_iff)

lemma next_seed_returns:
  "(next_seed ^^ n) s = s \<longleftrightarrow> 2 ^ 32 dvd n"
proof -
  have "(next_seed ^^ n) s = s \<longleftrightarrow> of_nat (lcg_sum n) * (214012 * s + 2531011) = (0 :: u32)"
    by (simp only: next_seed_iterate add_cancel_left_right)
  also have "\<dots> \<longleftrightarrow> 2 ^ 32 dvd lcg_sum n"
    using odd_not_zero_divisor [OF step_odd, of "lcg_sum n" s] of_nat_zero_u32 [of "lcg_sum n"] by auto
  also have "\<dots> \<longleftrightarrow> 2 ^ 32 dvd n" by (rule power_two_dvd_lcg_sum)
  finally show ?thesis .
qed

lemma next_seed_distinct:
  assumes "m < n" "n < 2 ^ 32"
  shows "(next_seed ^^ m) s \<noteq> (next_seed ^^ n) s"
proof
  assume "(next_seed ^^ m) s = (next_seed ^^ n) s"
  then have "(next_seed ^^ (n - m)) ((next_seed ^^ m) s) = (next_seed ^^ m) s"
    using assms(1) funpow_add [of "n - m" m next_seed] by simp
  then have "2 ^ 32 dvd n - m" by (simp only: next_seed_returns)
  then show False using assms by (auto dest: dvd_imp_le)
qed

lemma rand_value: "fst (rand s) = int (unat (next_seed s) div 65536 mod 32768)"
proof -
  let ?x = "drop_bit 16 (next_seed s) AND MAX_RAND"
  have m: "MAX_RAND = mask 15" by (simp add: MAX_RAND_def mask_eq_exp_minus_1)
  have u: "unat ?x = unat (next_seed s) div 65536 mod 32768"
    unfolding m take_bit_eq_mask [symmetric]
    by (simp add: unsigned_take_bit_eq unat_drop_bit_eq drop_bit_eq_div unat_div unat_mod take_bit_eq_mod)
  then have "unat ?x < 2 ^ 31" by simp
  then have "int (unat ?x) < int (2 ^ 31)" by (simp only: of_nat_less_iff)
  then have "uint ?x < 2 ^ 31" by simp
  then have "signed_take_bit 31 (uint ?x) = uint ?x" 
    using uint_ge_0 [of ?x] by (intro signed_take_bit_int_eq_self) linarith+
  then have "sint ?x = int (unat ?x)" by (simp add: sint_uint)
  moreover have "fst (rand s) = sint ?x" by (simp add: rand_def next_seed_def Let_def)
  ultimately show ?thesis by (simp only: u)
qed

text \<open>every value of \<open>rand\<close> is between 0 and \<open>MAX_RAND\<close>, and the generator has the longest possible period:
  from any seed, the \<open>2 ^ 32\<close> seeds that follow are pairwise different and the next one is the first again.\<close>

theorem rand_bounds_period:
  "0 \<le> fst (rand s) \<and> fst (rand s) \<le> uint MAX_RAND
   \<and> inj_on (\<lambda>n. (next_seed ^^ n) s) {..<2 ^ 32} \<and> (next_seed ^^ (2 ^ 32)) s = s"
proof (intro conjI)
  show "0 \<le> fst (rand s)" by (simp add: rand_value)
  have "unat (next_seed s) div 65536 mod 32768 < 32768" by simp
  then show "fst (rand s) \<le> uint MAX_RAND" unfolding rand_value MAX_RAND_def by simp
  show "inj_on (\<lambda>n. (next_seed ^^ n) s) {..<2 ^ 32}"
    by (intro inj_onI) (metis lessThan_iff linorder_neqE_nat next_seed_distinct)
  show "(next_seed ^^ (2 ^ 32)) s = s" by (simp only: next_seed_returns dvd_refl)
qed

end
