(* ===== verification/Interrupt_Stubs.thy ===== *)
theory Interrupt_Stubs
  imports Machine_Code Diagnostics Interrupts
begin

text \<open>
  \<open>Kernel/Arch/i686/Assembly/interrupt.s\<close>: the routines behind the 48 gates.  The processor saves flags, code segment
  and instruction pointer, some exceptions add an error code; the routine completes this to a
  \<open>struct registers\<close>, calls the C++ handler with its address and undoes everything.
\<close>

section \<open>The routines\<close>

definition save_state :: "instr list" where
  "save_state =
     [Pushad, MovLowSeg EAX DS, PushR EAX, MovLowI EAX 0x10, MovSeg DS EAX, MovSeg ES EAX, MovSeg FS EAX,
      MovSeg GS EAX, PushR ESP, Cld]"

definition exception_stub :: "instr list" where
  "exception_stub = save_state @ [Call ''exceptionHandler'', AddEsp 4, PopR EAX, MovSeg DS EAX, MovSeg ES EAX,
     MovSeg FS EAX, MovSeg GS EAX, Popad, AddEsp 8, Iret]"

definition interrupt_stub :: "instr list" where
  "interrupt_stub = save_state @ [Call ''interruptHandler'', AddEsp 4, PopR EBX, MovSeg DS EBX, MovSeg ES EBX,
     MovSeg FS EBX, MovSeg GS EBX, Popad, AddEsp 8, Iret]"

definition m_exception_err :: "nat \<Rightarrow> instr list" where
  "m_exception_err n = [PushI 0, PushI (of_nat n)] @ exception_stub"

definition m_exception_no_err :: "nat \<Rightarrow> instr list" where
  "m_exception_no_err n = [PushI (of_nat n)] @ exception_stub"

definition m_interrupt :: "nat \<Rightarrow> nat \<Rightarrow> instr list" where
  "m_interrupt irq n = [PushI (of_nat irq), PushI (of_nat n)] @ interrupt_stub"

text \<open>The exceptions for which the routine expects the processor's error code.\<close>

definition no_err :: "nat list" where "no_err = [8, 10, 11, 12, 13, 14, 17, 30]"

definition exception_routine :: "nat \<Rightarrow> instr list" where
  "exception_routine n = (if n \<in> set no_err then m_exception_no_err n else m_exception_err n)"

definition interrupt_routine :: "nat \<Rightarrow> instr list" where
  "interrupt_routine i = m_interrupt i (32 + i)"

section \<open>The processor's part\<close>

text \<open>Taking an interrupt at the kernel's privilege level through an interrupt gate: the flags TF, IF, NT, RF and VM
  are cleared.\<close>

definition take_interrupt :: "u32 option \<Rightarrow> cpu \<Rightarrow> cpu" where
  "take_interrupt err s =
     (let s1 = fold push_word [c_eflags s, ucast (c_seg s CS), c_eip s] s;
          s2 = s1\<lparr>c_eflags := c_eflags s AND NOT 0x34300\<rparr>
      in case err of None \<Rightarrow> s2 | Some e \<Rightarrow> push_word e s2)"

text \<open>The structure that a handler sees through its argument.\<close>

definition registers_at :: "u32 \<Rightarrow> (u32 \<Rightarrow> u8) \<Rightarrow> registers" where
  "registers_at p m =
     (let w = (\<lambda>i. load_word (p + 4 * of_nat i) m)
      in \<lparr>r_ds = w 0, r_edi = w 1, r_esi = w 2, r_ebp = w 3, r_ignored = w 4, r_ebx = w 5, r_edx = w 6, r_ecx = w 7,
          r_eax = w 8, r_int_num = w 9, r_err_code = w 10, r_eip = w 11, r_cs = w 12, r_eflags = w 13, r_esp = w 14,
          r_ss = w 15\<rparr>)"

definition saved_ds :: "cpu \<Rightarrow> u32" where
  "saved_ds s = (c_reg s EAX AND NOT 0xFFFF) OR ucast (c_seg s DS)"

text \<open>What \<open>int_num\<close>, \<open>err\<close> and the interrupted state make of it: the last two fields are whatever the interrupted
  code has on its stack.\<close>

definition frame_of :: "u32 \<Rightarrow> u32 \<Rightarrow> cpu \<Rightarrow> registers" where
  "frame_of int_num err s =
     \<lparr>r_ds = saved_ds s, r_edi = c_reg s EDI, r_esi = c_reg s ESI, r_ebp = c_reg s EBP, r_ignored = c_reg s ESP - 20,
      r_ebx = c_reg s EBX, r_edx = c_reg s EDX, r_ecx = c_reg s ECX, r_eax = c_reg s EAX, r_int_num = int_num,
      r_err_code = err, r_eip = c_eip s, r_cs = ucast (c_seg s CS), r_eflags = c_eflags s,
      r_esp = stack_words 2 s ! 0, r_ss = stack_words 2 s ! 1\<rparr>"

text \<open>The state in which the routine of line \<open>i\<close> calls \<open>interruptHandler\<close>.\<close>

definition handler_call :: "nat \<Rightarrow> cpu \<Rightarrow> cpu" where
  "handler_call i s = exec_code (\<lambda>_ s. s) ([PushI (of_nat i), PushI (of_nat (32 + i))] @ save_state) (take_interrupt None s)"

section \<open>Saving\<close>

lemma straight_code [simp]: "straight save_state" "straight [PushI a, PushI b]" "straight [PushI a]"
  by (auto simp: straight_def save_state_def)

text \<open>\<open>entered num err s t\<close>: the routine has completed the processor's part, and \<open>t\<close> differs from the interrupted
  state \<open>s\<close> by five words on the stack.\<close>

definition entered :: "u32 \<Rightarrow> u32 \<Rightarrow> cpu \<Rightarrow> cpu \<Rightarrow> bool" where
  "entered num err s t \<longleftrightarrow>
     c_reg t = (c_reg s)(ESP := c_reg s ESP - 20) \<and> c_seg t = c_seg s
     \<and> stack_words 7 t = [num, err, c_eip s, ucast (c_seg s CS), c_eflags s] @ stack_words 2 s"

lemma entered_pushes:
  "entered num err s (push_word num (push_word err (take_interrupt None s)))"
  "entered num err s (push_word num (take_interrupt (Some err) s))"
proof -
  let ?ws = "[c_eflags s, ucast (c_seg s CS), c_eip s, err, num]"
  have eq: "stack_words 7 (fold push_word ?ws s) = rev ?ws @ stack_words 2 s"
  proof -
    have small: "2 + length ?ws < 2 ^ 30" and len: "length ?ws + 2 = 7" by simp_all
    show ?thesis using stack_fold_push [OF small, of s] unfolding len .
  qed
  have regs: "c_reg (fold push_word ?ws s) = (c_reg s)(ESP := c_reg s ESP - 20)" by (simp only: fold_push_parts) simp
  have fl: "push_word num (push_word err (take_interrupt None s)) = (fold push_word ?ws s)\<lparr>c_eflags := c_eflags s AND NOT 0x34300\<rparr>"
      "push_word num (take_interrupt (Some err) s) = (fold push_word ?ws s)\<lparr>c_eflags := c_eflags s AND NOT 0x34300\<rparr>"
    by (simp_all add: take_interrupt_def push_word_def set_reg_def Let_def)
  have segs: "c_seg (fold push_word ?ws s) = c_seg s" by (rule fold_push_parts)
  show "entered num err s (push_word num (push_word err (take_interrupt None s)))"
    "entered num err s (push_word num (take_interrupt (Some err) s))"
    unfolding entered_def fl stack_words_other eq using regs segs by (simp_all del: fold.simps)
qed

lemma save_state_exec:
  fixes ext and t :: cpu
  defines "p \<equiv> exec_code ext save_state t"
    and "ws \<equiv> map (c_reg t) [EAX, ECX, EDX, EBX, ESP, EBP, ESI, EDI]"
  shows "c_reg p = (c_reg t)(EAX := c_reg p EAX, ESP := c_reg t ESP - 40)"
    and "c_seg p = (c_seg t)(DS := 0x10, ES := 0x10, FS := 0x10, GS := 0x10)"
    and "stack_words 17 p = [c_reg t ESP - 36, saved_ds t] @ rev ws @ stack_words 7 t"
proof -
  let ?a = "fold push_word ws t"
  let ?d = "saved_ds t"
  let ?b = "push_word ?d (set_reg EAX ?d ?a)"
  let ?c = "(set_reg EAX ((?d AND NOT 0xFFFF) OR 0x10) ?b)\<lparr>c_seg := (c_seg t)(DS := 0x10, ES := 0x10, FS := 0x10, GS := 0x10)\<rparr>"
  have ra: "c_reg ?a = (c_reg t)(ESP := c_reg t ESP - 32)" "c_seg ?a = c_seg t"
    by (simp_all only: fold_push_parts) (simp add: ws_def)
  have len: "length ws = 8" by (simp add: ws_def)
  have low: "ucast (((?d AND NOT 0xFFFF) OR 0x10) :: u32) = (0x10 :: u16)"
    using low_half [of ?d "0x10"] by simp
  have "p = exec_code ext [MovLowSeg EAX DS, PushR EAX, MovLowI EAX 0x10, MovSeg DS EAX, MovSeg ES EAX,
      MovSeg FS EAX, MovSeg GS EAX, PushR ESP, Cld] ?a"
    by (simp add: p_def save_state_def ws_def)
  also have "\<dots> = (push_word (c_reg t ESP - 36) ?c)\<lparr>c_eflags := c_eflags (push_word (c_reg t ESP - 36) ?c) AND NOT 0x400\<rparr>"
    using low by (simp add: saved_ds_def ra len push_word_def set_reg_def set_low_def)
  finally have p: "p = \<dots>" .
  show "c_reg p = (c_reg t)(EAX := c_reg p EAX, ESP := c_reg t ESP - 40)"
    by (auto simp: p push_word_def set_reg_def ra len fun_eq_iff)
  show "c_seg p = (c_seg t)(DS := 0x10, ES := 0x10, FS := 0x10, GS := 0x10)"
    by (simp add: p push_word_def set_reg_def ra)
  have "stack_words 15 ?a = rev ws @ stack_words 7 t" using stack_fold_push [of 7 ws t] by (simp add: ws_def)
  then have "stack_words (Suc 15) ?b = ?d # rev ws @ stack_words 7 t" by (subst stack_push) simp_all
  then have "stack_words (Suc (Suc 15)) (push_word (c_reg t ESP - 36) ?c) = (c_reg t ESP - 36) # ?d # rev ws @ stack_words 7 t"
    by (subst stack_push) simp_all
  then show "stack_words 17 p = [c_reg t ESP - 36, ?d] @ rev ws @ stack_words 7 t" by (simp add: p)
qed

section \<open>Restoring\<close>

lemma restore_exec:
  fixes ext and r :: cpu
  assumes stk: "stack_words 15 r = [arg, dsw, edi, esi, ebp, ign, ebx, edx, ecx, eax, num, err, eip, cs, efl]" and "rg \<in> {EAX, EBX}"
  defines "q \<equiv> exec_code ext [AddEsp 4, PopR rg, MovSeg DS rg, MovSeg ES rg, MovSeg FS rg, MovSeg GS rg, Popad, AddEsp 8, Iret] r"
  shows "c_reg q = (\<lambda>x. case x of EAX \<Rightarrow> eax | ECX \<Rightarrow> ecx | EDX \<Rightarrow> edx | EBX \<Rightarrow> ebx | ESP \<Rightarrow> c_reg r ESP + 60
      | EBP \<Rightarrow> ebp | ESI \<Rightarrow> esi | EDI \<Rightarrow> edi)"
    and "c_seg q = (c_seg r)(DS := ucast dsw, ES := ucast dsw, FS := ucast dsw, GS := ucast dsw, CS := ucast cs)"
    and "c_eip q = eip" "c_eflags q = efl" "c_mem q = c_mem r" "c_cr3 q = c_cr3 r"
proof -
  have w: "load_word (c_reg r ESP + 4 * of_nat i) (c_mem r) = stack_words 15 r ! i" if "i < 15" for i
    using that by (rule stack_nth)
  note words = w [of 1] w [of 2] w [of 3] w [of 4] w [of 5] w [of 6] w [of 7] w [of 8] w [of 9] w [of 10] w [of 11]
    w [of 12] w [of 13] w [of 14]
  have q: "q = (set_reg ESP (c_reg r ESP + 60) (r\<lparr>c_seg := (c_seg r)(DS := ucast dsw, ES := ucast dsw, FS := ucast dsw, GS := ucast dsw, CS := ucast cs),
      c_eip := eip, c_eflags := efl, c_reg := (c_reg r)(EAX := eax, ECX := ecx, EDX := edx, EBX := ebx, EBP := ebp, ESI := esi, EDI := edi)\<rparr>))"
    using assms(2) words unfolding q_def stk by (intro cpu.equality) (auto simp: set_reg_def top_word_def drop_word_def Let_def fun_eq_iff ac_simps)
  show "c_reg q = (\<lambda>x. case x of EAX \<Rightarrow> eax | ECX \<Rightarrow> ecx | EDX \<Rightarrow> edx | EBX \<Rightarrow> ebx | ESP \<Rightarrow> c_reg r ESP + 60
      | EBP \<Rightarrow> ebp | ESI \<Rightarrow> esi | EDI \<Rightarrow> edi)"
    by (auto simp: q set_reg_def split: reg.split)
  show "c_seg q = (c_seg r)(DS := ucast dsw, ES := ucast dsw, FS := ucast dsw, GS := ucast dsw, CS := ucast cs)"
    "c_eip q = eip" "c_eflags q = efl" "c_mem q = c_mem r" "c_cr3 q = c_cr3 r"
    by (simp_all add: q set_reg_def)
qed

section \<open>The interrupted code notices nothing\<close>

lemma save_state_ext: "exec_code ext save_state t = exec_code ext' save_state t"
  by (simp add: save_state_def)

text \<open>The stack when the handler is called, for exceptions and interrupts alike.\<close>

lemma call_stack:
  fixes ext
  assumes "entered num err s t"
  defines "p \<equiv> exec_code ext save_state t"
  shows "c_reg p ESP = c_reg s ESP - 60" "r \<notin> {EAX, ESP} \<Longrightarrow> c_reg p r = c_reg s r"
    and "stack_words 17 p = [c_reg s ESP - 56, saved_ds s, c_reg s EDI, c_reg s ESI, c_reg s EBP, c_reg s ESP - 20,
      c_reg s EBX, c_reg s EDX, c_reg s ECX, c_reg s EAX, num, err, c_eip s, ucast (c_seg s CS), c_eflags s] @ stack_words 2 s"
    and "registers_at (top_word p) (c_mem p) = frame_of num err s"
proof -
  note t = assms(1) [unfolded entered_def]
  have regs: "c_reg p = (c_reg t)(EAX := c_reg p EAX, ESP := c_reg t ESP - 40)" unfolding p_def by (rule save_state_exec)
  show esp: "c_reg p ESP = c_reg s ESP - 60" using t by (subst regs) simp
  show "r \<notin> {EAX, ESP} \<Longrightarrow> c_reg p r = c_reg s r" using t by (subst regs) simp
  show stk: "stack_words 17 p = [c_reg s ESP - 56, saved_ds s, c_reg s EDI, c_reg s ESI, c_reg s EBP, c_reg s ESP - 20,
      c_reg s EBX, c_reg s EDX, c_reg s ECX, c_reg s EAX, num, err, c_eip s, ucast (c_seg s CS), c_eflags s] @ stack_words 2 s"
    unfolding p_def save_state_exec(3) using t by (simp add: saved_ds_def)
  have w: "load_word (c_reg p ESP + 4 * of_nat i) (c_mem p) = stack_words 17 p ! i" if "i < 17" for i
    using that by (rule stack_nth)
  have top: "top_word p = c_reg p ESP + 4" using w [of 0] by (simp add: top_word_def stk esp)
  have word: "load_word (top_word p + 4 * of_nat i) (c_mem p) = stack_words 17 p ! Suc i" if "i < 16" for i
    using w [of "Suc i"] that by (simp add: top algebra_simps)
  note words = word [of 0] word [of 1] word [of 2] word [of 3] word [of 4] word [of 5] word [of 6] word [of 7] word [of 8]
    word [of 9] word [of 10] word [of 11] word [of 12] word [of 13] word [of 14] word [of 15]
  show "registers_at (top_word p) (c_mem p) = frame_of num err s"
    using words by (simp add: registers_at_def frame_of_def Let_def stk)
qed

text \<open>Exceptions: the error code is the processor's for the eight that have one and 0 for the others.  The processor
  saves no stack pointer at the kernel's own level, so the fields \<open>esp\<close> and \<open>ss\<close> are the two words on top of the
  interrupted stack.\<close>

lemma exception_frame:
  fixes ext and n :: nat and e :: u32 and s :: cpu
  defines "q \<equiv> exec_code ext (exception_routine n) (take_interrupt (if n \<in> set no_err then Some e else None) s)"
  shows "\<exists>p is. q = exec_code ext (Call ''exceptionHandler'' # is) p
    \<and> registers_at (top_word p) (c_mem p) = frame_of (of_nat n) (if n \<in> set no_err then e else 0) s"
proof -
  let ?e = "if n \<in> set no_err then e else 0"
  let ?pushes = "if n \<in> set no_err then [PushI (of_nat n)] else [PushI 0, PushI (of_nat n)]"
  let ?t = "exec_code ext ?pushes (take_interrupt (if n \<in> set no_err then Some e else None) s)"
  have "entered (of_nat n) ?e s ?t" using entered_pushes(1) [of "of_nat n" 0 s] entered_pushes(2) [of "of_nat n" e s] by simp
  note frame = call_stack(4) [OF this, of ext]
  have "exception_routine n = ?pushes @ exception_stub"
    by (simp add: exception_routine_def m_exception_err_def m_exception_no_err_def)
  moreover have "straight ?pushes" by simp
  ultimately have "q = exec_code ext exception_stub ?t" unfolding q_def by (simp add: exec_append del: exec_code.simps)
  then have "q = exec_code ext (Call ''exceptionHandler'' # drop 11 exception_stub) (exec_code ext save_state ?t)"
    unfolding exception_stub_def exec_append [OF straight_code(1)] by (simp add: save_state_def del: exec_code.simps)
  with frame show ?thesis by blast
qed

text \<open>C14: an interrupt is invisible to the code it interrupts.  The handler gets the address of a structure with the
  registers of the interrupted state, the vector \<open>32 + i\<close> and the line \<open>i\<close> in place of an error code; the
  dispatcher picks the handler registered for this vector and acknowledges it.  When the handler returns as
  a C function does, all eight registers, the stack pointer included, the flags and the instruction pointer
  have their old values, the data segments that of \<open>ds\<close>, and memory is as the handler left it.\<close>

theorem interrupt_transparent:
  assumes "i < 16" and abi: "abi_call 14 (ext ''interruptHandler'') (handler_call i s)"
  shows "registers_at (top_word (handler_call i s)) (c_mem (handler_call i s)) = frame_of (of_nat (32 + i)) (of_nat i) s
    \<and> interruptHandler (r_int_num (frame_of (of_nat (32 + i)) (of_nat i) s)) hs l =
        Inr (hs (of_nat (32 + i)), l @ (if 8 \<le> i then [(0xA0, 0x20)] else []) @ [(0x20, 0x20)])
    \<and> (let s' = exec_code ext (interrupt_routine i) (take_interrupt None s)
       in c_reg s' = c_reg s \<and> c_eip s' = c_eip s \<and> c_eflags s' = c_eflags s
        \<and> c_seg s' = (c_seg s)(ES := c_seg s DS, FS := c_seg s DS, GS := c_seg s DS)
        \<and> c_mem s' = c_mem (ext ''interruptHandler'' (handler_call i s))
        \<and> c_cr3 s' = c_cr3 (ext ''interruptHandler'' (handler_call i s)))"
proof -
  let ?h = "ext ''interruptHandler''" and ?p = "handler_call i s"
  let ?t = "push_word (of_nat (32 + i)) (push_word (of_nat i) (take_interrupt None s))"
  let ?rest = "[AddEsp 4, PopR EBX, MovSeg DS EBX, MovSeg ES EBX, MovSeg FS EBX, MovSeg GS EBX, Popad, AddEsp 8, Iret]"
  have t: "entered (of_nat (32 + i)) (of_nat i) s ?t" by (rule entered_pushes)
  have p: "exec_code ext save_state ?t = ?p" for ext
    unfolding handler_call_def by (subst exec_append) (simp_all add: save_state_ext [of "\<lambda>_ s. s" _ ext])
  note call = call_stack [OF t, where ext = ext, unfolded p]
  have enter: "exec_code ext [PushI (of_nat i), PushI (of_nat (32 + i))] (take_interrupt None s) = ?t" by simp
  have routine: "exec_code ext (interrupt_routine i) (take_interrupt None s) = exec_code ext ?rest (?h ?p)"
    unfolding interrupt_routine_def m_interrupt_def interrupt_stub_def
      exec_append [OF straight_code(2)] exec_append [OF straight_code(1)] enter p
    by (rule exec_Call)
  have "tl (stack_words 15 (?h ?p)) = tl (stack_words 15 ?p)" using abi by (simp add: abi_call_def)
  moreover have "stack_words 15 ?p = take 15 (stack_words 17 ?p)" by (simp add: take_stack_words)
  ultimately have stk: "stack_words 15 (?h ?p) = [top_word (?h ?p), saved_ds s, c_reg s EDI, c_reg s ESI, c_reg s EBP, c_reg s ESP - 20,
      c_reg s EBX, c_reg s EDX, c_reg s ECX, c_reg s EAX, of_nat (32 + i), of_nat i, c_eip s, ucast (c_seg s CS), c_eflags s]"
    using stack_Suc [of 14 "?h ?p"] by (simp add: call(3))
  have esp: "c_reg (?h ?p) ESP = c_reg s ESP - 60" using abi call(1) by (simp add: abi_call_def callee_saved_def)
  have segs: "c_seg (?h ?p) = (c_seg s)(DS := 0x10, ES := 0x10, FS := 0x10, GS := 0x10)"
    using abi save_state_exec(2) [of ext ?t, unfolded p] t by (simp add: abi_call_def entered_def)
  have ebx: "EBX \<in> {EAX, EBX}" by simp
  note restored = restore_exec [OF stk ebx, of ext]
  have regs': "c_reg (exec_code ext ?rest (?h ?p)) = c_reg s"
    unfolding restored(1) esp by (auto simp: fun_eq_iff split: reg.split)
  have segs': "c_seg (exec_code ext ?rest (?h ?p)) = (c_seg s)(ES := c_seg s DS, FS := c_seg s DS, GS := c_seg s DS)"
    unfolding restored(2) segs saved_ds_def low_half by (auto simp: fun_eq_iff ucast_u16_u32)
  have num: "r_int_num (frame_of (of_nat (32 + i)) (of_nat i) s) = of_nat (32 + i)" by (simp add: frame_of_def)
  show ?thesis
    unfolding routine Let_def num using call(4) dispatch_line [OF assms(1), of hs l] regs' segs' restored(3-6) by blast
qed

text \<open>A handler that overwrites the registers it may overwrite, its argument and the stack below.\<close>

definition demo_handler :: "string \<Rightarrow> cpu \<Rightarrow> cpu" where
  "demo_handler f s = s\<lparr>c_reg := (c_reg s)(EAX := 1, ECX := 2, EDX := 3), c_eflags := 0,
     c_mem := store_word (c_reg s ESP - 4) 7 (store_word (c_reg s ESP) 9 (c_mem s))\<rparr>"

definition demo_cpu :: cpu where
  "demo_cpu = \<lparr>c_reg = (\<lambda>r. case r of EAX \<Rightarrow> 0x11 | ECX \<Rightarrow> 0x22 | EDX \<Rightarrow> 0x33 | EBX \<Rightarrow> 0x44 | ESP \<Rightarrow> 0xC0100000 | EBP \<Rightarrow> 0xC0100010
       | ESI \<Rightarrow> 0x55 | EDI \<Rightarrow> 0x66),
     c_seg = (\<lambda>g. if g = CS then 8 else 0x10), c_eip = 0xC0001234, c_eflags = 0x246, c_zf = True, c_cr3 = 0x300000, c_gdtr = (0, 0), c_tr = 0, c_mem = (\<lambda>_. 0)\<rparr>"

theorem interrupt_transparent_witness:
  "let s' = exec_code demo_handler (interrupt_routine 8) (take_interrupt None demo_cpu)
   in c_reg s' = c_reg demo_cpu \<and> c_eip s' = 0xC0001234 \<and> c_eflags s' = 0x246 \<and> c_seg s' = c_seg demo_cpu"
proof -
  have other: "apart (x + 4 * of_nat i) (x - 4)" "apart (x + 4 * of_nat i) x" if "0 < i" "i < 15" for x i
    using apart_of_offset [of i x] apart_of_offset [of "Suc i" "x - 4"] that by (simp_all add: algebra_simps)
  have abi: "abi_call 14 (demo_handler ''interruptHandler'') s" for s
  proof -
    have "tl (stack_words 15 (demo_handler ''interruptHandler'' s)) = tl (stack_words 15 s)"
      by (rule nth_equalityI) (simp_all add: nth_tl stack_words_def demo_handler_def other del: upt_Suc of_nat_Suc)
    then show ?thesis by (simp add: abi_call_def callee_saved_def demo_handler_def)
  qed
  have demo: "c_eip demo_cpu = 0xC0001234" "c_eflags demo_cpu = 0x246"
      "(c_seg demo_cpu)(ES := c_seg demo_cpu DS, FS := c_seg demo_cpu DS, GS := c_seg demo_cpu DS) = c_seg demo_cpu"
    by (auto simp: demo_cpu_def)
  have line: "8 < (16 :: nat)" by simp
  show ?thesis
    using interrupt_transparent [of 8 demo_handler demo_cpu "\<lambda>_. None :: unit option" "[]", OF line abi] unfolding Let_def demo by blast
qed

section \<open>Loading the tables\<close>

text \<open>\<open>flush.s\<close> and the frame around the global constructors, \<open>crti.s\<close> and \<open>crtn.s\<close>, whose middle part the linker
  collects.\<close>

definition gdt_flush :: "instr list" where
  "gdt_flush = [Load EAX (Based ESP 4), Lgdt EAX, MovLowI EAX 0x10, MovSeg DS EAX, MovSeg ES EAX, MovSeg FS EAX, MovSeg SS EAX,
     MovSeg GS EAX, JmpFar 0x08, Ret]"

definition tss_flush :: "instr list" where
  "tss_flush = [MovLowI EAX 0x2B, Ltr EAX, Ret]"

definition init_code :: "instr list \<Rightarrow> instr list" where
  "init_code body = [PushR EBP, MovR EBP ESP] @ body @ [PopR EBP, Ret]"

definition fini_code :: "instr list \<Rightarrow> instr list" where
  "fini_code body = [PushR EBP, MovR EBP EBP] @ body @ [PopR EBP, Ret]"

text \<open>\<open>gdt_flush\<close> returns to its caller with the register loaded from the structure at its argument; the code segment selects
  entry 1 of the table and the other segments entry 2, both at privilege level 0.\<close>

lemma gdt_flush_loads:
  fixes ext and s :: cpu
  defines "s' \<equiv> exec_code ext gdt_flush s" and "p \<equiv> load_word (c_reg s ESP + 4) (c_mem s)"
  shows "c_gdtr s' = (ucast (load_word p (c_mem s)), load_word (p + 2) (c_mem s))"
    and "c_seg s' = (\<lambda>g. if g = CS then 0x08 else 0x10)"
    and "c_eip s' = top_word s" "c_reg s' ESP = c_reg s ESP + 4" "r \<notin> {EAX, ESP} \<Longrightarrow> c_reg s' r = c_reg s r" "c_mem s' = c_mem s"
proof -
  have low: "ucast ((w AND NOT 0xFFFF) OR 0x10 :: u32) = (0x10 :: u16)" for w using low_half [of w "0x10"] by simp
  show "c_seg s' = (\<lambda>g. if g = CS then 0x08 else 0x10)"
  proof (rule ext)
    show "c_seg s' g = (if g = CS then 0x08 else 0x10)" for g
      using low by (cases g) (simp_all add: s'_def gdt_flush_def set_reg_def set_low_def drop_word_def)
  qed
qed (simp_all add: s'_def p_def gdt_flush_def set_reg_def set_low_def drop_word_def top_word_def)

lemma tss_flush_loads:
  "c_tr (exec_code ext tss_flush s) = 0x2B" "c_eip (exec_code ext tss_flush s) = top_word s"
  using low_half [of "c_reg s EAX" "0x2B"]
  by (simp_all add: tss_flush_def set_reg_def set_low_def drop_word_def top_word_def)

text \<open>Around a body that keeps the stack pointer and the two words above it, \<open>_init\<close> and \<open>_fini\<close> return to their caller with
  its \<open>ebp\<close>.\<close>

lemma init_returns:
  fixes ext and s :: cpu
  assumes "straight body" and body: "\<And>c. c_reg (exec_code ext body c) ESP = c_reg c ESP" "\<And>c. stack_words 2 (exec_code ext body c) = stack_words 2 c"
    and code: "code \<in> {init_code body, fini_code body}"
  shows "c_reg (exec_code ext code s) EBP = c_reg s EBP \<and> c_reg (exec_code ext code s) ESP = c_reg s ESP + 4 \<and> c_eip (exec_code ext code s) = top_word s"
proof -
  obtain r where r: "r \<in> {ESP, EBP}" "code = [PushR EBP, MovR EBP r] @ body @ [PopR EBP, Ret]"
    using code by (auto simp: init_code_def fini_code_def)
  let ?p = "push_word (c_reg s EBP) s" and ?c = "\<lambda>w. set_reg EBP w (push_word (c_reg s EBP) s)"
  obtain w where "exec_code ext code s = exec_code ext [PopR EBP, Ret] (exec_code ext body (?c w))"
    using exec_append [OF assms(1)] r(2) by simp
  moreover have "stack_words 2 (exec_code ext body (?c w)) = [c_reg s EBP, top_word s]"
  proof -
    have "stack_words (Suc 1) (push_word (c_reg s EBP) s) = c_reg s EBP # stack_words 1 s" by (rule stack_push) simp
    then show ?thesis unfolding body by (simp add: stack_words_def top_word_def set_reg_def numeral_2_eq_2)
  qed
  moreover have "c_reg (exec_code ext body (?c w)) ESP = c_reg s ESP - 4" unfolding body by (simp add: set_reg_def push_word_def)
  ultimately show ?thesis by (simp add: stack_Suc numeral_2_eq_2 top_word_def drop_word_def set_reg_def)
qed

end
