(* ===== verification/Context_Switch.thy ===== *)
theory Context_Switch
  imports Machine_Code Scheduler
begin

text \<open>
  \<open>Kernel/Arch/i686/Assembly/tasks.s\<close>: the context switch, instruction by instruction, over the task structures as they lie in
  memory.  The theory \<open>Scheduler\<close> uses a model of it on the scheduler's state; here the code is shown to
  implement that model, and a task that is switched away from to come back with its registers, its stack
  pointer and its return address.
\<close>

section \<open>The routine\<close>

text \<open>The offsets of the structure (\<open>struc task\<close>) and the codes of its state.\<close>

definition task_stack :: u32 where "task_stack = 0"
definition task_page_dir :: u32 where "task_page_dir = 4"
definition task_state_at :: u32 where "task_state_at = 12"

fun state_code :: "task_state \<Rightarrow> u32" where
  "state_code TASK_RUNNING = 0"
| "state_code TASK_READY = 1"
| "state_code TASK_SLEEPING = 2"
| "state_code TASK_BLOCKED = 3"
| "state_code TASK_STOPPED = 4"
| "state_code TASK_PAUSED = 5"

text \<open>\<open>cur\<close> is the address of the variable \<open>current_task\<close>.\<close>

definition switch_save :: "u32 \<Rightarrow> instr list" where
  "switch_save cur = [PushR EBX, PushR ESI, PushR EDI, PushR EBP, Load EDI (At cur), Store (Based EDI task_stack) ESP,
     CmpI (Based EDI task_state_at) (state_code TASK_RUNNING)]"

definition switch_enqueue :: "instr list" where
  "switch_enqueue = [StoreI (Based EDI task_state_at) (state_code TASK_READY), PushR EDI, Call ''_tasks_enqueue_ready'', AddEsp 4]"

definition switch_load :: "u32 \<Rightarrow> instr list" where
  "switch_load cur = [Load ESI (Based ESP ((4 + 1) * 4)), Store (At cur) ESI, Load ESP (Based ESI task_stack),
     StoreI (Based ESI task_state_at) (state_code TASK_RUNNING), Load EAX (Based ESI task_page_dir), MovFromCr3 ECX, CmpR EAX ECX]"

definition switch_resume :: "instr list" where
  "switch_resume = [PopR EBP, PopR EDI, PopR ESI, PopR EBX, Ret]"

definition switch_code :: "u32 \<Rightarrow> instr list" where
  "switch_code cur = switch_save cur @ Jne (length switch_enqueue) # switch_enqueue @ switch_load cur @ Je 1 # MovToCr3 EAX # switch_resume"

text \<open>The state at the call of \<open>_tasks_enqueue_ready\<close>.\<close>

definition enqueue_call :: "u32 \<Rightarrow> cpu \<Rightarrow> cpu" where
  "enqueue_call cur c = exec_code (\<lambda>_ c. c) (switch_save cur @ take 2 switch_enqueue) c"

section \<open>Tasks in memory\<close>

definition task_fields :: "u32 set" where "task_fields = {task_stack, task_page_dir, task_state_at}"

definition holds_tasks :: "u32 \<Rightarrow> addr set \<Rightarrow> cpu \<Rightarrow> sched \<Rightarrow> bool" where
  "holds_tasks cur D c s \<longleftrightarrow>
     (\<exists>p \<in> D. current_task s = Some p \<and> load_word cur (c_mem c) = of_nat p)
     \<and> (\<forall>t \<in> D. load_word (of_nat t + task_stack) (c_mem c) = stack_top (tasks s t)
          \<and> load_word (of_nat t + task_page_dir) (c_mem c) = page_dir (tasks s t)
          \<and> load_word (of_nat t + task_state_at) (c_mem c) = state_code (t_state (tasks s t)))
     \<and> c_cr3 c = cpu_cr3 s"

text \<open>The words at the addresses \<open>K\<close>, \<open>current_task\<close> and the fields of the tasks do not overlap.\<close>

definition task_layout :: "u32 \<Rightarrow> addr set \<Rightarrow> u32 set \<Rightarrow> bool" where
  "task_layout cur D K \<longleftrightarrow>
     (\<forall>t \<in> D. \<forall>f \<in> task_fields. apart cur (of_nat t + f) \<and> (\<forall>k \<in> K. apart k (of_nat t + f))
        \<and> (\<forall>u \<in> D. \<forall>g \<in> task_fields. (t, f) \<noteq> (u, g) \<longrightarrow> apart (of_nat t + f) (of_nat u + g)))
     \<and> (\<forall>k \<in> K. apart k cur)"

text \<open>The words that the routine pushes, its return address and its argument.\<close>

definition stack_use :: "cpu \<Rightarrow> u32 set" where
  "stack_use c = (\<lambda>i. c_reg c ESP - 20 + 4 * of_nat i) ` {..<7}"

definition frame_addrs :: "u32 \<Rightarrow> u32 set" where
  "frame_addrs a = (\<lambda>i. a + 4 * of_nat i) ` {..<5}"

text \<open>What lies on the stack of a task that is not running: the registers and the return address.\<close>

definition frame_at :: "u32 \<Rightarrow> (u32 \<Rightarrow> u8) \<Rightarrow> u32 list" where
  "frame_at a m = map (\<lambda>i. load_word (a + 4 * of_nat i) m) [0..<5]"

definition context_words :: "cpu \<Rightarrow> u32 list" where
  "context_words c = map (c_reg c) [EBP, EDI, ESI, EBX]"

text \<open>\<open>_tasks_enqueue_ready\<close> is compiled code that touches the links of the tasks and the list, and nothing the
  switch looks at or that lies at \<open>F\<close>.\<close>

definition enqueue_keeps :: "u32 \<Rightarrow> addr set \<Rightarrow> u32 set \<Rightarrow> (cpu \<Rightarrow> cpu) \<Rightarrow> cpu \<Rightarrow> bool" where
  "enqueue_keeps cur D F f c \<longleftrightarrow> abi_call 6 f c \<and> c_cr3 (f c) = c_cr3 c \<and> load_word cur (c_mem (f c)) = load_word cur (c_mem c)
     \<and> (\<forall>t \<in> D. \<forall>k \<in> task_fields. load_word (of_nat t + k) (c_mem (f c)) = load_word (of_nat t + k) (c_mem c))
     \<and> (\<forall>a \<in> F. load_word a (c_mem (f c)) = load_word a (c_mem c))"

text \<open>Where words are kept over a switch: apart from everything that it pushes.\<close>

definition kept_words :: "u32 set \<Rightarrow> cpu \<Rightarrow> bool" where
  "kept_words F c \<longleftrightarrow> (\<forall>a \<in> F. \<forall>i < 5. apart a (c_reg c ESP - 20 + 4 * of_nat i))"

lemma state_code_inject [simp]: "state_code a = state_code b \<longleftrightarrow> a = b"
  by (cases a; cases b) simp_all

lemma state_code_0 [simp]: "state_code a = 0 \<longleftrightarrow> a = TASK_RUNNING"
  by (cases a) simp_all

lemma straight_switch [simp]: "straight (switch_save cur)" "straight (switch_load cur)" "straight (take 2 switch_enqueue)"
  by (auto simp: straight_def switch_save_def switch_load_def switch_enqueue_def)

lemma task_layoutD:
  assumes "task_layout cur D K" "t \<in> D" "f \<in> task_fields"
  shows "apart cur (of_nat t + f)" "apart (of_nat t + f) cur"
    and "k \<in> K \<Longrightarrow> apart k (of_nat t + f)" "k \<in> K \<Longrightarrow> apart (of_nat t + f) k"
    and "u \<in> D \<Longrightarrow> g \<in> task_fields \<Longrightarrow> (t, f) \<noteq> (u, g) \<Longrightarrow> apart (of_nat t + f) (of_nat u + g)"
    and "k \<in> K \<Longrightarrow> apart k cur" "k \<in> K \<Longrightarrow> apart cur k"
  using assms unfolding task_layout_def by (blast intro: apart_sym)+

lemma task_fields_in [simp]: "task_stack \<in> task_fields" "task_page_dir \<in> task_fields" "task_state_at \<in> task_fields"
  by (simp_all add: task_fields_def)

lemmas task_offsets = task_stack_def task_page_dir_def task_state_at_def

lemma task_offsets_distinct [simp]:
  "task_stack \<noteq> task_page_dir" "task_stack \<noteq> task_state_at" "task_page_dir \<noteq> task_state_at"
  "task_page_dir \<noteq> task_stack" "task_state_at \<noteq> task_stack" "task_state_at \<noteq> task_page_dir"
  by (simp_all add: task_offsets)

text \<open>A store to a field is the update of the field.\<close>

lemma holds_tasks_store:
  assumes h: "holds_tasks cur D c s" and lay: "task_layout cur D K" and "t \<in> D"
  shows "holds_tasks cur D (c\<lparr>c_mem := store_word (of_nat t + task_stack) w (c_mem c)\<rparr>) (upd_task t (\<lambda>k. k\<lparr>stack_top := w\<rparr>) s)"
    and "holds_tasks cur D (c\<lparr>c_mem := store_word (of_nat t + task_state_at) (state_code st) (c_mem c)\<rparr>) (upd_task t (\<lambda>k. k\<lparr>t_state := st\<rparr>) s)"
proof -
  have eq: "load_word (of_nat u + f) (store_word (of_nat t + g) w m) = (if (u, f) = (t, g) then w else load_word (of_nat u + f) m)"
    if "u \<in> D" "f \<in> task_fields" "g \<in> task_fields" for u f g w m
    using task_layoutD(5) [OF lay that(1,2) assms(3) that(3)] by auto
  have cur: "load_word cur (store_word (of_nat t + f) w m) = load_word cur m" if "f \<in> task_fields" for f w m
    using task_layoutD(1) [OF lay assms(3) that] by simp
  show "holds_tasks cur D (c\<lparr>c_mem := store_word (of_nat t + task_stack) w (c_mem c)\<rparr>) (upd_task t (\<lambda>k. k\<lparr>stack_top := w\<rparr>) s)"
    "holds_tasks cur D (c\<lparr>c_mem := store_word (of_nat t + task_state_at) (state_code st) (c_mem c)\<rparr>) (upd_task t (\<lambda>k. k\<lparr>t_state := st\<rparr>) s)"
    using h by (auto simp: holds_tasks_def upd_task_def eq cur simp del: load_store_apart)
qed

text \<open>A store elsewhere, and everything that is not memory, leaves the tasks.\<close>

lemma holds_tasks_cong:
  assumes "holds_tasks cur D c s" "c_cr3 c' = c_cr3 c" "load_word cur (c_mem c') = load_word cur (c_mem c)"
    and "\<And>t f. t \<in> D \<Longrightarrow> f \<in> task_fields \<Longrightarrow> load_word (of_nat t + f) (c_mem c') = load_word (of_nat t + f) (c_mem c)"
  shows "holds_tasks cur D c' s"
  using assms unfolding holds_tasks_def by simp

lemma stack_use_in: "i < 7 \<Longrightarrow> c_reg c ESP - 20 + 4 * of_nat i \<in> stack_use c"
  by (simp add: stack_use_def)

lemma pushed_address: "j < 5 \<Longrightarrow> x - 4 * of_nat (Suc j) = x - 20 + 4 * of_nat (4 - j :: nat)" for x :: u32
  by (simp add: of_nat_diff algebra_simps)

lemma pushed_in_stack_use: "j < 5 \<Longrightarrow> c_reg c ESP - 4 * of_nat (Suc j) \<in> stack_use c"
  unfolding pushed_address by (rule stack_use_in) simp

lemma kept_words_pushes:
  assumes "kept_words F c" "a \<in> F" "length ws \<le> 5"
  shows "load_word a (c_mem (fold push_word ws c)) = load_word a (c_mem c)"
proof (rule load_pushes)
  fix j assume "j < length ws"
  then have "j < 5" "4 - j < 5" using assms(3) by simp_all
  with assms(1,2) show "apart a (c_reg c ESP - 4 * of_nat (Suc j))" unfolding pushed_address [OF \<open>j < 5\<close>] kept_words_def by blast
qed

lemma holds_tasks_pushes:
  assumes h: "holds_tasks cur D c s" and lay: "task_layout cur D K" and K: "stack_use c \<subseteq> K" and ws: "length ws \<le> 5"
  shows "holds_tasks cur D (fold push_word ws c) s"
proof (rule holds_tasks_cong [OF h])
  have K: "c_reg c ESP - 4 * of_nat (Suc j) \<in> K" if "j < length ws" for j
    using pushed_in_stack_use [of j c] that ws K by auto
  show "load_word (of_nat t + f) (c_mem (fold push_word ws c)) = load_word (of_nat t + f) (c_mem c)"
    if "t \<in> D" "f \<in> task_fields" for t f
    using task_layoutD(4) [OF lay that] K by (intro load_pushes) blast
  show "load_word cur (c_mem (fold push_word ws c)) = load_word cur (c_mem c)"
    using lay K unfolding task_layout_def by (intro load_pushes) (blast intro: apart_sym)
qed simp

section \<open>Saving\<close>

lemma switch_save_exec:
  fixes ext and c :: cpu
  assumes h: "holds_tasks cur D c s" and lay: "task_layout cur D (stack_use c \<union> F)" and F: "kept_words F c"
    and p: "current_task s = Some p" and esp: "cpu_esp s = c_reg c ESP + 4"
  defines "q \<equiv> exec_code ext (switch_save cur) c"
  shows "holds_tasks cur D q (upd_task p (\<lambda>t. t\<lparr>stack_top := cpu_esp s - 20\<rparr>) s)"
    and "c_reg q = (c_reg c)(EDI := of_nat p, ESP := c_reg c ESP - 16)"
    and "stack_words 6 q = [c_reg c EBP, c_reg c EDI, c_reg c ESI, c_reg c EBX] @ stack_words 2 c"
    and "c_zf q \<longleftrightarrow> t_state (tasks s p) = TASK_RUNNING"
    and "a \<in> F \<Longrightarrow> load_word a (c_mem q) = load_word a (c_mem c)"
proof -
  let ?ws = "map (c_reg c) [EBX, ESI, EDI, EBP]"
  let ?f = "fold push_word ?ws c"
  let ?r = "?f\<lparr>c_mem := store_word (of_nat p + task_stack) (c_reg c ESP - 16) (c_mem ?f)\<rparr>"
  have pD: "p \<in> D" "load_word cur (c_mem c) = of_nat p" using h p by (auto simp: holds_tasks_def)
  have f: "holds_tasks cur D ?f s" using holds_tasks_pushes [OF h lay, of ?ws] by (simp del: fold.simps)
  have regs: "c_reg ?f = (c_reg c)(ESP := c_reg c ESP - 16)" by (simp only: fold_push_parts) simp
  have r: "holds_tasks cur D ?r (upd_task p (\<lambda>t. t\<lparr>stack_top := cpu_esp s - 20\<rparr>) s)"
    using holds_tasks_store(1) [OF f lay pD(1), of "c_reg c ESP - 16"] esp by simp
  have cur: "load_word cur (c_mem ?f) = of_nat p" using f p by (auto simp: holds_tasks_def)
  have st: "load_word (of_nat p + task_state_at) (c_mem ?r) = state_code (t_state (tasks s p))"
    using r pD(1) by (auto simp: holds_tasks_def upd_task_def)
  have "q = exec_code ext [Load EDI (At cur), Store (Based EDI task_stack) ESP, CmpI (Based EDI task_state_at) (state_code TASK_RUNNING)] ?f"
    by (simp add: q_def switch_save_def push_word_def set_reg_def)
  also have "\<dots> = (set_reg EDI (of_nat p) ?r)\<lparr>c_zf := (t_state (tasks s p) = TASK_RUNNING)\<rparr>"
    using st by (simp add: cur regs set_reg_def del: fold.simps list.map fold_push_parts)
  finally have q: "q = \<dots>" .
  show "holds_tasks cur D q (upd_task p (\<lambda>t. t\<lparr>stack_top := cpu_esp s - 20\<rparr>) s)"
    unfolding q by (rule holds_tasks_cong [OF r]) (simp_all add: set_reg_def)
  show "c_reg q = (c_reg c)(EDI := of_nat p, ESP := c_reg c ESP - 16)"
    by (auto simp: q set_reg_def regs fun_eq_iff simp del: fold.simps list.map fold_push_parts)
  show "c_zf q \<longleftrightarrow> t_state (tasks s p) = TASK_RUNNING" by (simp add: q)
  have "stack_words 6 ?f = rev ?ws @ stack_words 2 c"
  proof -
    have small: "2 + length ?ws < 2 ^ 30" and len: "length ?ws + 2 = 6" by simp_all
    show ?thesis using stack_fold_push [OF small, of c] unfolding len .
  qed
  moreover have "apart (c_reg ?f ESP + 4 * of_nat i) (of_nat p + task_stack)" if "i < 6" for i
    using task_layoutD(3) [OF lay pD(1) task_fields_in(1)] stack_use_in [of "Suc i" c] that
    by (simp add: regs algebra_simps del: fold.simps list.map fold_push_parts)
  ultimately show "stack_words 6 q = [c_reg c EBP, c_reg c EDI, c_reg c ESI, c_reg c EBX] @ stack_words 2 c"
    by (simp add: q stack_store del: fold.simps fold_push_parts)
  show "load_word a (c_mem q) = load_word a (c_mem c)" if a: "a \<in> F"
  proof -
    have "load_word a (c_mem ?f) = load_word a (c_mem c)" by (rule kept_words_pushes [OF F a]) simp
    moreover have "apart a (of_nat p + task_stack)" using task_layoutD(3) [OF lay pD(1) task_fields_in(1)] a by simp
    ultimately show ?thesis by (simp add: q set_reg_def del: fold.simps list.map)
  qed
qed

section \<open>Queueing the old task\<close>

lemma enqueue_on_fields [simp]:
  "stack_top (tasks (enqueue_on q t s) u) = stack_top (tasks s u)" "page_dir (tasks (enqueue_on q t s) u) = page_dir (tasks s u)"
  "t_state (tasks (enqueue_on q t s) u) = t_state (tasks s u)" "current_task (enqueue_on q t s) = current_task s"
  "cpu_esp (enqueue_on q t s) = cpu_esp s" "cpu_cr3 (enqueue_on q t s) = cpu_cr3 s"
  by (cases q; simp add: enqueue_on_def enqueue_task_def set_next_def Let_def split: option.split)+

lemma holds_tasks_enqueue: "holds_tasks cur D c s \<Longrightarrow> holds_tasks cur D c (tasks_enqueue_ready t s)"
  by (simp add: holds_tasks_def tasks_enqueue_ready_def)

lemma switch_enqueue_exec:
  fixes ext and c :: cpu
  assumes h: "holds_tasks cur D c s" and lay: "task_layout cur D (stack_use c \<union> F)" and F: "kept_words F c"
    and p: "current_task s = Some p" and esp: "cpu_esp s = c_reg c ESP + 4"
    and E: "enqueue_keeps cur D F (ext ''_tasks_enqueue_ready'') (enqueue_call cur c)"
  defines "q \<equiv> exec_code ext (switch_save cur) c" and "s1 \<equiv> upd_task p (\<lambda>t. t\<lparr>stack_top := cpu_esp s - 20\<rparr>) s"
  defines "r \<equiv> exec_code ext switch_enqueue q"
  shows "holds_tasks cur D r (tasks_enqueue_ready p (upd_task p (\<lambda>t. t\<lparr>t_state := TASK_READY\<rparr>) s1))"
    and "c_reg r ESP = c_reg c ESP - 16" "stack_words 6 r = stack_words 6 q" "a \<in> F \<Longrightarrow> load_word a (c_mem r) = load_word a (c_mem c)"
proof -
  let ?q = "q\<lparr>c_mem := store_word (of_nat p + task_state_at) (state_code TASK_READY) (c_mem q)\<rparr>"
  let ?e = "push_word (of_nat p) ?q" and ?E = "ext ''_tasks_enqueue_ready''"
  note q = switch_save_exec [OF h lay F p esp, where ext = ext, folded q_def s1_def]
  have pD: "p \<in> D" using h p by (auto simp: holds_tasks_def)
  have edi: "c_reg q EDI = of_nat p" "c_reg ?q EDI = of_nat p" using q(2) by simp_all
  have "enqueue_call cur c = exec_code ext (take 2 switch_enqueue) q"
    unfolding enqueue_call_def q_def exec_append [OF straight_switch(1)] by (simp add: switch_save_def switch_enqueue_def)
  then have e: "enqueue_call cur c = ?e" using edi by (simp add: switch_enqueue_def)
  have r: "r = drop_word (?E ?e)" using edi by (simp add: r_def switch_enqueue_def drop_word_def)
  have hq: "holds_tasks cur D ?q (upd_task p (\<lambda>t. t\<lparr>t_state := TASK_READY\<rparr>) s1)" by (rule holds_tasks_store(2) [OF q(1) lay pD])
  have at: "c_reg ?q ESP - 4 = c_reg c ESP - 20 + 4 * of_nat 0" using q(2) by simp
  have field: "apart (of_nat t + f) (c_reg ?q ESP - 4)" "apart cur (c_reg ?q ESP - 4)" if "t \<in> D" "f \<in> task_fields" for t f
    using task_layoutD(4,7) [OF lay that] stack_use_in [of 0 c] unfolding at by simp_all
  have "holds_tasks cur D ?e (upd_task p (\<lambda>t. t\<lparr>t_state := TASK_READY\<rparr>) s1)"
    by (rule holds_tasks_cong [OF hq]) (use field(1) field(2) [OF pD task_fields_in(1)] in \<open>simp_all add: push_word_def set_reg_def\<close>)
  then have "holds_tasks cur D r (upd_task p (\<lambda>t. t\<lparr>t_state := TASK_READY\<rparr>) s1)"
    using E unfolding e enqueue_keeps_def r by (elim holds_tasks_cong) (simp_all add: drop_word_def set_reg_def)
  then show "holds_tasks cur D r (tasks_enqueue_ready p (upd_task p (\<lambda>t. t\<lparr>t_state := TASK_READY\<rparr>) s1))"
    by (rule holds_tasks_enqueue)
  have abi: "abi_call 6 ?E ?e" using E unfolding e enqueue_keeps_def by blast
  then show "c_reg r ESP = c_reg c ESP - 16"
    using q(2) by (simp add: r abi_call_def callee_saved_def drop_word_def push_word_def set_reg_def)
  have "apart (c_reg q ESP + 4 * of_nat i) (of_nat p + task_state_at)" if "i < 6" for i
    using task_layoutD(3) [OF lay pD task_fields_in(3)] stack_use_in [of "Suc i" c] that by (simp add: q(2) algebra_simps)
  then have "stack_words 6 ?q = stack_words 6 q" by (rule stack_store)
  moreover have "stack_words (Suc 6) ?e = of_nat p # stack_words 6 ?q" by (rule stack_push) simp
  ultimately have "tl (stack_words (Suc 6) (?E ?e)) = stack_words 6 q" using abi by (simp add: abi_call_def)
  then show "stack_words 6 r = stack_words 6 q" unfolding stack_Suc r by simp
  show "load_word a (c_mem r) = load_word a (c_mem c)" if "a \<in> F"
  proof -
    have "load_word a (c_mem r) = load_word a (c_mem ?e)" using E that unfolding e enqueue_keeps_def r by (simp add: drop_word_def set_reg_def)
    moreover have "apart a (c_reg ?q ESP - 4)" unfolding at by (use F that in \<open>simp only: kept_words_def zero_less_numeral\<close>)
    moreover have "apart a (of_nat p + task_state_at)" using task_layoutD(3) [OF lay pD task_fields_in(3)] that by simp
    ultimately show ?thesis using q(5) [OF that] by (simp add: push_word_def set_reg_def)
  qed
qed

section \<open>Loading the new task\<close>

lemma holds_tasks_current:
  assumes "holds_tasks cur D c s" "task_layout cur D K" "b \<in> D"
  shows "holds_tasks cur D (c\<lparr>c_mem := store_word cur (of_nat b) (c_mem c)\<rparr>) (s\<lparr>current_task := Some b, cpu_esp := e\<rparr>)"
  using assms task_layoutD(2) [OF assms(2)] by (simp add: holds_tasks_def)

lemma switch_resume_exec:
  fixes ext and c :: cpu
  defines "v \<equiv> exec_code ext switch_resume c"
  shows "context_words v @ [c_eip v] = frame_at (c_reg c ESP) (c_mem c)" "c_reg v ESP = c_reg c ESP + 20"
    "c_mem v = c_mem c" "c_cr3 v = c_cr3 c"
  by (simp_all add: v_def switch_resume_def context_words_def frame_at_def top_word_def drop_word_def set_reg_def upt_rec algebra_simps)

lemma switch_load_exec:
  fixes ext and r :: cpu
  assumes h: "holds_tasks cur D r s" and lay: "task_layout cur D K" and b: "b \<in> D" "stack_words 6 r ! 5 = of_nat b"
  defines "v \<equiv> exec_code ext (switch_load cur @ Je 1 # MovToCr3 EAX # switch_resume) r"
    and "s' \<equiv> upd_task b (\<lambda>t. t\<lparr>t_state := TASK_RUNNING\<rparr>) (s\<lparr>current_task := Some b, cpu_esp := stack_top (tasks s b) + 20\<rparr>)"
  shows "holds_tasks cur D v (s'\<lparr>cpu_cr3 := page_dir (tasks s' b)\<rparr>)"
    and "c_reg v ESP = stack_top (tasks s b) + 20"
    and "context_words v @ [c_eip v] = frame_at (stack_top (tasks s b)) (c_mem v)"
    and "a \<in> K \<Longrightarrow> load_word a (c_mem v) = load_word a (c_mem r)"
proof -
  let ?m1 = "r\<lparr>c_mem := store_word cur (of_nat b) (c_mem r)\<rparr>"
  let ?m2 = "?m1\<lparr>c_mem := store_word (of_nat b + task_state_at) (state_code TASK_RUNNING) (c_mem ?m1)\<rparr>"
  let ?u = "exec_code ext (switch_load cur) r"
  have arg: "load_word (c_reg r ESP + 20) (c_mem r) = of_nat b" using stack_nth [of 5 6 r] b(2) by simp
  have h1: "holds_tasks cur D ?m1 (s\<lparr>current_task := Some b, cpu_esp := stack_top (tasks s b) + 20\<rparr>)"
    by (rule holds_tasks_current [OF h lay b(1)])
  then have h2: "holds_tasks cur D ?m2 s'" unfolding s'_def by (rule holds_tasks_store(2) [OF _ lay b(1)])
  have top: "load_word (of_nat b + task_stack) (c_mem ?m1) = stack_top (tasks s b)"
    and dir: "load_word (of_nat b + task_page_dir) (c_mem ?m2) = page_dir (tasks s' b)"
    using h1 h2 b(1) by (auto simp: holds_tasks_def)
  have u: "c_mem ?u = c_mem ?m2" "c_reg ?u ESP = stack_top (tasks s b)" "c_reg ?u EAX = page_dir (tasks s' b)" "c_cr3 ?u = c_cr3 r"
      "c_zf ?u \<longleftrightarrow> page_dir (tasks s' b) = c_cr3 r"
    using arg top dir by (simp_all add: switch_load_def set_reg_def)
  let ?w = "?u\<lparr>c_cr3 := page_dir (tasks s' b)\<rparr>"
  have "v = exec_code ext (Je 1 # MovToCr3 EAX # switch_resume) ?u" by (simp add: v_def exec_append del: exec_code.simps)
  also have "\<dots> = exec_code ext switch_resume ?w"
  proof (cases "c_zf ?u")
    case True
    then have "?w = ?u" using u(4,5) by simp
    with True show ?thesis by (simp add: exec_code.simps(2) [of ext "Je 1"])
  next
    case False
    then show ?thesis using u(3) by (simp add: exec_code.simps(2) [of ext "Je 1"] exec_code.simps(2) [of ext "MovToCr3 EAX"])
  qed
  finally have v: "v = exec_code ext switch_resume ?w" .
  note v = switch_resume_exec [of ext ?w, folded v]
  show "holds_tasks cur D v (s'\<lparr>cpu_cr3 := page_dir (tasks s' b)\<rparr>)"
    using h2 u(1) by (simp add: holds_tasks_def v)
  show "c_reg v ESP = stack_top (tasks s b) + 20" using v(2) u(2) by simp
  show "context_words v @ [c_eip v] = frame_at (stack_top (tasks s b)) (c_mem v)" using v(1,3) u(1,2) by simp
  show "load_word a (c_mem v) = load_word a (c_mem r)" if "a \<in> K"
    using task_layoutD(3,6) [OF lay b(1) task_fields_in(3) that] by (simp add: v u(1))
qed

section \<open>The switch\<close>

lemma switch_code_exec:
  fixes ext and cur and c :: cpu
  defines "q \<equiv> exec_code ext (switch_save cur) c"
  shows "exec_code ext (switch_code cur) c =
    exec_code ext (switch_load cur @ Je 1 # MovToCr3 EAX # switch_resume) (if c_zf q then exec_code ext switch_enqueue q else q)"
proof -
  let ?tail = "switch_load cur @ Je 1 # MovToCr3 EAX # switch_resume"
  have enq: "straight switch_enqueue" by (simp add: straight_def switch_enqueue_def)
  have "exec_code ext (switch_code cur) c = exec_code ext (Jne (length switch_enqueue) # switch_enqueue @ ?tail) q"
    unfolding switch_code_def q_def by (rule exec_append) simp
  also have "\<dots> = exec_code ext (if c_zf q then switch_enqueue @ ?tail else ?tail) q"
    unfolding exec_code.simps(2) [of ext "Jne _"] by simp
  finally show ?thesis using exec_append [OF enq] by simp
qed

text \<open>The state when the old task has been dealt with, on either branch.\<close>

lemma switch_away_exec:
  fixes ext and c :: cpu
  assumes h: "holds_tasks cur D c s" and lay: "task_layout cur D (stack_use c \<union> F)" and F: "kept_words F c"
    and p: "current_task s = Some p" and esp: "cpu_esp s = c_reg c ESP + 4"
    and E: "enqueue_keeps cur D F (ext ''_tasks_enqueue_ready'') (enqueue_call cur c)"
  defines "q \<equiv> exec_code ext (switch_save cur) c" and "s1 \<equiv> upd_task p (\<lambda>t. t\<lparr>stack_top := cpu_esp s - 20\<rparr>) s"
  defines "r \<equiv> if c_zf q then exec_code ext switch_enqueue q else q"
  shows "holds_tasks cur D r (if t_state (tasks s1 p) = TASK_RUNNING
      then tasks_enqueue_ready p (upd_task p (\<lambda>t. t\<lparr>t_state := TASK_READY\<rparr>) s1) else s1)"
    and "c_reg r ESP = c_reg c ESP - 16" "stack_words 6 r = context_words c @ stack_words 2 c"
    and "a \<in> F \<Longrightarrow> load_word a (c_mem r) = load_word a (c_mem c)"
proof -
  note save = switch_save_exec [OF h lay F p esp, where ext = ext, folded q_def s1_def]
  note enq = switch_enqueue_exec [where ext = ext, OF h lay F p esp E, folded q_def s1_def]
  have zf: "c_zf q \<longleftrightarrow> t_state (tasks s1 p) = TASK_RUNNING" using save(4) by (simp add: s1_def upd_task_def)
  show "holds_tasks cur D r (if t_state (tasks s1 p) = TASK_RUNNING
      then tasks_enqueue_ready p (upd_task p (\<lambda>t. t\<lparr>t_state := TASK_READY\<rparr>) s1) else s1)"
    using save(1) enq(1) unfolding r_def zf by simp
  show "c_reg r ESP = c_reg c ESP - 16" using save(2) enq(2) unfolding r_def by simp
  show "stack_words 6 r = context_words c @ stack_words 2 c"
    using save(3) enq(3) unfolding r_def context_words_def by simp
  show "a \<in> F \<Longrightarrow> load_word a (c_mem r) = load_word a (c_mem c)" using save(5) enq(4) unfolding r_def by simp
qed

lemma tasks_switch_to_eq:
  fixes s :: sched and p b :: addr
  assumes "current_task s = Some p"
  defines "s1 \<equiv> upd_task p (\<lambda>t. t\<lparr>stack_top := cpu_esp s - 20\<rparr>) s"
  defines "s2 \<equiv> if t_state (tasks s1 p) = TASK_RUNNING then tasks_enqueue_ready p (upd_task p (\<lambda>t. t\<lparr>t_state := TASK_READY\<rparr>) s1) else s1"
  defines "s3 \<equiv> upd_task b (\<lambda>t. t\<lparr>t_state := TASK_RUNNING\<rparr>) (s2\<lparr>current_task := Some b, cpu_esp := stack_top (tasks s2 b) + 20\<rparr>)"
  shows "tasks_switch_to b s = Inr (s3\<lparr>cpu_cr3 := page_dir (tasks s3 b)\<rparr>)"
    and "stack_top (tasks s3 u) = stack_top (tasks s2 u)" "stack_top (tasks s2 p) = cpu_esp s - 20" "u \<noteq> p \<Longrightarrow> stack_top (tasks s2 u) = stack_top (tasks s u)"
    and "cpu_esp s3 = stack_top (tasks s2 b) + 20"
  using assms(1) by (auto simp: tasks_switch_to_def Let_def s1_def s2_def s3_def upd_task_def tasks_enqueue_ready_def)

lemma tasks_switch_to_stacks:
  assumes "current_task s = Some p" "tasks_switch_to b s = Inr s'"
  shows "stack_top (tasks s' u) = (if u = p then cpu_esp s - 20 else stack_top (tasks s u))"
    and "cpu_esp s' = stack_top (tasks s' b) + 20"
  using assms by (auto simp: tasks_switch_to_def Let_def upd_task_def tasks_enqueue_ready_def)

text \<open>What a call of the routine needs: the structures and the argument in memory, and nothing in the way.  \<open>F\<close> are words
  that have to survive.\<close>

definition switch_call :: "(string \<Rightarrow> cpu \<Rightarrow> cpu) \<Rightarrow> u32 \<Rightarrow> addr set \<Rightarrow> u32 set \<Rightarrow> addr \<Rightarrow> cpu \<Rightarrow> sched \<Rightarrow> bool" where
  "switch_call ext cur D F b c s \<longleftrightarrow>
     holds_tasks cur D c s \<and> cpu_esp s = c_reg c ESP + 4 \<and> b \<in> D \<and> stack_words 2 c ! 1 = of_nat b
     \<and> task_layout cur D (stack_use c \<union> F) \<and> kept_words F c
     \<and> enqueue_keeps cur D F (ext ''_tasks_enqueue_ready'') (enqueue_call cur c)"

lemma switch_exec:
  assumes "switch_call ext cur D F b c s" and p: "current_task s = Some p"
  shows "\<exists>s'. tasks_switch_to b s = Inr s'
    \<and> (let c' = exec_code ext (switch_code cur) c
       in holds_tasks cur D c' s' \<and> c_reg c' ESP = cpu_esp s'
        \<and> frame_at (stack_top (tasks s' p)) (c_mem c') = context_words c @ [top_word c]
        \<and> context_words c' @ [c_eip c'] = frame_at (stack_top (tasks s' b)) (c_mem c')
        \<and> (\<forall>a \<in> F. load_word a (c_mem c') = load_word a (c_mem c)))"
proof -
  have h: "holds_tasks cur D c s" and lay: "task_layout cur D (stack_use c \<union> F)" and F: "kept_words F c"
    and esp: "cpu_esp s = c_reg c ESP + 4" and b: "b \<in> D" "stack_words 2 c ! 1 = of_nat b"
    and E: "enqueue_keeps cur D F (ext ''_tasks_enqueue_ready'') (enqueue_call cur c)"
    using assms(1) by (auto simp: switch_call_def)
  let ?q = "exec_code ext (switch_save cur) c" and ?c = "exec_code ext (switch_code cur) c"
  let ?r = "if c_zf ?q then exec_code ext switch_enqueue ?q else ?q"
  note r = switch_away_exec [where ext = ext, OF h lay F p esp E] and t = tasks_switch_to_eq [OF p]
  have arg: "stack_words 6 ?r ! 5 = of_nat b" using r(3) b(2) by (simp add: context_words_def)
  note v = switch_load_exec [OF r(1) lay b(1) arg, where ext = ext, folded switch_code_exec]
  have "frame_at (cpu_esp s - 20) (c_mem ?c) = frame_at (c_reg ?r ESP) (c_mem ?r)"
  proof -
    have "load_word (c_reg ?r ESP + 4 * of_nat i) (c_mem ?c) = load_word (c_reg ?r ESP + 4 * of_nat i) (c_mem ?r)" if "i < 5" for i
      using stack_use_in [of "Suc i" c] that by (intro v(4)) (simp add: r(2) algebra_simps)
    then show ?thesis unfolding frame_at_def using esp r(2) by simp
  qed
  also have "\<dots> = take 5 (stack_words 6 ?r)" by (simp add: frame_at_def stack_words_def take_map del: upt_Suc)
  also have "\<dots> = context_words c @ [top_word c]"
    unfolding r(3) by (simp add: context_words_def stack_Suc numeral_2_eq_2)
  finally have frame: "frame_at (cpu_esp s - 20) (c_mem ?c) = context_words c @ [top_word c]" .
  have kept: "\<forall>a \<in> F. load_word a (c_mem ?c) = load_word a (c_mem c)" using v(4) r(4) by simp
  show ?thesis
    unfolding t(1) Let_def by (rule exI, intro conjI, rule refl) (use v(1-3) t(2-5) frame kept in simp_all)
qed


text \<open>C6: a task that is switched away from comes back.  Task \<open>p\<close> calls the switch in state \<open>c\<close>; later, in state \<open>d\<close>, some
  task \<open>t\<close> switches back to \<open>p\<close>, whose structure and stack words are as the first switch left them.  Then \<open>p\<close>
  continues behind its call with the registers that a C function keeps for its caller and with its stack
  pointer, as if the call had just returned.\<close>

theorem switch_and_back:
  assumes "switch_call ext cur D F b c s" "current_task s = Some p"
    and "switch_call ext cur D (frame_addrs (c_reg c ESP - 16)) p d s2" "current_task s2 = Some t" "t \<noteq> p"
    and "stack_top (tasks s2 p) = c_reg c ESP - 16"
    and "frame_at (c_reg c ESP - 16) (c_mem d) = frame_at (c_reg c ESP - 16) (c_mem (exec_code ext (switch_code cur) c))"
  shows "let d' = exec_code ext (switch_code cur) d
    in (\<forall>r \<in> {EBX, EBP, ESI, EDI}. c_reg d' r = c_reg c r) \<and> c_reg d' ESP = c_reg c ESP + 4 \<and> c_eip d' = top_word c"
proof -
  let ?A = "c_reg c ESP - 16" and ?d = "exec_code ext (switch_code cur) d"
  have "cpu_esp s - 20 = ?A" using assms(1) by (simp add: switch_call_def)
  moreover have "stack_top (tasks s' p) = cpu_esp s - 20" if "tasks_switch_to b s = Inr s'" for s'
    using tasks_switch_to_stacks(1) [OF assms(2) that] by simp
  ultimately have saved: "frame_at ?A (c_mem (exec_code ext (switch_code cur) c)) = context_words c @ [top_word c]"
    using switch_exec [OF assms(1,2)] unfolding Let_def by auto
  obtain s' where s': "tasks_switch_to p s2 = Inr s'" "c_reg ?d ESP = cpu_esp s'"
      "context_words ?d @ [c_eip ?d] = frame_at (stack_top (tasks s' p)) (c_mem ?d)"
      "\<forall>a \<in> frame_addrs ?A. load_word a (c_mem ?d) = load_word a (c_mem d)"
    using switch_exec [OF assms(3,4)] unfolding Let_def by blast
  have "stack_top (tasks s' p) = ?A" "cpu_esp s' = ?A + 20"
    using tasks_switch_to_stacks [OF assms(4) s'(1)] assms(5,6) by simp_all
  moreover have "frame_at ?A (c_mem ?d) = frame_at ?A (c_mem d)" using s'(4) by (simp add: frame_at_def frame_addrs_def)
  ultimately have "context_words ?d @ [c_eip ?d] = context_words c @ [top_word c]" "c_reg ?d ESP = ?A + 20"
    using s'(2,3) saved assms(7) by simp_all
  then show ?thesis by (simp add: context_words_def Let_def del: exec_code.simps)
qed

section \<open>An instance\<close>

text \<open>Two tasks at \<open>0x1000\<close> and \<open>0x2000\<close>.  The first runs and calls the switch with its stack pointer at \<open>0x8000\<close>; later the
  second one, whose stack is at \<open>0x9000\<close>, switches back.  Queueing clears the link of the task.\<close>

definition pair_task :: "u32 \<Rightarrow> task_state \<Rightarrow> task" where
  "pair_task sp st = \<lparr>stack_top = sp, page_dir = 0x300000, t_next = None, t_state = st, time_used = 0, wakeup_time = 0,
     t_name = [], t_alloc = ALLOC_STATIC\<rparr>"

definition pair_sched :: "addr \<Rightarrow> u32 \<Rightarrow> task \<Rightarrow> task \<Rightarrow> sched" where
  "pair_sched run sp t1 t2 = \<lparr>tasks = (\<lambda>_. t2)(0x1000 := t1), current_task = Some run,
     tasks_ready = empty_list, tasks_sleeping = empty_list, tasks_stopped = empty_list,
     syncs = (\<lambda>_. \<lparr>possessor = None, dbg_name = None, waiting = empty_list\<rparr>),
     idle_time = 0, idle_start = 0, last_time = 0, time_slice_remaining = 15, last_timer_time = 0,
     scheduler_lock = 1, postpone_count = 0, scheduler_postponed = False, instr_per_ns = 1, intr = False,
     tsc = (\<lambda>_. 0), tsc_reads = 0, cpu_esp = sp, cpu_cr3 = 0x300000, stack_mem = (\<lambda>_. 0)\<rparr>"

definition pair_cpu :: "u32 \<Rightarrow> u32 \<Rightarrow> task \<Rightarrow> task \<Rightarrow> (u32 \<times> u32) list \<Rightarrow> cpu" where
  "pair_cpu run sp t1 t2 ws = \<lparr>c_reg = (\<lambda>_. 0)(ESP := sp, EBX := 0x11, EBP := 0x22, ESI := 0x33, EDI := 0x44),
     c_seg = (\<lambda>_. 0x10), c_eip = 0, c_eflags = 0, c_zf = False, c_cr3 = 0x300000, c_gdtr = (0, 0), c_tr = 0,
     c_mem = fold (\<lambda>(a, w). store_word a w)
       ([(0x500, run), (0x1000, stack_top t1), (0x1004, page_dir t1), (0x100C, state_code (t_state t1)),
         (0x2000, stack_top t2), (0x2004, page_dir t2), (0x200C, state_code (t_state t2))] @ ws) (\<lambda>_. 0)\<rparr>"

definition pair_enqueue :: "string \<Rightarrow> cpu \<Rightarrow> cpu" where
  "pair_enqueue f c = c\<lparr>c_reg := (c_reg c)(EAX := 0), c_mem := store_word (top_word c + 8) 0 (c_mem c)\<rparr>"

definition first_call :: cpu where
  "first_call = pair_cpu 0x1000 0x8000 (pair_task 0 TASK_RUNNING) (pair_task 0x8FE8 TASK_READY) [(0x8000, 0xC0001000), (0x8004, 0x2000)]"

definition second_call :: cpu where
  "second_call = pair_cpu 0x2000 0x9000 (pair_task 0x7FF0 TASK_READY) (pair_task 0x8FE8 TASK_RUNNING)
     [(0x9000, 0xC0002000), (0x9004, 0x1000), (0x7FF0, 0x22), (0x7FF4, 0x44), (0x7FF8, 0x33), (0x7FFC, 0x11), (0x8000, 0xC0001000)]"

definition first_state :: sched where
  "first_state = pair_sched 0x1000 0x8004 (pair_task 0 TASK_RUNNING) (pair_task 0x8FE8 TASK_READY)"

definition second_state :: sched where
  "second_state = pair_sched 0x2000 0x9004 (pair_task 0x7FF0 TASK_READY) (pair_task 0x8FE8 TASK_RUNNING)"

lemmas pair_defs = pair_task_def pair_sched_def pair_cpu_def first_call_def second_call_def first_state_def second_state_def
  apart_def task_offsets task_fields_def upt_rec lessThan_Suc lessThan_nat_numeral

lemma first_call_ok: "switch_call pair_enqueue 0x500 {0x1000, 0x2000} {} 0x2000 first_call first_state"
proof -
  let ?D = "{0x1000, 0x2000 :: addr}"
  have "holds_tasks 0x500 ?D first_call first_state" by (simp add: holds_tasks_def pair_defs)
  moreover have "cpu_esp first_state = c_reg first_call ESP + 4" "stack_words 2 first_call ! 1 = of_nat 0x2000"
    by (simp_all add: stack_words_def pair_defs)
  moreover have "task_layout 0x500 ?D (stack_use first_call \<union> {})" by (simp add: task_layout_def stack_use_def pair_defs)
  moreover have "enqueue_keeps 0x500 ?D {} (pair_enqueue ''_tasks_enqueue_ready'') (enqueue_call 0x500 first_call)"
    by (simp add: enqueue_keeps_def abi_call_def callee_saved_def pair_enqueue_def enqueue_call_def switch_save_def
        switch_enqueue_def push_word_def set_reg_def stack_words_def top_word_def pair_defs)
  ultimately show ?thesis by (simp add: switch_call_def kept_words_def)
qed

lemma second_call_ok: "switch_call pair_enqueue 0x500 {0x1000, 0x2000} (frame_addrs 0x7FF0) 0x1000 second_call second_state"
proof -
  let ?D = "{0x1000, 0x2000 :: addr}" and ?F = "frame_addrs 0x7FF0"
  have F: "?F = {0x7FF0, 0x7FF4, 0x7FF8, 0x7FFC, 0x8000}" by (auto simp: frame_addrs_def lessThan_nat_numeral lessThan_Suc)
  have "holds_tasks 0x500 ?D second_call second_state" by (simp add: holds_tasks_def pair_defs)
  moreover have "cpu_esp second_state = c_reg second_call ESP + 4" "stack_words 2 second_call ! 1 = of_nat 0x1000"
    by (simp_all add: stack_words_def pair_defs)
  moreover have "task_layout 0x500 ?D (stack_use second_call \<union> ?F)" by (simp add: F task_layout_def stack_use_def pair_defs)
  moreover have "kept_words ?F second_call"
  proof -
    have "i < 5 \<longleftrightarrow> i \<in> {0, 1, 2, 3, 4}" for i :: nat by auto
    then show ?thesis unfolding F kept_words_def by (simp add: pair_defs)
  qed
  moreover have "enqueue_keeps 0x500 ?D ?F (pair_enqueue ''_tasks_enqueue_ready'') (enqueue_call 0x500 second_call)"
    by (simp add: F enqueue_keeps_def abi_call_def callee_saved_def pair_enqueue_def enqueue_call_def switch_save_def
        switch_enqueue_def push_word_def set_reg_def stack_words_def top_word_def pair_defs)
  ultimately show ?thesis by (simp add: switch_call_def)
qed


theorem switch_and_back_witness:
  "let d' = exec_code pair_enqueue (switch_code 0x500) second_call
   in c_reg d' EBX = 0x11 \<and> c_reg d' EBP = 0x22 \<and> c_reg d' ESP = 0x8004 \<and> c_eip d' = 0xC0001000"
proof -
  have cur: "current_task first_state = Some 0x1000" "current_task second_state = Some 0x2000"
    and regs: "c_reg first_call ESP = 0x8000" "c_reg first_call EBX = 0x11" "c_reg first_call EBP = 0x22" "top_word first_call = 0xC0001000"
    and words: "context_words first_call = [0x22, 0x44, 0x33, 0x11]" "stack_top (tasks second_state 0x1000) = 0x7FF0"
    by (simp_all add: pair_defs top_word_def context_words_def)
  have frame: "frame_at 0x7FF0 (c_mem second_call) = [0x22, 0x44, 0x33, 0x11, 0xC0001000]"
    by (simp add: frame_at_def pair_defs)
  obtain s' where s': "tasks_switch_to 0x2000 first_state = Inr s'"
      "frame_at (stack_top (tasks s' 0x1000)) (c_mem (exec_code pair_enqueue (switch_code 0x500) first_call)) = context_words first_call @ [top_word first_call]"
    using switch_exec [OF first_call_ok cur(1)] unfolding Let_def by blast
  have "stack_top (tasks s' 0x1000) = 0x7FF0" using tasks_switch_to_stacks(1) [OF cur(1) s'(1)] by (simp add: first_state_def pair_sched_def)
  with s'(2) have same: "frame_at (c_reg first_call ESP - 16) (c_mem second_call)
      = frame_at (c_reg first_call ESP - 16) (c_mem (exec_code pair_enqueue (switch_code 0x500) first_call))"
    by (simp add: frame regs words del: exec_code.simps)
  have call: "switch_call pair_enqueue 0x500 {0x1000, 0x2000} (frame_addrs (c_reg first_call ESP - 16)) 0x1000 second_call second_state"
    and top: "stack_top (tasks second_state 0x1000) = c_reg first_call ESP - 16"
    using second_call_ok words(2) by (simp_all add: regs)
  have ne: "0x2000 \<noteq> (0x1000 :: addr)" by simp
  show ?thesis
    using switch_and_back [OF first_call_ok cur(1) call cur(2) ne top same] unfolding Let_def by (simp add: regs del: exec_code.simps)
qed

end
