(* ===== verification/Text_Sink.thy ===== *)
theory Text_Sink
  imports Printf_Spec Text_Output Serial
begin

text \<open>
  The interface between \<open>printf\<close> and the devices it prints to.  \<open>printf_helper\<close> hands every character to a callback; what it
  relies on is that the callback accepts the character and stays ready for the next one.  This contract is a
  locale, \<open>printf\<close> is shown to work for every provider, and the serial line (\<open>Devices/Serial/rs232.cpp\<close>) and the
  console (\<open>Devices/Graphics/console.cpp\<close>) are providers.
\<close>

section \<open>The contract\<close>

text \<open>\<open>shown\<close> is what can be observed of the device and \<open>emit\<close> how a character changes it.\<close>

locale text_sink =
  fixes put :: "u32 \<Rightarrow> 's \<Rightarrow> 's outcome" and ready :: "'s \<Rightarrow> bool" and accepts :: "u32 \<Rightarrow> bool"
    and shown :: "'s \<Rightarrow> 'i" and emit :: "u32 \<Rightarrow> 'i \<Rightarrow> 'i"
  assumes put: "ready s \<Longrightarrow> accepts c \<Longrightarrow> \<exists>s'. put c s = Inr s' \<and> ready s' \<and> shown s' = emit c (shown s)"
begin

lemma put_chars:
  "ready s \<Longrightarrow> \<forall>c \<in> set cs. accepts c \<Longrightarrow> \<exists>s'. fold (\<lambda>c p. bindE p (put c)) cs (Inr s) = Inr s' \<and> ready s' \<and> shown s' = fold emit cs (shown s)"
proof (induction cs arbitrary: s)
  case (Cons c cs)
  obtain s1 where s1: "put c s = Inr s1" "ready s1" "shown s1 = emit c (shown s)" using put [of s c] Cons.prems by auto
  then show ?case using Cons.IH [OF s1(2)] Cons.prems(2) by simp
qed simp

text \<open>A format of well-formed pieces whose characters the device accepts is printed completely.\<close>

lemma printf:
  assumes "ready s" "\<forall>q \<in> set ps. wf_piece q" "\<forall>c \<in> set (concat (map text_of ps)). accepts c"
  shows "\<exists>s'. printf_helper (concat (map format_of ps)) (concat (map args_of ps)) (\<lambda>c p. bindE p (put c)) (Inr s) =
      Inr (of_nat (length (concat (map text_of ps))), Inr s')
    \<and> ready s' \<and> shown s' = fold emit (concat (map text_of ps)) (shown s)"
  using put_chars [OF assms(1,3)] printf_pieces [OF assms(2), where as = "[]" and n = 0 and p = "Inr s" and fn = "\<lambda>c p. bindE p (put c)"]
  by (auto simp: printf_helper_def)

end

section \<open>The providers\<close>

definition serial_put :: "line_status \<Rightarrow> u32 \<Rightarrow> serial \<Rightarrow> serial outcome" where
  "serial_put lsr c s = bindE (serial_write lsr [ucast c] s) (\<lambda>(_, s1). Inr s1)"

definition serial_ready :: "line_status \<Rightarrow> u16 \<Rightarrow> serial \<Rightarrow> bool" where
  "serial_ready lsr b s \<longleftrightarrow> always_ready lsr 0x20 \<and> rs_232_port_base s = b"

interpretation rs: text_sink "serial_put lsr" "serial_ready lsr b" "\<lambda>_. True" "\<lambda>s. (port_out s, rs_ring s)"
  "\<lambda>c (l, r). (l @ [(b, ucast c)], r)" for lsr b
proof
  fix s c
  assume "serial_ready lsr b s"
  moreover from this obtain k where "wait_status lsr 0x20 (polls s) = Some k"
    using always_ready_waits [where k = "polls s"] by (auto simp: serial_ready_def)
  ultimately show "\<exists>s'. serial_put lsr c s = Inr s' \<and> serial_ready lsr b s'
      \<and> (port_out s', rs_ring s') = (case (port_out s, rs_ring s) of (l, r) \<Rightarrow> (l @ [(b, ucast c)], r))"
    by (auto simp: serial_put_def serial_write_def serial_ready_def writeBytes_append)
qed

definition console_put :: "u32 \<Rightarrow> console \<Rightarrow> console outcome" where
  "console_put c s = bindE (putchar c s) (\<lambda>(_, s1). Inr s1)"

definition plain_code :: "u32 \<Rightarrow> bool" where
  "plain_code c \<longleftrightarrow> c < 128 \<and> c \<noteq> 27"

lemma ascii_code:
  assumes "c < (128 :: u32)"
  shows "ucast (ucast c :: u8) = c" "(ucast c :: u8) < 128" "(ucast c :: u8) = 27 \<longleftrightarrow> c = 27"
proof -
  obtain k where k: "k < 128" "c = of_nat k"
  proof
    show "unat c < 128" using assms by (simp add: word_less_nat_alt)
  qed simp
  then have u: "(ucast c :: u8) = of_nat k" by (simp add: unsigned_of_nat take_bit_nat_eq_self)
  show "ucast (ucast c :: u8) = c" using k unfolding u by (simp add: unsigned_of_nat take_bit_nat_eq_self)
  show "(ucast c :: u8) < 128" using k unfolding u by (simp add: word_less_nat_alt unsigned_of_nat take_bit_nat_eq_self)
  show "(ucast c :: u8) = 27 \<longleftrightarrow> c = 27"
    using k unfolding u by (simp add: word_eq_iff_unsigned [where 'a = nat] unsigned_of_nat take_bit_nat_eq_self)
qed

interpretation con: text_sink console_put ready_console plain_code "\<lambda>s. (colorFore s, colorBack s, resetFore s, resetBack s)" "\<lambda>_ x. x"
proof
  fix s c
  assume s: "ready_console s" and c: "plain_code c"
  then have u: "ucast (ucast c :: u8) = c" "plain_char (ucast c)"
    using ascii_code by (auto simp: plain_code_def plain_char_def)
  obtain s' where "putchar (ucast (ucast c :: u8)) s = Inr (0, s')" "ready_console s'" "same_colours s s'"
    using putchar_plain [OF s u(2)] by blast
  then show "\<exists>s'. console_put c s = Inr s' \<and> ready_console s'
      \<and> (colorFore s', colorBack s', resetFore s', resetBack s') = (colorFore s, colorBack s, resetFore s, resetBack s)"
    by (simp add: console_put_def u(1) same_colours_def)
qed

lemma device_callbacks: "vprintf_helper lsr = (\<lambda>c p. bindE p (serial_put lsr c))" "put_callback = (\<lambda>c p. bindE p (console_put c))"
  unfolding vprintf_helper_def serial_put_def put_callback_def console_put_def by (rule ext, rule ext, rule refl)+

end
