(* ===== verification/Panic_Screen.thy ===== *)
theory Panic_Screen
  imports Text_Sink Entry
begin

text \<open>
  \<open>Kernel/Panic.cpp\<close> and \<open>Kernel/Stacktrace.cpp\<close> with their devices: the screen is filled, the console reset, and every line
  goes to the serial port and to the console (\<open>log_all\<close> of \<open>Library/stdio.hpp\<close>), those of the stack trace to the
  console and to the log.  \<open>Diagnostics\<close> has the text itself.  The frame buffer object is the static pointer of
  \<open>Devices/Graphics/framebuffer.cpp\<close>, null until the first such object is made.
\<close>

section \<open>Output\<close>

definition PANIC_COLOR_FORE :: u32 where "PANIC_COLOR_FORE = 0xFFFFFF"
definition PANIC_COLOR_BACK :: u32 where "PANIC_COLOR_BACK = 0x2D2D2D"

record panic_io =
  io_serial :: serial
  io_console :: console
  io_logger :: "log_writer logger"

definition log_all :: "line_status \<Rightarrow> u8 list \<Rightarrow> va list \<Rightarrow> panic_io \<Rightarrow> panic_io outcome" where
  "log_all lsr fmt args io =
     bindE (serial_printf lsr fmt args (io_serial io)) (\<lambda>(_, s).
     bindE (Console_printf fmt args (io_console io)) (\<lambda>(_, c).
     Inr (io\<lparr>io_serial := s, io_console := c\<rparr>)))"

definition moo_all :: "line_status \<Rightarrow> framebuffer option \<Rightarrow> u64 \<Rightarrow> panic_io \<Rightarrow> panic_io outcome" where
  "moo_all lsr fb stamp io =
     (case fb of
        None \<Rightarrow> Inl NullDeref
      | Some f \<Rightarrow>
          bindE (putrect 0 0 (fb_width f) (fb_height f) PANIC_COLOR_BACK (con_gfx (io_console io))) (\<lambda>g.
          let c = Console_reset_to PANIC_COLOR_FORE PANIC_COLOR_BACK ((io_console io)\<lparr>con_gfx := g\<rparr>)
          in bindE (printMoo stamp) (\<lambda>cow. log_all lsr (bytes_of ''%s'') [Str cow] (io\<lparr>io_console := c\<rparr>))))"

definition trace_line :: "line_status \<Rightarrow> u8 list \<Rightarrow> va list \<Rightarrow> panic_io \<Rightarrow> panic_io outcome" where
  "trace_line lsr fmt args io =
     bindE (Console_printf fmt args (io_console io)) (\<lambda>(_, c).
     bindE (Print (serial_call lsr) fmt args (io_logger io) (io_serial io)) (\<lambda>s.
     Inr (io\<lparr>io_console := c, io_serial := s\<rparr>)))"

definition trace_title :: "u8 list" where
  "trace_title = 27 # bytes_of ''[31mStack trace:'' @ 27 # bytes_of ''[0m'' @ [10]"

definition trace_format :: "u8 list" where
  "trace_format = bytes_of ''0x%0zx'' @ [10]"

definition trace_all :: "line_status \<Rightarrow> (u32 \<Rightarrow> stackframe) \<Rightarrow> nat \<Rightarrow> u32 \<Rightarrow> panic_io \<Rightarrow> panic_io outcome" where
  "trace_all lsr frames n ebp io =
     bindE (trace_line lsr trace_title [] io) (foldE (\<lambda>eip. trace_line lsr trace_format [Int32 eip]) (printTrace frames n ebp))"

definition registers_all :: "line_status \<Rightarrow> u32 \<Rightarrow> registers \<Rightarrow> panic_io \<Rightarrow> panic_io outcome" where
  "registers_all lsr cr2 r io =
     bindE (registersPrintInformation cr2 r) (\<lambda>info.
     bindE (foldE (\<lambda>(fmt, args). log_all lsr (bytes_of fmt) args) info io) (\<lambda>io1.
     bindE (registersToString r) (\<lambda>(_, out).
     if length out < PANIC_REG_BUG_SZ then log_all lsr (bytes_of ''%s'') [Str out] io1 else Inl OutOfBounds)))"

definition panic_all ::
    "line_status \<Rightarrow> framebuffer option \<Rightarrow> u64 \<Rightarrow> u32 \<Rightarrow> (u32 \<Rightarrow> stackframe) \<Rightarrow> u32 \<Rightarrow> u8 list option \<Rightarrow> registers option
       \<Rightarrow> panic_io \<Rightarrow> panic_io outcome" where
  "panic_all lsr fb stamp cr2 frames ebp msg regs io =
     bindE (moo_all lsr fb stamp io) (\<lambda>io1.
     bindE (case msg of None \<Rightarrow> Inr io1 | Some m \<Rightarrow> log_all lsr (bytes_of ''%s'' @ [10, 10]) [Str m] io1) (\<lambda>io2.
     bindE (case regs of None \<Rightarrow> Inr io2 | Some r \<Rightarrow> registers_all lsr cr2 r io2) (\<lambda>io3.
     trace_all lsr frames PANIC_MAX_TRACE ebp io3)))"

text \<open>The three entry points: a message, a format, and the registers of an exception.\<close>

definition PANIC_REG_DUMP_MSG :: "u8 list" where
  "PANIC_REG_DUMP_MSG = bytes_of ''Kernel exception - Dumping register state...''"

definition panic_message ::
    "line_status \<Rightarrow> framebuffer option \<Rightarrow> u64 \<Rightarrow> u32 \<Rightarrow> (u32 \<Rightarrow> stackframe) \<Rightarrow> u32 \<Rightarrow> u8 list option \<Rightarrow> panic_io \<Rightarrow> panic_io outcome" where
  "panic_message lsr fb stamp cr2 frames ebp msg io = panic_all lsr fb stamp cr2 frames ebp msg None io"

definition panicf ::
    "line_status \<Rightarrow> framebuffer option \<Rightarrow> u64 \<Rightarrow> u32 \<Rightarrow> (u32 \<Rightarrow> stackframe) \<Rightarrow> u32 \<Rightarrow> u8 list \<Rightarrow> va list \<Rightarrow> panic_io \<Rightarrow> panic_io outcome" where
  "panicf lsr fb stamp cr2 frames ebp fmt args io =
     bindE (panicf_message fmt args) (\<lambda>buf. panic_message lsr fb stamp cr2 frames ebp (Some buf) io)"

definition panic_registers ::
    "line_status \<Rightarrow> framebuffer option \<Rightarrow> u64 \<Rightarrow> u32 \<Rightarrow> (u32 \<Rightarrow> stackframe) \<Rightarrow> u32 \<Rightarrow> registers \<Rightarrow> panic_io \<Rightarrow> panic_io outcome" where
  "panic_registers lsr fb stamp cr2 frames ebp regs io =
     panic_all lsr fb stamp cr2 frames ebp (Some PANIC_REG_DUMP_MSG) (Some regs) io"

section \<open>The fill overruns the back buffer\<close>

text \<open>The first column already goes one row too far.\<close>

lemma rect_rows_overrun:
  assumes "gfx_ok f g" "0 < fb_width f" "Y \<le> unat (fb_height f)"
  shows "rect_rows c 0 (of_nat Y) (fb_height f) g = Some (Inl OutOfBounds)"
  using assms
proof (induction "unat (fb_height f) - Y" arbitrary: Y g)
  case 0
  then have "Y = unat (fb_height f)" by simp
  then have "of_nat Y = fb_height f" by simp
  moreover have "pixel 0 (fb_height f) c g = Inl OutOfBounds"
    using pixel_behind [OF 0(2), of 0] "0.prems" by (simp add: offset_def gfx_ok_def mult.commute)
  ultimately show ?case by (subst rect_rows.simps) simp
next
  case (Suc n)
  then have Y: "Y < unat (fb_height f)" by simp
  obtain g' where g': "pixel 0 (of_nat Y) c g = Inr g'" "gfx_ok f g'"
    using pixel_at [OF Suc.prems(1) _ Y, of 0 c] Suc.prems(2) by (auto simp: unat_gt_0 word_gt_0)
  have le: "(of_nat Y :: u32) \<le> fb_height f"
    using Y unat_lt_u32 [of "fb_height f"] by (simp add: word_le_nat_alt unat_of_nat_u32)
  have "rect_rows c 0 (of_nat (Suc Y)) (fb_height f) g' = Some (Inl OutOfBounds)"
    by (rule Suc.hyps(1)) (use Suc.hyps(2) Y g'(2) Suc.prems(2) in simp_all)
  then show ?case using g'(1) le by (subst rect_rows.simps) (simp add: add.commute)
qed

text \<open>C34: a panic with a working screen writes behind the back buffer before it has printed anything: the fill of the whole
  screen includes the row one past the last.  Without a frame buffer object it dereferences a null pointer.\<close>

theorem panic_fill_overruns:
  assumes "gfx_ok f (con_gfx (io_console io))" "0 < fb_width f"
  shows "panic_all lsr (Some f) stamp cr2 frames ebp msg regs io = Inl OutOfBounds
    \<and> panic_all lsr None stamp cr2 frames ebp msg regs io = Inl NullDeref"
proof -
  have "rect_cols PANIC_COLOR_BACK 0 (fb_height f) 0 (fb_width f) (con_gfx (io_console io)) = Some (Inl OutOfBounds)"
    using rect_rows_overrun [OF assms, of 0] by (subst rect_cols.simps) simp
  then show ?thesis using assms(1) by (simp add: panic_all_def moo_all_def putrect_def gfx_ok_def)
qed

definition screen_io :: panic_io where
  "screen_io = \<lparr>io_serial = demo_serial, io_console = console_start demo_gfx, io_logger = Logger lINFO\<rparr>"

theorem panic_fill_overruns_witness:
  "panic_all (\<lambda>_. 0x20) (Some demo_fb) 7 0 (\<lambda>_. \<lparr>sf_ebp = 0, sf_eip = 0\<rparr>) 0 (Some [72, 105]) None screen_io = Inl OutOfBounds"
  using panic_fill_overruns [of demo_fb screen_io "\<lambda>_. 0x20" 7 0 "\<lambda>_. \<lparr>sf_ebp = 0, sf_eip = 0\<rparr>" 0 "Some [72, 105]" None] demo_gfx_ok
  by (simp add: screen_io_def console_start_def demo_fb_def)

section \<open>The report without a screen\<close>

text \<open>The devices in a state to print, the log writing to the serial port.\<close>

definition serial_logs :: "log_writer logger \<Rightarrow> bool" where
  "serial_logs lg \<longleftrightarrow> (\<exists>w lvl. lg = snd (addWriter w (Logger lvl)))"

definition io_ready :: "line_status \<Rightarrow> u16 \<Rightarrow> panic_io \<Rightarrow> bool" where
  "io_ready lsr b io \<longleftrightarrow> serial_ready lsr b (io_serial io) \<and> ready_console (io_console io)
     \<and> serial_logs (io_logger io)"

definition sent :: "u16 \<Rightarrow> u8 list \<Rightarrow> panic_io \<Rightarrow> panic_io \<Rightarrow> bool" where
  "sent b cs io io' \<longleftrightarrow> port_out (io_serial io') = port_out (io_serial io) @ map (\<lambda>c. (b, c)) cs"

lemma sent_trans: "sent b xs io io' \<Longrightarrow> sent b ys io' io'' \<Longrightarrow> sent b (xs @ ys) io io''"
  by (simp add: sent_def)

lemma serial_vprintf_pieces:
  assumes "serial_ready lsr b s" "\<forall>q \<in> set ps. wf_piece q"
  shows "\<exists>n s'. serial_vprintf lsr (concat (map format_of ps)) (concat (map args_of ps)) s = Inr (n, s') \<and> serial_ready lsr b s'
    \<and> port_out s' = port_out s @ map (\<lambda>c. (b, c)) (bytes_of_text (concat (map text_of ps)))"
proof -
  have "fold (\<lambda>c (l, r). (l @ [(b, ucast c)], r)) cs (l, r) = (l @ map (\<lambda>c. (b, ucast c)) cs, r)" for cs :: "u32 list" and l :: port_log and r :: "u8 ring"
    by (induction cs arbitrary: l) simp_all
  then show ?thesis
    using rs.printf [of lsr b s ps] assms unfolding serial_vprintf_def device_callbacks
    by (auto simp: bytes_of_text_def comp_def)
qed

lemma Console_printf_pieces:
  assumes "ready_console s" "\<forall>q \<in> set ps. wf_piece q" "\<forall>c \<in> set (concat (map text_of ps)). plain_code c"
  shows "\<exists>n s'. Console_printf (concat (map format_of ps)) (concat (map args_of ps)) s = Inr (n, s') \<and> ready_console s'"
proof -
  obtain s1 where s1: "printf_helper (concat (map format_of ps)) (concat (map args_of ps)) put_callback (Inr s) =
      Inr (of_nat (length (concat (map text_of ps))), Inr s1)" "ready_console s1"
    using con.printf [OF assms] unfolding device_callbacks by blast
  moreover obtain g where "swap (con_gfx s1) = Inr g" "screen_ok g" using swap_screen_ok s1(2) by (auto simp: ready_console_def)
  ultimately show ?thesis by (auto simp: Console_printf_def Console_vprintf_def ready_console_def)
qed

lemma log_all_pieces:
  assumes io: "io_ready lsr b io" and ps: "\<forall>q \<in> set ps. wf_piece q" and plain: "\<forall>c \<in> set (concat (map text_of ps)). plain_code c"
  shows "\<exists>io'. log_all lsr (concat (map format_of ps)) (concat (map args_of ps)) io = Inr io' \<and> io_ready lsr b io'
    \<and> sent b (bytes_of_text (concat (map text_of ps))) io io'"
  using serial_vprintf_pieces [OF _ ps, of lsr b "io_serial io"] Console_printf_pieces [OF _ ps plain, of "io_console io"] io
  by (auto simp: log_all_def serial_printf_def io_ready_def sent_def)

lemma Print_serial:
  assumes "serial_ready lsr b s" "\<forall>q \<in> set ps. wf_piece q" "serial_logs lg"
  shows "\<exists>s'. Print (serial_call lsr) (concat (map format_of ps)) (concat (map args_of ps)) lg s = Inr s'
    \<and> serial_ready lsr b s' \<and> port_out s' = port_out s @ map (\<lambda>c. (b, c)) (bytes_of_text (concat (map text_of ps)))"
  using serial_vprintf_pieces [OF assms(1,2)] assms(3)
  by (auto simp: serial_logs_def Print_def LogHelperPrint_def addWriter_def Logger_def m_maxWriterCount_def serial_call_def numeral_2_eq_2)

lemma trace_line_pieces:
  assumes io: "io_ready lsr b io" and ps: "\<forall>q \<in> set ps. wf_piece q"
    and con: "\<And>s. ready_console s \<Longrightarrow> \<exists>n s'. Console_printf (concat (map format_of ps)) (concat (map args_of ps)) s = Inr (n, s') \<and> ready_console s'"
  shows "\<exists>io'. trace_line lsr (concat (map format_of ps)) (concat (map args_of ps)) io = Inr io' \<and> io_ready lsr b io'
    \<and> sent b (bytes_of_text (concat (map text_of ps))) io io'"
  using Print_serial [OF _ ps, of lsr b "io_serial io"] con [of "io_console io"] io
  by (fastforce simp: trace_line_def io_ready_def sent_def)

text \<open>The pieces of the three formats.\<close>

definition string_piece :: "u8 list \<Rightarrow> piece" where
  "string_piece s = Field \<lparr>fs_left = False, fs_zero = False, fs_width = 0, fs_mods = [], fs_conv = 115\<rparr> (Str s)"

definition hex_piece :: "u32 \<Rightarrow> piece" where
  "hex_piece v = Field \<lparr>fs_left = False, fs_zero = True, fs_width = 0, fs_mods = [122], fs_conv = 120\<rparr> (Int32 v)"

definition hex_text :: "u32 \<Rightarrow> u8 list" where
  "hex_text v = (let ds = radix_text False 16 (unat v) in replicate (8 - length ds) 48 @ ds)"

lemma string_piece_simps:
  "format_of (string_piece s) = bytes_of ''%s''" "args_of (string_piece s) = [Str s]" "text_of (string_piece s) = map ucast s"
  "wf_piece (string_piece s) \<longleftrightarrow> 0 \<notin> set s \<and> length s < 2 ^ 32"
  by (simp_all add: string_piece_def spelling_def bytes_of_def of_char_def field_text_def justify_def fitting_def)

lemma hex_piece_simps:
  "format_of (hex_piece v) = bytes_of ''%0zx''" "args_of (hex_piece v) = [Int32 v]" "text_of (hex_piece v) = map ucast (hex_text v)"
  "wf_piece (hex_piece v)"
  by (simp_all add: hex_piece_def spelling_def bytes_of_def of_char_def field_text_def number_text_def justify_def fitting_def
      hex_text_def Let_def)

lemma radix_text_plain: "\<forall>c \<in> set (radix_text up 16 n). plain_char c"
proof (induction n rule: less_induct)
  case (less n)
  have d: "plain_char (digit_text up d)" if "d < 16" for d
  proof -
    have "d \<in> {0, 1, 2, 3, 4, 5, 6, 7, 8, 9, 10, 11, 12, 13, 14, 15}"
      using that by (simp only: insert_iff empty_iff) presburger
    then show ?thesis by (elim insertE emptyE) (simp_all add: digit_text_def plain_char_def)
  qed
  then show ?case using less.IH [of "n div 16"] by (subst radix_text.simps) auto
qed

lemma unat_ucast_u8: "unat (ucast (c :: u8) :: u32) = unat c"
proof -
  have "unat c < 2 ^ 32" using unsigned_less [of c, where 'a = nat] by simp
  then show ?thesis by (simp add: unsigned_ucast_eq take_bit_nat_eq_self)
qed

lemma plain_code_ucast [simp]: "plain_code (ucast c) \<longleftrightarrow> plain_char c"
  using unat_ucast_u8 [of c] by (simp add: plain_code_def plain_char_def word_less_nat_alt word_eq_iff_unsigned [where 'a = nat])

lemma bytes_of_ucast [simp]: "bytes_of_text (map ucast cs) = cs"
proof -
  have "ucast (ucast c :: u32) = c" for c :: u8 by (rule bit_word_eqI) (auto simp: bit_simps)
  then show ?thesis by (simp add: bytes_of_text_def comp_def)
qed

section \<open>What reaches the serial port\<close>

lemma log_all_string:
  assumes "io_ready lsr b io" "\<forall>c \<in> set s. plain_char c \<and> c \<noteq> 0" "length s < 2 ^ 32"
  shows "\<exists>io'. log_all lsr (bytes_of ''%s'') [Str s] io = Inr io' \<and> io_ready lsr b io' \<and> sent b s io io'"
    and "\<exists>io'. log_all lsr (bytes_of ''%s'' @ [10, 10]) [Str s] io = Inr io' \<and> io_ready lsr b io' \<and> sent b (s @ [10, 10]) io io'"
proof -
  have s: "wf_piece (string_piece s)" "\<forall>c \<in> set (text_of (string_piece s)). plain_code c"
    using assms(2,3) by (auto simp: string_piece_simps)
  show "\<exists>io'. log_all lsr (bytes_of ''%s'') [Str s] io = Inr io' \<and> io_ready lsr b io' \<and> sent b s io io'"
    using log_all_pieces [OF assms(1), of "[string_piece s]"] s by (simp add: string_piece_simps)
  have "plain_code 10" by (simp add: plain_code_def)
  then show "\<exists>io'. log_all lsr (bytes_of ''%s'' @ [10, 10]) [Str s] io = Inr io' \<and> io_ready lsr b io' \<and> sent b (s @ [10, 10]) io io'"
    using log_all_pieces [OF assms(1), of "[string_piece s, Literal 10, Literal 10]"] s bytes_of_ucast [of "s @ [10, 10]"]
    by (simp add: string_piece_simps)
qed

lemma trace_title_line:
  assumes "io_ready lsr b io"
  shows "\<exists>io'. trace_line lsr trace_title [] io = Inr io' \<and> io_ready lsr b io' \<and> sent b trace_title io io'"
proof -
  let ?ps = "map Literal trace_title"
  have ascii: "\<forall>c \<in> set trace_title. c \<noteq> 37 \<and> c \<noteq> 0 \<and> c < 128" by (simp add: trace_title_def bytes_of_def of_char_def)
  have "concat (map format_of (map Literal xs)) = xs" "concat (map args_of (map Literal xs)) = []" for xs
    by (induction xs) simp_all
  then have fmt: "concat (map format_of ?ps) = trace_title" "concat (map args_of ?ps) = []" by blast+
  have sc: "map scast trace_title = (map ucast trace_title :: u32 list)" using ascii by (simp add: scast_ascii)
  have "concat (map text_of (map Literal xs)) = map scast xs" for xs by (induction xs) simp_all
  then have out: "bytes_of_text (concat (map text_of ?ps)) = trace_title" by (simp only: sc bytes_of_ucast)
  have parts: "trace_title = ([27, 91] @ [51, 49] @ [109]) @ bytes_of ''Stack trace:'' @ ([27, 91] @ [48] @ [109]) @ [10]"
    by (simp add: trace_title_def bytes_of_def of_char_def)
  have styled: "styled trace_title"
    unfolding parts by (intro styled_append styled_colour styled_plain; simp add: bytes_of_def of_char_def plain_char_def)
  have "\<exists>n s'. Console_printf trace_title [] s = Inr (n, s') \<and> ready_console s'" if "ready_console s" for s
    using Console_printf_styled [OF that render_plain styled] ascii by blast
  then show ?thesis using trace_line_pieces [OF assms, of ?ps] ascii unfolding fmt out by auto
qed

definition trace_text :: "u32 \<Rightarrow> u8 list" where
  "trace_text eip = bytes_of ''0x'' @ hex_text eip @ [10]"

lemma trace_address_line:
  assumes "io_ready lsr b io"
  shows "\<exists>io'. trace_line lsr trace_format [Int32 eip] io = Inr io' \<and> io_ready lsr b io' \<and> sent b (trace_text eip) io io'"
proof -
  let ?ps = "[Literal 48, Literal 120, hex_piece eip, Literal 10]"
  have fmt: "concat (map format_of ?ps) = trace_format" "concat (map args_of ?ps) = [Int32 eip]"
    by (simp_all add: hex_piece_simps trace_format_def bytes_of_def of_char_def)
  have out: "concat (map text_of ?ps) = map ucast (trace_text eip)"
    by (simp add: hex_piece_simps trace_text_def bytes_of_def of_char_def)
  have "\<forall>c \<in> set (trace_text eip). plain_char c"
    using radix_text_plain by (auto simp: trace_text_def hex_text_def Let_def bytes_of_def of_char_def plain_char_def)
  then have plain: "\<forall>c \<in> set (concat (map text_of ?ps)). plain_code c" unfolding out by simp
  have wf: "\<forall>q \<in> set ?ps. wf_piece q" by (simp add: hex_piece_simps)
  show ?thesis
    using trace_line_pieces [OF assms wf Console_printf_pieces [OF _ wf plain]] unfolding fmt out by simp
qed

lemma trace_addresses:
  "io_ready lsr b io \<Longrightarrow> \<exists>io'. foldE (\<lambda>eip. trace_line lsr trace_format [Int32 eip]) es io = Inr io' \<and> io_ready lsr b io'
    \<and> sent b (concat (map trace_text es)) io io'"
proof (induction es arbitrary: io)
  case (Cons e es)
  obtain io1 where io1: "trace_line lsr trace_format [Int32 e] io = Inr io1" "io_ready lsr b io1" "sent b (trace_text e) io io1"
    using trace_address_line [OF Cons.prems] by blast
  then show ?case using Cons.IH [OF io1(2)] sent_trans [OF io1(3)] by auto
qed (simp add: sent_def)

lemma cow_plain:
  assumes "stamp mod 12 \<noteq> 0"
  shows "\<forall>c \<in> set (10 # moo_message stamp @ cow_tail). plain_char c \<and> c \<noteq> 0" "length (10 # moo_message stamp @ cow_tail) < 2 ^ 32"
proof -
  have "0 < unat (stamp mod 12)" using assms by (simp add: unat_gt_0)
  moreover have "unat (stamp mod 12) < 12" by (simp add: unat_mod)
  ultimately have "moo_message stamp \<in> set (tl funnyMessagesForMoo)"
    unfolding moo_message_def by (simp add: funnyMessagesForMoo_def nth_Cons split: nat.split)
  moreover have "\<forall>m \<in> set (tl funnyMessagesForMoo). \<forall>c \<in> set m. plain_char c \<and> c \<noteq> 0"
    by (simp add: funnyMessagesForMoo_def bytes_of_def of_char_def plain_char_def)
  moreover have "\<forall>c \<in> set cow_tail. plain_char c \<and> c \<noteq> 0" by (simp add: cow_tail_def bytes_of_def of_char_def plain_char_def)
  ultimately show "\<forall>c \<in> set (10 # moo_message stamp @ cow_tail). plain_char c \<and> c \<noteq> 0" by (auto simp: plain_char_def)
  have "length (moo_message stamp) \<le> 70" using messages_plain printMoo_message(1) by blast
  then show "length (10 # moo_message stamp @ cow_tail) < 2 ^ 32" by (simp add: cow_tail_plain)
qed


definition dark_io :: panic_io where
  "dark_io = \<lparr>io_serial = demo_serial,
     io_console = console_start \<lparr>gfx_info = None, backbuffer = [], gfx_initialized = False, vram = []\<rparr>,
     io_logger = snd (addWriter Serial_Writer (Logger lINFO))\<rparr>"


text \<open>The first message stops at its first apostrophe.\<close>

lemma put_callback_fault: "fold put_callback cs (Inl e) = Inl e"
  by (induction cs) (simp_all add: put_callback_def)

lemma non_ascii_printf:
  assumes "ready_console s" "\<forall>c \<in> set pre. plain_char c \<and> c \<noteq> 0" "128 \<le> d" "0 \<notin> set post" "length (pre @ d # post) < 2 ^ 32"
  shows "Console_printf (bytes_of ''%s'') [Str (pre @ d # post)] s = Inl OutOfBounds"
proof -
  let ?t = "pre @ d # post"
  have "d \<noteq> 0" "d \<notin> {8, 9, 10, 13, 27}" using assms(3) by auto
  then have d: "(ucast d :: u32) \<notin> {8, 9, 10, 13, 27}"
    using unat_ucast_u8 [of d] by (auto simp: word_eq_iff_unsigned [where 'a = nat])
  have "0 \<notin> set ?t" using assms(2,4) \<open>d \<noteq> 0\<close> by auto
  then have p: "printf_helper (bytes_of ''%s'') [Str ?t] put_callback (Inr s) =
      Inr (of_nat (length ?t), fold put_callback (map ucast ?t) (Inr s))"
    using printf_pieces [of "[string_piece ?t]", where fn = put_callback and as = "[]" and n = 0 and p = "Inr s"] assms(5)
    by (simp add: string_piece_simps printf_helper_def del: map_append)
  obtain s1 where s1: "fold put_callback (map ucast pre) (Inr s) = Inr s1" "ready_console s1"
    using con.put_chars [OF assms(1), of "map ucast pre"] assms(2) unfolding device_callbacks by auto
  have "ucast (ucast d :: u32) = d" by (rule bit_word_eqI) (auto simp: bit_simps)
  then have "putchar (ucast d) s1 = Inl OutOfBounds"
    using s1(2) d Draw_non_ascii [OF assms(3)] by (simp add: putchar_def ready_console_def fell_through_def put_text_def)
  then have "fold put_callback (map ucast ?t) (Inr s) = Inl OutOfBounds"
    using s1(1) by (simp add: put_callback_def put_callback_fault)
  then show ?thesis using p by (simp add: Console_printf_def Console_vprintf_def)
qed

lemma first_message_faults:
  assumes io: "io_ready lsr b io" and off: "\<not> gfx_initialized (con_gfx (io_console io))" and "stamp mod 12 = 0"
  shows "panic_all lsr (Some f) stamp cr2 frames ebp msg regs io = Inl OutOfBounds"
proof -
  let ?c = "Console_reset_to PANIC_COLOR_FORE PANIC_COLOR_BACK (io_console io)"
  let ?pre = "10 # bytes_of ''Oh, it''" and ?cow = "10 # moo_message stamp @ cow_tail"
  obtain post where post: "moo_message stamp = bytes_of ''Oh, it'' @ 0xE2 # post"
    using assms(3) by (simp add: moo_message_def funnyMessagesForMoo_def apostrophe_def)
  have m: "0 \<notin> set (moo_message stamp)" "length (moo_message stamp) \<le> 70" using messages_plain printMoo_message(1) [of stamp] by blast+
  have "0 \<notin> set cow_tail" by (simp add: cow_tail_def bytes_of_def of_char_def)
  moreover have "\<forall>c \<in> set ?pre. plain_char c \<and> c \<noteq> 0" by (simp add: bytes_of_def of_char_def plain_char_def)
  moreover have "ready_console ?c" using io by (simp add: io_ready_def ready_console_def Console_reset_to_def)
  ultimately have con: "Console_printf (bytes_of ''%s'') [Str ?cow] ?c = Inl OutOfBounds"
    using non_ascii_printf [of ?c ?pre "0xE2" "post @ cow_tail"] m cow_tail_plain(2) by (simp add: post)
  have "\<exists>n s'. serial_printf lsr (bytes_of ''%s'') [Str ?cow] (io_serial io) = Inr (n, s')"
    using serial_vprintf_pieces [of lsr b "io_serial io" "[string_piece ?cow]"] io m \<open>0 \<notin> set cow_tail\<close> cow_tail_plain(2)
    by (auto simp: string_piece_simps serial_printf_def io_ready_def)
  then show ?thesis using con off by (auto simp: panic_all_def moo_all_def putrect_def printMoo_message(2) log_all_def)
qed

end
