(* ===== verification/Lock_Users.thy ===== *)
theory Lock_Users
  imports Scoped_Lock Serial Text_Output Printf_Spec
begin

text \<open>
  The components that work under a mutex: the console (\<open>ttyLock\<close> of \<open>Devices/Graphics/console.cpp\<close>), the serial line
  (\<open>mutex_rs232\<close> of \<open>Devices/Serial/rs232.cpp\<close>) and the kernel's page tables (\<open>pagingLock\<close> of
  \<open>Memory/paging.cpp\<close>).  The first part puts the lock around their operations.  The second part lets any number
  of tasks call them: the work of a call is a sequence of small steps between which any other task may run.  The
  third part adds the receive interrupt, whose handler takes the same mutex as the reader that it interrupts.
\<close>

section \<open>Operations under a lock\<close>

type_synonym others = "nat \<Rightarrow> mutex \<times> sched \<Rightarrow> mutex \<times> sched"

definition with_lock :: "others \<Rightarrow> nat \<Rightarrow> ('x \<Rightarrow> ('r \<times> 'x) outcome) \<Rightarrow> mutex \<times> sched \<times> 'x \<Rightarrow> ('r \<times> mutex \<times> sched \<times> 'x) outcome option" where
  "with_lock resume n f = (\<lambda>(m, s, x).
     case Mutex_lock resume n 0 m s of
       None \<Rightarrow> None
     | Some r \<Rightarrow> Some (bindE r (\<lambda>(_, m1, s1).
         bindE (f x) (\<lambda>(v, x1).
         bindE (unlock n m1 s1) (\<lambda>(_, m2, s2). Inr (v, m2, s2, x1))))))"

definition locked_vprintf :: "others \<Rightarrow> nat \<Rightarrow> u8 list \<Rightarrow> va list \<Rightarrow> mutex \<times> sched \<times> console \<Rightarrow> (u32 \<times> mutex \<times> sched \<times> console) outcome option" where
  "locked_vprintf resume n fmt args = with_lock resume n (Console_vprintf fmt args)"

definition locked_write_char :: "others \<Rightarrow> nat \<Rightarrow> u8 \<Rightarrow> mutex \<times> sched \<times> console \<Rightarrow> (unit \<times> mutex \<times> sched \<times> console) outcome option" where
  "locked_write_char resume n c = with_lock resume n (\<lambda>x. bindE (write_char c x) (\<lambda>x1. Inr ((), x1)))"

definition locked_write_str :: "others \<Rightarrow> nat \<Rightarrow> u8 list \<Rightarrow> mutex \<times> sched \<times> console \<Rightarrow> (unit \<times> mutex \<times> sched \<times> console) outcome option" where
  "locked_write_str resume n str = with_lock resume n (\<lambda>x. bindE (write_str str x) (\<lambda>x1. Inr ((), x1)))"

definition locked_read :: "others \<Rightarrow> nat \<Rightarrow> nat \<Rightarrow> mutex \<times> sched \<times> serial \<Rightarrow> (u8 list \<times> mutex \<times> sched \<times> serial) outcome option" where
  "locked_read resume n count = with_lock resume n (\<lambda>x. Inr (serial_read count x))"

text \<open>\<open>read_byte\<close> waits for the byte under the lock and reads the data register after it.\<close>

definition locked_read_byte :: "others \<Rightarrow> nat \<Rightarrow> line_status \<Rightarrow> u8 \<Rightarrow> mutex \<times> sched \<times> serial \<Rightarrow> (u8 \<times> mutex \<times> sched \<times> serial) outcome option" where
  "locked_read_byte resume n lsr data st =
     (case lockedRegion resume n (\<lambda>(m, s, x). bindE (read_byte lsr data x) (\<lambda>(_, x1). Inr (m, s, x1))) st of
        None \<Rightarrow> None
      | Some r \<Rightarrow> Some (bindE r (\<lambda>st1. Inr (data, st1))))"

definition locked_callback :: "others \<Rightarrow> nat \<Rightarrow> line_status \<Rightarrow> u8 \<Rightarrow> mutex \<times> sched \<times> serial \<Rightarrow> (mutex \<times> sched \<times> serial) outcome option" where
  "locked_callback resume n lsr data st =
     (case locked_read_byte resume n lsr data st of
        None \<Rightarrow> None
      | Some r \<Rightarrow> Some (bindE r (\<lambda>(in_c, m1, s1, x1).
          let c = (if in_c = 13 then 10 else in_c)
          in bindE (serial_printf lsr [37, 99] [Int32 (scast c)] x1) (\<lambda>(_, x2).
             Inr (m1, s1, x2\<lparr>rs_ring := snd (Enqueue c (rs_ring x2))\<rparr>)))))"

definition locked_newPage :: "others \<Rightarrow> nat \<Rightarrow> u32 \<Rightarrow> mutex \<times> sched \<times> paging \<Rightarrow> (u32 \<times> mutex \<times> sched \<times> paging) outcome option" where
  "locked_newPage resume n sz = with_lock resume n (newPage sz)"

definition locked_freePage :: "others \<Rightarrow> nat \<Rightarrow> u32 \<Rightarrow> u32 \<Rightarrow> mutex \<times> sched \<times> paging \<Rightarrow> (unit \<times> mutex \<times> sched \<times> paging) outcome option" where
  "locked_freePage resume n page sz = with_lock resume n (\<lambda>x. bindE (freePage page sz x) (\<lambda>x1. Inr ((), x1)))"

lemmas lock_users = locked_vprintf_def locked_write_char_def locked_write_str_def locked_read_def locked_newPage_def locked_freePage_def

text \<open>With a free mutex the operation runs at once; before there are tasks nothing else changes.\<close>

lemma with_lock_no_tasks:
  assumes "\<not> m_isLocked m" "current_task s = None"
  shows "with_lock resume n f (m, s, x) = Some (bindE (f x) (\<lambda>(v, x1). Inr (v, m, s, x1)))"
proof -
  have "m\<lparr>m_isLocked := False\<rparr> = m" using assms(1) by (cases m) simp
  then show ?thesis
    using assms by (cases "f x") (simp_all add: with_lock_def Mutex_lock_free unlock_def task_only_def split: prod.splits)
qed

lemma with_lock_tasks:
  assumes "\<not> m_isLocked m" "quiet s c L" "f x = Inr (v, x1)"
  shows "\<exists>s'. with_lock resume n f (m, s, x) = Some (Inr (v, m, s', x1))
    \<and> (if L (QWait (mx_sync m)) = [] then quiet s' c L
       else quiet s' (hd (L QReady @ L (QWait (mx_sync m))))
         (L(QWait (mx_sync m) := [], QReady := tl (L QReady @ L (QWait (mx_sync m))) @ [c])))"
proof -
  have "m\<lparr>m_isLocked := True\<rparr>\<lparr>m_isLocked := False\<rparr> = m" using assms(1) by (cases m) simp
  then show ?thesis
    using unlock_wakes [OF assms(2), of n "m\<lparr>m_isLocked := True\<rparr>"] assms(1,3) by (auto simp: with_lock_def Mutex_lock_free)
qed

lemma locked_callback_no_tasks:
  assumes "\<not> m_isLocked m" "current_task s = None"
  shows "locked_callback resume n lsr c (m, s, x) = Some (bindE (serial_callback lsr c x) (\<lambda>x1. Inr (m, s, x1)))"
proof -
  have m: "m\<lparr>m_isLocked := False\<rparr> = m" using assms(1) by (cases m) simp
  show ?thesis
  proof (cases "read_byte lsr c x")
    case (Inl e)
    then show ?thesis
      using assms(1) by (simp add: locked_callback_def locked_read_byte_def lockedRegion_def RAIIMutex_def Mutex_lock_free serial_callback_def)
  next
    case (Inr p)
    then obtain x1 where p: "read_byte lsr c x = Inr (c, x1)"
      by (auto simp: read_byte_def split: option.splits)
    have "lockedRegion resume n (\<lambda>(m, s, x). bindE (read_byte lsr c x) (\<lambda>(_, x1). Inr (m, s, x1))) (m, s, x) = Some (Inr (m, s, x1))"
      using lockedRegion_no_tasks [OF assms(1), of _ s x "m\<lparr>m_isLocked := True\<rparr>" s x1] p assms(2) m by simp
    then show ?thesis
      by (cases "serial_printf lsr [37, 99] [Int32 (scast (if c = 13 then 10 else c))] x1")
        (auto simp: locked_callback_def locked_read_byte_def serial_callback_def p Let_def)
  qed
qed

section \<open>Calls by many tasks\<close>

text \<open>Every task that calls an operation locks the mutex, does the units of the work one after the other and
  unlocks; the mutex is that of \<open>Locking\<close>.  Calls that are finished are recorded in the order of their ends.\<close>

record ('c, 'o, 'x) guarded_sys =
  gs_mutex :: mutex_sys
  gs_data :: 'x
  gs_call :: "addr \<Rightarrow> 'c"
  gs_todo :: "addr \<Rightarrow> 'o list"
  gs_finished :: "(addr \<times> 'c) list"

abbreviation lock_pc :: "('c, 'o, 'x) guarded_sys \<Rightarrow> addr \<Rightarrow> mutex_pc" where
  "lock_pc s \<equiv> pc (gs_mutex s)"

inductive guarded_step ::
    "('c \<Rightarrow> bool) \<Rightarrow> ('c \<Rightarrow> 'o list) \<Rightarrow> ('o \<Rightarrow> 'x \<Rightarrow> 'x) \<Rightarrow> ('c, 'o, 'x) guarded_sys \<Rightarrow> ('c, 'o, 'x) guarded_sys \<Rightarrow> bool"
  for legal units put where
  start_call: "lock_pc s t = Outside \<Longrightarrow> legal c \<Longrightarrow>
    guarded_step legal units put s (s\<lparr>gs_mutex := goto t TestAndSet (gs_mutex s),
      gs_call := (gs_call s)(t := c), gs_todo := (gs_todo s)(t := units c)\<rparr>)"
| find_taken: "lock_pc s t = TestAndSet \<Longrightarrow> flag (gs_mutex s) \<Longrightarrow>
    guarded_step legal units put s (s\<lparr>gs_mutex := goto t Block (gs_mutex s)\<rparr>)"
| find_free: "lock_pc s t = TestAndSet \<Longrightarrow> \<not> flag (gs_mutex s) \<Longrightarrow>
    guarded_step legal units put s (s\<lparr>gs_mutex := goto t Critical ((gs_mutex s)\<lparr>flag := True\<rparr>)\<rparr>)"
| go_waiting: "lock_pc s t = Block \<Longrightarrow>
    guarded_step legal units put s
      (s\<lparr>gs_mutex := goto t Waiting ((gs_mutex s)\<lparr>wait_list := wait_list (gs_mutex s) @ [t]\<rparr>)\<rparr>)"
| do_unit: "lock_pc s t = Critical \<Longrightarrow> gs_todo s t = u # us \<Longrightarrow>
    guarded_step legal units put s (s\<lparr>gs_data := put u (gs_data s), gs_todo := (gs_todo s)(t := us)\<rparr>)"
| end_call: "lock_pc s t = Critical \<Longrightarrow> gs_todo s t = [] \<Longrightarrow>
    guarded_step legal units put s (s\<lparr>gs_mutex := goto t Unblock ((gs_mutex s)\<lparr>flag := False\<rparr>),
      gs_finished := gs_finished s @ [(t, gs_call s t)]\<rparr>)"
| wake_all: "lock_pc s t = Unblock \<Longrightarrow>
    guarded_step legal units put s (s\<lparr>gs_mutex := (gs_mutex s)\<lparr>wait_list := [],
      pc := (\<lambda>u. if u \<in> set (wait_list (gs_mutex s)) then TestAndSet else if u = t then Outside else lock_pc s u)\<rparr>\<rparr>)"

definition guarded_start :: "'c \<Rightarrow> 'x \<Rightarrow> ('c, 'o, 'x) guarded_sys" where
  "guarded_start c x = \<lparr>gs_mutex = mutex_start, gs_data = x, gs_call = (\<lambda>_. c), gs_todo = (\<lambda>_. []), gs_finished = []\<rparr>"

text \<open>The calls use the mutex as its own step relation allows.\<close>

lemma guarded_step_mutex:
  assumes "guarded_step legal units put s s'"
  shows "gs_mutex s' = gs_mutex s \<or> mutex_step (gs_mutex s) (gs_mutex s')"
  using assms
proof (cases rule: guarded_step.cases)
  case (find_free t)
  then show ?thesis using lock_free [of "gs_mutex s" t] by simp
next
  case (go_waiting t)
  then show ?thesis using lock_block [of "gs_mutex s" t] by simp
next
  case (end_call t)
  then show ?thesis using unlock_clear [of "gs_mutex s" t] by simp
qed (auto intro: mutex_step.intros)

definition in_call :: "mutex_pc \<Rightarrow> bool" where
  "in_call p \<longleftrightarrow> p \<in> {TestAndSet, Block, Waiting}"

text \<open>What the finished calls have made of the data, and how far the holder of the mutex is.\<close>

definition finished_data :: "('c \<Rightarrow> 'o list) \<Rightarrow> ('o \<Rightarrow> 'x \<Rightarrow> 'x) \<Rightarrow> 'x \<Rightarrow> ('c, 'o, 'x) guarded_sys \<Rightarrow> 'x" where
  "finished_data units put x0 s = fold put (concat (map (units \<circ> snd) (gs_finished s))) x0"

definition guarded_inv ::
    "('c \<Rightarrow> bool) \<Rightarrow> ('c \<Rightarrow> 'o list) \<Rightarrow> ('o \<Rightarrow> 'x \<Rightarrow> 'x) \<Rightarrow> 'x \<Rightarrow> ('c, 'o, 'x) guarded_sys \<Rightarrow> bool" where
  "guarded_inv legal units put x0 s \<longleftrightarrow> mutex_inv (gs_mutex s)
     \<and> (\<forall>t. in_call (lock_pc s t) \<longrightarrow> legal (gs_call s t) \<and> gs_todo s t = units (gs_call s t))
     \<and> (\<forall>t. lock_pc s t = Critical \<longrightarrow> legal (gs_call s t) \<and>
          (\<exists>part. units (gs_call s t) = part @ gs_todo s t \<and> gs_data s = fold put part (finished_data units put x0 s)))
     \<and> ((\<forall>t. lock_pc s t \<noteq> Critical) \<longrightarrow> gs_data s = finished_data units put x0 s)
     \<and> (\<forall>(t, c) \<in> set (gs_finished s). legal c)"

lemma guarded_invD:
  assumes "guarded_inv legal units put x0 s"
  shows "mutex_inv (gs_mutex s)"
    "in_call (lock_pc s t) \<Longrightarrow> legal (gs_call s t) \<and> gs_todo s t = units (gs_call s t)"
    "lock_pc s t = Critical \<Longrightarrow> legal (gs_call s t) \<and>
       (\<exists>part. units (gs_call s t) = part @ gs_todo s t \<and> gs_data s = fold put part (finished_data units put x0 s))"
    "\<forall>t. lock_pc s t \<noteq> Critical \<Longrightarrow> gs_data s = finished_data units put x0 s"
    "\<forall>(t, c) \<in> set (gs_finished s). legal c"
  using assms unfolding guarded_inv_def by blast+

text \<open>A step that leaves data, the holder and the finished calls alone.\<close>

lemma guarded_inv_other:
  assumes inv: "guarded_inv legal units put x0 s" and m: "mutex_inv (gs_mutex s')"
    and same: "gs_data s' = gs_data s" "gs_finished s' = gs_finished s"
      "\<And>t. lock_pc s' t = Critical \<longleftrightarrow> lock_pc s t = Critical"
      "\<And>t. lock_pc s t = Critical \<Longrightarrow> gs_call s' t = gs_call s t \<and> gs_todo s' t = gs_todo s t"
    and entered: "\<And>t. in_call (lock_pc s' t) \<Longrightarrow> legal (gs_call s' t) \<and> gs_todo s' t = units (gs_call s' t)"
  shows "guarded_inv legal units put x0 s'"
proof -
  have "finished_data units put x0 s' = finished_data units put x0 s" by (simp add: finished_data_def same(2))
  then show ?thesis using inv m entered unfolding guarded_inv_def same(1-3) by (simp add: same(4))
qed

text \<open>The data of a state in which a task holds the mutex, or none.\<close>

lemma guarded_inv_holder:
  assumes m: "mutex_inv (gs_mutex s)" and t: "lock_pc s t = Critical" "legal (gs_call s t)" "units (gs_call s t) = part @ gs_todo s t"
      "gs_data s = fold put part (finished_data units put x0 s)"
    and rest: "\<And>u. in_call (lock_pc s u) \<Longrightarrow> legal (gs_call s u) \<and> gs_todo s u = units (gs_call s u)"
      "\<forall>(u, c) \<in> set (gs_finished s). legal c"
  shows "guarded_inv legal units put x0 s"
proof -
  have "u = t" if "lock_pc s u = Critical" for u using m t(1) that unfolding mutex_inv_def by blast
  then show ?thesis using m t rest unfolding guarded_inv_def by metis
qed

lemma guarded_inv_nobody:
  assumes "mutex_inv (gs_mutex s)" "\<And>u. lock_pc s u \<noteq> Critical" "gs_data s = finished_data units put x0 s"
    and "\<And>u. in_call (lock_pc s u) \<Longrightarrow> legal (gs_call s u) \<and> gs_todo s u = units (gs_call s u)"
      "\<forall>(u, c) \<in> set (gs_finished s). legal c"
  shows "guarded_inv legal units put x0 s"
  using assms unfolding guarded_inv_def by blast

lemma guarded_inv_unit:
  assumes i: "guarded_inv legal units put x0 s" and t: "lock_pc s t = Critical" "gs_todo s t = u # us"
  shows "guarded_inv legal units put x0 (s\<lparr>gs_data := put u (gs_data s), gs_todo := (gs_todo s)(t := us)\<rparr>)"
proof -
  note inv = guarded_invD [OF i]
  obtain part where part: "units (gs_call s t) = part @ u # us" "gs_data s = fold put part (finished_data units put x0 s)"
    using inv(3) [OF t(1)] t(2) by auto
  show ?thesis
  proof (rule guarded_inv_holder [where t = t and part = "part @ [u]"])
    show "legal (gs_call (s\<lparr>gs_data := put u (gs_data s), gs_todo := (gs_todo s)(t := us)\<rparr>) t)" using inv(3) [OF t(1)] by simp
  qed (use part t inv(1,2,5) in \<open>auto simp: finished_data_def in_call_def\<close>)
qed

lemma guarded_inv_end:
  assumes i: "guarded_inv legal units put x0 s" and t: "lock_pc s t = Critical" "gs_todo s t = []"
    and m: "mutex_inv (goto t Unblock ((gs_mutex s)\<lparr>flag := False\<rparr>))"
  shows "guarded_inv legal units put x0 (s\<lparr>gs_mutex := goto t Unblock ((gs_mutex s)\<lparr>flag := False\<rparr>),
      gs_finished := gs_finished s @ [(t, gs_call s t)]\<rparr>)"
proof -
  note inv = guarded_invD [OF i]
  have one: "lock_pc s u = Critical \<Longrightarrow> u = t" for u using inv(1) t(1) unfolding mutex_inv_def by blast
  have d: "gs_data s = fold put (units (gs_call s t)) (finished_data units put x0 s)" "legal (gs_call s t)"
    using inv(3) [OF t(1)] t(2) by auto
  show ?thesis
    by (rule guarded_inv_nobody)
      (use one d m inv(2,5) in \<open>auto simp: finished_data_def in_call_def split: if_splits\<close>)
qed

interpretation lck: kept_by_steps "guarded_step legal units put" "guarded_inv legal units put x0"
  for legal :: "'c \<Rightarrow> bool" and units :: "'c \<Rightarrow> 'o list" and put and x0 :: 'x
proof
  fix s s' :: "('c, 'o, 'x) guarded_sys"
  assume i: "guarded_inv legal units put x0 s" and st: "guarded_step legal units put s s'"
  note inv = guarded_invD [OF i]
  have m: "mutex_inv (gs_mutex s')" using guarded_step_mutex [OF st] mtx.kept inv(1) by fastforce
  from st show "guarded_inv legal units put x0 s'"
  proof (cases rule: guarded_step.cases)
    case (find_free t)
    have none: "\<forall>u. lock_pc s u \<noteq> Critical" using inv(1) find_free(3) unfolding mutex_inv_def by blast
    show ?thesis
      by (rule guarded_inv_holder [OF m, of t, where part = "[]"])
        (use find_free inv(2,5) inv(4) [OF none] in \<open>auto simp: in_call_def finished_data_def split: if_splits\<close>)
  next
    case (do_unit t u us)
    then show ?thesis using guarded_inv_unit [OF i do_unit(2,3)] m by simp
  next
    case (end_call t)
    then show ?thesis using guarded_inv_end [OF i end_call(2,3)] m by simp
  next
    case (wake_all t)
    have "u \<in> set (wait_list (gs_mutex s)) \<longleftrightarrow> lock_pc s u = Waiting" for u using inv(1) unfolding mutex_inv_def by blast
    then show ?thesis
      by (intro guarded_inv_other [OF i m]) (use inv(2) wake_all in \<open>auto simp: in_call_def split: if_splits\<close>)
  qed (rule guarded_inv_other [OF i m]; use inv(2) in \<open>auto simp: in_call_def split: if_splits\<close>)+
qed

lemma guarded_inv_start: "guarded_inv legal units put x0 (guarded_start c x0)"
  by (simp add: guarded_inv_def guarded_start_def mutex_start_def mutex_inv_def finished_data_def in_call_def)

section \<open>The console under its lock\<close>

text \<open>The calls that hold \<open>ttyLock\<close>; a unit of work is one character handed to \<open>putchar\<close>.  The copy to the screen that
  \<open>printf\<close> makes after its \<open>vprintf\<close> is outside the lock and no part of the call.\<close>

datatype console_call = Vprintf "piece list" | Write_char u8 | Write_str "u8 list"

fun legal_call :: "console_call \<Rightarrow> bool" where
  "legal_call (Vprintf ps) \<longleftrightarrow> (\<forall>q \<in> set ps. wf_piece q)"
| "legal_call _ \<longleftrightarrow> True"

fun call_chars :: "console_call \<Rightarrow> u32 list" where
  "call_chars (Vprintf ps) = concat (map text_of ps)"
| "call_chars (Write_char c) = [scast c]"
| "call_chars (Write_str str) = map scast str"

fun run_call :: "console_call \<Rightarrow> console \<Rightarrow> console outcome" where
  "run_call (Vprintf ps) x = bindE (Console_vprintf (concat (map format_of ps)) (concat (map args_of ps)) x) (\<lambda>(_, x1). Inr x1)"
| "run_call (Write_char c) x = write_char c x"
| "run_call (Write_str str) x = write_str str x"

lemma fold_fault: "fold put_callback cs (Inl e) = Inl e"
  by (induction cs) (simp_all add: put_callback_def)

lemma write_str_fold: "write_str str x = fold put_callback (map scast str) (Inr x)"
proof (induction str arbitrary: x)
  case (Cons c str)
  have "put_callback (scast c) (Inr x) = write_char c x" by (simp add: write_char_def put_callback_def)
  then show ?case using Cons by (cases "write_char c x") (simp_all add: fold_fault)
qed simp

lemma run_call_fold:
  assumes "legal_call c"
  shows "run_call c x = fold put_callback (call_chars c) (Inr x)"
proof (cases c)
  case (Vprintf ps)
  then show ?thesis
    using printf_pieces [of ps, where as = "[]" and n = 0 and p = "Inr x" and fn = put_callback] assms
    by (cases "fold put_callback (concat (map text_of ps)) (Inr x)") (simp_all add: Console_vprintf_def printf_helper_def)
next
  case (Write_char d)
  then show ?thesis by (simp add: write_char_def put_callback_def)
qed (simp add: write_str_fold)

lemma run_calls_fold:
  assumes "\<forall>c \<in> set cs. legal_call c"
  shows "foldE run_call cs x = fold put_callback (concat (map call_chars cs)) (Inr x)"
  using assms
proof (induction cs arbitrary: x)
  case (Cons c cs)
  then have c: "run_call c x = fold put_callback (call_chars c) (Inr x)" using run_call_fold by simp
  show ?case
  proof (cases "run_call c x")
    case (Inl e)
    then show ?thesis using c [symmetric] by (simp add: fold_fault)
  next
    case (Inr x1)
    then show ?thesis using c [symmetric] Cons by simp
  qed
qed simp

text \<open>C8: the calls of the console are atomic.  Whatever the tasks that print with \<open>vprintf\<close> and \<open>write\<close> do, and however
  their characters, their attempts to lock and their wake-ups interleave, the console is at every moment in the
  state that the finished calls lead to when they run one after the other as wholes, in the order of their ends; while a
  task holds the lock, the first characters of its own call are added to it and nothing else is.\<close>

theorem console_calls_atomic:
  assumes "(guarded_step legal_call call_chars put_callback)\<^sup>*\<^sup>* (guarded_start c0 (Inr x0)) s"
  shows "((\<forall>t. lock_pc s t \<noteq> Critical) \<longrightarrow> gs_data s = foldE run_call (map snd (gs_finished s)) x0)
    \<and> (\<forall>t. lock_pc s t = Critical \<longrightarrow> (\<exists>part. call_chars (gs_call s t) = part @ gs_todo s t
        \<and> gs_data s = fold put_callback part (foldE run_call (map snd (gs_finished s)) x0)))"
proof -
  note inv = guarded_invD [OF lck.reachable [OF assms guarded_inv_start]]
  have "finished_data call_chars put_callback (Inr x0) s = foldE run_call (map snd (gs_finished s)) x0"
    using inv(5) run_calls_fold [of "map snd (gs_finished s)" x0] by (auto simp: finished_data_def comp_def case_prod_beta)
  then show ?thesis using inv(3,4) by simp
qed

text \<open>Two tasks: the first has printed one of its two characters when the second finds the lock taken.\<close>

theorem console_calls_atomic_witness:
  "\<exists>s. (guarded_step legal_call call_chars put_callback)\<^sup>*\<^sup>* (guarded_start (Write_str []) (Inr (console_start demo_gfx))) s
    \<and> lock_pc s 1 = Critical \<and> lock_pc s 2 = Block \<and> gs_todo s 1 = [105]
    \<and> gs_data s = put_callback 72 (Inr (console_start demo_gfx))"
proof -
  let ?s0 = "guarded_start (Write_str []) (Inr (console_start demo_gfx)) :: (console_call, u32, console outcome) guarded_sys"
  let ?s1 = "?s0\<lparr>gs_mutex := goto 1 TestAndSet (gs_mutex ?s0), gs_call := (gs_call ?s0)(1 := Write_str [72, 105]),
    gs_todo := (gs_todo ?s0)(1 := call_chars (Write_str [72, 105]))\<rparr>"
  let ?s2 = "?s1\<lparr>gs_mutex := goto 1 Critical ((gs_mutex ?s1)\<lparr>flag := True\<rparr>)\<rparr>"
  let ?s3 = "?s2\<lparr>gs_mutex := goto 2 TestAndSet (gs_mutex ?s2), gs_call := (gs_call ?s2)(2 := Write_char 33),
    gs_todo := (gs_todo ?s2)(2 := call_chars (Write_char 33))\<rparr>"
  let ?s4 = "?s3\<lparr>gs_data := put_callback 72 (gs_data ?s3), gs_todo := (gs_todo ?s3)(1 := [105])\<rparr>"
  let ?s5 = "?s4\<lparr>gs_mutex := goto 2 Block (gs_mutex ?s4)\<rparr>"
  let ?step = "guarded_step legal_call call_chars put_callback"
  have "?step ?s0 ?s1" by (rule start_call) (simp_all add: guarded_start_def mutex_start_def)
  moreover have "?step ?s1 ?s2" by (rule find_free) (simp_all add: guarded_start_def mutex_start_def)
  moreover have "?step ?s2 ?s3" by (rule start_call) (simp_all add: guarded_start_def mutex_start_def)
  moreover have "?step ?s3 ?s4" by (rule do_unit) (simp_all add: guarded_start_def mutex_start_def)
  moreover have "?step ?s4 ?s5" by (rule find_taken) (simp_all add: guarded_start_def mutex_start_def)
  ultimately have r: "?step\<^sup>*\<^sup>* ?s0 ?s5" by (meson converse_rtranclp_into_rtranclp rtranclp.rtrancl_refl)
  have s5: "lock_pc ?s5 1 = Critical" "lock_pc ?s5 2 = Block" "gs_todo ?s5 1 = [105]" "gs_call ?s5 1 = Write_str [72, 105]"
    "gs_finished ?s5 = []"
    by (simp_all add: guarded_start_def mutex_start_def)
  obtain part where "call_chars (gs_call ?s5 1) = part @ gs_todo ?s5 1"
      "gs_data ?s5 = fold put_callback part (foldE run_call (map snd (gs_finished ?s5)) (console_start demo_gfx))"
    using console_calls_atomic [OF r] s5(1) by blast
  then have "gs_data ?s5 = put_callback 72 (Inr (console_start demo_gfx))"
    unfolding s5 by (cases part) auto
  then show ?thesis using r s5 by blast
qed

section \<open>The receive interrupt\<close>

text \<open>Tasks use \<open>mutex_rs232\<close> in \<open>read\<close>.  The receive interrupt runs \<open>callback\<close> in the place of whatever its processor does:
  the task's own place in the code is saved, \<open>read_byte\<close> locks and unlocks the same mutex, and the return from the
  interrupt restores the place.\<close>

record rs_sys =
  rs_mutex :: mutex_sys
  rs_saved :: "addr \<Rightarrow> mutex_pc option"

inductive rs_step :: "rs_sys \<Rightarrow> rs_sys \<Rightarrow> bool" where
  use_mutex: "mutex_step (rs_mutex s) m \<Longrightarrow> rs_step s (s\<lparr>rs_mutex := m\<rparr>)"
| receive: "pc (rs_mutex s) t \<noteq> Waiting \<Longrightarrow> rs_saved s t = None \<Longrightarrow>
    rs_step s (s\<lparr>rs_mutex := goto t TestAndSet (rs_mutex s), rs_saved := (rs_saved s)(t := Some (pc (rs_mutex s) t))\<rparr>)"
| return: "pc (rs_mutex s) t = Outside \<Longrightarrow> rs_saved s t = Some p \<Longrightarrow>
    rs_step s (s\<lparr>rs_mutex := goto t p (rs_mutex s), rs_saved := (rs_saved s)(t := None)\<rparr>)"

definition rs_start :: rs_sys where
  "rs_start = \<lparr>rs_mutex = mutex_start, rs_saved = (\<lambda>_. None)\<rparr>"

text \<open>A task holds the mutex also while an interrupt runs in its place.\<close>

definition rs_holds :: "rs_sys \<Rightarrow> addr \<Rightarrow> bool" where
  "rs_holds s t \<longleftrightarrow> pc (rs_mutex s) t = Critical \<or> rs_saved s t = Some Critical"

definition rs_inv :: "rs_sys \<Rightarrow> bool" where
  "rs_inv s \<longleftrightarrow> (\<forall>t u. rs_holds s t \<longrightarrow> rs_holds s u \<longrightarrow> t = u) \<and> (\<forall>t. rs_holds s t \<longrightarrow> flag (rs_mutex s))
     \<and> (\<forall>t \<in> set (wait_list (rs_mutex s)). pc (rs_mutex s) t = Waiting)
     \<and> (\<forall>t. rs_saved s t = Some Critical \<longrightarrow> in_call (pc (rs_mutex s) t)) \<and> (\<forall>t. rs_saved s t \<noteq> Some Waiting)"

lemma rs_invD:
  assumes "rs_inv s"
  shows "rs_holds s t \<Longrightarrow> rs_holds s u \<Longrightarrow> t = u" "rs_holds s t \<Longrightarrow> flag (rs_mutex s)"
    "t \<in> set (wait_list (rs_mutex s)) \<Longrightarrow> pc (rs_mutex s) t = Waiting"
    "rs_saved s t = Some Critical \<Longrightarrow> in_call (pc (rs_mutex s) t)" "rs_saved s t \<noteq> Some Waiting"
  using assms unfolding rs_inv_def by blast+

lemma rs_inv_use_mutex:
  assumes i: "rs_inv s" and st: "mutex_step (rs_mutex s) m"
  shows "rs_inv (s\<lparr>rs_mutex := m\<rparr>)"
  using st
proof (cases rule: mutex_step.cases)
  case (unlock_wake t)
  have "rs_holds (s\<lparr>rs_mutex := m\<rparr>) u \<longleftrightarrow> rs_holds s u" for u
    using unlock_wake rs_invD(3) [OF i, of u] by (auto simp: rs_holds_def)
  then show ?thesis using i unlock_wake unfolding rs_inv_def by (auto simp: in_call_def)
next
  case (unlock_clear t)
  have "rs_saved s t \<noteq> Some Critical" using rs_invD(4) [OF i, of t] unlock_clear(2) by (auto simp: in_call_def)
  moreover have "rs_holds s u \<Longrightarrow> u = t" for u using rs_invD(1) [OF i, of u t] unlock_clear(2) by (simp add: rs_holds_def)
  ultimately have none: "\<not> rs_holds (s\<lparr>rs_mutex := m\<rparr>) u" for u
    using unlock_clear(1) by (cases "u = t") (auto simp: rs_holds_def)
  have saved: "rs_saved s u \<noteq> Some Critical" for u using none [of u] by (simp add: rs_holds_def)
  show ?thesis unfolding rs_inv_def
    using none saved rs_invD(3,5) [OF i] unlock_clear by auto
qed (use i in \<open>auto simp: rs_inv_def rs_holds_def in_call_def\<close>)

interpretation rs232: kept_by_steps rs_step rs_inv
proof
  fix s s'
  assume i: "rs_inv s" and st: "rs_step s s'"
  from st show "rs_inv s'"
  proof (cases rule: rs_step.cases)
    case (use_mutex m)
    then show ?thesis using rs_inv_use_mutex [OF i] by simp
  next
    case (receive t)
    have "rs_holds s' u \<longleftrightarrow> rs_holds s u" for u using receive by (auto simp: rs_holds_def)
    then show ?thesis using i receive unfolding rs_inv_def by (auto simp: in_call_def)
  next
    case (return t p)
    have "p \<noteq> Critical" "p \<noteq> Waiting" using rs_invD(4,5) [OF i, of t] return by (auto simp: in_call_def)
    then have "rs_holds s' u \<longleftrightarrow> rs_holds s u" for u using return by (auto simp: rs_holds_def)
    then show ?thesis using i return \<open>p \<noteq> Waiting\<close> unfolding rs_inv_def by auto
  qed
qed

text \<open>The handler of a task that holds the mutex never gets it.\<close>

lemma rs_handler_stuck:
  assumes "rs_inv s" "rs_saved s t = Some Critical" "rs_step s s'"
  shows "rs_saved s' t = Some Critical"
  using assms(3) rs_invD(4) [OF assms(1,2)] assms(2)
  by (cases rule: rs_step.cases) (auto simp: in_call_def)

interpretation stuck: kept_by_steps rs_step "\<lambda>s. rs_inv s \<and> rs_saved s t = Some Critical" for t
  by unfold_locales (auto intro: rs232.kept rs_handler_stuck)

lemma rs_stuck_state:
  assumes "rs_inv s" "rs_saved s t = Some Critical"
  shows "flag (rs_mutex s)" "in_call (pc (rs_mutex s) t)" "pc (rs_mutex s) u \<noteq> Critical"
proof -
  have t: "rs_holds s t" using assms(2) by (simp add: rs_holds_def)
  then show "flag (rs_mutex s)" by (rule rs_invD(2) [OF assms(1)])
  show c: "in_call (pc (rs_mutex s) t)" by (rule rs_invD(4) [OF assms])
  show "pc (rs_mutex s) u \<noteq> Critical"
    using rs_invD(1) [OF assms(1) t, of u] c by (auto simp: rs_holds_def in_call_def)
qed

text \<open>C12: a receive interrupt that arrives while the running task is inside \<open>read\<close> stops the serial line for ever.  The handler
  waits for the mutex that the interrupted task holds; whatever the other tasks and later interrupts do from
  then on, the handler stays in \<open>lock\<close>, the interrupted task does not get back to its \<open>read\<close>, the mutex
  stays locked and no task ever holds it.\<close>

theorem receive_in_read_deadlocks:
  assumes "rs_step\<^sup>*\<^sup>* rs_start s" "pc (rs_mutex s) t = Critical" "rs_saved s t = None"
    and "rs_step\<^sup>*\<^sup>* (s\<lparr>rs_mutex := goto t TestAndSet (rs_mutex s), rs_saved := (rs_saved s)(t := Some Critical)\<rparr>) s'"
  shows "rs_saved s' t = Some Critical \<and> pc (rs_mutex s') t \<in> {TestAndSet, Block, Waiting}
    \<and> flag (rs_mutex s') \<and> (\<forall>u. pc (rs_mutex s') u \<noteq> Critical)"
proof -
  let ?s1 = "s\<lparr>rs_mutex := goto t TestAndSet (rs_mutex s), rs_saved := (rs_saved s)(t := Some Critical)\<rparr>"
  have "rs_inv rs_start" by (simp add: rs_inv_def rs_start_def rs_holds_def mutex_start_def)
  then have "rs_inv s" using rs232.reachable [OF assms(1)] by blast
  moreover have "rs_step s ?s1" using receive [of s t] assms(2,3) by simp
  ultimately have "rs_inv s'" "rs_saved s' t = Some Critical"
    using stuck.reachable [OF assms(4), of t] rs232.kept by auto
  then show ?thesis using rs_stuck_state [of s' t] by (auto simp: in_call_def)
qed

text \<open>One task reads, the interrupt comes, and the handler ends on the waiting list of the mutex.\<close>

theorem receive_in_read_deadlocks_witness:
  "\<exists>s s'. rs_step\<^sup>*\<^sup>* rs_start s \<and> pc (rs_mutex s) 1 = Critical
    \<and> rs_step\<^sup>*\<^sup>* (s\<lparr>rs_mutex := goto 1 TestAndSet (rs_mutex s), rs_saved := (rs_saved s)(1 := Some Critical)\<rparr>) s'
    \<and> pc (rs_mutex s') 1 = Waiting \<and> flag (rs_mutex s') \<and> (\<forall>u. pc (rs_mutex s') u \<noteq> Critical)"
proof -
  let ?s1 = "rs_start\<lparr>rs_mutex := goto 1 TestAndSet (rs_mutex rs_start)\<rparr>"
  let ?s2 = "?s1\<lparr>rs_mutex := goto 1 Critical ((rs_mutex ?s1)\<lparr>flag := True\<rparr>)\<rparr>"
  let ?s3 = "?s2\<lparr>rs_mutex := goto 1 TestAndSet (rs_mutex ?s2), rs_saved := (rs_saved ?s2)(1 := Some Critical)\<rparr>"
  let ?s4 = "?s3\<lparr>rs_mutex := goto 1 Block (rs_mutex ?s3)\<rparr>"
  let ?s5 = "?s4\<lparr>rs_mutex := goto 1 Waiting ((rs_mutex ?s4)\<lparr>wait_list := wait_list (rs_mutex ?s4) @ [1]\<rparr>)\<rparr>"
  have "rs_step rs_start ?s1" by (rule use_mutex, rule call_lock) (simp add: rs_start_def mutex_start_def)
  moreover have "rs_step ?s1 ?s2" by (rule use_mutex, rule lock_free) (simp_all add: rs_start_def mutex_start_def)
  ultimately have s2: "rs_step\<^sup>*\<^sup>* rs_start ?s2" by simp
  have "rs_step ?s3 ?s4" by (rule use_mutex, rule lock_taken) (simp_all add: rs_start_def mutex_start_def)
  moreover have "rs_step ?s4 ?s5" by (rule use_mutex, rule lock_block) simp
  ultimately have s5: "rs_step\<^sup>*\<^sup>* ?s3 ?s5" by simp
  have at: "pc (rs_mutex ?s2) 1 = Critical" "rs_saved ?s2 1 = None" by (simp_all add: rs_start_def)
  show ?thesis
    using receive_in_read_deadlocks [OF s2 at s5] s2 at(1) s5 by (intro exI [of _ ?s2] exI [of _ ?s5]) simp
qed

end
