(* ===== verification/Spec2Isabelle.thy ===== *)
theory Spec2Isabelle
  imports Bitset Ring_Buffer List_Tests Scheduler_Lifecycle Locking Paging Virtual_Memory Console Clock Primes Interrupts Stage1 Running Apps Scoped_Lock Task_Listing Printf_Spec Console_Safety Cxa_Guard Serial Rand Interrupt_Stubs Context_Switch Panic_Screen Lock_Users
begin

text \<open>
  \<^bold>\<open>Xyris: a verification of the kernel's own logic\<close>

  Xyris is a small i686 kernel written in C++.  Its parts, and the theories that model them:

  \<^item> Containers.  \<open>Bitset\<close> (\<open>Library/Bitset.hpp\<close>), \<open>Ring_Buffer\<close> (\<open>Library/RingBuffer.hpp\<close>) and
    \<open>Linked_List\<close> (\<open>Library/LinkedList.hpp\<close>), at the width of \<open>size_t\<close> and with an explicit heap of nodes
    for the list.  The ring buffer refines a bounded queue and the list a double-ended queue;
    \<open>List_Tests\<close> runs the project's unit test of the list on the model.
  \<^item> Memory.  \<open>Arch_Memory\<close> (addresses, page structures), \<open>Physical_Memory\<close> (\<open>Memory/Physical.hpp\<close> and the
    memory map), \<open>Paging\<close> (\<open>Memory/paging.cpp\<close>, with the page hooks of the heap) and \<open>Virtual_Memory\<close>
    (\<open>Memory/Virtual.cpp\<close>).  Page tables are functions of their indices; the frame and page bitmaps
    are the \<open>bitset\<close> of the container library.
  \<^item> Tasks.  \<open>Task_Queue\<close> and \<open>Scheduler\<close> hold the control blocks, the lists and every function of
    \<open>Scheduler/tasks.cpp\<close> with the context switch of \<open>tasks.s\<close>; \<open>Scheduler_Invariant\<close>, \<open>Scheduler_Correct\<close>,
    \<open>Scheduler_Api\<close> and \<open>Scheduler_Lifecycle\<close> prove that every task is on exactly one list or running, and
    what each call does.  \<open>Locking\<close> (\<open>Locking/Mutex.cpp\<close>, \<open>Semaphore.cpp\<close>) adds the interleavings of the
    atomic steps of the lock operations as step relations; \<open>Scoped_Lock\<close> has the users of the mutex
    (\<open>Locking/RAII.hpp\<close> and the hooks of \<open>Memory/heap.cpp\<close>), \<open>Lock_Users\<close> the console, the serial line and the page
    tables under their locks, with the interleavings of many callers and of the receive interrupt;
    \<open>Task_Listing\<close> has the debugging output of tasks.
  \<^item> Text.  \<open>C_String\<close> (\<open>Library/string.cpp\<close> over a byte memory), \<open>Printf\<close> (the format machine of
    \<open>Library/printf.cpp\<close>), \<open>Printf_Spec\<close> (a reference for it, without states and flags, and the proof that both
    agree), \<open>Graphics\<close> (frame buffer, pixels and font), \<open>Console\<close> (the escape sequence machine), \<open>Console_Safety\<close>
    (its type safety) and \<open>Text_Output\<close> (from a format to the screen).
  \<^item> Devices.  \<open>Clock\<close>: the real time clock chip and the calendar (\<open>Devices/Clock/rtc.cpp\<close>,
    \<open>Library/time.cpp\<close>).
  \<^item> Machine.  \<open>Interrupts\<close>: the descriptor tables, the interrupt dispatcher, the timer and the speaker
    (\<open>Arch/i686/{gdt,idt,isr,timer}.cpp\<close>, \<open>Devices/PCSpeaker/spkr.cpp\<close>).  \<open>Primes\<close>: the sieve that
    runs as a task (\<open>Applications/primes.cpp\<close>).
  \<^item> Boot.  \<open>Stage1\<close>: the page tables built before the kernel runs (\<open>Arch/i686/Bootloader/stivale2.c\<close>).
    \<open>Handoff\<close>: the boot loader's tags and the command line (\<open>Bootloader/Handoff.cpp\<close>, \<open>Arguments.cpp\<close>),
    composed with the physical memory manager.  \<open>Boot_Memory\<close>: the page tables after \<open>Memory::init\<close>; the
    theorem at the end of this theory composes the memory side, from the boot loader's tags to the first
    consistent state of the memory manager.  \<open>Entry\<close>: \<open>Kernel/Entry.cpp\<close>, every call of \<open>kernelEntry\<close> in order over
    one record of all components.  \<open>Loader\<close>: the jump from stage 1 with its stack and \<open>Bootloader/Loader.cpp\<close>; its
    theorem goes from the boot loader to the first task.  \<open>Running\<close>: after the boot, any sequence of interrupts and
    scheduler calls.  \<open>Registers\<close>: the control registers (\<open>Arch/i686/regs.hpp\<close>).
  \<^item> Machine code.  \<open>Machine_Code\<close> is a model of the processor (registers, stack, memory, the instructions the
    routines use); \<open>Interrupt_Stubs\<close> has \<open>Arch/i686/Assembly/\<close> (\<open>interrupt.s\<close>, \<open>flush.s\<close>, \<open>crti.s\<close>, \<open>crtn.s\<close>) and
    \<open>Context_Switch\<close> the instructions of \<open>Scheduler/tasks.s\<close>, which refine the \<open>tasks_switch_to\<close> of the scheduler.
    The compiled C++ functions that they call are parameters with the System V calling convention.
  \<^item> Run time.  \<open>Cxa_Guard\<close> (\<open>Support/cxa_guard.cpp\<close>), \<open>Logging\<close> (\<open>Logger.cpp\<close>), \<open>Serial\<close>
    (\<open>Devices/Serial/rs232.cpp\<close>, over the ring buffer, the printer and the ports), \<open>Diagnostics\<close> (\<open>Panic.cpp\<close>,
    \<open>Stacktrace.cpp\<close>, \<open>EarlyPanic.cpp\<close>, \<open>Arch/i686/Arch.cpp\<close>) and \<open>Rand\<close> (\<open>Library/rand.cpp\<close>).  \<open>Text_Sink\<close> is the
    contract between \<open>printf\<close> and a device, which the serial line and the console satisfy; \<open>Panic_Screen\<close> sends the
    report of a panic through both and through the log.
  \<^item> Applications.  \<open>Apps\<close>: the spinner, the animation and the display of the prime search (\<open>Applications/\<close>).

  Conventions.  A C++ object is a record, a pointer into the heap an \<open>addr option\<close>, a machine integer a
  word of its width.  An operation returns a \<open>fault + result\<close>: a panic, an access outside an array, a
  null dereference, a shift by the width or a wait that cannot end is an \<open>Inl\<close>.  Loops over known index
  lists are \<open>foldE\<close>; loops that search for an end (a terminating zero, an idle device, a free range up to
  an address) are partial functions whose result \<open>None\<close> means that they do not end, and the theorems
  show that they do; the scheduler's idle loop gets the number of the timer interrupts that arrive, and
  runs out of it exactly when the machine would wait for ever.

  What the lemmas show, by kind: invariants and refinement (scheduler, context switch, mutex, semaphore, ring buffer,
  linked list, page tables against bitmaps), functional correctness of each allocator, parser and
  printer, round trips (Unix time and dates, a task switched away from and back), termination (list destructor, clock reading),
  equivalence of the prime sieve with the definition of a prime number and of \<open>printf\<close> with its reference, type
  safety of the console, bounds of the report buffers and
  of the random numbers, transparency of interrupts, safety of the mutex and of the guards of static variables
  in every interleaving, atomicity of the console's calls,
  and the behaviours where the code does not do what it means to (\<open>freePage\<close>, \<open>isPageFree\<close>, the lost
  wake-up of the mutex, the deadlock of the receive interrupt, the panic's fill of the
  screen, \<open>strstr\<close>, the console's value stack and others), each stated as the property
  that the code has.  Every property with hypotheses has a closed instance behind it.

  Interfaces are locales: what a client relies on is assumed there, the client's lemmas are proved from it, and each
  locale is interpreted on the definitions of the component that provides it.

  Not modelled: the instructions that read ports and invalidate a page (values read are parameters, values
  written are the log of the ports), the third-party allocator and boot protocol headers (parameters where
  they are used), the global constructors (a parameter of \<open>stage2Entry\<close>), the task state segment that the kernel
  never fills, the descriptors of \<open>Handoff.hpp\<close> and the class of \<open>Memory/Kernel.hpp\<close> that nothing uses, and the test harness.
\<close>

section \<open>Memory at boot\<close>

text \<open>C9: the memory side of \<open>kernelEntry\<close>, from the boot loader's tags to a consistent memory manager.  The handoff
  object is built from the tags, the physical memory manager is initialised from its map and \<open>Memory::init\<close>
  sets up the page tables.  Afterwards tables and bitmaps agree, exactly the pages of early memory and of
  the kernel are mapped, the first to themselves and the others to their load address, and a frame is free
  exactly when it lies completely in a usable entry that does not start at 0 and holds neither early memory
  nor the kernel.\<close>

theorem kernel_memory_start:
  assumes "tag_chain ts (ucast info) (xs @ TAG_MEMMAP es # ys)" "\<forall>b \<in> set (xs @ ys). plain_tag env b"
    and "length es \<le> 32" "\<forall>e \<in> set es. fits e" and ok: "memory_layout_ok k"
  shows "\<exists>h env' fr re b st. Handoff ts handle info STIVALE2_MAGIC env = Inr (h, env')
    \<and> Physical_initialize (m_memoryMap h) Physical_Manager = Inr (fr, re, b)
    \<and> Paging_init k (boot_paging dir b) = Inr (pageAlign (KADDR_TO_PHYS k (lk_pageDirectory k)), st) \<and> paging_ok st
    \<and> (\<forall>v. te_present (entry_at st v) \<longleftrightarrow> v \<in> early_pages k \<union> kernel_pages k)
    \<and> (\<forall>v \<in> early_pages k. getPhysicalAddress (entry_at st v) = page_addr v)
    \<and> (\<forall>v \<in> kernel_pages k. getPhysicalAddress (entry_at st v) = page_addr v - lk_KERNEL_BASE k)
    \<and> (\<forall>p < MEM_BITMAP_SIZE. isFree (of_nat (4096 * p)) (phys st) =
         Inr ((\<exists>e \<in> set es. e_type e = MMAP_USABLE \<and> e_base e \<noteq> 0 \<and> frame_in p e)
           \<and> p \<notin> early_pages k \<and> p \<notin> (\<lambda>v. v - unat (lk_KERNEL_BASE k) div 4096) ` kernel_pages k))"
proof -
  let ?B = "unat (lk_KERNEL_BASE k) div 4096"
  obtain h env' fr re b where h: "Handoff ts handle info STIVALE2_MAGIC env = Inr (h, env')"
      "Physical_initialize (m_memoryMap h) Physical_Manager = Inr (fr, re, b)" "wf_phys b"
      "\<forall>p < MEM_BITMAP_SIZE. isFree (of_nat (4096 * p)) b =
          Inr (\<exists>e \<in> set es. e_type e = MMAP_USABLE \<and> e_base e \<noteq> 0 \<and> frame_in p e)"
    using boot_memory_map_frees_usable [OF assms(1-4)] by blast
  obtain st where st: "Paging_init k (boot_paging dir b) = Inr (pageAlign (KADDR_TO_PHYS k (lk_pageDirectory k)), st)"
      "paging_ok st"
      "\<forall>u. entry_at st u = (if u \<in> kernel_pages k then kernel_entry (u - ?B)
                              else if u \<in> early_pages k then kernel_entry u else zero_entry)"
      "\<forall>p. bits (phys st) p \<longleftrightarrow> bits b p \<or> p \<in> early_pages k \<or> p \<in> (\<lambda>u. u - ?B) ` kernel_pages k"
    using Paging_init_boot [OF ok h(3)] by blast
  have "isFree (of_nat (4096 * p)) (phys st) =
      Inr ((\<exists>e \<in> set es. e_type e = MMAP_USABLE \<and> e_base e \<noteq> 0 \<and> frame_in p e)
        \<and> p \<notin> early_pages k \<and> p \<notin> (\<lambda>v. v - ?B) ` kernel_pages k)" if p: "p < MEM_BITMAP_SIZE" for p
  proof -
    have "bits b p \<longleftrightarrow> \<not> (\<exists>e \<in> set es. e_type e = MMAP_USABLE \<and> e_base e \<noteq> 0 \<and> frame_in p e)"
      using isFree_page [OF h(3) p] h(4) p by auto
    moreover have "isFree (of_nat (4096 * p)) (phys st) = Inr (\<not> bits (phys st) p)"
      by (rule isFree_page) (use st(2) p in \<open>simp_all add: paging_ok_def\<close>)
    ultimately show ?thesis using st(4) by simp
  qed
  moreover note boot_translation [OF ok st(3)]
  ultimately show ?thesis using h(1,2) st(1,2) by blast
qed

theorem kernel_memory_start_witness:
  "\<exists>h env' fr re b st. Handoff demo_info 0x8000 0x9000 STIVALE2_MAGIC demo_env = Inr (h, env')
    \<and> Physical_initialize (m_memoryMap h) Physical_Manager = Inr (fr, re, b)
    \<and> Paging_init demo_kernel (boot_paging (\<lambda>_. directory stage1_start 0) b) = Inr (0x300000, st)
    \<and> isFree 0x10F000 (phys st) = Inr True \<and> isFree 0x110000 (phys st) = Inr False"
proof -
  let ?e = "\<lparr>e_base = 0x100000, e_length = 0x7F00000, e_type = MMAP_USABLE\<rparr>"
  have 1: "tag_chain demo_info (ucast (0x9000 :: u64)) ([] @ TAG_MEMMAP [?e] # [])" by (simp add: demo_info_def)
  have 2: "\<forall>b \<in> set ([] @ []). plain_tag demo_env b" "length [?e] \<le> 32" "\<forall>e \<in> set [?e]. fits e"
    by (simp_all add: fits_def)
  have 3: "memory_layout_ok demo_kernel" by (simp add: memory_layout_ok_def demo_kernel_def MEM_BITMAP_SIZE_def)
  have pg: "early_pages demo_kernel = {0..<0x100}" "kernel_pages demo_kernel = {0xC0110..<0xC0310}"
      "unat (lk_KERNEL_BASE demo_kernel) div 4096 = 0xC0000"
    by (simp_all add: early_pages_def kernel_pages_def demo_kernel_def)
  have cr3: "pageAlign (KADDR_TO_PHYS demo_kernel (lk_pageDirectory demo_kernel)) = 0x300000"
    by (simp add: pageAlign_def KADDR_TO_PHYS_def demo_kernel_def ARCH_PAGE_ALIGN_def)
  obtain h env' fr re b st where r: "Handoff demo_info 0x8000 0x9000 STIVALE2_MAGIC demo_env = Inr (h, env')"
      "Physical_initialize (m_memoryMap h) Physical_Manager = Inr (fr, re, b)"
      "Paging_init demo_kernel (boot_paging (\<lambda>_. directory stage1_start 0) b) = Inr (0x300000, st)"
      "\<forall>p < MEM_BITMAP_SIZE. isFree (of_nat (4096 * p)) (phys st) =
         Inr ((\<exists>e \<in> set [?e]. e_type e = MMAP_USABLE \<and> e_base e \<noteq> 0 \<and> frame_in p e)
           \<and> p \<notin> {0..<0x100} \<and> p \<notin> (\<lambda>v. v - 0xC0000) ` {0xC0110..<0xC0310})"
    using kernel_memory_start [OF 1 2 3, where handle = "0x8000" and dir = "\<lambda>_. directory stage1_start 0"]
    unfolding pg cr3 by blast
  have "(0x110 :: nat) = 0xC0110 - 0xC0000" by simp
  then have "0x110 \<in> (\<lambda>v. v - 0xC0000) ` {0xC0110..<0xC0310 :: nat}" by (intro image_eqI [of _ _ "0xC0110"]) simp_all
  then have "isFree 0x110000 (phys st) = Inr False"
    using r(4) [rule_format, of "0x110"] by (simp add: MEM_BITMAP_SIZE_def)
  moreover have "0x10F \<notin> (\<lambda>v. v - 0xC0000) ` {0xC0110..<0xC0310 :: nat}" by auto
  then have "isFree 0x10F000 (phys st) = Inr True"
    using r(4) [rule_format, of "0x10F"] by (simp add: MEM_BITMAP_SIZE_def frame_in_def)
  ultimately show ?thesis using r(1-3) by blast
qed

end
